(* ===== verification/Prelude.thy ===== *)
theory Prelude
  imports Main "HOL-Library.Word"
begin

text \<open>
  What the component theories share: the C types of libnfs as HOL types, the conversion of
  an unsigned 32-bit value to a C \<open>int\<close>, bounds-checked reads and writes of a memory
  object, the big-endian image of a word (\<open>htonl\<close> followed by a 32-bit store), the
  alignment idiom \<open>(pos + 3) & ~3\<close>, and the lemmas about them that the component
  proofs use. Facts for rewriting buffers are collected in \<open>buf_simps\<close>, facts about
  alignment in \<open>align_simps\<close>.
\<close>

unbundle bit_operations_syntax

named_theorems buf_simps \<open>reads and writes of memory objects\<close>
named_theorems align_simps \<open>four-byte alignment\<close>

section \<open>Machine types\<close>

type_synonym byte = "8 word"
type_synonym u32 = "32 word"
type_synonym u64 = "64 word"

text \<open>
  A C \<open>int\<close> is a HOL integer in the range of 32 bits. \<open>s32\<close> is the conversion
  of a value to \<open>int\<close> that every compiler libnfs supports performs (two's complement);
  \<open>int_range\<close> says that a sum needs no wrap, i.e. that signed addition is defined.
\<close>

definition s32 :: "int \<Rightarrow> int" where
  "s32 i = signed_take_bit 31 i"

definition int_range :: "int \<Rightarrow> bool" where
  "int_range i \<longleftrightarrow> - (2 ^ 31) \<le> i \<and> i < 2 ^ 31"

lemma int_range_small: "0 \<le> i \<Longrightarrow> i < 2 ^ 31 \<Longrightarrow> int_range i"
  by (simp add: int_range_def)

lemma s32_id [simp]: "int_range i \<Longrightarrow> s32 i = i"
  by (simp add: s32_def int_range_def signed_take_bit_int_eq_self_iff)

lemma s32_nonneg: "0 \<le> i \<Longrightarrow> i < 2147483648 \<Longrightarrow> s32 i = i"
  by (simp add: int_range_def)

lemma s32_range [simp]: "int_range (s32 i)"
  unfolding int_range_def s32_def
  using signed_take_bit_int_greater_eq_minus_exp [of 31 i] signed_take_bit_int_less_exp [of 31 i]
  by simp

lemma s32_alt: "s32 i = (i + 2147483648) mod 4294967296 - 2147483648"
  unfolding s32_def by (simp add: signed_take_bit_eq_take_bit_shift take_bit_eq_mod)

lemma s32_minus_wrap: "s32 i = s32 (i - 2 ^ 32)"
  unfolding s32_alt
  using mod_add_self2 [of "i - 4294967296 + 2147483648" "4294967296 :: int"] by (simp add: algebra_simps)

lemma s32_uint_small: "uint (w :: u32) < 2 ^ 31 \<Longrightarrow> s32 (uint w) = uint w"
  using uint_ge_0 [of w] by (auto intro!: s32_nonneg)

lemma s32_uint_big: "2 ^ 31 \<le> uint (w :: u32) \<Longrightarrow> s32 (uint w) = uint w - 2 ^ 32"
proof -
  assume a: "2 ^ 31 \<le> uint w"
  have "uint w < 2 ^ 32" using uint_lt2p [of w] by simp
  with a have "(uint w - 2147483648) mod 4294967296 = uint w - 2147483648" by simp
  moreover have "uint w + 2147483648 = (uint w - 2147483648) + 4294967296" by simp
  ultimately have "(uint w + 2147483648) mod 4294967296 = uint w - 2147483648"
    by (simp only: mod_add_self2)
  then show ?thesis by (simp add: s32_alt)
qed

section \<open>Memory objects\<close>

text \<open>
  A buffer is the list of its bytes. Reading or writing outside it is undefined behaviour in
  C: the accessors return \<open>None\<close> there and the models turn that into an outcome of
  their own.
\<close>

definition buf_read :: "byte list \<Rightarrow> int \<Rightarrow> nat \<Rightarrow> byte list option" where
  "buf_read b p n =
     (if 0 \<le> p \<and> nat p + n \<le> length b then Some (take n (drop (nat p) b)) else None)"

definition buf_write :: "byte list \<Rightarrow> int \<Rightarrow> byte list \<Rightarrow> byte list option" where
  "buf_write b p xs =
     (if 0 \<le> p \<and> nat p + length xs \<le> length b
      then Some (take (nat p) b @ xs @ drop (nat p + length xs) b) else None)"

text \<open>The buffer after the write, where the write is in range.\<close>

definition splice :: "byte list \<Rightarrow> int \<Rightarrow> byte list \<Rightarrow> byte list" where
  "splice b p xs = take (nat p) b @ xs @ drop (nat p + length xs) b"

definition fits :: "byte list \<Rightarrow> int \<Rightarrow> nat \<Rightarrow> bool" where
  "fits b p n \<longleftrightarrow> 0 \<le> p \<and> nat p + n \<le> length b"

lemma buf_write_fits [buf_simps]: "fits b p (length xs) \<Longrightarrow> buf_write b p xs = Some (splice b p xs)"
  by (simp add: fits_def buf_write_def splice_def)

lemma buf_read_fits [buf_simps]: "fits b p n \<Longrightarrow> buf_read b p n = Some (take n (drop (nat p) b))"
  by (simp add: fits_def buf_read_def)

lemma buf_read_None: "\<not> fits b p n \<Longrightarrow> buf_read b p n = None"
  by (auto simp: fits_def buf_read_def)

lemma buf_write_None: "\<not> fits b p (length xs) \<Longrightarrow> buf_write b p xs = None"
  by (auto simp: fits_def buf_write_def)

lemma length_splice [simp]: "fits b p (length xs) \<Longrightarrow> length (splice b p xs) = length b"
  by (simp add: fits_def splice_def)

lemma splice_Nil [simp]: "splice b p [] = b"
  by (simp add: splice_def)

lemma splice_splice [buf_simps]:
  assumes "fits b p (length xs + length ys)"
  shows "splice (splice b p xs) (p + int (length xs)) ys = splice b p (xs @ ys)"
proof -
  have "nat (p + int (length xs)) = nat p + length xs"
    using assms by (simp add: fits_def nat_add_distrib)
  then show ?thesis
    using assms by (auto simp: splice_def fits_def algebra_simps)
qed

lemma read_splice [buf_simps]:
  "fits b p (length xs) \<Longrightarrow> take (length xs) (drop (nat p) (splice b p xs)) = xs"
  by (simp add: splice_def fits_def)

lemma splice_frame:
  "fits b p (length xs) \<Longrightarrow> i < nat p \<or> nat p + length xs \<le> i \<Longrightarrow> i < length b \<Longrightarrow>
   splice b p xs ! i = b ! i"
  by (auto simp: splice_def fits_def nth_append min_def)

text \<open>\<open>holds_at b p xs\<close>: the bytes \<open>xs\<close> stand in the buffer from \<open>p\<close> on.\<close>

definition holds_at :: "byte list \<Rightarrow> int \<Rightarrow> byte list \<Rightarrow> bool" where
  "holds_at b p xs \<longleftrightarrow> fits b p (length xs) \<and> take (length xs) (drop (nat p) b) = xs"

lemma holds_at_splice [simp]: "fits b p (length xs) \<Longrightarrow> holds_at (splice b p xs) p xs"
  by (auto simp: holds_at_def buf_simps fits_def splice_def)

lemma holds_at_fits: "holds_at b p xs \<Longrightarrow> fits b p (length xs)"
  by (simp add: holds_at_def)

lemma holds_at_read [buf_simps]:
  "holds_at b p xs \<Longrightarrow> n = length xs \<Longrightarrow> buf_read b p n = Some xs"
  by (simp add: holds_at_def buf_read_fits)

lemma holds_at_append:
  "holds_at b p (xs @ ys) \<longleftrightarrow> holds_at b p xs \<and> holds_at b (p + int (length xs)) ys"
proof (cases "0 \<le> p")
  case True
  then have n: "nat (p + int (length xs)) = nat p + length xs"
    by (simp add: nat_add_distrib)
  have "take (length xs + length ys) (drop (nat p) b)
      = take (length xs) (drop (nat p) b) @ take (length ys) (drop (nat p + length xs) b)"
    by (simp add: take_add add.commute)
  then show ?thesis
    using True by (auto simp: holds_at_def fits_def n algebra_simps)
next
  case False
  then show ?thesis by (auto simp: holds_at_def fits_def)
qed

section \<open>Big-endian words\<close>

lemma bit_byte_high [simp]: "8 \<le> n \<Longrightarrow> \<not> bit (w :: byte) n"
  using bit_imp_le_length [of w n] by auto

lemma bit_u32_high [simp]: "32 \<le> n \<Longrightarrow> \<not> bit (w :: u32) n"
  using bit_imp_le_length [of w n] by auto

definition be32 :: "u32 \<Rightarrow> byte list" where
  "be32 w = [ucast (drop_bit 24 w), ucast (drop_bit 16 w), ucast (drop_bit 8 w), ucast w]"

fun de32 :: "byte list \<Rightarrow> u32" where
  "de32 [a, b, c, d] =
     push_bit 24 (ucast a) OR push_bit 16 (ucast b) OR push_bit 8 (ucast c) OR ucast d"
| "de32 _ = 0"

lemma length_be32 [simp]: "length (be32 w) = 4"
  by (simp add: be32_def)

lemma de32_be32 [simp]: "de32 (be32 w) = w"
proof (rule bit_word_eqI)
  fix n
  assume "n < LENGTH(32)"
  then consider "n < 8" | "8 \<le> n \<and> n < 16" | "16 \<le> n \<and> n < 24" | "24 \<le> n \<and> n < 32"
    by fastforce
  then show "bit (de32 (be32 w)) n = bit w n"
    by cases (auto simp: be32_def bit_simps)
qed

lemma be32_de32: "length bs = 4 \<Longrightarrow> be32 (de32 bs) = bs"
proof -
  assume "length bs = 4"
  then obtain a b c d where bs: "bs = [a, b, c, d]"
    by (auto simp: eval_nat_numeral length_Suc_conv)
  show ?thesis
    unfolding bs
    by (auto simp: be32_def bit_simps intro!: bit_word_eqI)
qed

lemma be32_inject [simp]: "be32 v = be32 w \<longleftrightarrow> v = w"
  by (metis de32_be32)

text \<open>A 64-bit value travels as its high word followed by its low word.\<close>

definition hi32 :: "u64 \<Rightarrow> u32" where
  "hi32 w = ucast (drop_bit 32 w)"

definition lo32 :: "u64 \<Rightarrow> u32" where
  "lo32 w = ucast (w AND 0xffffffff)"

definition join64 :: "u32 \<Rightarrow> u32 \<Rightarrow> u64" where
  "join64 h l = push_bit 32 (ucast h) OR ucast l"

lemma lo32_alt: "lo32 w = ucast w"
proof -
  have m: "(0xffffffff :: u64) = mask 32" by (simp add: mask_eq_exp_minus_1)
  show ?thesis
    unfolding lo32_def m by (auto intro!: bit_word_eqI simp: bit_simps)
qed

lemma join64_split [simp]: "join64 (hi32 w) (lo32 w) = w"
proof (rule bit_word_eqI)
  fix n
  assume "n < LENGTH(64)"
  then consider "n < 32" | "32 \<le> n \<and> n < 64" by fastforce
  then show "bit (join64 (hi32 w) (lo32 w)) n = bit w n"
    by cases (auto simp: join64_def hi32_def lo32_alt bit_simps)
qed

lemma hi32_join64 [simp]: "hi32 (join64 h l) = h"
  by (auto simp: join64_def hi32_def bit_simps intro!: bit_word_eqI)

lemma lo32_join64 [simp]: "lo32 (join64 h l) = l"
  by (auto simp: join64_def lo32_alt bit_simps intro!: bit_word_eqI)

section \<open>Alignment\<close>

text \<open>The source's \<open>(pos + 3) & ~3\<close> and \<open>(4 - (pos & 3)) & 3\<close>.\<close>

definition align4 :: "int \<Rightarrow> int" where
  "align4 p = (p + 3) AND NOT 3"

definition pad4 :: "int \<Rightarrow> int" where
  "pad4 p = (4 - (p AND 3)) AND 3"

lemma and_3_mod: "(x :: int) AND 3 = x mod 4"
  using take_bit_eq_mask [of 2 x] by (simp add: take_bit_eq_mod mask_eq_exp_minus_1)

lemma align4_alt: "align4 p = 4 * ((p + 3) div 4)"
proof -
  have m: "(3 :: int) = mask 2" by (simp add: mask_eq_exp_minus_1)
  have "(p + 3) AND NOT (mask 2) = push_bit 2 (drop_bit 2 (p + 3))"
  proof (rule bit_eqI)
    fix n
    show "bit ((p + 3) AND NOT (mask 2)) n = bit (push_bit 2 (drop_bit 2 (p + 3))) n"
      by (cases "n < 2") (auto simp: bit_simps dest!: le_Suc_ex simp: not_less)
  qed
  also have "\<dots> = 4 * ((p + 3) div 4)"
    by (simp add: push_bit_eq_mult drop_bit_eq_div)
  finally show ?thesis unfolding align4_def m by simp
qed

lemma pad4_alt: "pad4 p = (- p) mod 4"
  unfolding pad4_def and_3_mod by presburger

lemma align4_pad4 [align_simps]: "align4 p = p + pad4 p"
  unfolding align4_alt pad4_alt by presburger

lemma pad4_bounds [simp]: "0 \<le> pad4 p" "pad4 p < 4"
  by (simp_all add: pad4_alt)

lemma align4_dvd [simp]: "4 dvd align4 p"
  by (simp add: align4_alt)

lemma align4_id [align_simps]: "4 dvd p \<Longrightarrow> align4 p = p"
  by (auto simp: align4_alt)

lemma align4_mono_le: "4 dvd s \<Longrightarrow> p \<le> s \<Longrightarrow> align4 p \<le> s"
  unfolding align4_alt by (elim dvdE) simp

lemma align4_ge: "p \<le> align4 p"
  by (simp add: align4_pad4)

lemma align4_add [align_simps]: "4 dvd p \<Longrightarrow> align4 (p + n) = p + align4 n"
  unfolding align4_alt by presburger

lemma pad4_add [align_simps]: "4 dvd p \<Longrightarrow> pad4 (p + n) = pad4 n"
  unfolding pad4_alt by presburger

text \<open>The bytes of an opaque item on the wire: the data and its zero padding.\<close>

definition padded :: "byte list \<Rightarrow> byte list" where
  "padded bs = bs @ replicate (nat (pad4 (int (length bs)))) 0"

lemma length_padded: "int (length (padded bs)) = align4 (int (length bs))"
  by (simp add: padded_def align4_pad4)

lemma padded_dvd [simp]: "4 dvd length (padded bs)"
  by (metis align4_dvd int_dvd_int_iff length_padded of_nat_numeral)

end
