(* ===== verification/Zdr.thy ===== *)
theory Zdr
  imports Prelude
begin

text \<open>
  The built-in marshalling layer, \<open>src/lib/libnfs-zdr.c\<close> lines 72 to 388: the state of a
  \<open>ZDR\<close> stream over a memory buffer, the primitive items (32 and 64 bit words, counted
  byte strings, C strings, fixed opaque data) and the combinators for optional data, counted
  arrays and vectors. Every function both encodes and decodes, depending on \<open>x_op\<close>, as
  in the source.

  \<^item> A function of type \<open>zdrproc_t\<close> takes the stream and an object and changes both:
    here it returns \<open>Ret ok stream object\<close>, or \<open>Undef\<close> where the C code has
    undefined behaviour (an access outside the buffer, signed overflow, a NULL dereference).
  \<^item> \<open>size\<close> and \<open>pos\<close> of a \<open>ZDR\<close> are C \<open>int\<close>s; a length is a
    \<open>uint32_t\<close>, and the mixture of both in the source's bounds checks is kept.
  \<^item> \<open>zheap\<close> is the largest block the C allocator grants; \<open>zdr_malloc\<close> uses
    the block without a check, so an allocation that fails is \<open>Undef\<close>.
  \<^item> A pointer-length pair decoded in place is represented by the bytes it covers.
\<close>

section \<open>The stream\<close>

datatype zdr_op = ZDR_ENCODE | ZDR_DECODE

record zdr =
  x_op :: zdr_op
  zbuf :: "byte list"
  zsize :: int
  zpos :: int
  zmem :: "nat list"
  zheap :: nat

datatype 'a zres = Ret bool zdr 'a | Undef

type_synonym 'a zproc = "zdr \<Rightarrow> 'a \<Rightarrow> 'a zres"

fun or_undef :: "'b option \<Rightarrow> ('b \<Rightarrow> 'a zres) \<Rightarrow> 'a zres" where
  "or_undef None f = Undef"
| "or_undef (Some v) f = f v"

definition libnfs_zdr_setpos :: "zdr \<Rightarrow> u32 \<Rightarrow> zdr" where
  "libnfs_zdr_setpos z p = z\<lparr>zpos := s32 (uint p)\<rparr>"

definition libnfs_zdr_getpos :: "zdr \<Rightarrow> u32" where
  "libnfs_zdr_getpos z = word_of_int (zpos z)"

definition libnfs_zdr_getsize :: "zdr \<Rightarrow> u32" where
  "libnfs_zdr_getsize z = word_of_int (zsize z)"

definition libnfs_zdr_getptr :: "zdr \<Rightarrow> byte list" where
  "libnfs_zdr_getptr z = zbuf z"

definition libnfs_zdrmem_create :: "nat \<Rightarrow> byte list \<Rightarrow> u32 \<Rightarrow> zdr_op \<Rightarrow> zdr" where
  "libnfs_zdrmem_create heap addr sz xop =
     \<lparr>x_op = xop, zbuf = addr, zsize = s32 (uint sz), zpos = 0, zmem = [], zheap = heap\<rparr>"

text \<open>
  \<open>offsetof(struct zdr_mem, buf)\<close> is 12 where pointers have 8 bytes; the sum is stored in
  an \<open>int\<close> before it is passed to \<open>malloc\<close>.
\<close>

definition zdr_malloc :: "zdr \<Rightarrow> u32 \<Rightarrow> zdr option" where
  "zdr_malloc z n =
     (let mem_size = s32 (12 + uint n);
          request = (if mem_size < 0 then 2 ^ 64 + mem_size else mem_size)
      in if request \<le> int (zheap z) then Some (z\<lparr>zmem := unat n # zmem z\<rparr>) else None)"

definition libnfs_zdr_destroy :: "zdr \<Rightarrow> zdr" where
  "libnfs_zdr_destroy z = z\<lparr>zmem := []\<rparr>"

section \<open>Primitive items\<close>

definition libnfs_zdr_u_int :: "u32 zproc" where
  "libnfs_zdr_u_int z u =
     (if \<not> int_range (zpos z + 4) then Undef
      else if zpos z + 4 > zsize z then Ret False z u
      else case x_op z of
        ZDR_ENCODE \<Rightarrow>
          or_undef (buf_write (zbuf z) (zpos z) (be32 u)) (\<lambda>b.
            Ret True (z\<lparr>zbuf := b, zpos := zpos z + 4\<rparr>) u)
      | ZDR_DECODE \<Rightarrow>
          or_undef (buf_read (zbuf z) (zpos z) 4) (\<lambda>bs.
            Ret True (z\<lparr>zpos := zpos z + 4\<rparr>) (de32 bs)))"

definition libnfs_zdr_int :: "u32 zproc" where
  "libnfs_zdr_int z i = libnfs_zdr_u_int z i"

definition libnfs_zdr_uint64_t :: "u64 zproc" where
  "libnfs_zdr_uint64_t z u =
     (if \<not> int_range (zpos z + 8) then Undef
      else if zpos z + 8 > zsize z then Ret False z u
      else case x_op z of
        ZDR_ENCODE \<Rightarrow>
          or_undef (buf_write (zbuf z) (zpos z) (be32 (hi32 u))) (\<lambda>b.
          or_undef (buf_write b (zpos z + 4) (be32 (lo32 u))) (\<lambda>b'.
            Ret True (z\<lparr>zbuf := b', zpos := zpos z + 4 + 4\<rparr>) u))
      | ZDR_DECODE \<Rightarrow>
          or_undef (buf_read (zbuf z) (zpos z) 4) (\<lambda>h.
          or_undef (buf_read (zbuf z) (zpos z + 4) 4) (\<lambda>l.
            Ret True (z\<lparr>zpos := zpos z + 4 + 4\<rparr>) (join64 (de32 h) (de32 l)))))"

definition libnfs_zdr_int64_t :: "u64 zproc" where
  "libnfs_zdr_int64_t z i = libnfs_zdr_uint64_t z i"

text \<open>
  The source of a \<open>memcpy\<close> of \<open>n\<close> bytes: NULL with no byte to copy is taken as
  a no-op (\<open>AUTH_NONE\<close> has a NULL body of length 0).
\<close>

fun src_bytes :: "byte list option \<Rightarrow> nat \<Rightarrow> byte list option" where
  "src_bytes None n = (if n = 0 then Some [] else None)"
| "src_bytes (Some bs) n = (if n \<le> length bs then Some (take n bs) else None)"

definition dst_bytes :: "byte list \<Rightarrow> byte list \<Rightarrow> byte list option" where
  "dst_bytes old bs = (if length bs \<le> length old then Some (bs @ drop (length bs) old) else None)"

definition libnfs_zdr_bytes :: "(byte list option \<times> u32) zproc" where
  "libnfs_zdr_bytes z obj =
     (case libnfs_zdr_u_int z (snd obj) of
        Undef \<Rightarrow> Undef
      | Ret ok z1 sz \<Rightarrow>
          if \<not> ok then Ret False z1 (fst obj, sz)
          else if \<not> int_range (zpos z1 + s32 (uint sz)) then Undef
          else if zpos z1 + s32 (uint sz) > zsize z1 then Ret False z1 (fst obj, sz)
          else case x_op z1 of
            ZDR_ENCODE \<Rightarrow>
              or_undef (src_bytes (fst obj) (unat sz)) (\<lambda>bs.
              or_undef (buf_write (zbuf z1) (zpos z1) bs) (\<lambda>b.
                let p = s32 (zpos z1 + uint sz); pad = pad4 p
                in if pad \<noteq> 0
                   then or_undef (buf_write b p (replicate (nat pad) 0)) (\<lambda>b'.
                          if \<not> int_range (p + pad) then Undef
                          else Ret True (z1\<lparr>zbuf := b', zpos := p + pad\<rparr>) (fst obj, sz))
                   else Ret True (z1\<lparr>zbuf := b, zpos := p\<rparr>) (fst obj, sz)))
          | ZDR_DECODE \<Rightarrow>
              (let p = s32 (zpos z1 + uint sz)
               in case fst obj of
                    Some old \<Rightarrow>
                      or_undef (buf_read (zbuf z1) (zpos z1) (unat sz)) (\<lambda>bs.
                      or_undef (dst_bytes old bs) (\<lambda>new.
                        if \<not> int_range (p + 3) then Undef
                        else Ret True (z1\<lparr>zpos := align4 p\<rparr>) (Some new, sz)))
                  | None \<Rightarrow>
                      if zpos z1 < 0 \<or> \<not> int_range (p + 3) then Undef
                      else Ret True (z1\<lparr>zpos := align4 p\<rparr>)
                             (Some (take (unat sz) (drop (nat (zpos z1)) (zbuf z1))), sz)))"

definition libnfs_zdr_enum :: "u32 zproc" where
  "libnfs_zdr_enum z e = libnfs_zdr_u_int z e"

definition libnfs_zdr_bool :: "u32 zproc" where
  "libnfs_zdr_bool z b = libnfs_zdr_u_int z b"

definition libnfs_zdr_void :: "'a zproc" where
  "libnfs_zdr_void z v = Ret True z v"

text \<open>Fixed opaque data: no bounds check against \<open>size\<close>, as in the source.\<close>

definition libnfs_zdr_opaque :: "u32 \<Rightarrow> byte list zproc" where
  "libnfs_zdr_opaque sz z objp =
     (case x_op z of
        ZDR_ENCODE \<Rightarrow>
          or_undef (src_bytes (Some objp) (unat sz)) (\<lambda>bs.
          or_undef (buf_write (zbuf z) (zpos z) bs) (\<lambda>b.
            let p = s32 (zpos z + uint sz)
            in or_undef (if p AND 3 \<noteq> 0 then buf_write b p (replicate (nat (4 - (p AND 3))) 0)
                         else Some b) (\<lambda>b'.
                 if \<not> int_range (p + 3) then Undef
                 else Ret True (z\<lparr>zbuf := b', zpos := align4 p\<rparr>) objp)))
      | ZDR_DECODE \<Rightarrow>
          or_undef (buf_read (zbuf z) (zpos z) (unat sz)) (\<lambda>bs.
          or_undef (dst_bytes objp bs) (\<lambda>new.
            let p = s32 (zpos z + uint sz)
            in if \<not> int_range (p + 3) then Undef
               else Ret True (z\<lparr>zpos := align4 p\<rparr>) new)))"

text \<open>
  C strings: the object is NULL or the bytes before the terminating NUL. When decoding, the
  string is used in place if a NUL follows it in the buffer and copied otherwise. The index
  of that NUL is computed in \<open>uint32_t\<close>, the store of the terminator with a 64-bit
  pointer offset.
\<close>

definition libnfs_zdr_string :: "byte list option zproc" where
  "libnfs_zdr_string z strp =
     or_undef (if x_op z = ZDR_ENCODE
               then map_option (\<lambda>s. word_of_nat (length (takeWhile (\<lambda>c. c \<noteq> 0) s))) strp
               else Some 0) (\<lambda>size0.
     case libnfs_zdr_u_int z size0 of
       Undef \<Rightarrow> Undef
     | Ret ok z1 sz \<Rightarrow>
         if \<not> ok then Ret False z1 strp
         else if \<not> int_range (zpos z1 + s32 (uint sz)) then Undef
         else if zpos z1 + s32 (uint sz) > zsize z1 then Ret False z1 strp
         else case x_op z1 of
           ZDR_ENCODE \<Rightarrow>
             or_undef strp (\<lambda>s.
               case libnfs_zdr_opaque sz z1 s of
                 Undef \<Rightarrow> Undef
               | Ret ok2 z2 _ \<Rightarrow> Ret ok2 z2 strp)
         | ZDR_DECODE \<Rightarrow>
             or_undef (if zsize z1 > zpos z1 + s32 (uint sz)
                       then buf_read (zbuf z1) ((zpos z1 + uint sz) mod 2 ^ 32) 1
                       else Some [1]) (\<lambda>nul.
               if nul = [0]
               then or_undef (buf_write (zbuf z1) (zpos z1 + uint sz) [0]) (\<lambda>b.
                      let p = s32 (zpos z1 + uint sz)
                      in if \<not> int_range (p + 3) then Undef
                         else Ret True (z1\<lparr>zbuf := b, zpos := align4 p\<rparr>)
                                (Some (take (unat sz) (drop (nat (zpos z1)) b))))
               else or_undef (zdr_malloc z1 (sz + 1)) (\<lambda>z2.
                      if unat sz < unat (sz + 1)
                      then case libnfs_zdr_opaque sz z2 (replicate (unat sz) 0) of
                             Undef \<Rightarrow> Undef
                           | Ret ok2 z3 s \<Rightarrow> Ret ok2 z3 (Some s)
                      else Undef)))"

section \<open>Optional data, arrays and vectors\<close>

text \<open>
  \<open>sz\<close> is \<open>sizeof\<close> of the item and \<open>zero\<close> the item with all its bytes
  zero, which is what decoding starts from after \<open>memset\<close>.
\<close>

definition libnfs_zdr_pointer :: "u32 \<Rightarrow> 'a \<Rightarrow> 'a zproc \<Rightarrow> 'a option zproc" where
  "libnfs_zdr_pointer sz zero proc z objp =
     (case libnfs_zdr_bool z (if objp \<noteq> None then 1 else 0) of
        Undef \<Rightarrow> Undef
      | Ret ok z1 more_data \<Rightarrow>
          if \<not> ok then Ret False z1 objp
          else if more_data = 0 then Ret True z1 None
          else or_undef (if x_op z1 = ZDR_DECODE
                         then map_option (\<lambda>z2. (z2, zero)) (zdr_malloc z1 sz)
                         else map_option (\<lambda>v. (z1, v)) objp) (\<lambda>(z2, v).
                 case proc z2 v of
                   Undef \<Rightarrow> Undef
                 | Ret ok2 z3 v' \<Rightarrow> Ret ok2 z3 (Some v')))"

text \<open>The loop over the elements; an element past the end of the array is \<open>Undef\<close>.\<close>

fun zdr_elements :: "'a zproc \<Rightarrow> nat \<Rightarrow> 'a list zproc" where
  "zdr_elements proc 0 z xs = Ret True z xs"
| "zdr_elements proc (Suc n) z [] = Undef"
| "zdr_elements proc (Suc n) z (x # xs) =
     (case proc z x of
        Undef \<Rightarrow> Undef
      | Ret ok z1 x' \<Rightarrow>
          if \<not> ok then Ret False z1 (x' # xs)
          else case zdr_elements proc n z1 xs of
                 Undef \<Rightarrow> Undef
               | Ret ok2 z2 xs' \<Rightarrow> Ret ok2 z2 (x' # xs'))"

definition libnfs_zdr_array :: "u32 \<Rightarrow> 'a \<Rightarrow> 'a zproc \<Rightarrow> ('a list \<times> u32) zproc" where
  "libnfs_zdr_array elsize zero proc z obj =
     (case libnfs_zdr_u_int z (snd obj) of
        Undef \<Rightarrow> Undef
      | Ret ok z1 sz \<Rightarrow>
          if \<not> ok then Ret False z1 (fst obj, sz)
          else if sz > 0xffffffff div elsize then Ret False z1 (fst obj, sz)
          else or_undef (if x_op z1 = ZDR_DECODE
                         then map_option (\<lambda>z2. (z2, replicate (unat sz) zero))
                                (zdr_malloc z1 (sz * elsize))
                         else Some (z1, fst obj)) (\<lambda>(z2, arr).
                 case zdr_elements proc (nat (s32 (uint sz))) z2 arr of
                   Undef \<Rightarrow> Undef
                 | Ret ok2 z3 arr' \<Rightarrow> Ret ok2 z3 (arr', sz)))"

definition libnfs_zdr_vector :: "u32 \<Rightarrow> 'a zproc \<Rightarrow> 'a list zproc" where
  "libnfs_zdr_vector sz proc z arr = zdr_elements proc (unat sz) z arr"

section \<open>Structures\<close>

text \<open>
  The body of a structure's function is a sequence of \<open>if (!proc(zdrs, &objp->f)) return
  FALSE;\<close>: \<open>zfield\<close> runs a function on a field, \<open>zseq\<close> continues after TRUE.
\<close>

definition zfield :: "'a zproc \<Rightarrow> ('s \<Rightarrow> 'a) \<Rightarrow> (('a \<Rightarrow> 'a) \<Rightarrow> 's \<Rightarrow> 's) \<Rightarrow> 's zproc" where
  "zfield proc get upd z s =
     (case proc z (get s) of
        Undef \<Rightarrow> Undef
      | Ret ok z' v \<Rightarrow> Ret ok z' (upd (\<lambda>_. v) s))"

definition zseq :: "'s zproc \<Rightarrow> 's zproc \<Rightarrow> 's zproc" where
  "zseq p q z s =
     (case p z s of
        Undef \<Rightarrow> Undef
      | Ret ok z' s' \<Rightarrow> if ok then q z' s' else Ret False z' s')"

end
