(* ===== verification/Zdr_Codec.thy ===== *)
theory Zdr_Codec
  imports Zdr
begin

text \<open>
  The contract of a marshalling function. \<open>encodes\<close>, \<open>decodes\<close> and
  \<open>refuses\<close> state what one function does with one object on every well-formed stream;
  the locale \<open>zdr_codec\<close> is the interface a message component relies on: a wire image
  \<open>enc\<close>, the well-formed objects \<open>ok\<close>, the objects decoding may start from
  \<open>blank\<close>, and that encoding writes the image and decoding reads it back.
  \<open>zdr_codec_checked\<close> adds that an object which does not fit is refused with FALSE and
  nothing is written past the end. The locales are interpreted here on the primitives of
  \<open>libnfs-zdr.c\<close>; the rules for sequences of fields carry them to structures.
\<close>

section \<open>Well-formed streams\<close>

text \<open>
  Positions are aligned and inside the buffer, and the buffer is at most one gigabyte, far
  above the largest message of libnfs (8 MB), so that no \<open>int\<close> computation overflows.
\<close>

definition zwf :: "zdr \<Rightarrow> bool" where
  "zwf z \<longleftrightarrow> 0 \<le> zpos z \<and> zpos z \<le> zsize z \<and> zsize z \<le> int (length (zbuf z)) \<and>
             zsize z \<le> 2 ^ 30 \<and> 4 dvd zpos z"

definition ample :: "zdr \<Rightarrow> bool" where
  "ample z \<longleftrightarrow> 2 ^ 31 \<le> zheap z"

definition z_put :: "zdr \<Rightarrow> byte list \<Rightarrow> zdr" where
  "z_put z bs = z\<lparr>zbuf := splice (zbuf z) (zpos z) bs, zpos := zpos z + int (length bs)\<rparr>"

definition z_skip :: "zdr \<Rightarrow> nat \<Rightarrow> nat list \<Rightarrow> zdr" where
  "z_skip z n m = z\<lparr>zpos := zpos z + int n, zmem := m\<rparr>"

definition z_room :: "zdr \<Rightarrow> nat \<Rightarrow> bool" where
  "z_room z n \<longleftrightarrow> zpos z + int n \<le> zsize z"

lemma z_room_fits: "zwf z \<Longrightarrow> z_room z n \<Longrightarrow> fits (zbuf z) (zpos z) n"
  by (auto simp: zwf_def z_room_def fits_def)

lemma z_put_sel [simp]:
  "x_op (z_put z bs) = x_op z" "zsize (z_put z bs) = zsize z" "zheap (z_put z bs) = zheap z"
  "zmem (z_put z bs) = zmem z" "zpos (z_put z bs) = zpos z + int (length bs)"
  "zbuf (z_put z bs) = splice (zbuf z) (zpos z) bs"
  by (simp_all add: z_put_def)

lemma z_skip_sel [simp]:
  "x_op (z_skip z n m) = x_op z" "zsize (z_skip z n m) = zsize z" "zheap (z_skip z n m) = zheap z"
  "zmem (z_skip z n m) = m" "zpos (z_skip z n m) = zpos z + int n" "zbuf (z_skip z n m) = zbuf z"
  by (simp_all add: z_skip_def)

lemma zwf_z_put: "zwf z \<Longrightarrow> z_room z (length bs) \<Longrightarrow> 4 dvd length bs \<Longrightarrow> zwf (z_put z bs)"
  using z_room_fits [of z "length bs"]
  by (auto simp: zwf_def z_room_def intro: dvd_add dest: int_dvd_int_iff [THEN iffD2])

lemma zwf_z_skip: "zwf z \<Longrightarrow> z_room z n \<Longrightarrow> 4 dvd n \<Longrightarrow> zwf (z_skip z n m)"
  by (auto simp: zwf_def z_room_def intro: dvd_add dest: int_dvd_int_iff [THEN iffD2])

lemma z_put_put:
  "zwf z \<Longrightarrow> z_room z (length as + length bs) \<Longrightarrow> z_put (z_put z as) bs = z_put z (as @ bs)"
  using z_room_fits [of z "length as + length bs"]
  by (simp add: z_put_def splice_splice)

lemma z_skip_skip [simp]: "z_skip (z_skip z a m) b m' = z_skip z (a + b) m'"
  by (simp add: z_skip_def)

lemma z_skip_ex: "p = zpos z + int n \<Longrightarrow> \<exists>m. z\<lparr>zpos := p\<rparr> = z_skip z n m"
  by (rule exI [of _ "zmem z"]) (simp add: z_skip_def)

section \<open>What a function does with one object\<close>

definition encodes :: "'a zproc \<Rightarrow> 'a \<Rightarrow> byte list \<Rightarrow> bool" where
  "encodes p x bs \<longleftrightarrow> 4 dvd length bs \<and>
     (\<forall>z. zwf z \<longrightarrow> x_op z = ZDR_ENCODE \<longrightarrow> z_room z (length bs) \<longrightarrow>
          p z x = Ret True (z_put z bs) x)"

definition decodes :: "'a zproc \<Rightarrow> 'a \<Rightarrow> byte list \<Rightarrow> 'a \<Rightarrow> bool" where
  "decodes p y bs x \<longleftrightarrow> 4 dvd length bs \<and>
     (\<forall>z. zwf z \<longrightarrow> ample z \<longrightarrow> x_op z = ZDR_DECODE \<longrightarrow> z_room z (length bs) \<longrightarrow>
          holds_at (zbuf z) (zpos z) bs \<longrightarrow>
          (\<exists>m. p z y = Ret True (z_skip z (length bs) m) x))"

definition refuses :: "'a zproc \<Rightarrow> 'a \<Rightarrow> byte list \<Rightarrow> bool" where
  "refuses p x bs \<longleftrightarrow>
     (\<forall>z. zwf z \<longrightarrow> x_op z = ZDR_ENCODE \<longrightarrow> 4 dvd zsize z \<longrightarrow> \<not> z_room z (length bs) \<longrightarrow>
          (\<exists>z' x'. p z x = Ret False z' x' \<and> length (zbuf z') = length (zbuf z) \<and>
                   drop (nat (zsize z)) (zbuf z') = drop (nat (zsize z)) (zbuf z)))"

lemma encodesD:
  "encodes p x bs \<Longrightarrow> zwf z \<Longrightarrow> x_op z = ZDR_ENCODE \<Longrightarrow> z_room z (length bs) \<Longrightarrow>
   p z x = Ret True (z_put z bs) x"
  by (simp add: encodes_def)

lemma encodes_dvd: "encodes p x bs \<Longrightarrow> 4 dvd length bs"
  by (simp add: encodes_def)

lemma decodesD:
  "decodes p y bs x \<Longrightarrow> zwf z \<Longrightarrow> ample z \<Longrightarrow> x_op z = ZDR_DECODE \<Longrightarrow> z_room z (length bs) \<Longrightarrow>
   holds_at (zbuf z) (zpos z) bs \<Longrightarrow> \<exists>m. p z y = Ret True (z_skip z (length bs) m) x"
  by (simp add: decodes_def)

lemma decodes_dvd: "decodes p y bs x \<Longrightarrow> 4 dvd length bs"
  by (simp add: decodes_def)

lemma refusesD:
  "refuses p x bs \<Longrightarrow> zwf z \<Longrightarrow> x_op z = ZDR_ENCODE \<Longrightarrow> 4 dvd zsize z \<Longrightarrow> \<not> z_room z (length bs) \<Longrightarrow>
   \<exists>z' x'. p z x = Ret False z' x' \<and> length (zbuf z') = length (zbuf z) \<and>
           drop (nat (zsize z)) (zbuf z') = drop (nat (zsize z)) (zbuf z)"
  by (simp add: refuses_def)

lemma drop_splice_above:
  assumes "fits b p (length xs)" and "p + int (length xs) \<le> s"
  shows "drop (nat s) (splice b p xs) = drop (nat s) b"
proof -
  have "nat p + length xs \<le> nat s" using assms by (simp add: fits_def) linarith
  then show ?thesis using assms(1) by (simp add: splice_def fits_def)
qed

section \<open>Sequences of fields\<close>

lemma encodes_zseq:
  assumes p: "encodes p x as" and q: "encodes q x bs"
  shows "encodes (zseq p q) x (as @ bs)"
  unfolding encodes_def
proof (intro conjI allI impI)
  show "4 dvd length (as @ bs)" using p q by (simp add: encodes_def)
  fix z
  assume z: "zwf z" "x_op z = ZDR_ENCODE" "z_room z (length (as @ bs))"
  have r: "z_room z (length as)" "z_room (z_put z as) (length bs)"
    using z(3) by (auto simp: z_room_def)
  have "zwf (z_put z as)" using z(1) r(1) encodes_dvd [OF p] by (rule zwf_z_put)
  then show "zseq p q z x = Ret True (z_put z (as @ bs)) x"
    using z r by (simp add: zseq_def encodesD [OF p] encodesD [OF q] z_put_put)
qed

lemma decodes_zseq:
  assumes p: "decodes p y as y'" and q: "decodes q y' bs x"
  shows "decodes (zseq p q) y (as @ bs) x"
  unfolding decodes_def
proof (intro conjI allI impI)
  show "4 dvd length (as @ bs)" using p q by (simp add: decodes_def)
  fix z
  assume z: "zwf z" "ample z" "x_op z = ZDR_DECODE" "z_room z (length (as @ bs))"
    and h: "holds_at (zbuf z) (zpos z) (as @ bs)"
  have r: "z_room z (length as)" "z_room (z_skip z (length as) m) (length bs)" for m
    using z(4) by (auto simp: z_room_def)
  obtain m where m: "p z y = Ret True (z_skip z (length as) m) y'"
    using decodesD [OF p z(1-3) r(1)] h by (auto simp: holds_at_append)
  have "zwf (z_skip z (length as) m)"
    using z(1) r(1) decodes_dvd [OF p] by (rule zwf_z_skip)
  moreover have "ample (z_skip z (length as) m)" using z(2) by (simp add: ample_def)
  ultimately have "\<exists>m'. q (z_skip z (length as) m) y' =
      Ret True (z_skip (z_skip z (length as) m) (length bs) m') x"
    using z(3) r(2) h by (intro decodesD [OF q]) (auto simp: holds_at_append)
  then show "\<exists>m. zseq p q z y = Ret True (z_skip z (length (as @ bs)) m) x"
    using m by (auto simp: zseq_def)
qed

lemma refuses_zseq:
  assumes p: "encodes p x as" "refuses p x as" and q: "refuses q x bs"
  shows "refuses (zseq p q) x (as @ bs)"
  unfolding refuses_def
proof (intro allI impI)
  fix z
  assume z: "zwf z" "x_op z = ZDR_ENCODE" "4 dvd zsize z" "\<not> z_room z (length (as @ bs))"
  show "\<exists>z' x'. zseq p q z x = Ret False z' x' \<and> length (zbuf z') = length (zbuf z) \<and>
      drop (nat (zsize z)) (zbuf z') = drop (nat (zsize z)) (zbuf z)"
  proof (cases "z_room z (length as)")
    case False
    from refusesD [OF p(2) z(1-3) False] show ?thesis by (auto simp: zseq_def)
  next
    case True
    have w: "zwf (z_put z as)" using z(1) True encodes_dvd [OF p(1)] by (rule zwf_z_put)
    have fit: "fits (zbuf z) (zpos z) (length as)" using z(1) True by (rule z_room_fits)
    have "\<not> z_room (z_put z as) (length bs)" using z(4) by (simp add: z_room_def)
    then obtain z' x' where "q (z_put z as) x = Ret False z' x'"
      "length (zbuf z') = length (zbuf (z_put z as))"
      "drop (nat (zsize z)) (zbuf z') = drop (nat (zsize z)) (zbuf (z_put z as))"
      using refusesD [OF q w] z(2,3) by auto
    then show ?thesis
      using z True fit encodesD [OF p(1) z(1,2) True]
      by (auto simp: zseq_def drop_splice_above z_room_def)
  qed
qed

lemma encodes_zfield:
  "encodes p (get s) bs \<Longrightarrow> upd (\<lambda>_. get s) s = s \<Longrightarrow> encodes (zfield p get upd) s bs"
  by (simp add: encodes_def zfield_def)

lemma decodes_zfield:
  "decodes p (get s) bs v \<Longrightarrow> decodes (zfield p get upd) s bs (upd (\<lambda>_. v) s)"
  by (fastforce simp: decodes_def zfield_def)

lemma refuses_zfield:
  "refuses p (get s) bs \<Longrightarrow> refuses (zfield p get upd) s bs"
  by (fastforce simp: refuses_def zfield_def)

lemmas encodes_struct = encodes_zseq encodes_zfield

text \<open>For decoding, the object a field leaves behind is the one the next field starts from.\<close>

lemma decodes_first:
  "decodes p (get y) as v \<Longrightarrow> decodes q (upd (\<lambda>_. v) y) bs x \<Longrightarrow>
   decodes (zseq (zfield p get upd) q) y (as @ bs) x"
  by (rule decodes_zseq [OF decodes_zfield])

lemma decodes_last:
  "decodes p (get y) bs v \<Longrightarrow> x = upd (\<lambda>_. v) y \<Longrightarrow> decodes (zfield p get upd) y bs x"
  by (simp add: decodes_zfield)

lemmas decodes_struct = decodes_first decodes_last
lemmas refuses_struct = refuses_zseq refuses_zfield

lemma encode_then_decode:
  assumes e: "encodes p x bs" and d: "decodes p y bs x'"
    and z: "zwf z" "x_op z = ZDR_ENCODE" "z_room z (length bs)" "ample z"
  shows "\<exists>z' m. p z x = Ret True z' x \<and> zpos z' = zpos z + int (length bs) \<and>
           p (z'\<lparr>x_op := ZDR_DECODE, zpos := zpos z\<rparr>) y =
             Ret True (z'\<lparr>x_op := ZDR_DECODE, zmem := m\<rparr>) x'"
proof -
  let ?z' = "z_put z bs"
  let ?d = "?z'\<lparr>x_op := ZDR_DECODE, zpos := zpos z\<rparr>"
  have fit: "fits (zbuf z) (zpos z) (length bs)" using z by (intro z_room_fits)
  have "zwf ?d" using z fit by (simp add: zwf_def)
  moreover have "ample ?d" using z by (simp add: ample_def)
  moreover have "z_room ?d (length bs)" using z by (simp add: z_room_def)
  ultimately obtain m where "p ?d y = Ret True (z_skip ?d (length bs) m) x'"
    using decodesD [OF d, of ?d] fit by auto
  then have "p ?d y = Ret True (?z'\<lparr>x_op := ZDR_DECODE, zmem := m\<rparr>) x'"
    by (simp add: z_skip_def)
  moreover have "p z x = Ret True ?z' x" using encodesD [OF e z(1-3)] .
  ultimately show ?thesis by (intro exI [of _ ?z'] exI [of _ m]) simp
qed

section \<open>The interface\<close>

locale zdr_codec =
  fixes proc :: "'a zproc"
    and enc :: "'a \<Rightarrow> byte list"
    and ok :: "'a \<Rightarrow> bool"
    and blank :: "'a \<Rightarrow> bool"
  assumes encode: "ok x \<Longrightarrow> encodes proc x (enc x)"
    and decode: "ok x \<Longrightarrow> blank y \<Longrightarrow> decodes proc y (enc x) x"
begin

lemma aligned: "ok x \<Longrightarrow> 4 dvd length (enc x)"
  by (rule encodes_dvd [OF encode])

text \<open>Encoding at some position and decoding the buffer from there gives the object back.\<close>

lemma round_trip:
  assumes "ok x" "blank y" "zwf z" "x_op z = ZDR_ENCODE" "z_room z (length (enc x))"
    and "ample z"
  shows "\<exists>z' m. proc z x = Ret True z' x \<and> zpos z' = zpos z + int (length (enc x)) \<and>
           proc (z'\<lparr>x_op := ZDR_DECODE, zpos := zpos z\<rparr>) y =
             Ret True (z'\<lparr>x_op := ZDR_DECODE, zmem := m\<rparr>) x"
  using encode_then_decode [OF encode [OF assms(1)] decode [OF assms(1,2)] assms(3-6)] .

text \<open>Distinct objects have distinct images.\<close>

lemma enc_inject:
  assumes "ok x" "ok x'" "blank y" "enc x = enc x'" "length (enc x) \<le> 2 ^ 30"
  shows "x = x'"
proof -
  let ?z = "\<lparr>x_op = ZDR_DECODE, zbuf = enc x, zsize = int (length (enc x)), zpos = 0,
             zmem = [], zheap = 2 ^ 31\<rparr>"
  have z: "zwf ?z" "ample ?z" "z_room ?z (length (enc x))" "holds_at (zbuf ?z) (zpos ?z) (enc x)"
    using assms(5) by (auto simp: zwf_def ample_def z_room_def holds_at_def fits_def)
  obtain m where "proc ?z y = Ret True (z_skip ?z (length (enc x)) m) x"
    using decodesD [OF decode [OF assms(1,3)] z(1,2) _ z(3,4)] by auto
  moreover obtain m' where "proc ?z y = Ret True (z_skip ?z (length (enc x')) m') x'"
    using decodesD [OF decode [OF assms(2,3)], of ?z] z assms(4) by auto
  ultimately show ?thesis by simp
qed

end

locale zdr_codec_checked = zdr_codec +
  assumes refuse: "ok x \<Longrightarrow> refuses proc x (enc x)"
begin

text \<open>On an aligned stream TRUE means that the object was written inside the buffer.\<close>

lemma encode_total:
  assumes "ok x" "zwf z" "x_op z = ZDR_ENCODE" "4 dvd zsize z"
  shows "\<exists>b z' x'. proc z x = Ret b z' x' \<and> (b \<longleftrightarrow> z_room z (length (enc x))) \<and>
           length (zbuf z') = length (zbuf z) \<and>
           drop (nat (zsize z)) (zbuf z') = drop (nat (zsize z)) (zbuf z)"
proof (cases "z_room z (length (enc x))")
  case True
  then show ?thesis
    using encodesD [OF encode [OF assms(1)] assms(2,3) True] z_room_fits [OF assms(2) True]
    by (auto simp: drop_splice_above z_room_def)
next
  case False
  then show ?thesis using refusesD [OF refuse [OF assms(1)] assms(2-4) False] by auto
qed

end

section \<open>The primitives\<close>

lemma zwf_ranges:
  assumes "zwf z"
  shows "int_range (zpos z + 4)" "int_range (zpos z + 8)" "0 \<le> zpos z"
  using assms by (auto simp: zwf_def int_range_def)

lemma u_int_encodes: "encodes libnfs_zdr_u_int u (be32 u)"
  using z_room_fits [of _ 4]
  by (auto simp: encodes_def libnfs_zdr_u_int_def zwf_ranges buf_simps z_put_def z_room_def)

lemma u_int_decodes: "decodes libnfs_zdr_u_int y (be32 u) u"
  by (auto simp: decodes_def libnfs_zdr_u_int_def zwf_ranges buf_simps z_room_def
        intro!: z_skip_ex)

lemma u_int_refuses: "refuses libnfs_zdr_u_int u (be32 u)"
  by (auto simp: refuses_def libnfs_zdr_u_int_def zwf_ranges z_room_def)

interpretation u_int: zdr_codec_checked libnfs_zdr_u_int be32 "\<lambda>_. True" "\<lambda>_. True"
  by unfold_locales (simp_all add: u_int_encodes u_int_decodes u_int_refuses)

definition be64 :: "u64 \<Rightarrow> byte list" where
  "be64 w = be32 (hi32 w) @ be32 (lo32 w)"

lemma length_be64 [simp]: "length (be64 w) = 8"
  by (simp add: be64_def)

lemma uint64_encodes: "encodes libnfs_zdr_uint64_t u (be64 u)"
  unfolding encodes_def
proof (intro conjI allI impI)
  fix z
  assume z: "zwf z" "x_op z = ZDR_ENCODE" "z_room z (length (be64 u))"
  have f: "fits (zbuf z) (zpos z) 8" using z z_room_fits by fastforce
  have f4: "fits (zbuf z) (zpos z) (length (be32 (hi32 u)))" using f by (simp add: fits_def)
  have f8: "fits (splice (zbuf z) (zpos z) (be32 (hi32 u))) (zpos z + 4) (length (be32 (lo32 u)))"
    using f f4 by (auto simp: fits_def)
  have "splice (splice (zbuf z) (zpos z) (be32 (hi32 u))) (zpos z + 4) (be32 (lo32 u))
      = splice (zbuf z) (zpos z) (be64 u)"
    using splice_splice [of "zbuf z" "zpos z" "be32 (hi32 u)" "be32 (lo32 u)"] f
    by (simp add: be64_def)
  then show "libnfs_zdr_uint64_t z u = Ret True (z_put z (be64 u)) u"
    using z buf_write_fits [OF f4] buf_write_fits [OF f8]
    by (simp add: libnfs_zdr_uint64_t_def zwf_ranges z_put_def z_room_def)
qed simp

lemma uint64_decodes: "decodes libnfs_zdr_uint64_t y (be64 u) u"
  by (auto simp: decodes_def libnfs_zdr_uint64_t_def zwf_ranges buf_simps z_room_def be64_def
        holds_at_append intro!: z_skip_ex)

lemma uint64_refuses: "refuses libnfs_zdr_uint64_t u (be64 u)"
  by (auto simp: refuses_def libnfs_zdr_uint64_t_def zwf_ranges z_room_def)

interpretation uint64: zdr_codec_checked libnfs_zdr_uint64_t be64 "\<lambda>_. True" "\<lambda>_. True"
  by unfold_locales (simp_all add: uint64_encodes uint64_decodes uint64_refuses)

text \<open>Byte strings with a length: a NULL body is only well-formed where the length is 0.\<close>

definition MAX_ITEM :: nat where
  "MAX_ITEM = 2 ^ 29"

fun bytes_ok :: "byte list option \<times> u32 \<Rightarrow> bool" where
  "bytes_ok (Some bs, n) \<longleftrightarrow> length bs = unat n \<and> length bs \<le> MAX_ITEM"
| "bytes_ok (None, n) \<longleftrightarrow> False"

fun bytes_blank :: "byte list option \<times> u32 \<Rightarrow> bool" where
  "bytes_blank (v, n) \<longleftrightarrow> v = None"

fun bytes_enc :: "byte list option \<times> u32 \<Rightarrow> byte list" where
  "bytes_enc (v, n) = be32 n @ padded (case v of None \<Rightarrow> [] | Some bs \<Rightarrow> bs)"

lemma u32_length:
  assumes "length bs = unat (n :: u32)" "length bs \<le> MAX_ITEM"
  shows "uint n = int (length bs)" "s32 (int (length bs)) = int (length bs)"
    "int (length bs) \<le> 2 ^ 29"
proof -
  show "uint n = int (length bs)" by (simp add: assms(1))
  have "int (length bs) \<le> int (2 ^ 29)"
    using assms(2) unfolding MAX_ITEM_def by (simp only: of_nat_le_iff)
  then show "int (length bs) \<le> 2 ^ 29" by simp
  then show "s32 (int (length bs)) = int (length bs)" by (intro s32_nonneg) simp_all
qed

lemma le_padded: "int (length bs) \<le> int (length (padded bs))"
  by (simp add: padded_def)

lemma z_room_padded: "z_room z (length (padded bs)) \<Longrightarrow> z_room z (length bs)"
  using le_padded [of bs] unfolding z_room_def by linarith

lemma malloc_ample:
  assumes "ample z" "uint n \<le> 2 ^ 30"
  shows "zdr_malloc z n = Some (z\<lparr>zmem := unat n # zmem z\<rparr>)"
proof -
  have "s32 (12 + uint n) = 12 + uint n" using assms(2) by (intro s32_nonneg) simp_all
  moreover have "12 + uint n \<le> int (zheap z)" using assms by (simp add: ample_def)
  moreover have "\<not> 12 + uint n < 0" by (simp add: not_less add_nonneg_nonneg)
  ultimately show ?thesis by (simp add: zdr_malloc_def Let_def)
qed

text \<open>Writing the data and its padding, as both opaque writers do.\<close>

lemma write_padded:
  assumes z: "zwf z" and r: "z_room z (length (padded bs))" and p: "p = zpos z + int (length bs)"
  shows "buf_write (zbuf z) (zpos z) bs = Some (splice (zbuf z) (zpos z) bs)"
    and "buf_write (splice (zbuf z) (zpos z) bs) p (replicate (nat (pad4 p)) 0)
         = Some (splice (zbuf z) (zpos z) (padded bs))"
    and "p + pad4 p = zpos z + int (length (padded bs))"
    and "int_range (zpos z + int (length bs))" "int_range (p + 3)" "int_range (p + pad4 p)"
proof -
  have f: "fits (zbuf z) (zpos z) (length (padded bs))" using z r by (rule z_room_fits)
  then have fb: "fits (zbuf z) (zpos z) (length bs)" by (simp add: fits_def padded_def)
  then show "buf_write (zbuf z) (zpos z) bs = Some (splice (zbuf z) (zpos z) bs)"
    by (rule buf_write_fits)
  have pad: "pad4 p = pad4 (int (length bs))"
    using z by (simp add: p pad4_add zwf_def)
  have len: "length (padded bs) = length bs + nat (pad4 (int (length bs)))"
    by (simp add: padded_def)
  have fp: "fits (splice (zbuf z) (zpos z) bs) p (length (replicate (nat (pad4 p)) (0 :: byte)))"
    using f fb by (auto simp: fits_def len pad [unfolded p] p nat_add_distrib)
  show "buf_write (splice (zbuf z) (zpos z) bs) p (replicate (nat (pad4 p)) 0)
      = Some (splice (zbuf z) (zpos z) (padded bs))"
    unfolding buf_write_fits [OF fp] unfolding p padded_def pad [unfolded p]
    using f by (subst splice_splice) (simp_all add: fits_def padded_def)
  show e: "p + pad4 p = zpos z + int (length (padded bs))"
    by (simp add: p pad [unfolded p] len)
  have le: "0 \<le> zpos z" "zpos z + int (length (padded bs)) \<le> 2 ^ 30"
    using z r by (auto simp: zwf_def z_room_def)
  with le_padded [of bs] have "zpos z + int (length bs) \<le> 2 ^ 30" by linarith
  then show "int_range (zpos z + int (length bs))" "int_range (p + 3)"
    using le(1) by (simp_all add: int_range_def p)
  show "int_range (p + pad4 p)" unfolding e using le by (simp add: int_range_def)
qed

lemma bytes_okE:
  assumes "bytes_ok x"
  obtains bs n where "x = (Some bs, n)" "length bs = unat n" "length bs \<le> MAX_ITEM"
  using assms by (cases x rule: bytes_ok.cases) auto

lemma bytes_encodes:
  assumes "bytes_ok x"
  shows "encodes libnfs_zdr_bytes x (bytes_enc x)"
  using assms
proof (rule bytes_okE)
  fix bs n
  assume x: "x = (Some bs, n)" and len: "length bs = unat n" "length bs \<le> MAX_ITEM"
  show "encodes libnfs_zdr_bytes x (bytes_enc x)"
    unfolding encodes_def
  proof (intro conjI allI impI)
    show "4 dvd length (bytes_enc x)" by (simp add: x)
    fix z
    assume z: "zwf z" "x_op z = ZDR_ENCODE" "z_room z (length (bytes_enc x))"
    have r: "z_room z (length (be32 n))" "z_room (z_put z (be32 n)) (length (padded bs))"
      using z(3) by (auto simp: z_room_def x)
    have w: "zwf (z_put z (be32 n))" using z(1) r(1) by (rule zwf_z_put) simp
    note un = u32_length [OF len]
    note wp = write_padded [OF w r(2) refl]
    have pad: "pad4 q = 0 \<Longrightarrow> padded bs = bs" if "q = zpos z + 4 + int (length bs)" for q
      using that z(1) by (simp add: padded_def pad4_add zwf_def)
    have nofail: "zpos z + 4 + int (length bs) \<le> zsize z"
      using r(2) le_padded [of bs] unfolding z_room_def by simp
    have "libnfs_zdr_bytes z x =
        Ret True (z_put (z_put z (be32 n)) (padded bs)) x"
      using wp nofail pad [OF refl]
      by (auto simp: libnfs_zdr_bytes_def x encodesD [OF u_int_encodes z(1,2) r(1)] z(2) un
            len(1)[symmetric] Let_def z_put_def)
    then show "libnfs_zdr_bytes z x = Ret True (z_put z (bytes_enc x)) x"
      using z by (simp add: z_put_put x)
  qed
qed

lemma bytes_decodes:
  assumes "bytes_ok x" "bytes_blank y"
  shows "decodes libnfs_zdr_bytes y (bytes_enc x) x"
  using assms(1)
proof (rule bytes_okE)
  fix bs n
  assume x: "x = (Some bs, n)" and len: "length bs = unat n" "length bs \<le> MAX_ITEM"
  obtain k where y: "y = (None, k)" using assms(2) by (cases y) auto
  note un = u32_length [OF len]
  show "decodes libnfs_zdr_bytes y (bytes_enc x) x"
    unfolding decodes_def
  proof (intro conjI allI impI)
    show "4 dvd length (bytes_enc x)" by (simp add: x)
    fix z
    assume z: "zwf z" "ample z" "x_op z = ZDR_DECODE" "z_room z (length (bytes_enc x))"
      and h: "holds_at (zbuf z) (zpos z) (bytes_enc x)"
    have r: "z_room z (length (be32 n))" using z(4) by (auto simp: z_room_def x)
    obtain m where m: "libnfs_zdr_u_int z k = Ret True (z_skip z 4 m) n"
      using decodesD [OF u_int_decodes z(1-3) r, of k] h by (auto simp: holds_at_append x)
    have hb: "holds_at (zbuf z) (zpos z + 4) bs"
      using h by (simp add: x padded_def holds_at_append)
    have le: "0 \<le> zpos z" "zpos z + 4 + int (length (padded bs)) \<le> zsize z" "zsize z \<le> 2 ^ 30"
      using z(1,4) by (auto simp: zwf_def z_room_def x)
    have lb: "length bs \<le> length (padded bs)" by (simp add: padded_def)
    have al: "align4 (zpos z + 4 + int (length bs)) = zpos z + 4 + int (length (padded bs))"
      using z(1) by (simp add: length_padded align4_add zwf_def)
    have rg: "int_range (zpos z + 4 + int (length bs))" "int_range (zpos z + 4 + int (length bs) + 3)"
      using le lb by (auto simp: int_range_def)
    have "libnfs_zdr_bytes z y =
        Ret True ((z_skip z 4 m)\<lparr>zpos := zpos z + 4 + int (length (padded bs))\<rparr>) x"
      using le lb rg hb z(3)
      by (simp add: libnfs_zdr_bytes_def y m un x al len(1)[symmetric] Let_def holds_at_def)
    then show "\<exists>m. libnfs_zdr_bytes z y = Ret True (z_skip z (length (bytes_enc x)) m) x"
      by (intro exI [of _ m]) (simp add: z_skip_def x)
  qed
qed

lemma align4_le_iff: "4 dvd p \<Longrightarrow> 4 dvd s \<Longrightarrow> p + align4 n \<le> s \<longleftrightarrow> p + n \<le> s"
  using align4_mono_le [of s "p + n"] align4_ge [of n] by (auto simp: align4_add)

lemma bytes_refuses:
  assumes "bytes_ok x"
  shows "refuses libnfs_zdr_bytes x (bytes_enc x)"
  using assms
proof (rule bytes_okE)
  fix bs n
  assume x: "x = (Some bs, n)" and len: "length bs = unat n" "length bs \<le> MAX_ITEM"
  note un = u32_length [OF len]
  show "refuses libnfs_zdr_bytes x (bytes_enc x)"
    unfolding refuses_def
  proof (intro allI impI)
    fix z
    assume z: "zwf z" "x_op z = ZDR_ENCODE" "4 dvd zsize z" "\<not> z_room z (length (bytes_enc x))"
    show "\<exists>z' x'. libnfs_zdr_bytes z x = Ret False z' x' \<and> length (zbuf z') = length (zbuf z) \<and>
        drop (nat (zsize z)) (zbuf z') = drop (nat (zsize z)) (zbuf z)"
    proof (cases "z_room z 4")
      case False
      from refusesD [OF u_int_refuses z(1-3), of n] False show ?thesis
        by (auto simp: libnfs_zdr_bytes_def x)
    next
      case True
      have "\<not> (zpos z + 4) + align4 (int (length bs)) \<le> zsize z"
        using z(4) by (simp add: z_room_def x length_padded)
      then have "\<not> zpos z + 4 + int (length bs) \<le> zsize z"
        using z(1,3) by (subst (asm) align4_le_iff) (auto simp: zwf_def)
      moreover have "zpos z + 4 \<le> 2 ^ 30" using z(1) True by (auto simp: zwf_def z_room_def)
      then have "int_range (zpos z + 4 + int (length bs))"
        using un(3) zwf_ranges(3) [OF z(1)] by (intro int_range_small) simp_all
      moreover have "fits (zbuf z) (zpos z) 4" using z(1) True by (rule z_room_fits)
      ultimately show ?thesis
        using encodesD [OF u_int_encodes z(1,2), of n] True
        by (auto simp: libnfs_zdr_bytes_def x un drop_splice_above z_room_def)
    qed
  qed
qed

interpretation bytes: zdr_codec_checked libnfs_zdr_bytes bytes_enc bytes_ok bytes_blank
  by unfold_locales (simp_all add: bytes_encodes bytes_decodes bytes_refuses)

text \<open>Fixed opaque data of \<open>sz\<close> bytes: correct where it fits, but never refused.\<close>

definition opaque_ok :: "u32 \<Rightarrow> byte list \<Rightarrow> bool" where
  "opaque_ok sz bs \<longleftrightarrow> length bs = unat sz \<and> length bs \<le> MAX_ITEM"

lemma and3_pad4: "p AND 3 \<noteq> 0 \<Longrightarrow> 4 - (p AND 3) = pad4 p" "p AND 3 = 0 \<Longrightarrow> pad4 p = 0"
  unfolding pad4_alt and_3_mod by presburger+

lemma opaque_encode_step:
  assumes "opaque_ok sz bs" "zwf z" "x_op z = ZDR_ENCODE" "z_room z (length (padded bs))"
  shows "libnfs_zdr_opaque sz z bs = Ret True (z_put z (padded bs)) bs"
proof -
  have len: "length bs = unat sz" "length bs \<le> MAX_ITEM" using assms(1) by (auto simp: opaque_ok_def)
  note un = u32_length [OF len]
  let ?p = "zpos z + int (length bs)"
  note wp = write_padded [OF assms(2,4) refl]
  have nopad: "padded bs = bs" if "pad4 ?p = 0"
    using that assms(2) by (simp add: padded_def pad4_add zwf_def)
  have ap: "align4 ?p = zpos z + int (length (padded bs))" using wp(3) by (simp add: align4_pad4)
  have "(if ?p AND 3 \<noteq> 0
         then buf_write (splice (zbuf z) (zpos z) bs) ?p (replicate (nat (4 - (?p AND 3))) 0)
         else Some (splice (zbuf z) (zpos z) bs)) = Some (splice (zbuf z) (zpos z) (padded bs))"
    using wp(2) nopad and3_pad4 [of ?p] by simp
  then show ?thesis
    using wp(1,4,5) ap assms(3)
    by (simp add: libnfs_zdr_opaque_def un len(1)[symmetric] Let_def z_put_def)
qed

lemma opaque_decode_step:
  assumes "opaque_ok sz bs" "length old = unat sz" "zwf z" "x_op z = ZDR_DECODE"
    "z_room z (length bs)" "holds_at (zbuf z) (zpos z) bs"
  shows "libnfs_zdr_opaque sz z old = Ret True (z_skip z (length (padded bs)) (zmem z)) bs"
proof -
  have len: "length bs = unat sz" "length bs \<le> MAX_ITEM" using assms(1) by (auto simp: opaque_ok_def)
  note un = u32_length [OF len]
  let ?p = "zpos z + int (length bs)"
  have ap: "align4 ?p = zpos z + int (length (padded bs))"
    using assms(3) by (simp add: length_padded align4_add zwf_def)
  have "0 \<le> ?p" "?p \<le> 2 ^ 30" using assms(3,5) by (auto simp: zwf_def z_room_def)
  then have "int_range ?p" "int_range (?p + 3)" by (auto intro!: int_range_small)
  then show ?thesis
    using assms(2,4,6) ap
    by (simp add: libnfs_zdr_opaque_def un len(1)[symmetric] holds_at_read dst_bytes_def
          z_skip_def Let_def)
qed

interpretation opaque: zdr_codec "libnfs_zdr_opaque sz" padded "opaque_ok sz" "\<lambda>old. length old = unat sz"
  for sz
proof unfold_locales
  fix x y :: "byte list"
  assume ok: "opaque_ok sz x"
  then show "encodes (libnfs_zdr_opaque sz) x (padded x)"
    by (simp add: encodes_def opaque_encode_step)
  assume "length y = unat sz"
  then have "libnfs_zdr_opaque sz z y = Ret True (z_skip z (length (padded x)) (zmem z)) x"
    if "zwf z" "x_op z = ZDR_DECODE" "z_room z (length (padded x))"
      "holds_at (zbuf z) (zpos z) (padded x)" for z
    using that ok z_room_padded [OF that(3)]
    by (intro opaque_decode_step) (simp_all add: padded_def holds_at_append)
  then show "decodes (libnfs_zdr_opaque sz) y (padded x) x"
    by (auto simp: decodes_def)
qed

text \<open>C strings.\<close>

fun string_ok :: "byte list option \<Rightarrow> bool" where
  "string_ok None \<longleftrightarrow> False"
| "string_ok (Some s) \<longleftrightarrow> 0 \<notin> set s \<and> length s \<le> MAX_ITEM"

fun string_enc :: "byte list option \<Rightarrow> byte list" where
  "string_enc None = be32 0"
| "string_enc (Some s) = be32 (word_of_nat (length s)) @ padded s"

lemma unat_small_length: "length s \<le> MAX_ITEM \<Longrightarrow> unat (word_of_nat (length s) :: u32) = length s"
  by (simp add: MAX_ITEM_def unat_of_nat take_bit_nat_eq_self)

lemma strlen_no_nul: "0 \<notin> set s \<Longrightarrow> takeWhile (\<lambda>c. c \<noteq> (0 :: byte)) s = s"
  by (auto simp: takeWhile_eq_all_conv)

lemma string_encodes:
  assumes "string_ok x"
  shows "encodes libnfs_zdr_string x (string_enc x)"
proof -
  from assms obtain s where x: "x = Some s" and s: "0 \<notin> set s" "length s \<le> MAX_ITEM"
    by (cases x) auto
  let ?n = "word_of_nat (length s) :: u32"
  have len: "length s = unat ?n" using s(2) by (simp add: unat_small_length)
  note un = u32_length [OF len s(2)]
  show ?thesis
    unfolding encodes_def
  proof (intro conjI allI impI)
    show "4 dvd length (string_enc x)" by (simp add: x)
    fix z
    assume z: "zwf z" "x_op z = ZDR_ENCODE" "z_room z (length (string_enc x))"
    have r: "z_room z (length (be32 ?n))" "z_room (z_put z (be32 ?n)) (length (padded s))"
      using z(3) by (auto simp: z_room_def x)
    have w: "zwf (z_put z (be32 ?n))" using z(1) r(1) by (rule zwf_z_put) simp
    have nofail: "zpos z + 4 + int (length s) \<le> zsize z"
      using r(2) le_padded [of s] unfolding z_room_def by simp
    have "libnfs_zdr_opaque ?n (z_put z (be32 ?n)) s =
        Ret True (z_put (z_put z (be32 ?n)) (padded s)) s"
      using w z(2) r(2) len s(2) by (intro opaque_encode_step) (simp_all add: opaque_ok_def)
    then show "libnfs_zdr_string z x = Ret True (z_put z (string_enc x)) x"
      using z write_padded(4) [OF w r(2) refl] nofail
        encodesD [OF u_int_encodes z(1,2) r(1)]
      by (simp add: libnfs_zdr_string_def x strlen_no_nul s(1) un z_put_put)
  qed
qed

lemma splice_same: "holds_at b p xs \<Longrightarrow> splice b p xs = b"
  unfolding holds_at_def splice_def
  by (metis append.assoc append_take_drop_id drop_drop add.commute)

text \<open>
  Decoding after the length has been read, \<open>z\<close> being the stream behind it: the string
  is used in place or copied, with the same result.
\<close>

lemma string_body_facts:
  assumes "zwf z" "z_room z (length (padded s))"
  shows "zpos z + int (length s) \<le> zsize z" "int_range (zpos z + int (length s))"
    "int_range (zpos z + int (length s) + 3)"
    "(zpos z + int (length s)) mod 4294967296 = zpos z + int (length s)"
    "align4 (zpos z + int (length s)) = zpos z + int (length (padded s))"
proof -
  have le: "0 \<le> zpos z" "zpos z + int (length (padded s)) \<le> zsize z" "zsize z \<le> 2 ^ 30"
    using assms by (auto simp: zwf_def z_room_def)
  then show "zpos z + int (length s) \<le> zsize z" using le_padded [of s] by linarith
  with le show "int_range (zpos z + int (length s))" "int_range (zpos z + int (length s) + 3)"
    "(zpos z + int (length s)) mod 4294967296 = zpos z + int (length s)"
    by (auto intro!: int_range_small)
  show "align4 (zpos z + int (length s)) = zpos z + int (length (padded s))"
    using assms(1) by (simp add: length_padded align4_add zwf_def)
qed

lemma string_in_place:
  assumes z: "zwf z" "z_room z (length (padded s))" "x_op z = ZDR_DECODE"
    and s: "length s = unat n" "length s \<le> MAX_ITEM" "holds_at (zbuf z) (zpos z) s"
    and u: "libnfs_zdr_u_int z0 0 = Ret True z n" "x_op z0 = ZDR_DECODE"
    and nul: "zpos z + int (length s) < zsize z"
      "buf_read (zbuf z) (zpos z + int (length s)) 1 = Some [0]"
  shows "libnfs_zdr_string z0 y = Ret True (z_skip z (length (padded s)) (zmem z)) (Some s)"
proof -
  have ha: "holds_at (zbuf z) (zpos z + int (length s)) [0]"
    using nul(2) by (auto simp: buf_read_def holds_at_def fits_def split: if_splits)
  have "buf_write (zbuf z) (zpos z + int (length s)) [0] = Some (zbuf z)"
    using buf_write_fits [of "zbuf z" _ "[0]"] holds_at_fits [OF ha] splice_same [OF ha] by simp
  then show ?thesis
    using nul z(3) s(3) string_body_facts [OF z(1,2)] u
    by (simp add: libnfs_zdr_string_def u32_length [OF s(1,2)] s(1)[symmetric] Let_def
          holds_at_def z_skip_def)
qed

lemma string_copied:
  assumes z: "zwf z" "z_room z (length (padded s))" "x_op z = ZDR_DECODE" "ample z"
    and s: "length s = unat n" "length s \<le> MAX_ITEM" "holds_at (zbuf z) (zpos z) s"
    and u: "libnfs_zdr_u_int z0 0 = Ret True z n" "x_op z0 = ZDR_DECODE"
    and nul: "\<not> (zpos z + int (length s) < zsize z \<and>
                buf_read (zbuf z) (zpos z + int (length s)) 1 = Some [0])"
  shows "libnfs_zdr_string z0 y =
    Ret True (z_skip z (length (padded s)) (unat (n + 1) # zmem z)) (Some s)"
proof -
  note un = u32_length [OF s(1,2)] and f = string_body_facts [OF z(1,2)]
  let ?z2 = "z\<lparr>zmem := unat (n + 1) # zmem z\<rparr>"
  have "uint (n + 1) \<le> 2 ^ 29 + 1" using un(1,3) by (simp add: uint_word_ariths)
  then have malloc: "zdr_malloc z (n + 1) = Some ?z2"
    using z(4) by (intro malloc_ample) simp_all
  have lt: "unat n < unat (n + 1)" using s by (simp add: MAX_ITEM_def unat_word_ariths)
  have rd: "buf_read (zbuf z) (zpos z + int (length s)) 1 \<noteq> None"
    if "zpos z + int (length s) < zsize z"
    using that z(1) by (auto simp: buf_read_def zwf_def)
  have "libnfs_zdr_opaque n ?z2 (replicate (unat n) 0) =
      Ret True (z_skip ?z2 (length (padded s)) (zmem ?z2)) s"
    using z s f(1) by (intro opaque_decode_step) (simp_all add: opaque_ok_def zwf_def z_room_def)
  moreover have "z_skip ?z2 k (zmem ?z2) = z_skip z k (unat (n + 1) # zmem z)" for k
    by (simp add: z_skip_def)
  ultimately show ?thesis
    using nul f z(3) u malloc lt rd
    by (auto simp: libnfs_zdr_string_def un)
qed

lemma string_decodes:
  assumes "string_ok x"
  shows "decodes libnfs_zdr_string y (string_enc x) x"
proof -
  from assms obtain s where x: "x = Some s" and s: "0 \<notin> set s" "length s \<le> MAX_ITEM"
    by (cases x) auto
  let ?n = "word_of_nat (length s) :: u32"
  have len: "length s = unat ?n" using s(2) by (simp add: unat_small_length)
  have "\<exists>m. libnfs_zdr_string z y = Ret True (z_skip z (length (string_enc x)) m) x"
    if z: "zwf z" "ample z" "x_op z = ZDR_DECODE" "z_room z (length (string_enc x))"
      and h: "holds_at (zbuf z) (zpos z) (string_enc x)" for z
  proof -
    have r: "z_room z (length (be32 ?n))" using z(4) by (auto simp: z_room_def x)
    obtain m where m: "libnfs_zdr_u_int z 0 = Ret True (z_skip z 4 m) ?n"
      using decodesD [OF u_int_decodes z(1-3) r, of 0] h by (auto simp: holds_at_append x)
    let ?z = "z_skip z 4 m"
    have z1: "zwf ?z" "z_room ?z (length (padded s))" "x_op ?z = ZDR_DECODE" "ample ?z"
      using z r by (auto intro!: zwf_z_skip simp: x z_room_def ample_def)
    have hs: "holds_at (zbuf ?z) (zpos ?z) s"
      using h by (simp add: x padded_def holds_at_append)
    have "\<exists>m'. libnfs_zdr_string z y = Ret True (z_skip ?z (length (padded s)) m') (Some s)"
      using string_in_place [OF z1(1-3) len s(2) hs m z(3), of y]
        string_copied [OF z1 len s(2) hs m z(3), of y] by blast
    then show ?thesis by (auto simp: x)
  qed
  then show ?thesis by (auto simp: decodes_def x)
qed

lemma string_refuses:
  assumes "string_ok x"
  shows "refuses libnfs_zdr_string x (string_enc x)"
proof -
  from assms obtain s where x: "x = Some s" and s: "0 \<notin> set s" "length s \<le> MAX_ITEM"
    by (cases x) auto
  let ?n = "word_of_nat (length s) :: u32"
  have len: "length s = unat ?n" using s(2) by (simp add: unat_small_length)
  note un = u32_length [OF len s(2)]
  have "\<exists>z' x'. libnfs_zdr_string z x = Ret False z' x' \<and> length (zbuf z') = length (zbuf z) \<and>
        drop (nat (zsize z)) (zbuf z') = drop (nat (zsize z)) (zbuf z)"
    if z: "zwf z" "x_op z = ZDR_ENCODE" "4 dvd zsize z" "\<not> z_room z (length (string_enc x))" for z
  proof (cases "z_room z 4")
    case False
    from refusesD [OF u_int_refuses z(1-3), of ?n] False show ?thesis
      using z(2) by (auto simp: libnfs_zdr_string_def x strlen_no_nul s(1))
  next
    case True
    have "\<not> (zpos z + 4) + align4 (int (length s)) \<le> zsize z"
      using z(4) by (simp add: z_room_def x length_padded)
    then have "\<not> zpos z + 4 + int (length s) \<le> zsize z"
      using z(1,3) by (subst (asm) align4_le_iff) (auto simp: zwf_def)
    moreover have "zpos z + 4 \<le> 2 ^ 30" using z(1) True by (auto simp: zwf_def z_room_def)
    then have "int_range (zpos z + 4 + int (length s))"
      using un(3) zwf_ranges(3) [OF z(1)] by (intro int_range_small) simp_all
    moreover have "fits (zbuf z) (zpos z) 4" using z(1) True by (rule z_room_fits)
    ultimately show ?thesis
      using encodesD [OF u_int_encodes z(1,2), of ?n] True z(2)
      by (auto simp: libnfs_zdr_string_def x un drop_splice_above z_room_def strlen_no_nul s(1))
  qed
  then show ?thesis by (auto simp: refuses_def)
qed

interpretation str: zdr_codec_checked libnfs_zdr_string string_enc string_ok "\<lambda>_. True"
  by unfold_locales (simp_all add: string_encodes string_decodes string_refuses)

text \<open>Optional data: a discriminant, followed by the item if it is there.\<close>

definition pointer_enc :: "('a \<Rightarrow> byte list) \<Rightarrow> 'a option \<Rightarrow> byte list" where
  "pointer_enc enc obj = (case obj of None \<Rightarrow> be32 0 | Some x \<Rightarrow> be32 1 @ enc x)"

definition pointer_ok :: "('a \<Rightarrow> bool) \<Rightarrow> 'a option \<Rightarrow> bool" where
  "pointer_ok ok obj = (case obj of None \<Rightarrow> True | Some x \<Rightarrow> ok x)"

text \<open>Counted arrays whose size in memory is at most one gigabyte.\<close>

fun array_enc :: "('a \<Rightarrow> byte list) \<Rightarrow> 'a list \<times> u32 \<Rightarrow> byte list" where
  "array_enc enc (xs, n) = be32 n @ concat (map enc xs)"

fun array_ok :: "u32 \<Rightarrow> ('a \<Rightarrow> bool) \<Rightarrow> 'a list \<times> u32 \<Rightarrow> bool" where
  "array_ok elsize ok (xs, n) \<longleftrightarrow>
     length xs = unat n \<and> (\<forall>x \<in> set xs. ok x) \<and> 0 < unat elsize \<and> unat n * unat elsize \<le> 2 ^ 30"

lemma array_arith:
  assumes "array_ok elsize ok (xs, n)"
  shows "\<not> n > 0xffffffff div elsize" "nat (s32 (uint n)) = length xs" "uint (n * elsize) \<le> 2 ^ 30"
proof -
  have len: "length xs = unat n" and e: "0 < unat elsize" and le: "unat n * unat elsize \<le> 2 ^ 30"
    using assms by auto
  have "unat n * unat elsize \<le> 4294967295" using le by simp
  then have "unat n \<le> 4294967295 div unat elsize"
    using e by (simp add: less_eq_div_iff_mult_less_eq)
  moreover have "unat (0xffffffff div elsize) = 4294967295 div unat elsize"
    by (simp add: unat_div)
  ultimately show "\<not> n > 0xffffffff div elsize"
    by (simp add: word_less_nat_alt)
  have "unat n \<le> unat n * unat elsize" using e by simp
  with le have "unat n \<le> 2 ^ 30" by (metis le_trans)
  then have "unat n < 2147483648" by simp
  then have "int (unat n) < 2147483648" by (metis of_nat_less_iff of_nat_numeral)
  then show "nat (s32 (uint n)) = length xs" by (simp add: s32_nonneg len)
  have "unat (n * elsize) = unat n * unat elsize" using le by (simp add: unat_word_ariths)
  then have "int (unat (n * elsize)) \<le> int (2 ^ 30)" using le by (simp only: of_nat_le_iff)
  then show "uint (n * elsize) \<le> 2 ^ 30" by simp
qed

context zdr_codec
begin

lemma pointer_encodes:
  assumes "pointer_ok ok obj"
  shows "encodes (libnfs_zdr_pointer sz zero proc) obj (pointer_enc enc obj)"
proof (cases obj)
  case None
  then show ?thesis
    using encodesD [OF u_int_encodes, of _ 0]
    by (simp add: encodes_def libnfs_zdr_pointer_def libnfs_zdr_bool_def pointer_enc_def)
next
  case (Some x)
  have x: "encodes proc x (enc x)" using assms encode by (simp add: pointer_ok_def Some)
  have "libnfs_zdr_pointer sz zero proc z obj = Ret True (z_put z (pointer_enc enc obj)) obj"
    if z: "zwf z" "x_op z = ZDR_ENCODE" "z_room z (length (pointer_enc enc obj))" for z
  proof -
    have r: "z_room z (length (be32 1))" "z_room (z_put z (be32 1)) (length (enc x))"
      using z(3) by (auto simp: z_room_def pointer_enc_def Some)
    have w: "zwf (z_put z (be32 1))" using z(1) r(1) by (rule zwf_z_put) simp
    show ?thesis
      using encodesD [OF u_int_encodes z(1,2) r(1)] encodesD [OF x w _ r(2)] z
      by (simp add: libnfs_zdr_pointer_def libnfs_zdr_bool_def Some pointer_enc_def z_put_put)
  qed
  then show ?thesis using encodes_dvd [OF x] by (simp add: encodes_def pointer_enc_def Some)
qed

lemma pointer_decodes:
  assumes ok: "pointer_ok ok obj" and zero: "blank zero" and sz: "uint sz \<le> 2 ^ 30"
  shows "decodes (libnfs_zdr_pointer sz zero proc) y (pointer_enc enc obj) obj"
proof (cases obj)
  case None
  have "\<exists>m. libnfs_zdr_pointer sz zero proc z y = Ret True (z_skip z 4 m) obj"
    if z: "zwf z" "ample z" "x_op z = ZDR_DECODE" "z_room z 4"
      "holds_at (zbuf z) (zpos z) (be32 0)" for z
    using decodesD [OF u_int_decodes z(1-3), of 0 "if y \<noteq> None then 1 else 0"] z
    by (auto simp: libnfs_zdr_pointer_def libnfs_zdr_bool_def None)
  then show ?thesis by (simp add: decodes_def pointer_enc_def None)
next
  case (Some x)
  have x: "decodes proc zero (enc x) x" using ok zero decode by (simp add: pointer_ok_def Some)
  have "\<exists>m. libnfs_zdr_pointer sz zero proc z y =
      Ret True (z_skip z (length (pointer_enc enc obj)) m) obj"
    if z: "zwf z" "ample z" "x_op z = ZDR_DECODE" "z_room z (length (pointer_enc enc obj))"
      and h: "holds_at (zbuf z) (zpos z) (pointer_enc enc obj)" for z
  proof -
    have r: "z_room z (length (be32 1))" using z(4) by (auto simp: z_room_def pointer_enc_def Some)
    obtain m where m: "libnfs_zdr_u_int z (if y \<noteq> None then 1 else 0) = Ret True (z_skip z 4 m) 1"
      using decodesD [OF u_int_decodes z(1-3) r, of "if y \<noteq> None then 1 else 0"] h
      by (auto simp: holds_at_append pointer_enc_def Some)
    let ?z2 = "z_skip z 4 (unat sz # m)"
    have "zdr_malloc (z_skip z 4 m) sz = Some ?z2"
      using malloc_ample [of "z_skip z 4 m" sz] z(2) sz by (simp add: ample_def z_skip_def)
    moreover have "zwf ?z2" "ample ?z2" using z r by (auto intro!: zwf_z_skip simp: ample_def)
    then obtain m' where "proc ?z2 zero = Ret True (z_skip ?z2 (length (enc x)) m') x"
      using decodesD [OF x, of ?z2] z h
      by (auto simp: pointer_enc_def Some holds_at_append z_room_def)
    ultimately show ?thesis
      using m z(3)
      by (intro exI [of _ m']) (auto simp: libnfs_zdr_pointer_def libnfs_zdr_bool_def Some pointer_enc_def)
  qed
  then show ?thesis using decodes_dvd [OF x] by (simp add: decodes_def pointer_enc_def Some)
qed

lemma pointer_codec:
  "blank zero \<Longrightarrow> uint sz \<le> 2 ^ 30 \<Longrightarrow>
   zdr_codec (libnfs_zdr_pointer sz zero proc) (pointer_enc enc) (pointer_ok ok) (\<lambda>_. True)"
  by unfold_locales (simp_all add: pointer_encodes pointer_decodes)

text \<open>The elements of an array, one after the other.\<close>

lemma elements_encode:
  "\<forall>x \<in> set xs. ok x \<Longrightarrow> encodes (zdr_elements proc (length xs)) xs (concat (map enc xs))"
proof (induction xs)
  case Nil
  then show ?case by (simp add: encodes_def z_put_def)
next
  case (Cons x xs)
  have x: "encodes proc x (enc x)" using Cons.prems encode by simp
  have xs: "encodes (zdr_elements proc (length xs)) xs (concat (map enc xs))" using Cons by simp
  have "zdr_elements proc (length (x # xs)) z (x # xs) =
      Ret True (z_put z (enc x @ concat (map enc xs))) (x # xs)"
    if z: "zwf z" "x_op z = ZDR_ENCODE" "z_room z (length (enc x @ concat (map enc xs)))" for z
  proof -
    have r: "z_room z (length (enc x))" "z_room (z_put z (enc x)) (length (concat (map enc xs)))"
      using z(3) by (auto simp: z_room_def)
    have w: "zwf (z_put z (enc x))" using z(1) r(1) encodes_dvd [OF x] by (rule zwf_z_put)
    show ?thesis
      using encodesD [OF x z(1,2) r(1)] encodesD [OF xs w _ r(2)] z by (simp add: z_put_put)
  qed
  then show ?case using encodes_dvd [OF x] encodes_dvd [OF xs] by (simp add: encodes_def)
qed

lemma elements_decode:
  "\<forall>x \<in> set xs. ok x \<Longrightarrow> blank zero \<Longrightarrow>
   decodes (zdr_elements proc (length xs)) (replicate (length xs) zero) (concat (map enc xs)) xs"
proof (induction xs)
  case Nil
  have "\<exists>m. z = z_skip z 0 m" for z by (rule exI [of _ "zmem z"]) (simp add: z_skip_def)
  then show ?case by (simp add: decodes_def)
next
  case (Cons x xs)
  have x: "decodes proc zero (enc x) x" using Cons.prems decode by simp
  have xs: "decodes (zdr_elements proc (length xs)) (replicate (length xs) zero)
      (concat (map enc xs)) xs" using Cons by simp
  have "\<exists>m. zdr_elements proc (length (x # xs)) z (replicate (length (x # xs)) zero) =
      Ret True (z_skip z (length (enc x @ concat (map enc xs))) m) (x # xs)"
    if z: "zwf z" "ample z" "x_op z = ZDR_DECODE" "z_room z (length (enc x @ concat (map enc xs)))"
      and h: "holds_at (zbuf z) (zpos z) (enc x @ concat (map enc xs))" for z
  proof -
    have r: "z_room z (length (enc x))" using z(4) by (simp add: z_room_def)
    obtain m where m: "proc z zero = Ret True (z_skip z (length (enc x)) m) x"
      using decodesD [OF x z(1-3) r] h by (auto simp: holds_at_append)
    let ?z = "z_skip z (length (enc x)) m"
    have "zwf ?z" "ample ?z" using z r decodes_dvd [OF x] by (auto intro!: zwf_z_skip simp: ample_def)
    then obtain m' where "zdr_elements proc (length xs) ?z (replicate (length xs) zero) =
        Ret True (z_skip ?z (length (concat (map enc xs))) m') xs"
      using decodesD [OF xs, of ?z] z h by (auto simp: holds_at_append z_room_def)
    then show ?thesis using m by (intro exI [of _ m']) simp
  qed
  then show ?case using decodes_dvd [OF x] decodes_dvd [OF xs] by (simp add: decodes_def)
qed

lemma array_encodes:
  assumes "array_ok elsize ok a"
  shows "encodes (libnfs_zdr_array elsize zero proc) a (array_enc enc a)"
proof -
  obtain xs n where a: "a = (xs, n)" by (cases a)
  note ar = array_arith [OF assms [unfolded a]]
  have xs: "encodes (zdr_elements proc (length xs)) xs (concat (map enc xs))"
    using assms by (intro elements_encode) (simp add: a)
  have "libnfs_zdr_array elsize zero proc z a = Ret True (z_put z (array_enc enc a)) a"
    if z: "zwf z" "x_op z = ZDR_ENCODE" "z_room z (length (array_enc enc a))" for z
  proof -
    have r: "z_room z (length (be32 n))" "z_room (z_put z (be32 n)) (length (concat (map enc xs)))"
      using z(3) by (auto simp: z_room_def a)
    have w: "zwf (z_put z (be32 n))" using z(1) r(1) by (rule zwf_z_put) simp
    show ?thesis
      using encodesD [OF u_int_encodes z(1,2) r(1)] encodesD [OF xs w _ r(2)] z ar
      by (simp add: libnfs_zdr_array_def a z_put_put)
  qed
  then show ?thesis using encodes_dvd [OF xs] by (simp add: encodes_def a)
qed

lemma array_decodes:
  assumes "array_ok elsize ok a" and zero: "blank zero"
  shows "decodes (libnfs_zdr_array elsize zero proc) y (array_enc enc a) a"
proof -
  obtain xs n where a: "a = (xs, n)" by (cases a)
  note ar = array_arith [OF assms(1) [unfolded a]]
  have len: "length xs = unat n" using assms(1) by (simp add: a)
  have xs: "decodes (zdr_elements proc (length xs)) (replicate (length xs) zero)
      (concat (map enc xs)) xs"
    using assms by (intro elements_decode) (simp_all add: a)
  have "\<exists>m. libnfs_zdr_array elsize zero proc z y =
      Ret True (z_skip z (length (array_enc enc a)) m) a"
    if z: "zwf z" "ample z" "x_op z = ZDR_DECODE" "z_room z (length (array_enc enc a))"
      and h: "holds_at (zbuf z) (zpos z) (array_enc enc a)" for z
  proof -
    have r: "z_room z (length (be32 n))" using z(4) by (auto simp: z_room_def a)
    obtain m where m: "libnfs_zdr_u_int z (snd y) = Ret True (z_skip z 4 m) n"
      using decodesD [OF u_int_decodes z(1-3) r, of "snd y"] h by (auto simp: holds_at_append a)
    let ?z2 = "z_skip z 4 (unat (n * elsize) # m)"
    have mal: "zdr_malloc (z_skip z 4 m) (n * elsize) = Some ?z2"
      using malloc_ample [of "z_skip z 4 m" "n * elsize"] z(2) ar(3)
      by (simp add: ample_def z_skip_def)
    have "zwf ?z2" "ample ?z2" using z r by (auto intro!: zwf_z_skip simp: ample_def)
    then obtain m' where "zdr_elements proc (length xs) ?z2 (replicate (length xs) zero) =
        Ret True (z_skip ?z2 (length (concat (map enc xs))) m') xs"
      using decodesD [OF xs, of ?z2] z h by (auto simp: holds_at_append z_room_def a)
    then show ?thesis
      using m mal z(3) ar len by (intro exI [of _ m']) (simp add: libnfs_zdr_array_def a)
  qed
  then show ?thesis using decodes_dvd [OF xs] by (simp add: decodes_def a)
qed

lemma array_codec:
  "blank zero \<Longrightarrow>
   zdr_codec (libnfs_zdr_array elsize zero proc) (array_enc enc) (array_ok elsize ok) (\<lambda>_. True)"
  by unfold_locales (simp_all add: array_encodes array_decodes)

end

section \<open>Properties\<close>

lemma u_int_decode_at:
  "zwf z \<Longrightarrow> x_op z = ZDR_DECODE \<Longrightarrow> z_room z 4 \<Longrightarrow> holds_at (zbuf z) (zpos z) (be32 n) \<Longrightarrow>
   libnfs_zdr_u_int z y = Ret True (z\<lparr>zpos := zpos z + 4\<rparr>) n"
  by (auto simp: libnfs_zdr_u_int_def zwf_ranges buf_simps z_room_def)

text \<open>
  C23. Marshalling a counted byte string (file handles, credentials, READ and WRITE data) and
  unmarshalling the bytes it produced gives the string back and leaves the stream right behind
  it, for every string of up to half a gigabyte and every position with enough room.
\<close>

theorem zdr_bytes_round_trip:
  assumes "bytes_ok x" "zwf z" "x_op z = ZDR_ENCODE" "z_room z (length (bytes_enc x))" "ample z"
  shows "\<exists>z' m. libnfs_zdr_bytes z x = Ret True z' x \<and>
           zpos z' = zpos z + int (length (bytes_enc x)) \<and>
           libnfs_zdr_bytes (z'\<lparr>x_op := ZDR_DECODE, zpos := zpos z\<rparr>) (None, 0) =
             Ret True (z'\<lparr>x_op := ZDR_DECODE, zmem := m\<rparr>) x"
  using bytes.round_trip [of x "(None, 0)" z] assms by simp

definition sample_zdr :: zdr where
  "sample_zdr = \<lparr>x_op = ZDR_ENCODE, zbuf = replicate 16 0, zsize = 16, zpos = 0, zmem = [],
                 zheap = 2 ^ 31\<rparr>"

lemma sample_zdr_wf: "zwf sample_zdr" "ample sample_zdr" "x_op sample_zdr = ZDR_ENCODE"
  by (simp_all add: sample_zdr_def zwf_def ample_def)

theorem zdr_bytes_round_trip_witness:
  "\<exists>z' m. libnfs_zdr_bytes sample_zdr (Some [1, 2, 3], 3) = Ret True z' (Some [1, 2, 3], 3) \<and>
     zpos z' = 8 \<and>
     libnfs_zdr_bytes (z'\<lparr>x_op := ZDR_DECODE, zpos := 0\<rparr>) (None, 0) =
       Ret True (z'\<lparr>x_op := ZDR_DECODE, zmem := m\<rparr>) (Some [1, 2, 3], 3)"
proof -
  have "length (bytes_enc (Some [1, 2, 3], 3)) = 8" by (simp add: padded_def pad4_alt)
  moreover have "zpos sample_zdr = 0" "z_room sample_zdr 8"
    by (simp_all add: sample_zdr_def z_room_def)
  ultimately show ?thesis
    using zdr_bytes_round_trip [of "(Some [1, 2, 3], 3)" sample_zdr] sample_zdr_wf
    by (simp add: MAX_ITEM_def)
qed

text \<open>
  The same round trip for C strings (names and paths), whether the decoder finds a NUL
  behind the string in the buffer and uses it in place or has to copy it.
\<close>

theorem zdr_string_round_trip:
  assumes "0 \<notin> set s" "length s \<le> MAX_ITEM" "zwf z" "x_op z = ZDR_ENCODE"
    "z_room z (length (string_enc (Some s)))" "ample z"
  shows "\<exists>z' m. libnfs_zdr_string z (Some s) = Ret True z' (Some s) \<and>
           zpos z' = zpos z + int (length (string_enc (Some s))) \<and>
           libnfs_zdr_string (z'\<lparr>x_op := ZDR_DECODE, zpos := zpos z\<rparr>) None =
             Ret True (z'\<lparr>x_op := ZDR_DECODE, zmem := m\<rparr>) (Some s)"
  using str.round_trip [where x = "Some s" and y = None and z = z] assms by (simp del: string_enc.simps)

theorem zdr_string_round_trip_witness:
  "\<exists>z' m. libnfs_zdr_string sample_zdr (Some [47, 97]) = Ret True z' (Some [47, 97]) \<and>
     zpos z' = 8 \<and>
     libnfs_zdr_string (z'\<lparr>x_op := ZDR_DECODE, zpos := 0\<rparr>) None =
       Ret True (z'\<lparr>x_op := ZDR_DECODE, zmem := m\<rparr>) (Some [47, 97])"
proof -
  have "length (string_enc (Some [47, 97])) = 8" by (simp add: padded_def pad4_alt)
  moreover have "zpos sample_zdr = 0" "z_room sample_zdr 8"
    by (simp_all add: sample_zdr_def z_room_def)
  ultimately show ?thesis
    using zdr_string_round_trip [of "[47, 97]" sample_zdr] sample_zdr_wf
    by (simp add: MAX_ITEM_def)
qed

text \<open>
  On an aligned stream a string is either written completely inside \<open>size\<close>, or the
  encoder answers FALSE; in both cases no byte of the buffer behind \<open>size\<close> changes.
\<close>

theorem zdr_string_encode_bounded:
  assumes "0 \<notin> set s" "length s \<le> MAX_ITEM" "zwf z" "x_op z = ZDR_ENCODE" "4 dvd zsize z"
  shows "\<exists>b z' x'. libnfs_zdr_string z (Some s) = Ret b z' x' \<and>
           (b \<longleftrightarrow> zpos z + int (length (string_enc (Some s))) \<le> zsize z) \<and>
           length (zbuf z') = length (zbuf z) \<and>
           drop (nat (zsize z)) (zbuf z') = drop (nat (zsize z)) (zbuf z)"
  using str.encode_total [of "Some s" z] assms by (simp add: z_room_def del: string_enc.simps)

theorem zdr_string_encode_bounded_witness:
  "\<exists>z' x'. libnfs_zdr_string (sample_zdr\<lparr>zsize := 4\<rparr>) (Some [47, 97]) = Ret False z' x' \<and>
     length (zbuf z') = 16 \<and> drop 4 (zbuf z') = replicate 12 0"
proof -
  have "length (string_enc (Some [47, 97])) = 8" by (simp add: padded_def pad4_alt)
  moreover have "zwf (sample_zdr\<lparr>zsize := 4\<rparr>)" by (simp add: sample_zdr_def zwf_def)
  ultimately show ?thesis
    using zdr_string_encode_bounded [of "[47, 97]" "sample_zdr\<lparr>zsize := 4\<rparr>"]
    by (auto simp: MAX_ITEM_def sample_zdr_def)
qed

text \<open>
  C36. Decoding a counted byte string whose length field is at least \<open>2 ^ 31\<close>, into a
  destination that is NULL: the bounds check compares \<open>pos + (int)*size\<close>, which is then
  smaller than the position behind the length field, so the decoder answers TRUE and does not move
  forward over the string. The position stays behind the length field for the three largest
  lengths, which the alignment rounds up, and goes backwards, to bytes already read, for the others.
\<close>

theorem zdr_bytes_length_wraps:
  assumes "zwf z" "x_op z = ZDR_DECODE" "z_room z 4" "holds_at (zbuf z) (zpos z) (be32 n)"
    and "2 ^ 31 \<le> uint n"
  shows "\<exists>v. libnfs_zdr_bytes z (None, k) =
           Ret True (z\<lparr>zpos := align4 (zpos z + 4 + uint n - 2 ^ 32)\<rparr>) (Some v, n) \<and>
           align4 (zpos z + 4 + uint n - 2 ^ 32) \<le> zpos z + 4"
proof -
  have n: "s32 (uint n) = uint n - 2 ^ 32" using assms(5) by (rule s32_uint_big)
  have lt: "uint n < 2 ^ 32" using uint_lt2p [of n] by simp
  have pos: "0 \<le> zpos z" "zpos z + 4 \<le> zsize z" "zsize z \<le> 2 ^ 30" "4 dvd zpos z"
    using assms(1,3) by (auto simp: zwf_def z_room_def)
  have r: "int_range (zpos z + 4 + (uint n - 2 ^ 32))" "int_range (zpos z + 4 + uint n - 2 ^ 32 + 3)"
    using pos lt assms(5) by (auto simp: int_range_def)
  have "s32 (zpos z + 4 + uint n) = s32 (zpos z + 4 + uint n - 2 ^ 32)"
    by (rule s32_minus_wrap)
  then show ?thesis
    using pos lt r n assms(2) u_int_decode_at [OF assms(1-4), of k] align4_mono_le [of "zpos z + 4"]
    by (auto simp: libnfs_zdr_bytes_def Let_def)
qed

theorem zdr_bytes_length_wraps_witness:
  "\<exists>v. libnfs_zdr_bytes \<lparr>x_op = ZDR_DECODE, zbuf = be32 7 @ be32 0xfffffffc, zsize = 8, zpos = 4,
                            zmem = [], zheap = 100\<rparr> (None, 0) =
     Ret True \<lparr>x_op = ZDR_DECODE, zbuf = be32 7 @ be32 0xfffffffc, zsize = 8, zpos = 4,
                zmem = [], zheap = 100\<rparr> (Some v, 0xfffffffc)"
  using zdr_bytes_length_wraps
    [of "\<lparr>x_op = ZDR_DECODE, zbuf = be32 7 @ be32 0xfffffffc, zsize = 8, zpos = 4,
          zmem = [], zheap = 100\<rparr>" "0xfffffffc" 0]
  by (simp add: zwf_def z_room_def holds_at_def fits_def align4_alt)

end
