(* ===== verification/Rpc_Msg.thy ===== *)
theory Rpc_Msg
  imports Zdr_Codec "HOL-Library.Monad_Syntax"
begin

text \<open>
  The RPC message layer of \<open>src/lib/libnfs-zdr.c\<close> (lines 387 to 779): credentials and
  verifiers, call and reply bodies, the message with its direction, and the creation of the
  AUTH_NONE and AUTH_SYS credentials. The model is of the build without Kerberos and TLS; the
  text that \<open>rpc_set_error\<close> formats is not modelled, the FALSE it accompanies is.

  A C union is a record with all its members: \<open>reply_data\<close> has the results and the
  mismatch bounds, \<open>reply\<close> the accepted and the rejected reply. No function of this
  layer reads a member other than the one selected by the discriminant it has just read. In
  \<open>reject_data\<close> the word \<open>stat\<close> and the word \<open>low\<close> are one field. The
  decoder of the results is a function pointer in the message: \<open>None\<close> is NULL, and
  calling it is undefined.
\<close>

section \<open>Data\<close>

definition AUTH_NONE :: u32 where "AUTH_NONE = 0"
definition AUTH_UNIX :: u32 where "AUTH_UNIX = 1"
definition CALL :: u32 where "CALL = 0"
definition REPLY :: u32 where "REPLY = 1"
definition MSG_ACCEPTED :: u32 where "MSG_ACCEPTED = 0"
definition MSG_DENIED :: u32 where "MSG_DENIED = 1"
definition SUCCESS :: u32 where "SUCCESS = 0"
definition PROG_UNAVAIL :: u32 where "PROG_UNAVAIL = 1"
definition PROG_MISMATCH :: u32 where "PROG_MISMATCH = 2"
definition PROC_UNAVAIL :: u32 where "PROC_UNAVAIL = 3"
definition GARBAGE_ARGS :: u32 where "GARBAGE_ARGS = 4"
definition SYSTEM_ERR :: u32 where "SYSTEM_ERR = 5"
definition RPC_MISMATCH :: u32 where "RPC_MISMATCH = 0"
definition AUTH_ERROR :: u32 where "AUTH_ERROR = 1"
definition RPC_MSG_VERSION :: u32 where "RPC_MSG_VERSION = 2"

lemmas rpc_consts = AUTH_NONE_def AUTH_UNIX_def CALL_def REPLY_def MSG_ACCEPTED_def MSG_DENIED_def
  SUCCESS_def PROG_UNAVAIL_def PROG_MISMATCH_def PROC_UNAVAIL_def GARBAGE_ARGS_def SYSTEM_ERR_def
  RPC_MISMATCH_def AUTH_ERROR_def RPC_MSG_VERSION_def

lemma rpc_distinct [simp]:
  "CALL \<noteq> REPLY" "REPLY \<noteq> CALL" "MSG_ACCEPTED \<noteq> MSG_DENIED" "MSG_DENIED \<noteq> MSG_ACCEPTED"
  "SUCCESS \<noteq> PROG_MISMATCH" "PROG_MISMATCH \<noteq> SUCCESS" "RPC_MISMATCH \<noteq> AUTH_ERROR"
  "AUTH_ERROR \<noteq> RPC_MISMATCH"
  by (simp_all add: rpc_consts)

record opaque_auth =
  oa_flavor :: u32
  oa_base :: "byte list option"
  oa_length :: u32

record AUTH =
  ah_cred :: opaque_auth
  ah_verf :: opaque_auth

record call_body =
  rpcvers :: u32
  prog :: u32
  vers :: u32
  rproc :: u32
  cred :: opaque_auth
  verf :: opaque_auth

record 'r accepted_reply =
  ar_verf :: opaque_auth
  ar_stat :: u32
  results_proc :: "'r zproc option"
  results_where :: 'r
  ar_low :: u32
  ar_high :: u32

record rejected_reply =
  rr_stat :: u32
  rr_low :: u32
  rr_high :: u32

record 'r reply_body =
  rb_stat :: u32
  areply :: "'r accepted_reply"
  rreply :: rejected_reply

record 'r rpc_msg =
  msg_xid :: u32
  direction :: u32
  cbody :: call_body
  rbody :: "'r reply_body"

section \<open>Marshalling\<close>

definition oa_body :: "opaque_auth \<Rightarrow> byte list option \<times> u32" where
  "oa_body a = (oa_base a, oa_length a)"

definition oa_body_update ::
    "(byte list option \<times> u32 \<Rightarrow> byte list option \<times> u32) \<Rightarrow> opaque_auth \<Rightarrow> opaque_auth" where
  "oa_body_update f a = a\<lparr>oa_base := fst (f (oa_body a)), oa_length := snd (f (oa_body a))\<rparr>"

definition libnfs_opaque_cred :: "opaque_auth zproc" where
  "libnfs_opaque_cred =
     zseq (zfield libnfs_zdr_u_int oa_flavor oa_flavor_update)
          (zfield libnfs_zdr_bytes oa_body oa_body_update)"

definition libnfs_opaque_verf :: "opaque_auth zproc" where
  "libnfs_opaque_verf =
     zseq (zfield libnfs_zdr_u_int oa_flavor oa_flavor_update)
          (zfield libnfs_zdr_bytes oa_body oa_body_update)"

definition libnfs_rpc_call_body :: "call_body zproc" where
  "libnfs_rpc_call_body =
     zseq (zfield libnfs_zdr_u_int rpcvers rpcvers_update)
    (zseq (zfield libnfs_zdr_u_int prog prog_update)
    (zseq (zfield libnfs_zdr_u_int vers vers_update)
    (zseq (zfield libnfs_zdr_u_int rproc rproc_update)
    (zseq (zfield libnfs_opaque_cred cred cred_update)
          (zfield libnfs_opaque_verf verf verf_update)))))"

definition libnfs_accepted_reply :: "'r accepted_reply zproc" where
  "libnfs_accepted_reply =
     zseq (zfield libnfs_opaque_verf ar_verf ar_verf_update)
    (zseq (zfield libnfs_zdr_u_int ar_stat ar_stat_update)
    (\<lambda>z ar.
      if ar_stat ar = SUCCESS
      then (case results_proc ar of
              None \<Rightarrow> Undef
            | Some p \<Rightarrow> zfield p results_where results_where_update z ar)
      else if ar_stat ar = PROG_MISMATCH
      then zseq (zfield libnfs_zdr_u_int ar_low ar_low_update)
                (zfield libnfs_zdr_u_int ar_high ar_high_update) z ar
      else Ret True z ar))"

definition libnfs_rejected_reply :: "rejected_reply zproc" where
  "libnfs_rejected_reply =
     zseq (zfield libnfs_zdr_u_int rr_stat rr_stat_update)
    (\<lambda>z rr.
      if rr_stat rr = RPC_MISMATCH
      then zseq (zfield libnfs_zdr_u_int rr_low rr_low_update)
                (zfield libnfs_zdr_u_int rr_high rr_high_update) z rr
      else if rr_stat rr = AUTH_ERROR
      then zfield libnfs_zdr_u_int rr_low rr_low_update z rr
      else Ret True z rr)"

definition libnfs_rpc_reply_body :: "'r reply_body zproc" where
  "libnfs_rpc_reply_body =
     zseq (zfield libnfs_zdr_u_int rb_stat rb_stat_update)
    (\<lambda>z rb.
      if rb_stat rb = MSG_ACCEPTED then zfield libnfs_accepted_reply areply areply_update z rb
      else if rb_stat rb = MSG_DENIED then zfield libnfs_rejected_reply rreply rreply_update z rb
      else Ret False z rb)"

definition libnfs_rpc_msg :: "'r rpc_msg zproc" where
  "libnfs_rpc_msg =
     zseq (zfield libnfs_zdr_u_int msg_xid msg_xid_update)
    (zseq (zfield libnfs_zdr_u_int direction direction_update)
    (\<lambda>z msg.
      if direction msg = CALL then zfield libnfs_rpc_call_body cbody cbody_update z msg
      else if direction msg = REPLY then zfield libnfs_rpc_reply_body rbody rbody_update z msg
      else Ret False z msg))"

definition libnfs_zdr_callmsg :: "'r rpc_msg zproc" where
  "libnfs_zdr_callmsg z msg = libnfs_rpc_msg z msg"

definition libnfs_zdr_replymsg :: "'r rpc_msg zproc" where
  "libnfs_zdr_replymsg z msg = libnfs_rpc_msg z msg"

section \<open>Credentials\<close>

definition auth_none :: opaque_auth where
  "auth_none = \<lparr>oa_flavor = AUTH_NONE, oa_base = None, oa_length = 0\<rparr>"

definition authnone_create :: AUTH where
  "authnone_create = \<lparr>ah_cred = auth_none, ah_verf = auth_none\<rparr>"

text \<open>
  \<open>buf[idx] = htonl(w)\<close> in the credential's buffer, and the loop over the groups; a store
  outside the buffer and a group past the end of the array are \<open>None\<close>.
\<close>

definition put_word :: "byte list \<Rightarrow> nat \<Rightarrow> u32 \<Rightarrow> byte list option" where
  "put_word buf idx w = buf_write buf (4 * int idx) (be32 w)"

fun put_groups :: "byte list \<Rightarrow> nat \<Rightarrow> nat \<Rightarrow> u32 list \<Rightarrow> byte list option" where
  "put_groups buf idx 0 gs = Some buf"
| "put_groups buf idx (Suc n) [] = None"
| "put_groups buf idx (Suc n) (g # gs) =
     do { b \<leftarrow> put_word buf idx g; put_groups b (idx + 1) n gs }"

text \<open>
  The outer \<open>None\<close> is undefined behaviour, the inner one the NULL the function returns for
  more than 16 groups. \<open>now\<close> is \<open>rpc_current_time()\<close> converted to
  \<open>uint32_t\<close>; the allocations succeed.
\<close>

definition libnfs_authunix_create ::
    "u32 \<Rightarrow> byte list \<Rightarrow> u32 \<Rightarrow> u32 \<Rightarrow> u32 \<Rightarrow> u32 list \<Rightarrow> AUTH option option" where
  "libnfs_authunix_create now host uid gid len groups =
     (if len > 16 then Some None
      else
        let n = length host;
            sz = s32 (4 + 4 + align4 (int n) + 4 + 4 + 4 + uint len * 4);
            idx = 2 + (n + 3) div 4
        in if sz < 0 then None
           else do {
             b1 \<leftarrow> put_word (replicate (nat sz) 0) 0 now;
             b2 \<leftarrow> put_word b1 1 (word_of_nat n);
             b3 \<leftarrow> buf_write b2 8 host;
             b4 \<leftarrow> put_word b3 idx uid;
             b5 \<leftarrow> put_word b4 (idx + 1) gid;
             b6 \<leftarrow> put_word b5 (idx + 2) len;
             b7 \<leftarrow> put_groups b6 (idx + 3) (unat len) groups;
             Some (Some \<lparr>ah_cred = \<lparr>oa_flavor = AUTH_UNIX, oa_base = Some b7,
                                    oa_length = word_of_int sz\<rparr>,
                         ah_verf = auth_none\<rparr>)
           })"

definition libnfs_authunix_create_default :: "u32 \<Rightarrow> u32 \<Rightarrow> u32 \<Rightarrow> AUTH option option" where
  "libnfs_authunix_create_default now uid gid =
     libnfs_authunix_create now [108, 105, 98, 110, 102, 115] uid gid 0 []"


section \<open>Wire images\<close>

text \<open>
  What a sender may put into a message: a byte string with its length, or NULL with length 0,
  which the receiver gets as the empty string.
\<close>

definition bytes_sendable :: "byte list option \<times> u32 \<Rightarrow> bool" where
  "bytes_sendable x \<longleftrightarrow> x = (None, 0) \<or> bytes_ok x"

fun bytes_norm :: "byte list option \<times> u32 \<Rightarrow> byte list option \<times> u32" where
  "bytes_norm (None, n) = (Some [], n)"
| "bytes_norm (Some bs, n) = (Some bs, n)"

lemma padded_Nil [simp]: "padded [] = []"
  by (simp add: padded_def pad4_alt)

lemma null_bytes_encodes: "encodes libnfs_zdr_bytes (None, 0) (be32 0)"
  unfolding encodes_def
proof (intro conjI allI impI)
  fix z
  assume z: "zwf z" "x_op z = ZDR_ENCODE" "z_room z (length (be32 0))"
  have w: "zwf (z_put z (be32 0))" using z by (intro zwf_z_put) simp_all
  have r: "int_range (zpos z + 4)" "s32 (zpos z + 4) = zpos z + 4" "pad4 (zpos z + 4) = 0"
    using zwf_ranges [OF z(1)] z(1) by (simp_all add: pad4_add zwf_def) (simp add: pad4_alt)
  have f: "fits (splice (zbuf z) (zpos z) (be32 0)) (zpos z + 4) 0"
    using w by (simp add: zwf_def fits_def) linarith
  show "libnfs_zdr_bytes z (None, 0) = Ret True (z_put z (be32 0)) (None, 0)"
    using z r f zwf_ranges [OF z(1)] encodesD [OF u_int_encodes z(1,2), of 0] w
    by (simp add: libnfs_zdr_bytes_def Let_def buf_write_fits z_room_def s32_nonneg)
qed simp

lemma null_bytes_refuses: "refuses libnfs_zdr_bytes (None, 0) (be32 0)"
  unfolding refuses_def
proof (intro allI impI)
  fix z
  assume "zwf z" "x_op z = ZDR_ENCODE" "4 dvd zsize z" "\<not> z_room z (length (be32 0))"
  from refusesD [OF u_int_refuses this]
  show "\<exists>z' x'. libnfs_zdr_bytes z (None, 0) = Ret False z' x' \<and> length (zbuf z') = length (zbuf z) \<and>
      drop (nat (zsize z)) (zbuf z') = drop (nat (zsize z)) (zbuf z)"
    by (auto simp: libnfs_zdr_bytes_def)
qed

lemma sendable_encodes: "bytes_sendable x \<Longrightarrow> encodes libnfs_zdr_bytes x (bytes_enc x)"
  using bytes_encodes [of x] null_bytes_encodes by (auto simp: bytes_sendable_def)

lemma sendable_refuses: "bytes_sendable x \<Longrightarrow> refuses libnfs_zdr_bytes x (bytes_enc x)"
  using bytes_refuses [of x] null_bytes_refuses by (auto simp: bytes_sendable_def)

lemma sendable_decodes:
  "bytes_sendable x \<Longrightarrow> bytes_blank y \<Longrightarrow> decodes libnfs_zdr_bytes y (bytes_enc x) (bytes_norm x)"
  using bytes_decodes [of x y] bytes_decodes [of "(Some [], 0)" y]
  by (auto simp: bytes_sendable_def elim!: bytes_okE)

definition auth_sendable :: "opaque_auth \<Rightarrow> bool" where
  "auth_sendable a \<longleftrightarrow> bytes_sendable (oa_body a)"

definition auth_enc :: "opaque_auth \<Rightarrow> byte list" where
  "auth_enc a = be32 (oa_flavor a) @ bytes_enc (oa_body a)"

definition auth_norm :: "opaque_auth \<Rightarrow> opaque_auth" where
  "auth_norm a = oa_body_update bytes_norm a"

lemma oa_body_update_self [simp]: "oa_body_update (\<lambda>_. oa_body a) a = a"
  by (simp add: oa_body_update_def oa_body_def)

lemma cred_encodes: "auth_sendable a \<Longrightarrow> encodes libnfs_opaque_cred a (auth_enc a)"
  unfolding libnfs_opaque_cred_def auth_enc_def auth_sendable_def
  by (intro encodes_struct u_int_encodes sendable_encodes) simp_all

lemma cred_refuses: "auth_sendable a \<Longrightarrow> refuses libnfs_opaque_cred a (auth_enc a)"
  unfolding libnfs_opaque_cred_def auth_enc_def auth_sendable_def
  by (intro refuses_struct encodes_struct u_int_encodes u_int_refuses sendable_refuses) simp_all

lemma cred_decodes:
  "auth_sendable a \<Longrightarrow> oa_base y = None \<Longrightarrow>
   decodes libnfs_opaque_cred y (auth_enc a) (auth_norm a)"
  unfolding libnfs_opaque_cred_def auth_enc_def
  by (rule decodes_struct u_int_decodes sendable_decodes
     | simp add: auth_sendable_def auth_norm_def oa_body_def oa_body_update_def)+

lemma verf_is_cred: "libnfs_opaque_verf = libnfs_opaque_cred"
  by (simp add: libnfs_opaque_verf_def libnfs_opaque_cred_def)

lemmas auth_rules = cred_encodes cred_decodes cred_refuses

definition call_body_enc :: "call_body \<Rightarrow> byte list" where
  "call_body_enc c = be32 (rpcvers c) @ be32 (prog c) @ be32 (vers c) @ be32 (rproc c) @
     auth_enc (cred c) @ auth_enc (verf c)"

definition call_sendable :: "call_body \<Rightarrow> bool" where
  "call_sendable c \<longleftrightarrow> auth_sendable (cred c) \<and> auth_sendable (verf c)"

definition call_norm :: "call_body \<Rightarrow> call_body" where
  "call_norm c = c\<lparr>cred := auth_norm (cred c), verf := auth_norm (verf c)\<rparr>"

definition call_blank :: "call_body \<Rightarrow> bool" where
  "call_blank c \<longleftrightarrow> oa_base (cred c) = None \<and> oa_base (verf c) = None"

lemma call_body_encodes: "call_sendable c \<Longrightarrow> encodes libnfs_rpc_call_body c (call_body_enc c)"
  unfolding libnfs_rpc_call_body_def call_body_enc_def verf_is_cred
  by (intro encodes_struct u_int_encodes cred_encodes) (simp_all add: call_sendable_def)

lemma call_body_refuses: "call_sendable c \<Longrightarrow> refuses libnfs_rpc_call_body c (call_body_enc c)"
  unfolding libnfs_rpc_call_body_def call_body_enc_def verf_is_cred
  by (intro refuses_struct encodes_struct u_int_encodes u_int_refuses cred_encodes cred_refuses)
     (simp_all add: call_sendable_def)

lemma call_body_decodes:
  "call_sendable c \<Longrightarrow> call_blank y \<Longrightarrow>
   decodes libnfs_rpc_call_body y (call_body_enc c) (call_norm c)"
  unfolding libnfs_rpc_call_body_def call_body_enc_def verf_is_cred
  by (rule decodes_struct u_int_decodes cred_decodes
     | simp add: call_sendable_def call_blank_def call_norm_def)+

section \<open>Replies and messages\<close>

text \<open>
  The image of a message and what a receiver's message \<open>y\<close> holds afterwards: only the
  fields selected by the discriminants are assigned. \<open>renc\<close> is the image of the results.
\<close>

definition accepted_enc :: "('r \<Rightarrow> byte list) \<Rightarrow> 'r accepted_reply \<Rightarrow> byte list" where
  "accepted_enc renc a = auth_enc (ar_verf a) @ be32 (ar_stat a) @
     (if ar_stat a = SUCCESS then renc (results_where a)
      else if ar_stat a = PROG_MISMATCH then be32 (ar_low a) @ be32 (ar_high a)
      else [])"

definition accepted_received :: "'r accepted_reply \<Rightarrow> 'r accepted_reply \<Rightarrow> 'r accepted_reply" where
  "accepted_received y a =
     (let y1 = y\<lparr>ar_verf := auth_norm (ar_verf a), ar_stat := ar_stat a\<rparr>
      in if ar_stat a = SUCCESS then y1\<lparr>results_where := results_where a\<rparr>
         else if ar_stat a = PROG_MISMATCH then y1\<lparr>ar_low := ar_low a, ar_high := ar_high a\<rparr>
         else y1)"

definition rejected_enc :: "rejected_reply \<Rightarrow> byte list" where
  "rejected_enc r = be32 (rr_stat r) @
     (if rr_stat r = RPC_MISMATCH then be32 (rr_low r) @ be32 (rr_high r)
      else if rr_stat r = AUTH_ERROR then be32 (rr_low r) else [])"

definition rejected_received :: "rejected_reply \<Rightarrow> rejected_reply \<Rightarrow> rejected_reply" where
  "rejected_received y r =
     (let y1 = y\<lparr>rr_stat := rr_stat r\<rparr>
      in if rr_stat r = RPC_MISMATCH then y1\<lparr>rr_low := rr_low r, rr_high := rr_high r\<rparr>
         else if rr_stat r = AUTH_ERROR then y1\<lparr>rr_low := rr_low r\<rparr> else y1)"

definition reply_body_enc :: "('r \<Rightarrow> byte list) \<Rightarrow> 'r reply_body \<Rightarrow> byte list" where
  "reply_body_enc renc b = be32 (rb_stat b) @
     (if rb_stat b = MSG_ACCEPTED then accepted_enc renc (areply b)
      else if rb_stat b = MSG_DENIED then rejected_enc (rreply b) else [])"

definition reply_body_received :: "'r reply_body \<Rightarrow> 'r reply_body \<Rightarrow> 'r reply_body" where
  "reply_body_received y b =
     (let y1 = y\<lparr>rb_stat := rb_stat b\<rparr>
      in if rb_stat b = MSG_ACCEPTED then y1\<lparr>areply := accepted_received (areply y) (areply b)\<rparr>
         else if rb_stat b = MSG_DENIED then y1\<lparr>rreply := rejected_received (rreply y) (rreply b)\<rparr>
         else y1)"

definition msg_enc :: "('r \<Rightarrow> byte list) \<Rightarrow> 'r rpc_msg \<Rightarrow> byte list" where
  "msg_enc renc m = be32 (msg_xid m) @ be32 (direction m) @
     (if direction m = CALL then call_body_enc (cbody m)
      else if direction m = REPLY then reply_body_enc renc (rbody m) else [])"

definition msg_received :: "'r rpc_msg \<Rightarrow> 'r rpc_msg \<Rightarrow> 'r rpc_msg" where
  "msg_received y m =
     (let y1 = y\<lparr>msg_xid := msg_xid m, direction := direction m\<rparr>
      in if direction m = CALL then y1\<lparr>cbody := call_norm (cbody m)\<rparr>
         else if direction m = REPLY then y1\<lparr>rbody := reply_body_received (rbody y) (rbody m)\<rparr>
         else y1)"

text \<open>Well-formed messages, and the messages a receiver may start from.\<close>

definition accepted_sendable :: "'r zproc \<Rightarrow> ('r \<Rightarrow> bool) \<Rightarrow> 'r accepted_reply \<Rightarrow> bool" where
  "accepted_sendable p ok a \<longleftrightarrow> auth_sendable (ar_verf a) \<and>
     (ar_stat a = SUCCESS \<longrightarrow> results_proc a = Some p \<and> ok (results_where a))"

definition reply_sendable :: "'r zproc \<Rightarrow> ('r \<Rightarrow> bool) \<Rightarrow> 'r reply_body \<Rightarrow> bool" where
  "reply_sendable p ok b \<longleftrightarrow>
     rb_stat b = MSG_ACCEPTED \<and> accepted_sendable p ok (areply b) \<or> rb_stat b = MSG_DENIED"

definition msg_sendable :: "'r zproc \<Rightarrow> ('r \<Rightarrow> bool) \<Rightarrow> 'r rpc_msg \<Rightarrow> bool" where
  "msg_sendable p ok m \<longleftrightarrow>
     direction m = CALL \<and> call_sendable (cbody m) \<or>
     direction m = REPLY \<and> reply_sendable p ok (rbody m)"

definition reply_blank :: "'r zproc \<Rightarrow> ('r \<Rightarrow> bool) \<Rightarrow> 'r reply_body \<Rightarrow> bool" where
  "reply_blank p blank y \<longleftrightarrow> oa_base (ar_verf (areply y)) = None \<and>
     results_proc (areply y) = Some p \<and> blank (results_where (areply y))"

definition msg_blank :: "'r zproc \<Rightarrow> ('r \<Rightarrow> bool) \<Rightarrow> 'r rpc_msg \<Rightarrow> bool" where
  "msg_blank p blank y \<longleftrightarrow> call_blank (cbody y) \<and> reply_blank p blank (rbody y)"

lemma encodes_if:
  "(c s \<Longrightarrow> encodes p s as) \<Longrightarrow> (\<not> c s \<Longrightarrow> encodes q s bs) \<Longrightarrow>
   encodes (\<lambda>z s. if c s then p z s else q z s) s (if c s then as else bs)"
  by (auto simp: encodes_def)

lemma decodes_if:
  "c s = b \<Longrightarrow> (b \<Longrightarrow> decodes p s as x) \<Longrightarrow> (\<not> b \<Longrightarrow> decodes q s bs y) \<Longrightarrow>
   decodes (\<lambda>z s. if c s then p z s else q z s) s (if b then as else bs) (if b then x else y)"
  by (auto simp: decodes_def)

lemma decodes_if_True:
  "c s \<Longrightarrow> decodes p s bs x \<Longrightarrow> decodes (\<lambda>z s. if c s then p z s else q z s) s bs x"
  by (auto simp: decodes_def)

lemma encodes_call_ptr:
  "f s = Some v \<Longrightarrow> encodes (g v) s bs \<Longrightarrow>
   encodes (\<lambda>z s. case f s of None \<Rightarrow> Undef | Some v \<Rightarrow> g v z s) s bs"
  by (auto simp: encodes_def)

lemma decodes_call_ptr:
  "f s = Some v \<Longrightarrow> decodes (g v) s bs x \<Longrightarrow>
   decodes (\<lambda>z s. case f s of None \<Rightarrow> Undef | Some v \<Rightarrow> g v z s) s bs x"
  by (auto simp: decodes_def)

lemma encodes_done: "encodes (\<lambda>z s. Ret True z s) s []"
  by (auto simp: encodes_def z_put_def)

lemma decodes_done: "y = s \<Longrightarrow> decodes (\<lambda>z s. Ret True z s) s [] y"
  unfolding decodes_def
proof (intro conjI allI impI)
  fix z :: zdr
  assume "y = s"
  then show "\<exists>m. Ret True z s = Ret True (z_skip z (length ([] :: byte list)) m) y"
    by (intro exI [of _ "zmem z"]) (simp add: z_skip_def)
qed simp

lemmas encodes_branch = encodes_if encodes_call_ptr encodes_done
lemmas decodes_branch = decodes_if decodes_call_ptr decodes_done

lemma rejected_encodes: "encodes libnfs_rejected_reply r (rejected_enc r)"
  unfolding libnfs_rejected_reply_def rejected_enc_def
  by (rule encodes_struct encodes_branch u_int_encodes | simp)+

lemma rejected_decodes: "decodes libnfs_rejected_reply y (rejected_enc r) (rejected_received y r)"
  unfolding libnfs_rejected_reply_def rejected_enc_def rejected_received_def Let_def
  by (rule decodes_struct decodes_branch u_int_decodes | simp)+

context zdr_codec
begin

lemma accepted_encodes:
  "accepted_sendable proc ok a \<Longrightarrow> encodes libnfs_accepted_reply a (accepted_enc enc a)"
  unfolding libnfs_accepted_reply_def accepted_enc_def verf_is_cred
  by (rule encodes_struct encodes_branch u_int_encodes cred_encodes encode
     | simp add: accepted_sendable_def)+

lemma accepted_decodes:
  "accepted_sendable proc ok a \<Longrightarrow> oa_base (ar_verf y) = None \<Longrightarrow> results_proc y = Some proc \<Longrightarrow>
   blank (results_where y) \<Longrightarrow>
   decodes libnfs_accepted_reply y (accepted_enc enc a) (accepted_received y a)"
  unfolding libnfs_accepted_reply_def accepted_enc_def verf_is_cred accepted_received_def Let_def
  by (rule decodes_struct decodes_branch u_int_decodes cred_decodes decode
     | simp add: accepted_sendable_def)+

lemma reply_body_encodes:
  "reply_sendable proc ok b \<Longrightarrow> encodes libnfs_rpc_reply_body b (reply_body_enc enc b)"
  unfolding libnfs_rpc_reply_body_def reply_body_enc_def
  by (rule encodes_struct encodes_branch u_int_encodes accepted_encodes rejected_encodes
     | simp add: reply_sendable_def)+

lemma reply_body_decodes:
  "reply_sendable proc ok b \<Longrightarrow> reply_blank proc blank y \<Longrightarrow>
   decodes libnfs_rpc_reply_body y (reply_body_enc enc b) (reply_body_received y b)"
  unfolding libnfs_rpc_reply_body_def reply_body_enc_def reply_body_received_def Let_def
  by (rule decodes_struct decodes_branch u_int_decodes accepted_decodes rejected_decodes
     | simp add: reply_sendable_def reply_blank_def)+

lemma msg_encodes: "msg_sendable proc ok m \<Longrightarrow> encodes libnfs_rpc_msg m (msg_enc enc m)"
  unfolding libnfs_rpc_msg_def msg_enc_def
  by (rule encodes_struct encodes_branch u_int_encodes call_body_encodes reply_body_encodes
     | simp add: msg_sendable_def)+

lemma msg_decodes:
  "msg_sendable proc ok m \<Longrightarrow> msg_blank proc blank y \<Longrightarrow>
   decodes libnfs_rpc_msg y (msg_enc enc m) (msg_received y m)"
  unfolding libnfs_rpc_msg_def msg_enc_def msg_received_def Let_def
  by (rule decodes_struct decodes_branch u_int_decodes call_body_decodes reply_body_decodes
     | simp add: msg_sendable_def msg_blank_def)+

end

section \<open>The AUTH_SYS credential\<close>

text \<open>The credential body of RFC 5531: stamp, machine name, uid, gid and the groups.\<close>

definition authsys_enc :: "u32 \<Rightarrow> byte list \<Rightarrow> u32 \<Rightarrow> u32 \<Rightarrow> u32 list \<Rightarrow> byte list" where
  "authsys_enc now host uid gid gs =
     be32 now @ string_enc (Some host) @ be32 uid @ be32 gid @
     array_enc be32 (gs, word_of_nat (length gs))"

lemma buf_write_front:
  assumes "p = int (length d)" "length xs \<le> n"
  shows "buf_write (d @ replicate n 0) p xs = Some ((d @ xs) @ replicate (n - length xs) 0)"
  using assms by (simp add: buf_write_def)

lemma put_word_front:
  "4 * idx = length d \<Longrightarrow> 4 \<le> n \<Longrightarrow>
   put_word (d @ replicate n 0) idx w = Some ((d @ be32 w) @ replicate (n - 4) 0)"
  unfolding put_word_def by (subst buf_write_front) simp_all

lemma put_groups_front:
  "4 * idx = length d \<Longrightarrow> 4 * length gs \<le> n \<Longrightarrow>
   put_groups (d @ replicate n 0) idx (length gs) gs =
     Some ((d @ concat (map be32 gs)) @ replicate (n - 4 * length gs) 0)"
proof (induction gs arbitrary: d idx n)
  case (Cons g gs)
  show ?case
    using Cons.prems Cons.IH [of "idx + 1" "d @ be32 g" "n - 4"]
    by (simp add: put_word_front) 
qed simp

lemma buf_write_host:
  assumes "length d = 8" "length (padded host) \<le> n"
  shows "buf_write (d @ replicate n 0) 8 host =
    Some ((d @ padded host) @ replicate (n - length (padded host)) 0)"
proof -
  let ?p = "nat (pad4 (int (length host)))"
  have len: "length (padded host) = length host + ?p" by (simp add: padded_def)
  have "replicate (n - length host) (0 :: byte) =
      replicate ?p 0 @ replicate (n - length (padded host)) 0"
    using assms(2) by (simp add: len flip: replicate_add)
  then show ?thesis
    using assms buf_write_front [of 8 d host n] by (simp add: padded_def len)
qed

lemma length_concat_be32 [simp]: "length (concat (map be32 gs)) = 4 * length gs"
  by (induction gs) simp_all

lemma padded_words: "length (padded host) = 4 * ((length host + 3) div 4)"
proof -
  have "int (length (padded host)) = int (4 * ((length host + 3) div 4))"
    by (simp add: length_padded align4_alt zdiv_int)
  then show ?thesis by (simp only: of_nat_eq_iff)
qed

lemma length_authsys_enc:
  "length (authsys_enc now host uid gid gs) = 20 + length (padded host) + 4 * length gs"
  by (simp add: authsys_enc_def)

lemma authunix_create_ok:
  assumes "length host \<le> 2 ^ 20" "unat len = length gs" "len \<le> 16"
  shows "libnfs_authunix_create now host uid gid len gs =
    Some (Some \<lparr>ah_cred = \<lparr>oa_flavor = AUTH_UNIX, oa_base = Some (authsys_enc now host uid gid gs),
                           oa_length = word_of_nat (length (authsys_enc now host uid gid gs))\<rparr>,
                ah_verf = auth_none\<rparr>)"
proof -
  let ?h = "length (padded host)"
  let ?q = "(length host + 3) div 4"
  let ?n = "20 + ?h + 4 * length gs"
  have g: "length gs \<le> 16" using assms(2,3) by (simp add: word_le_nat_alt)
  have u: "uint len = int (length gs)" by (metis assms(2) uint_nat)
  have h: "?h = 4 * ?q" by (rule padded_words)
  have "?h \<le> 2 ^ 20 + 3" using assms(1) unfolding h by linarith
  then have "int ?n < 2147483648" using g by simp
  moreover have "4 + 4 + align4 (int (length host)) + 4 + 4 + 4 + uint len * 4 = int ?n"
    using u by (simp flip: length_padded)
  ultimately have sz: "s32 (4 + 4 + align4 (int (length host)) + 4 + 4 + 4 + uint len * 4) = int ?n"
    by (simp add: s32_nonneg)
  have len: "word_of_nat (length gs) = len" by (simp flip: assms(2))
  let ?r = "12 + 4 * length gs"
  let ?d = "be32 now @ be32 (word_of_nat (length host))"
  let ?e = "(?d @ padded host) @ be32 uid"
  have b1: "put_word (replicate ?n 0) 0 now = Some (be32 now @ replicate (4 + ?h + ?r) 0)"
    using put_word_front [of 0 "[]" ?n now] by (simp add: algebra_simps)
  have b2: "put_word (be32 now @ replicate (4 + ?h + ?r) 0) 1 w =
      Some ((be32 now @ be32 w) @ replicate (?h + ?r) 0)" for w
    using put_word_front [of 1 "be32 now" "4 + ?h + ?r" w] by (simp add: algebra_simps)
  have b3: "buf_write (?d @ replicate (?h + ?r) 0) 8 host = Some ((?d @ padded host) @ replicate ?r 0)"
    using buf_write_host [of ?d host "?h + ?r"] by simp
  have b4: "put_word ((?d @ padded host) @ replicate ?r 0) (2 + ?q) uid =
      Some (?e @ replicate (8 + 4 * length gs) 0)"
    using put_word_front [of "2 + ?q" "?d @ padded host" ?r uid] h by simp
  have b5: "put_word (?e @ replicate (8 + 4 * length gs) 0) (2 + ?q + 1) gid =
      Some ((?e @ be32 gid) @ replicate (4 + 4 * length gs) 0)"
    using put_word_front [of "2 + ?q + 1" ?e "8 + 4 * length gs" gid] h by simp
  have b6: "put_word ((?e @ be32 gid) @ replicate (4 + 4 * length gs) 0) (2 + ?q + 2) len =
      Some (((?e @ be32 gid) @ be32 len) @ replicate (4 * length gs) 0)"
    using put_word_front [of "2 + ?q + 2" "?e @ be32 gid" "4 + 4 * length gs" len] h by simp
  have b7: "put_groups (((?e @ be32 gid) @ be32 len) @ replicate (4 * length gs) 0) (2 + ?q + 3)
      (length gs) gs = Some ((((?e @ be32 gid) @ be32 len) @ concat (map be32 gs)) @ replicate 0 0)"
    using put_groups_front [of "2 + ?q + 3" "(?e @ be32 gid) @ be32 len" gs "4 * length gs"] h by simp
  have n: "\<not> int ?n < 0" "nat (int ?n) = ?n" "(len > 16) = False" using assms(3) by auto
  show ?thesis
    unfolding libnfs_authunix_create_def Let_def sz n if_False b1 b2 b3 b4 b5 b6 b7 assms(2)
      Option.bind.bind_lunit
    by (simp add: authsys_enc_def len)
qed

section \<open>Properties\<close>

text \<open>
  C16. Whatever well-formed RPC message the sender marshals, a call or any of the replies
  (accepted with results, with a version range or without data, or denied), the receiver that
  reads the bytes back gets the same xid and direction, the same discriminants and the same
  selected fields, given a marshalling function for the results that keeps its contract.
\<close>

theorem rpc_msg_round_trip:
  assumes "zdr_codec p enc ok blank" "msg_sendable p ok m" "msg_blank p blank y"
    and "zwf z" "x_op z = ZDR_ENCODE" "z_room z (length (msg_enc enc m))" "ample z"
  shows "\<exists>z' mem. libnfs_zdr_callmsg z m = Ret True z' m \<and>
           zpos z' = zpos z + int (length (msg_enc enc m)) \<and>
           libnfs_zdr_replymsg (z'\<lparr>x_op := ZDR_DECODE, zpos := zpos z\<rparr>) y =
             Ret True (z'\<lparr>x_op := ZDR_DECODE, zmem := mem\<rparr>) (msg_received y m)"
  unfolding libnfs_zdr_callmsg_def libnfs_zdr_replymsg_def
  using encode_then_decode [OF zdr_codec.msg_encodes [OF assms(1,2)]
      zdr_codec.msg_decodes [OF assms(1-3)] assms(4-7)] .

definition zero_auth :: opaque_auth where
  "zero_auth = \<lparr>oa_flavor = 0, oa_base = None, oa_length = 0\<rparr>"

definition zero_reply :: "'r zproc option \<Rightarrow> 'r \<Rightarrow> 'r reply_body" where
  "zero_reply p r = \<lparr>rb_stat = 0, areply = \<lparr>ar_verf = zero_auth, ar_stat = 0, results_proc = p,
     results_where = r, ar_low = 0, ar_high = 0\<rparr>, rreply = \<lparr>rr_stat = 0, rr_low = 0, rr_high = 0\<rparr>\<rparr>"

definition zero_call :: call_body where
  "zero_call = \<lparr>rpcvers = 0, prog = 0, vers = 0, rproc = 0, cred = zero_auth, verf = zero_auth\<rparr>"

text \<open>A message whose memory is zero, but for the decoder of the results and its object.\<close>

definition zero_msg :: "'r zproc option \<Rightarrow> 'r \<Rightarrow> 'r rpc_msg" where
  "zero_msg p r = \<lparr>msg_xid = 0, direction = 0, cbody = zero_call, rbody = zero_reply p r\<rparr>"

lemmas zero_defs = zero_msg_def zero_call_def zero_reply_def zero_auth_def

theorem rpc_msg_round_trip_witness:
  "\<exists>z' mem. libnfs_zdr_callmsg (sample_zdr\<lparr>zbuf := replicate 64 0, zsize := 64\<rparr>)
       ((zero_msg (Some libnfs_zdr_u_int) 7)\<lparr>msg_xid := 5, direction := REPLY\<rparr>) =
       Ret True z' ((zero_msg (Some libnfs_zdr_u_int) 7)\<lparr>msg_xid := 5, direction := REPLY\<rparr>) \<and>
     libnfs_zdr_replymsg (z'\<lparr>x_op := ZDR_DECODE, zpos := 0\<rparr>) (zero_msg (Some libnfs_zdr_u_int) 0) =
       Ret True (z'\<lparr>x_op := ZDR_DECODE, zmem := mem\<rparr>)
         (msg_received (zero_msg (Some libnfs_zdr_u_int) 0)
           ((zero_msg (Some libnfs_zdr_u_int) 7)\<lparr>msg_xid := 5, direction := REPLY\<rparr>))"
proof -
  let ?m = "(zero_msg (Some libnfs_zdr_u_int) 7)\<lparr>msg_xid := 5, direction := REPLY\<rparr>"
  let ?z = "sample_zdr\<lparr>zbuf := replicate 64 0, zsize := 64\<rparr>"
  have "msg_sendable libnfs_zdr_u_int (\<lambda>_. True) ?m"
    by (simp add: msg_sendable_def reply_sendable_def accepted_sendable_def auth_sendable_def
        bytes_sendable_def oa_body_def zero_defs rpc_consts)
  moreover have "msg_blank libnfs_zdr_u_int (\<lambda>_. True) (zero_msg (Some libnfs_zdr_u_int) 0)"
    by (simp add: msg_blank_def reply_blank_def call_blank_def zero_defs)
  moreover have "zwf ?z" "x_op ?z = ZDR_ENCODE" "ample ?z" "zpos ?z = 0"
    by (simp_all add: sample_zdr_def zwf_def ample_def)
  moreover have "z_room ?z (length (msg_enc be32 ?m))"
    by (simp add: z_room_def sample_zdr_def msg_enc_def reply_body_enc_def accepted_enc_def
        auth_enc_def oa_body_def zero_defs rpc_consts)
  ultimately show ?thesis
    using rpc_msg_round_trip [of libnfs_zdr_u_int be32 "\<lambda>_. True" "\<lambda>_. True" ?m
        "zero_msg (Some libnfs_zdr_u_int) 0" ?z] u_int.zdr_codec_axioms by auto
qed

text \<open>
  The AUTH_SYS credential: more than 16 groups are refused with NULL; otherwise no store
  leaves the buffer, the buffer is the RFC 5531 image of stamp, name, ids and groups, and its
  length field is the length of the buffer.
\<close>

theorem authunix_create_wire:
  assumes "length host \<le> 2 ^ 20" "unat len = length gs"
  shows "libnfs_authunix_create now host uid gid len gs =
    Some (if len > 16 then None
          else Some \<lparr>ah_cred = \<lparr>oa_flavor = AUTH_UNIX,
                                oa_base = Some (authsys_enc now host uid gid gs),
                                oa_length = word_of_nat (20 + length (padded host) + 4 * length gs)\<rparr>,
                     ah_verf = auth_none\<rparr>)"
proof (cases "len > 16")
  case True
  then show ?thesis by (simp add: libnfs_authunix_create_def)
next
  case False
  then show ?thesis
    using authunix_create_ok [OF assms, of now uid gid] by (simp add: length_authsys_enc)
qed

theorem authunix_create_wire_witness:
  "libnfs_authunix_create 9 [97, 98] 1 2 1 [5] =
     Some (Some \<lparr>ah_cred = \<lparr>oa_flavor = AUTH_UNIX, oa_base = Some (authsys_enc 9 [97, 98] 1 2 [5]),
                            oa_length = 28\<rparr>, ah_verf = auth_none\<rparr>)"
  using authunix_create_wire [of "[97, 98]" 1 "[5]" 9 1 2] by (simp add: padded_words)

end
