(* ===== verification/Pdu_Queue.thy ===== *)
theory Pdu_Queue
  imports Prelude
begin

text \<open>
  The singly linked queues of PDUs, \<open>src/lib/pdu.c\<close> lines 68 to 206: \<open>rpc_reset_queue\<close>,
  \<open>rpc_enqueue\<close>, the list part of \<open>rpc_return_to_outqueue\<close> and
  \<open>rpc_remove_pdu_from_queue\<close>. A PDU is an address; \<open>next\<close> is the heap of the
  \<open>next\<close> fields, shared by the output queue and all buckets of the waiting queue. A
  failing \<open>assert\<close> and a NULL dereference are \<open>None\<close>.

  The heap operations are refined to operations on lists: \<open>queue_rep\<close> relates a queue to
  the list of its PDUs, the locale \<open>pdu_queue\<close> is the contract the RPC layer relies on, and
  its interpretation shows that the pointer code keeps it. The frame lemmas show that an
  operation on one queue leaves every disjoint queue in the same heap alone.
\<close>

type_synonym addr = nat
type_synonym links = "addr \<Rightarrow> addr option"

record rpc_queue =
  head :: "addr option"
  tail :: "addr option"

section \<open>The pointer operations\<close>

definition rpc_reset_queue :: "rpc_queue \<Rightarrow> rpc_queue" where
  "rpc_reset_queue q = q\<lparr>head := None, tail := None\<rparr>"

definition rpc_enqueue :: "links \<times> rpc_queue \<Rightarrow> addr \<Rightarrow> (links \<times> rpc_queue) option" where
  "rpc_enqueue = (\<lambda>(nx, q) pdu.
     if head q = None
     then (if tail q \<noteq> None then None
           else Some (nx(pdu := None), q\<lparr>head := Some pdu, tail := Some pdu\<rparr>))
     else if Some pdu = head q \<or> Some pdu = tail q then None
     else case tail q of
            None \<Rightarrow> None
          | Some t \<Rightarrow> Some ((nx(t := Some pdu))(pdu := None), q\<lparr>tail := Some pdu\<rparr>))"

definition return_to_queue :: "links \<times> rpc_queue \<Rightarrow> addr \<Rightarrow> links \<times> rpc_queue" where
  "return_to_queue = (\<lambda>(nx, q) pdu.
     case head q of
       None \<Rightarrow> (nx(pdu := None), q\<lparr>head := Some pdu, tail := Some pdu\<rparr>)
     | Some h \<Rightarrow>
         if head q = tail q
         then ((nx(h := Some pdu))(pdu := None), q\<lparr>tail := Some pdu\<rparr>)
         else ((nx(pdu := nx h))(h := Some pdu), q))"

text \<open>The search loop of the removal; on a cyclic list it does not return.\<close>

partial_function (option) find_prev :: "links \<Rightarrow> addr \<Rightarrow> addr \<Rightarrow> addr option" where
  [code]: "find_prev nx remove_pdu pdu =
     (case nx pdu of
        None \<Rightarrow> Some pdu
      | Some n \<Rightarrow> if n = remove_pdu then Some pdu else find_prev nx remove_pdu n)"

definition rpc_remove_pdu_from_queue ::
    "links \<times> rpc_queue \<Rightarrow> addr \<Rightarrow> ((links \<times> rpc_queue) \<times> bool) option" where
  "rpc_remove_pdu_from_queue = (\<lambda>(nx, q) r.
     case head q of
       None \<Rightarrow> if tail q \<noteq> None then None else Some ((nx, q), False)
     | Some h \<Rightarrow>
         if tail q = None then None
         else if h = r
         then (if tail q = Some r
               then (if nx r \<noteq> None then None
                     else Some ((nx(r := None), q\<lparr>head := nx r, tail := None\<rparr>), True))
               else if nx r = None then None
               else Some ((nx(r := None), q\<lparr>head := nx r\<rparr>), True))
         else case find_prev nx r h of
                None \<Rightarrow> None
              | Some pdu \<Rightarrow>
                  if nx pdu = None then Some ((nx, q), False)
                  else Some (((nx(pdu := nx r))(r := None),
                              if tail q = Some r then q\<lparr>tail := Some pdu\<rparr> else q), True))"

section \<open>Queues as lists\<close>

text \<open>\<open>lseg nx h xs e\<close>: following \<open>next\<close> from \<open>h\<close> visits \<open>xs\<close> and arrives at \<open>e\<close>.\<close>

fun lseg :: "links \<Rightarrow> addr option \<Rightarrow> addr list \<Rightarrow> addr option \<Rightarrow> bool" where
  "lseg nx h [] e \<longleftrightarrow> h = e"
| "lseg nx h (x # xs) e \<longleftrightarrow> h = Some x \<and> lseg nx (nx x) xs e"

definition queue_rep :: "links \<times> rpc_queue \<Rightarrow> addr list \<Rightarrow> bool" where
  "queue_rep = (\<lambda>(nx, q) xs.
     lseg nx (head q) xs None \<and> distinct xs \<and> tail q = (if xs = [] then None else Some (last xs)))"

text \<open>Put a PDU right behind the head.\<close>

fun after_head :: "'a \<Rightarrow> 'a list \<Rightarrow> 'a list" where
  "after_head p [] = [p]"
| "after_head p (x # xs) = x # p # xs"

lemma set_after_head [simp]: "set (after_head p xs) = insert p (set xs)"
  by (cases xs) auto

lemma distinct_after_head [simp]: "distinct (after_head p xs) \<longleftrightarrow> p \<notin> set xs \<and> distinct xs"
  by (cases xs) auto

lemma lseg_cong: "(\<And>a. a \<in> set xs \<Longrightarrow> nx' a = nx a) \<Longrightarrow> lseg nx' h xs e = lseg nx h xs e"
  by (induction xs arbitrary: h) simp_all

lemma lseg_upd [simp]: "p \<notin> set xs \<Longrightarrow> lseg (nx(p := v)) h xs e = lseg nx h xs e"
  by (rule lseg_cong) auto

lemma lseg_append: "lseg nx h (xs @ ys) e \<longleftrightarrow> (\<exists>m. lseg nx h xs m \<and> lseg nx m ys e)"
  by (induction xs arbitrary: h) auto

lemma lseg_last: "lseg nx h xs e \<Longrightarrow> xs \<noteq> [] \<Longrightarrow> nx (last xs) = e"
  by (induction xs arbitrary: h) auto

lemma find_prev_lseg:
  "lseg nx (Some x) (x # xs) None \<Longrightarrow> x \<noteq> r \<Longrightarrow>
   find_prev nx r x = Some (last (x # takeWhile (\<lambda>a. a \<noteq> r) xs))"
proof (induction xs arbitrary: x)
  case Nil
  then show ?case by (subst find_prev.simps) simp
next
  case (Cons y ys)
  then have n: "nx x = Some y" by simp
  show ?case using Cons by (subst find_prev.simps) (auto simp: n)
qed

text \<open>The queue around a member that is not its head.\<close>

lemma split_member:
  assumes "r \<in> set xs" "distinct xs" "xs = x # ys" "x \<noteq> r"
  obtains as p bs where "xs = as @ p # r # bs" "p = last (x # takeWhile (\<lambda>a. a \<noteq> r) ys)"
proof -
  have "r \<in> set ys" using assms by auto
  then obtain cs bs where ys: "ys = cs @ r # bs" "r \<notin> set cs" by (meson split_list_first)
  then have tw: "takeWhile (\<lambda>a. a \<noteq> r) ys = cs" by (induction cs arbitrary: ys) auto
  have "xs = butlast (x # cs) @ last (x # cs) # r # bs"
    using assms(3) ys(1) append_butlast_last_id [of "x # cs"] by (metis append.assoc append_Cons append_Nil list.distinct(1))
  then show thesis using that tw by metis
qed

section \<open>The operations refine list operations\<close>

lemma reset_rep: "queue_rep (nx, rpc_reset_queue q) []"
  by (simp add: queue_rep_def rpc_reset_queue_def)

lemma enqueue_rep:
  assumes "queue_rep (nx, q) xs" "p \<notin> set xs"
  obtains nx' q' where "rpc_enqueue (nx, q) p = Some (nx', q')" "queue_rep (nx', q') (xs @ [p])"
    "\<And>a. a \<notin> insert p (set xs) \<Longrightarrow> nx' a = nx a"
proof (cases "xs = []")
  case True
  then show thesis
    using assms by (intro that [of "nx(p := None)" "q\<lparr>head := Some p, tail := Some p\<rparr>"])
      (auto simp: queue_rep_def rpc_enqueue_def)
next
  case False
  then obtain ys t where xs: "xs = ys @ [t]" by (metis append_butlast_last_id)
  let ?nx = "(nx(t := Some p))(p := None)"
  have rep: "lseg nx (head q) ys (Some t)" "nx t = None" "t \<notin> set ys" "tail q = Some t"
    using assms by (auto simp: queue_rep_def xs lseg_append)
  have "head q \<noteq> None" "head q \<noteq> Some p"
    using assms False by (cases xs; auto simp: queue_rep_def)+
  then have "rpc_enqueue (nx, q) p = Some (?nx, q\<lparr>tail := Some p\<rparr>)"
    using rep assms(2) by (auto simp: rpc_enqueue_def xs)
  moreover have "queue_rep (?nx, q\<lparr>tail := Some p\<rparr>) (xs @ [p])"
    using assms rep by (auto simp: queue_rep_def xs lseg_append)
  ultimately show thesis by (rule that) (auto simp: xs)
qed

lemma return_rep:
  assumes "queue_rep (nx, q) xs" "p \<notin> set xs"
  shows "queue_rep (return_to_queue (nx, q) p) (after_head p xs)"
    and "a \<notin> insert p (set xs) \<Longrightarrow> fst (return_to_queue (nx, q) p) a = nx a"
proof -
  show "queue_rep (return_to_queue (nx, q) p) (after_head p xs)"
  proof (cases "length xs < 2")
    case True
    then have "xs = [] \<or> (\<exists>x. xs = [x])" by (cases xs) auto
    then show ?thesis using assms by (auto simp: queue_rep_def return_to_queue_def)
  next
    case False
    then obtain x y ys where xs: "xs = x # y # ys" by (cases xs; cases "List.tl xs") auto
    have "x \<noteq> last (y # ys)" using assms xs last_in_set [of "y # ys"] by (auto simp: queue_rep_def)
    then have "return_to_queue (nx, q) p = ((nx(p := Some y))(x := Some p), q)"
      using assms by (auto simp: queue_rep_def return_to_queue_def xs)
    then show ?thesis using assms by (auto simp: queue_rep_def xs)
  qed
  show "a \<notin> insert p (set xs) \<Longrightarrow> fst (return_to_queue (nx, q) p) a = nx a"
    using assms by (cases xs) (auto simp: queue_rep_def return_to_queue_def)
qed

lemma remove_absent:
  assumes "queue_rep (nx, q) xs" "r \<notin> set xs"
  shows "rpc_remove_pdu_from_queue (nx, q) r = Some ((nx, q), False)"
proof (cases xs)
  case Nil
  then show ?thesis using assms by (simp add: queue_rep_def rpc_remove_pdu_from_queue_def)
next
  case (Cons x ys)
  have tw: "takeWhile (\<lambda>a. a \<noteq> r) ys = ys" using assms(2) Cons by (auto simp: takeWhile_eq_all_conv)
  have "find_prev nx r x = Some (last (x # ys))"
    using assms Cons by (subst find_prev_lseg [of nx x ys r]) (auto simp: queue_rep_def tw)
  moreover have "nx (last (x # ys)) = None"
    using assms Cons by (intro lseg_last [of nx "head q"]) (auto simp: queue_rep_def)
  ultimately show ?thesis
    using assms Cons by (auto simp: queue_rep_def rpc_remove_pdu_from_queue_def)
qed

lemma remove_head:
  assumes "queue_rep (nx, q) (r # ys)"
  obtains nx' q' where "rpc_remove_pdu_from_queue (nx, q) r = Some ((nx', q'), True)"
    "queue_rep (nx', q') ys" "\<And>a. a \<noteq> r \<Longrightarrow> nx' a = nx a"
proof (cases ys)
  case Nil
  then show thesis
    using assms by (intro that [of "nx(r := None)" "q\<lparr>head := nx r, tail := None\<rparr>"])
      (auto simp: queue_rep_def rpc_remove_pdu_from_queue_def)
next
  case (Cons y zs)
  then show thesis
    using assms by (intro that [of "nx(r := None)" "q\<lparr>head := nx r\<rparr>"])
      (auto simp: queue_rep_def rpc_remove_pdu_from_queue_def)
qed

lemma remove_inner:
  assumes rep: "queue_rep (nx, q) xs" and r: "r \<in> set xs" "xs = x # ys" "x \<noteq> r"
  obtains nx' q' where "rpc_remove_pdu_from_queue (nx, q) r = Some ((nx', q'), True)"
    "queue_rep (nx', q') (remove1 r xs)" "\<And>a. a \<notin> set xs \<Longrightarrow> nx' a = nx a"
proof -
  have dist: "distinct xs" "head q = Some x" "tail q = Some (last xs)"
    using rep r by (auto simp: queue_rep_def)
  obtain as p bs where xs: "xs = as @ p # r # bs" and p: "p = last (x # takeWhile (\<lambda>a. a \<noteq> r) ys)"
    using split_member [OF r(1) dist(1) r(2,3)] .
  have fp: "find_prev nx r x = Some p"
    using rep r p by (subst find_prev_lseg [of nx x ys r]) (auto simp: queue_rep_def)
  have seg: "lseg nx (Some x) as (Some p)" "nx p = Some r" "lseg nx (nx r) bs None"
    using rep dist(2) by (auto simp: queue_rep_def xs lseg_append)
  let ?nx = "(nx(p := nx r))(r := None)"
  let ?q = "if tail q = Some r then q\<lparr>tail := Some p\<rparr> else q"
  have r1: "remove1 r xs = as @ p # bs" using dist(1) by (auto simp: xs remove1_append)
  show thesis
  proof (rule that)
    show "rpc_remove_pdu_from_queue (nx, q) r = Some ((?nx, ?q), True)"
      using dist r fp seg by (simp add: rpc_remove_pdu_from_queue_def)
    have "lseg ?nx (Some x) (as @ p # bs) None"
      using seg dist(1) by (auto simp: lseg_append xs)
    moreover have "tail ?q = Some (last (as @ p # bs))"
      using dist(1,3) by (cases bs rule: rev_cases) (auto simp: xs)
    ultimately show "queue_rep (?nx, ?q) (remove1 r xs)"
      using dist unfolding r1 by (auto simp: queue_rep_def xs)
    show "\<And>a. a \<notin> set xs \<Longrightarrow> ?nx a = nx a" by (auto simp: xs)
  qed
qed

lemma remove_rep:
  assumes rep: "queue_rep (nx, q) xs"
  obtains nx' q' where "rpc_remove_pdu_from_queue (nx, q) r = Some ((nx', q'), r \<in> set xs)"
    "queue_rep (nx', q') (remove1 r xs)" "\<And>a. a \<notin> set xs \<Longrightarrow> nx' a = nx a"
proof (cases "r \<in> set xs")
  case False
  then show thesis using that remove_absent [OF rep False] rep by (simp add: remove1_idem)
next
  case True
  then obtain x ys where xs: "xs = x # ys" by (cases xs) auto
  show thesis
  proof (cases "x = r")
    case True
    then obtain nx' q' where "rpc_remove_pdu_from_queue (nx, q) r = Some ((nx', q'), True)"
      "queue_rep (nx', q') ys" "\<And>a. a \<noteq> r \<Longrightarrow> nx' a = nx a"
      using remove_head [of nx q r ys] rep xs by metis
    then show thesis using that [of nx' q'] xs True by auto
  next
    case False
    then show thesis using remove_inner [OF rep True xs False] that True by metis
  qed
qed

section \<open>The contract\<close>

text \<open>
  \<open>rep s xs\<close>: the queue state \<open>s\<close> holds \<open>xs\<close>, first in first out. The client's
  lemmas are about whole histories: PDUs leave in the order they were queued, and queueing
  followed by removal restores the queue.
\<close>

locale pdu_queue =
  fixes rep :: "'s \<Rightarrow> 'p list \<Rightarrow> bool"
    and enq :: "'s \<Rightarrow> 'p \<Rightarrow> 's option"
    and ret :: "'s \<Rightarrow> 'p \<Rightarrow> 's"
    and rem :: "'s \<Rightarrow> 'p \<Rightarrow> ('s \<times> bool) option"
  assumes rep_distinct: "rep s xs \<Longrightarrow> distinct xs"
    and enq_rep: "rep s xs \<Longrightarrow> p \<notin> set xs \<Longrightarrow> \<exists>s'. enq s p = Some s' \<and> rep s' (xs @ [p])"
    and ret_rep: "rep s xs \<Longrightarrow> p \<notin> set xs \<Longrightarrow> rep (ret s p) (after_head p xs)"
    and rem_rep: "rep s xs \<Longrightarrow> \<exists>s'. rem s p = Some (s', p \<in> set xs) \<and> rep s' (remove1 p xs)"
begin

fun enq_all :: "'s \<Rightarrow> 'p list \<Rightarrow> 's option" where
  "enq_all s [] = Some s"
| "enq_all s (p # ps) = (case enq s p of None \<Rightarrow> None | Some s' \<Rightarrow> enq_all s' ps)"

lemma enq_all_rep:
  "rep s xs \<Longrightarrow> distinct ps \<Longrightarrow> set ps \<inter> set xs = {} \<Longrightarrow> \<exists>s'. enq_all s ps = Some s' \<and> rep s' (xs @ ps)"
proof (induction ps arbitrary: s xs)
  case (Cons p ps)
  then obtain s1 where s1: "enq s p = Some s1" "rep s1 (xs @ [p])" using enq_rep [of s xs p] by auto
  then obtain s2 where "enq_all s1 ps = Some s2" "rep s2 ((xs @ [p]) @ ps)"
    using Cons.IH [OF s1(2)] Cons.prems by auto
  then show ?case using s1 by auto
qed auto

lemma enq_rem:
  assumes "rep s xs" "p \<notin> set xs"
  shows "\<exists>s1 s2. enq s p = Some s1 \<and> rem s1 p = Some (s2, True) \<and> rep s2 xs"
proof -
  obtain s1 where s1: "enq s p = Some s1" "rep s1 (xs @ [p])" using enq_rep [OF assms] by auto
  then show ?thesis using rem_rep [OF s1(2), of p] assms(2) by (auto simp: remove1_append)
qed

lemma rem_twice:
  assumes "rep s xs" "rem s p = Some (s', b)"
  shows "\<exists>s''. rem s' p = Some (s'', False)"
proof -
  have "rep s' (remove1 p xs)" using rem_rep [OF assms(1), of p] assms(2) by auto
  then show ?thesis
    using rem_rep [of s' "remove1 p xs" p] rep_distinct [OF assms(1)] by (auto simp: set_remove1_eq)
qed

end

interpretation lq: pdu_queue queue_rep rpc_enqueue return_to_queue rpc_remove_pdu_from_queue
proof unfold_locales
  fix s xs p
  assume rep: "queue_rep s xs"
  then show "distinct xs" by (cases s) (simp add: queue_rep_def)
  show "p \<notin> set xs \<Longrightarrow> \<exists>s'. rpc_enqueue s p = Some s' \<and> queue_rep s' (xs @ [p])"
    using rep by (cases s) (metis enqueue_rep)
  show "p \<notin> set xs \<Longrightarrow> queue_rep (return_to_queue s p) (after_head p xs)"
    using rep return_rep(1) by (cases s) blast
  show "\<exists>s'. rpc_remove_pdu_from_queue s p = Some (s', p \<in> set xs) \<and> queue_rep s' (remove1 p xs)"
    using rep by (cases s) (metis remove_rep)
qed

section \<open>Properties\<close>

lemma queue_rep_frame:
  "queue_rep (nx, q) ys \<Longrightarrow> (\<And>a. a \<in> set ys \<Longrightarrow> nx' a = nx a) \<Longrightarrow> queue_rep (nx', q) ys"
  by (simp add: queue_rep_def lseg_cong [of ys nx' nx])

text \<open>
  Queueing a PDU that is not queued: no assertion fails, the queue is the old one with the
  PDU at its end, and every other queue of the same heap that holds neither the PDU nor a member
  of this queue is unchanged.
\<close>

theorem rpc_enqueue_refines:
  assumes "queue_rep (nx, q) xs" "p \<notin> set xs"
  shows "\<exists>nx' q'. rpc_enqueue (nx, q) p = Some (nx', q') \<and> queue_rep (nx', q') (xs @ [p]) \<and>
    (\<forall>q2 ys. queue_rep (nx, q2) ys \<and> set ys \<inter> insert p (set xs) = {} \<longrightarrow> queue_rep (nx', q2) ys)"
proof -
  obtain nx' q' where r: "rpc_enqueue (nx, q) p = Some (nx', q')" "queue_rep (nx', q') (xs @ [p])"
    "\<And>a. a \<notin> insert p (set xs) \<Longrightarrow> nx' a = nx a"
    using enqueue_rep [OF assms] by metis
  moreover have "queue_rep (nx', q2) ys" if "queue_rep (nx, q2) ys" "set ys \<inter> insert p (set xs) = {}" for q2 ys
    using that(1) by (rule queue_rep_frame) (use that(2) r(3) in blast)
  ultimately show ?thesis by blast
qed

lemma sample_queue: "queue_rep ((\<lambda>_. None)(1 := Some 2), \<lparr>head = Some 1, tail = Some 2\<rparr>) [1, 2]"
  by (simp add: queue_rep_def)

theorem rpc_enqueue_refines_witness:
  "\<exists>nx' q'. rpc_enqueue ((\<lambda>_. None)(1 := Some 2), \<lparr>head = Some 1, tail = Some 2\<rparr>) 3 = Some (nx', q') \<and>
     queue_rep (nx', q') [1, 2, 3]"
  using rpc_enqueue_refines [OF sample_queue, of 3] by auto

text \<open>
  C22. Removing a PDU: the search ends, no assertion fails, the answer tells whether the PDU was
  queued, the queue afterwards is the old one without it, with head and tail adjusted, and every
  disjoint queue of the same heap is unchanged.
\<close>

theorem rpc_remove_pdu_refines:
  assumes "queue_rep (nx, q) xs"
  shows "\<exists>nx' q'. rpc_remove_pdu_from_queue (nx, q) r = Some ((nx', q'), r \<in> set xs) \<and>
    queue_rep (nx', q') (remove1 r xs) \<and>
    (\<forall>q2 ys. queue_rep (nx, q2) ys \<and> set ys \<inter> set xs = {} \<longrightarrow> queue_rep (nx', q2) ys)"
proof -
  obtain nx' q' where r: "rpc_remove_pdu_from_queue (nx, q) r = Some ((nx', q'), r \<in> set xs)"
    "queue_rep (nx', q') (remove1 r xs)" "\<And>a. a \<notin> set xs \<Longrightarrow> nx' a = nx a"
    using remove_rep [OF assms, of r] by metis
  moreover have "queue_rep (nx', q2) ys" if "queue_rep (nx, q2) ys" "set ys \<inter> set xs = {}" for q2 ys
    using that(1) by (rule queue_rep_frame) (use that(2) r(3) in blast)
  ultimately show ?thesis by blast
qed

theorem rpc_remove_pdu_refines_witness:
  "\<exists>nx' q'. rpc_remove_pdu_from_queue ((\<lambda>_. None)(1 := Some 2), \<lparr>head = Some 1, tail = Some 2\<rparr>) 2 =
     Some ((nx', q'), True) \<and> queue_rep (nx', q') [1]"
  using rpc_remove_pdu_refines [OF sample_queue, of 2] by auto

end
