(* ===== verification/Iovec.thy ===== *)
theory Iovec
  imports Prelude "HOL-Library.Monad_Syntax"
begin

text \<open>
  The vectored buffers of \<open>src/lib/init.c\<close> lines 640 to 814: the output vector of a PDU
  (\<open>rpc_add_iovector\<close>, \<open>rpc_free_iovector\<close>) and the cursor through which the reply
  of a zero-copy READ goes into the user's buffers (\<open>rpc_advance_cursor\<close>,
  \<open>rpc_shrink_cursor\<close>, \<open>rpc_memcpy_cursor\<close>, \<open>rpc_reset_cursor\<close>), with
  the set-up of the cursor in \<open>rpc_nfs3_readv_task\<close>.

  \<^item> A \<open>size_t\<close> is a natural number with the subtraction that wraps at 64 bits; an
    address is a natural number and memory a function of addresses.
  \<^item> The array at \<open>base\<close> holds the working vectors followed by the reference copy;
    the pointers \<open>iov\<close> and \<open>iov_ref\<close> are indices into it.
  \<^item> A failing \<open>assert\<close> and an access outside the array are \<open>None\<close>.

  The abstraction is \<open>cells\<close>, the addresses still to be filled in order. Advancing and
  copying take cells from its front, shrinking cuts its end, resetting restores it.
\<close>

section \<open>Output vectors\<close>

definition RPC_FAST_VECTORS :: nat where "RPC_FAST_VECTORS = 8"
definition RPC_MAX_VECTORS :: nat where "RPC_MAX_VECTORS = 1024"

text \<open>\<open>dyn\<close>: the array was allocated, it is not the inline \<open>fast_iov\<close>.\<close>

record 'b rpc_io_vectors =
  num_done :: nat
  total_size :: nat
  iov_capacity :: nat
  vecs :: "'b list"
  dyn :: bool

definition rpc_add_iovector :: "'b rpc_io_vectors \<Rightarrow> 'b \<Rightarrow> 'b rpc_io_vectors \<times> bool" where
  "rpc_add_iovector v b =
     (if length (vecs v) \<ge> iov_capacity v then (v, False)
      else (v\<lparr>vecs := vecs v @ [b]\<rparr>, True))"

text \<open>\<open>freeing b\<close>: the vector has a \<open>free\<close> function; the result lists the buffers passed to it.\<close>

definition rpc_free_iovector ::
    "('b \<Rightarrow> bool) \<Rightarrow> 'b rpc_io_vectors \<Rightarrow> ('b rpc_io_vectors \<times> 'b list) option" where
  "rpc_free_iovector freeing v =
     (if length (vecs v) > iov_capacity v then None
      else if dyn v \<and> \<not> (iov_capacity v > RPC_FAST_VECTORS \<and> iov_capacity v \<le> RPC_MAX_VECTORS) then None
      else if \<not> dyn v \<and> iov_capacity v \<noteq> RPC_FAST_VECTORS then None
      else Some (v\<lparr>vecs := []\<rparr>, filter freeing (vecs v)))"

section \<open>The read cursor\<close>

definition sub64 :: "nat \<Rightarrow> nat \<Rightarrow> nat" where
  "sub64 a b = nat ((int a - int b) mod 2 ^ 64)"

lemma sub64_le: "b \<le> a \<Longrightarrow> a < 2 ^ 64 \<Longrightarrow> sub64 a b = a - b"
  by (simp add: sub64_def nat_mod_distrib)

record iovec =
  iov_base :: nat
  iov_len :: nat

record cursor =
  has_base :: bool
  arr :: "iovec list"
  iov :: nat
  iovcnt :: nat
  remaining_size :: nat
  iov_ref :: nat
  iovcnt_ref :: nat

type_synonym memory = "nat \<Rightarrow> byte"

definition mem_write :: "memory \<Rightarrow> nat \<Rightarrow> byte list \<Rightarrow> memory" where
  "mem_write m a bs = (\<lambda>x. if a \<le> x \<and> x < a + length bs then bs ! (x - a) else m x)"

text \<open>The assertions at the end of the cursor operations.\<close>

definition cursor_asserts :: "cursor \<Rightarrow> bool" where
  "cursor_asserts v \<longleftrightarrow> (iovcnt v = 0) = (remaining_size v = 0) \<and> iovcnt v \<le> iovcnt_ref v \<and>
     iov v \<le> iov_ref v \<and> iov_ref v = iovcnt_ref v"

definition take_bytes :: "cursor \<Rightarrow> nat \<Rightarrow> cursor" where
  "take_bytes v len =
     v\<lparr>arr := (arr v)[iov v := \<lparr>iov_base = iov_base (arr v ! iov v) + len,
                                iov_len = iov_len (arr v ! iov v) - len\<rparr>],
       remaining_size := sub64 (remaining_size v) len\<rparr>"

definition next_vec :: "cursor \<Rightarrow> cursor" where
  "next_vec v = v\<lparr>remaining_size := sub64 (remaining_size v) (iov_len (arr v ! iov v)),
                  iov := iov v + 1, iovcnt := iovcnt v - 1\<rparr>"

function advance_loop :: "cursor \<Rightarrow> nat \<Rightarrow> cursor option" where
  "advance_loop v len =
     (if len = 0 then Some v
      else if iovcnt v = 0 \<or> length (arr v) \<le> iov v then None
      else if remaining_size v < iov_len (arr v ! iov v) then None
      else if iov_len (arr v ! iov v) > len then Some (take_bytes v len)
      else advance_loop (next_vec v) (len - iov_len (arr v ! iov v)))"
  by pat_completeness auto
termination
  by (relation "measure (\<lambda>(v, len). iovcnt v)") (auto simp: next_vec_def)

definition rpc_advance_cursor :: "cursor \<Rightarrow> nat \<Rightarrow> cursor option" where
  "rpc_advance_cursor v len =
     do { v' \<leftarrow> advance_loop v len; if cursor_asserts v' then Some v' else None }"

function shrink_loop :: "iovec list \<Rightarrow> nat \<Rightarrow> nat \<Rightarrow> nat \<Rightarrow> nat \<Rightarrow> nat \<Rightarrow> (iovec list \<times> nat) option" where
  "shrink_loop a off cnt new_len i done =
     (if i < cnt \<and> done < new_len
      then if length a \<le> off + i then None
           else if iov_len (a ! (off + i)) \<le> new_len - done
           then shrink_loop a off cnt new_len (i + 1) (done + iov_len (a ! (off + i)))
           else shrink_loop (a[off + i := (a ! (off + i))\<lparr>iov_len := new_len - done\<rparr>]) off cnt new_len
                  (i + 1) new_len
      else Some (a, i))"
  by pat_completeness auto
termination
  by (relation "measure (\<lambda>(a, off, cnt, new_len, i, done). cnt - i)") auto

definition rpc_shrink_cursor :: "cursor \<Rightarrow> nat \<Rightarrow> cursor option" where
  "rpc_shrink_cursor v new_len =
     (if remaining_size v \<le> new_len then Some v
      else do {
        (a, i) \<leftarrow> shrink_loop (arr v) (iov v) (iovcnt v) new_len 0 0;
        let v' = v\<lparr>arr := a, iovcnt := i, remaining_size := new_len\<rparr>;
        if cursor_asserts v' then Some v' else None
      })"

function memcpy_loop :: "cursor \<Rightarrow> memory \<Rightarrow> byte list \<Rightarrow> (cursor \<times> memory) option" where
  "memcpy_loop v m src =
     (if src = [] then Some (v, m)
      else if iovcnt v = 0 \<or> length (arr v) \<le> iov v then None
      else let w = arr v ! iov v
           in if iov_len w > length src
              then Some (take_bytes v (length src), mem_write m (iov_base w) src)
              else memcpy_loop (next_vec v) (mem_write m (iov_base w) (take (iov_len w) src))
                     (drop (iov_len w) src))"
  by pat_completeness auto
termination
  by (relation "measure (\<lambda>(v, m, src). iovcnt v)") (auto simp: next_vec_def)

definition rpc_memcpy_cursor :: "cursor \<Rightarrow> memory \<Rightarrow> byte list \<Rightarrow> (cursor \<times> memory) option" where
  "rpc_memcpy_cursor v m src =
     do { (v', m') \<leftarrow> memcpy_loop v m src; if cursor_asserts v' then Some (v', m') else None }"

definition rpc_reset_cursor :: "cursor \<Rightarrow> cursor option" where
  "rpc_reset_cursor v =
     (if \<not> has_base v then Some v
      else if \<not> (iovcnt v \<le> iovcnt_ref v \<and> iov v \<le> iov_ref v \<and> iov_ref v = iovcnt_ref v) then None
      else if length (arr v) < iov_ref v + iovcnt_ref v then None
      else let ref = take (iovcnt_ref v) (drop (iov_ref v) (arr v))
           in Some (v\<lparr>iovcnt := iovcnt_ref v, iov := 0,
                      arr := ref @ drop (iovcnt_ref v) (arr v),
                      remaining_size := sum_list (map iov_len ref) mod 2 ^ 64\<rparr>))"

text \<open>The cursor of a PDU that is not a zero-copy READ, and the set-up in \<open>rpc_nfs3_readv_task\<close>.\<close>

definition no_cursor :: cursor where
  "no_cursor = \<lparr>has_base = False, arr = [], iov = 0, iovcnt = 0, remaining_size = 0, iov_ref = 0,
               iovcnt_ref = 0\<rparr>"

definition readv_cursor :: "iovec list \<Rightarrow> cursor" where
  "readv_cursor vs =
     \<lparr>has_base = True, arr = vs @ vs, iov = 0, iovcnt = length vs,
      remaining_size = sum_list (map iov_len vs) mod 2 ^ 64, iov_ref = length vs,
      iovcnt_ref = length vs\<rparr>"

section \<open>Cells\<close>

definition vec_cells :: "iovec \<Rightarrow> nat list" where
  "vec_cells w = [iov_base w ..< iov_base w + iov_len w]"

definition active :: "cursor \<Rightarrow> iovec list" where
  "active v = take (iovcnt v) (drop (iov v) (arr v))"

definition cells :: "cursor \<Rightarrow> nat list" where
  "cells v = concat (map vec_cells (active v))"

definition ref_vecs :: "cursor \<Rightarrow> iovec list" where
  "ref_vecs v = drop (iovcnt_ref v) (arr v)"

text \<open>The invariant: no vector is empty, and \<open>remaining_size\<close> counts the cells.\<close>

definition cursor_wf :: "cursor \<Rightarrow> bool" where
  "cursor_wf v \<longleftrightarrow> has_base v \<and> iov_ref v = iovcnt_ref v \<and> length (arr v) = 2 * iovcnt_ref v \<and>
     iov v + iovcnt v \<le> iovcnt_ref v \<and> remaining_size v = length (cells v) \<and>
     (\<forall>w \<in> set (active v). 0 < iov_len w) \<and> sum_list (map iov_len (ref_vecs v)) < 2 ^ 64 \<and>
     length (cells v) < 2 ^ 64 \<and>
     (\<forall>w \<in> set (ref_vecs v). 0 < iov_len w)"

lemma next_vec_sel [simp]:
  "has_base (next_vec v) = has_base v" "arr (next_vec v) = arr v" "iov (next_vec v) = iov v + 1"
  "iovcnt (next_vec v) = iovcnt v - 1" "iov_ref (next_vec v) = iov_ref v"
  "iovcnt_ref (next_vec v) = iovcnt_ref v" "ref_vecs (next_vec v) = ref_vecs v"
  "remaining_size (next_vec v) = sub64 (remaining_size v) (iov_len (arr v ! iov v))"
  by (simp_all add: next_vec_def ref_vecs_def)

lemma take_bytes_sel [simp]:
  "has_base (take_bytes v n) = has_base v" "iov (take_bytes v n) = iov v"
  "iovcnt (take_bytes v n) = iovcnt v" "iov_ref (take_bytes v n) = iov_ref v"
  "iovcnt_ref (take_bytes v n) = iovcnt_ref v" "length (arr (take_bytes v n)) = length (arr v)"
  "remaining_size (take_bytes v n) = sub64 (remaining_size v) n"
  by (simp_all add: take_bytes_def)

lemma length_vec_cells [simp]: "length (vec_cells w) = iov_len w"
  by (simp add: vec_cells_def)

lemma length_concat_cells: "length (concat (map vec_cells ws)) = sum_list (map iov_len ws)"
  by (induction ws) simp_all

lemma active_Cons:
  assumes "cursor_wf v" "iovcnt v \<noteq> 0"
  shows "iov v < length (arr v)" "active v = (arr v ! iov v) # active (next_vec v)"
proof -
  show i: "iov v < length (arr v)" using assms by (auto simp: cursor_wf_def)
  then have "drop (iov v) (arr v) = (arr v ! iov v) # drop (iov v + 1) (arr v)"
    by (metis Cons_nth_drop_Suc Suc_eq_plus1)
  then show "active v = (arr v ! iov v) # active (next_vec v)"
    using assms(2) by (cases "iovcnt v") (simp_all add: active_def next_vec_def)
qed

lemma wf_asserts: "cursor_wf v \<Longrightarrow> cursor_asserts v"
proof -
  assume wf: "cursor_wf v"
  have "iovcnt v = 0 \<longleftrightarrow> cells v = []"
  proof (cases "iovcnt v")
    case 0
    then show ?thesis by (simp add: cells_def active_def)
  next
    case (Suc n)
    then obtain w ws where "active v = w # ws" using active_Cons [OF wf] by auto
    then have "cells v \<noteq> []" using wf by (auto simp: cells_def cursor_wf_def vec_cells_def)
    then show ?thesis by (simp add: Suc)
  qed
  then show ?thesis using wf by (auto simp: cursor_asserts_def cursor_wf_def)
qed

lemma wf_next_vec:
  assumes "cursor_wf v" "iovcnt v \<noteq> 0"
  shows "cursor_wf (next_vec v)" "cells v = vec_cells (arr v ! iov v) @ cells (next_vec v)"
    "iov_len (arr v ! iov v) \<le> remaining_size v"
proof -
  show c: "cells v = vec_cells (arr v ! iov v) @ cells (next_vec v)"
    using active_Cons [OF assms] by (simp add: cells_def)
  then have len: "length (cells v) = iov_len (arr v ! iov v) + length (cells (next_vec v))" by simp
  show le: "iov_len (arr v ! iov v) \<le> remaining_size v" using assms(1) len by (simp add: cursor_wf_def)
  have "remaining_size (next_vec v) = length (cells (next_vec v))"
    using assms(1) len le by (simp add: cursor_wf_def sub64_le)
  then show "cursor_wf (next_vec v)"
    using assms active_Cons(2) [OF assms] len
    by (auto simp: cursor_wf_def)
qed

lemma wf_take_bytes:
  assumes "cursor_wf v" "iovcnt v \<noteq> 0" "n < iov_len (arr v ! iov v)"
  shows "cursor_wf (take_bytes v n)" "cells (take_bytes v n) = drop n (cells v)"
    "ref_vecs (take_bytes v n) = ref_vecs v"
proof -
  let ?w = "arr v ! iov v"
  let ?w' = "\<lparr>iov_base = iov_base ?w + n, iov_len = iov_len ?w - n\<rparr>"
  have i: "iov v < length (arr v)" "iov v < iovcnt_ref v" "iov v < iovcnt_ref v + iovcnt_ref v"
    using assms by (auto simp: cursor_wf_def)
  have "active (take_bytes v n) = ?w' # active (next_vec v)"
    using active_Cons [OF assms(1,2)] i(1) assms(2)
    by (cases "iovcnt v") (auto simp: active_def take_bytes_def next_vec_def drop_update_swap
        Cons_nth_drop_Suc [symmetric] drop_Cons' take_Cons' nth_list_update)
  moreover have "vec_cells ?w' = drop n (vec_cells ?w)" using assms(3) by (simp add: vec_cells_def)
  ultimately have c: "cells (take_bytes v n) = drop n (cells v)" and
    act: "set (active (take_bytes v n)) \<subseteq> insert ?w' (set (active v))"
    using wf_next_vec(2) [OF assms(1,2)] active_Cons [OF assms(1,2)] assms(3)
    by (auto simp: cells_def)
  show "cells (take_bytes v n) = drop n (cells v)" by (rule c)
  show "ref_vecs (take_bytes v n) = ref_vecs v"
    using i assms(1) by (simp add: ref_vecs_def take_bytes_def cursor_wf_def drop_update_cancel)
  then have "ref_vecs (take_bytes v n) = ref_vecs v" .
  moreover have "remaining_size (take_bytes v n) = length (cells v) - n"
    using assms wf_next_vec(3) [OF assms(1,2)] by (simp add: cursor_wf_def sub64_le)
  ultimately show "cursor_wf (take_bytes v n)"
    using assms act i c by (auto simp: cursor_wf_def)
qed

lemma wf_remaining: "cursor_wf v \<Longrightarrow> remaining_size v = length (cells v)"
  by (simp add: cursor_wf_def)

lemma wf_nonempty: "cursor_wf v \<Longrightarrow> 0 < n \<Longrightarrow> n \<le> length (cells v) \<Longrightarrow> iovcnt v \<noteq> 0"
  by (cases "iovcnt v") (simp_all add: cells_def active_def)

declare advance_loop.simps [simp del] shrink_loop.simps [simp del] memcpy_loop.simps [simp del]

lemma advance_loop_cells:
  "cursor_wf v \<Longrightarrow> n \<le> length (cells v) \<Longrightarrow>
   \<exists>v'. advance_loop v n = Some v' \<and> cursor_wf v' \<and> cells v' = drop n (cells v) \<and>
        ref_vecs v' = ref_vecs v"
proof (induction v n rule: advance_loop.induct)
  case (1 v len)
  show ?case
  proof (cases "len = 0")
    case True
    then show ?thesis using 1 by (simp add: advance_loop.simps)
  next
    case False
    then have cnt: "iovcnt v \<noteq> 0" using 1 wf_nonempty by blast
    note nv = wf_next_vec [OF 1(2) cnt] and i = active_Cons(1) [OF 1(2) cnt]
    show ?thesis
    proof (cases "iov_len (arr v ! iov v) > len")
      case True
      then show ?thesis
        using False cnt i nv(3) wf_take_bytes [OF 1(2) cnt True] by (simp add: advance_loop.simps)
    next
      case le: False
      then have "len - iov_len (arr v ! iov v) \<le> length (cells (next_vec v))"
        using 1(3) nv(2) by simp
      then have "\<exists>v'. advance_loop (next_vec v) (len - iov_len (arr v ! iov v)) = Some v' \<and>
          cursor_wf v' \<and> cells v' = drop len (cells v) \<and> ref_vecs v' = ref_vecs v"
        using 1(1) [OF False] False le cnt i nv by (simp add: not_le)
      then show ?thesis
        using False cnt i nv(3) le by (subst advance_loop.simps) simp
    qed
  qed
qed

text \<open>Storing bytes into a list of cells.\<close>

definition fill :: "memory \<Rightarrow> nat list \<Rightarrow> byte list \<Rightarrow> memory" where
  "fill m cs bs = fold (\<lambda>(a, b) m. m(a := b)) (zip cs bs) m"

lemma fill_append:
  "length cs = length as \<Longrightarrow> fill m (cs @ ds) (as @ bs) = fill (fill m cs as) ds bs"
  by (simp add: fill_def)

lemma fill_other: "a \<notin> set (take (length bs) cs) \<Longrightarrow> fill m cs bs a = m a"
proof (induction cs arbitrary: m bs)
  case (Cons c cs)
  then show ?case by (cases bs) (auto simp: fill_def)
qed (simp add: fill_def)

lemma fill_read:
  "distinct cs \<Longrightarrow> length bs \<le> length cs \<Longrightarrow> map (fill m cs bs) (take (length bs) cs) = bs"
proof (induction cs arbitrary: m bs)
  case (Cons c cs)
  show ?case
  proof (cases bs)
    case (Cons b bs')
    have "fill m (c # cs) bs = fill (m(c := b)) cs bs'" by (simp add: fill_def Cons)
    moreover have "fill (m(c := b)) cs bs' c = b"
      using Cons.prems set_take_subset [of "length bs'" cs] by (subst fill_other) auto
    ultimately show ?thesis using Cons.IH [of bs' "m(c := b)"] Cons.prems Cons
      by (simp del: fun_upd_apply)
  qed simp
qed simp

lemma fill_vec: "length bs \<le> iov_len w \<Longrightarrow> fill m (vec_cells w) bs = mem_write m (iov_base w) bs"
proof (rule ext)
  fix x
  assume le: "length bs \<le> iov_len w"
  let ?cs = "vec_cells w"
  have t: "take (length bs) ?cs = [iov_base w ..< iov_base w + length bs]"
    using le by (simp add: vec_cells_def take_upt)
  show "fill m ?cs bs x = mem_write m (iov_base w) bs x"
  proof (cases "iov_base w \<le> x \<and> x < iov_base w + length bs")
    case True
    then obtain k where x: "x = iov_base w + k" "k < length bs" by (metis le_Suc_ex nat_add_left_cancel_less)
    have "map (fill m ?cs bs) (take (length bs) ?cs) = bs"
      using le by (intro fill_read) (simp_all add: vec_cells_def)
    then have "map (fill m ?cs bs) [iov_base w ..< iov_base w + length bs] ! k = bs ! k" by (simp add: t)
    then show ?thesis using x by (simp add: mem_write_def)
  next
    case False
    then show ?thesis using t by (subst fill_other) (auto simp: mem_write_def)
  qed
qed

lemma fill_prefix: "length bs \<le> length cs \<Longrightarrow> fill m (cs @ ds) bs = fill m cs bs"
  by (simp add: fill_def zip_append1)

lemma memcpy_loop_cells:
  "cursor_wf v \<Longrightarrow> length src \<le> length (cells v) \<Longrightarrow>
   \<exists>v'. memcpy_loop v m src = Some (v', fill m (cells v) src) \<and> cursor_wf v' \<and>
        cells v' = drop (length src) (cells v) \<and> ref_vecs v' = ref_vecs v"
proof (induction v m src rule: memcpy_loop.induct)
  case (1 v m src)
  show ?case
  proof (cases "src = []")
    case True
    then show ?thesis using 1 by (simp add: memcpy_loop.simps fill_def)
  next
    case False
    then have cnt: "iovcnt v \<noteq> 0" using 1 wf_nonempty [of v "length src"] by simp
    let ?w = "arr v ! iov v"
    note nv = wf_next_vec [OF 1(2) cnt] and i = active_Cons(1) [OF 1(2) cnt]
    show ?thesis
    proof (cases "iov_len ?w > length src")
      case True
      then have "fill m (cells v) src = mem_write m (iov_base ?w) src"
        by (simp add: nv(2) fill_prefix fill_vec)
      then show ?thesis
        using False cnt i True wf_take_bytes [OF 1(2) cnt True] by (simp add: memcpy_loop.simps Let_def)
    next
      case le: False
      let ?a = "take (iov_len ?w) src" and ?b = "drop (iov_len ?w) src"
      have "fill m (cells v) (?a @ ?b) = fill (mem_write m (iov_base ?w) ?a) (cells (next_vec v)) ?b"
        unfolding nv(2) using le by (subst fill_append) (simp_all add: fill_vec)
      moreover have "length ?b \<le> length (cells (next_vec v))" using 1(3) nv(2) by simp
      ultimately have "\<exists>v'. memcpy_loop (next_vec v) (mem_write m (iov_base ?w) ?a) ?b =
          Some (v', fill m (cells v) src) \<and> cursor_wf v' \<and> cells v' = drop (length src) (cells v) \<and>
          ref_vecs v' = ref_vecs v"
        using 1(1) [OF False _ refl] False le cnt i nv by (simp add: not_le)
      then show ?thesis
        using False cnt i le by (subst memcpy_loop.simps) (simp add: Let_def)
    qed
  qed
qed

text \<open>The shrinking loop as a function on the list of active vectors: the new vectors and how many stay.\<close>

fun shrink_vecs :: "iovec list \<Rightarrow> nat \<Rightarrow> iovec list \<times> nat" where
  "shrink_vecs [] n = ([], 0)"
| "shrink_vecs (w # ws) n =
     (if n = 0 then (w # ws, 0)
      else if iov_len w \<le> n
      then (w # fst (shrink_vecs ws (n - iov_len w)), snd (shrink_vecs ws (n - iov_len w)) + 1)
      else (w\<lparr>iov_len := n\<rparr> # ws, 1))"

lemma shrink_loop_vecs:
  "length xs = off + i \<Longrightarrow> cnt = i + length ws \<Longrightarrow> d \<le> n \<Longrightarrow>
   shrink_loop (xs @ ws @ ys) off cnt n i d =
     Some (xs @ fst (shrink_vecs ws (n - d)) @ ys, i + snd (shrink_vecs ws (n - d)))"
proof (induction ws arbitrary: xs i d)
  case Nil
  then show ?case by (subst shrink_loop.simps) simp
next
  case (Cons w ws)
  have at: "(xs @ (w # ws) @ ys) ! (off + i) = w" using Cons.prems(1) by (simp add: nth_append)
  consider "d = n" | "d < n" "iov_len w \<le> n - d" | "d < n" "\<not> iov_len w \<le> n - d"
    using Cons.prems(3) by linarith
  then show ?case
  proof cases
    case 1
    then show ?thesis by (subst shrink_loop.simps) simp
  next
    case 2
    have "shrink_loop (xs @ (w # ws) @ ys) off cnt n i d =
        shrink_loop ((xs @ [w]) @ ws @ ys) off cnt n (i + 1) (d + iov_len w)"
      using 2 at Cons.prems by (subst shrink_loop.simps) simp
    also have "\<dots> = Some ((xs @ [w]) @ fst (shrink_vecs ws (n - (d + iov_len w))) @ ys,
        i + 1 + snd (shrink_vecs ws (n - (d + iov_len w))))"
      using 2 Cons.prems by (intro Cons.IH) simp_all
    finally show ?thesis using 2 by simp
  next
    case 3
    have "shrink_loop (xs @ (w # ws) @ ys) off cnt n i d =
        shrink_loop (xs @ (w\<lparr>iov_len := n - d\<rparr> # ws) @ ys) off cnt n (i + 1) n"
      using 3 at Cons.prems by (subst shrink_loop.simps) (simp add: list_update_append)
    also have "\<dots> = Some (xs @ (w\<lparr>iov_len := n - d\<rparr> # ws) @ ys, i + 1)"
      by (subst shrink_loop.simps) simp
    finally show ?thesis using 3 by simp
  qed
qed

lemma shrink_vecs_length:
  "length (fst (shrink_vecs ws n)) = length ws" "snd (shrink_vecs ws n) \<le> length ws"
  by (induction ws n rule: shrink_vecs.induct) simp_all

lemma take_vec_cells: "n \<le> iov_len w \<Longrightarrow> take n (vec_cells w) = vec_cells (w\<lparr>iov_len := n\<rparr>)"
  by (simp add: vec_cells_def take_upt)

lemma shrink_vecs_cells:
  "concat (map vec_cells (take (snd (shrink_vecs ws n)) (fst (shrink_vecs ws n)))) =
     take n (concat (map vec_cells ws))"
proof (induction ws arbitrary: n)
  case (Cons w ws)
  consider "n = 0" | "n \<noteq> 0" "iov_len w \<le> n" | "n < iov_len w" by linarith
  then show ?case
  proof cases
    case 2
    then show ?thesis using Cons.IH [of "n - iov_len w"] by simp
  next
    case 3
    have "n - iov_len w = 0" using 3 by simp
    with 3 show ?thesis using take_vec_cells [of n w] by (cases "n = 0") simp_all
  qed simp
qed simp

lemma shrink_vecs_nonempty:
  assumes "\<forall>w \<in> set ws. 0 < iov_len w"
  shows "\<forall>w \<in> set (take (snd (shrink_vecs ws n)) (fst (shrink_vecs ws n))). 0 < iov_len w"
  using assms
proof (induction ws arbitrary: n)
  case (Cons w ws)
  then have w: "0 < iov_len w" and ws: "\<forall>w \<in> set ws. 0 < iov_len w" by (blast intro: list.set_intros)+
  show ?case using w Cons.IH [OF ws, of "n - iov_len w"] by simp
qed simp

lemma shrink_cells:
  assumes "cursor_wf v"
  shows "\<exists>v'. rpc_shrink_cursor v n = Some v' \<and> cursor_wf v' \<and> cells v' = take n (cells v) \<and>
    ref_vecs v' = ref_vecs v"
proof (cases "remaining_size v \<le> n")
  case True
  then show ?thesis using assms by (simp add: rpc_shrink_cursor_def cursor_wf_def)
next
  case False
  let ?xs = "take (iov v) (arr v)" and ?ys = "drop (iov v + iovcnt v) (arr v)"
  let ?ws = "fst (shrink_vecs (active v) n)" and ?k = "snd (shrink_vecs (active v) n)"
  let ?v = "v\<lparr>arr := ?xs @ ?ws @ ?ys, iovcnt := ?k, remaining_size := n\<rparr>"
  have len: "iov v + iovcnt v \<le> iovcnt_ref v" "length (arr v) = 2 * iovcnt_ref v"
    using assms by (auto simp: cursor_wf_def)
  have act: "length (active v) = iovcnt v" using len by (simp add: active_def)
  have a: "arr v = ?xs @ active v @ ?ys" unfolding active_def by (metis append_take_drop_id drop_drop add.commute)
  have lens: "length ?ws = iovcnt v" "?k \<le> iovcnt v" "length ?xs = iov v"
    using act len shrink_vecs_length [of "active v" n] by simp_all
  have loop: "shrink_loop (arr v) (iov v) (iovcnt v) n 0 0 = Some (?xs @ ?ws @ ?ys, ?k)"
    using shrink_loop_vecs [of ?xs "iov v" 0 "iovcnt v" "active v" 0 n ?ys] a act lens by simp
  have act': "active ?v = take ?k ?ws" using lens by (simp add: active_def)
  have cells: "cells ?v = take n (cells v)"
    unfolding cells_def act' by (rule shrink_vecs_cells)
  have dr: "drop (iovcnt_ref v) (?xs @ ?ws @ ?ys) = drop (iovcnt_ref v) (arr v)"
    using lens len by (simp add: )
  have "ref_vecs ?v = ref_vecs v" using dr assms by (simp add: ref_vecs_def cursor_wf_def)
  moreover have "cursor_wf ?v"
    using assms False lens len dr cells act' shrink_vecs_nonempty [of "active v" n]
      \<open>ref_vecs ?v = ref_vecs v\<close> by (auto simp: cursor_wf_def)
  ultimately show ?thesis
    using False loop cells wf_asserts [of ?v] by (auto simp: rpc_shrink_cursor_def)
qed

lemma advance_cells:
  assumes "cursor_wf v" "n \<le> length (cells v)"
  shows "\<exists>v'. rpc_advance_cursor v n = Some v' \<and> cursor_wf v' \<and> cells v' = drop n (cells v) \<and>
    ref_vecs v' = ref_vecs v"
  using advance_loop_cells [OF assms] wf_asserts by (auto simp: rpc_advance_cursor_def)

lemma memcpy_cells:
  assumes "cursor_wf v" "length src \<le> length (cells v)"
  shows "\<exists>v'. rpc_memcpy_cursor v m src = Some (v', fill m (cells v) src) \<and> cursor_wf v' \<and>
    cells v' = drop (length src) (cells v) \<and> ref_vecs v' = ref_vecs v"
  using memcpy_loop_cells [OF assms, of m] wf_asserts by (auto simp: rpc_memcpy_cursor_def)

lemma readv_cursor_wf:
  assumes "\<forall>w \<in> set vs. 0 < iov_len w" "sum_list (map iov_len vs) < 2 ^ 64"
  shows "cursor_wf (readv_cursor vs)" "cells (readv_cursor vs) = concat (map vec_cells vs)"
    "ref_vecs (readv_cursor vs) = vs"
  using assms by (auto simp: cursor_wf_def readv_cursor_def cells_def active_def ref_vecs_def
      length_concat_cells)

lemma reset_readv: "cursor_wf v \<Longrightarrow> rpc_reset_cursor v = Some (readv_cursor (ref_vecs v))"
  by (simp add: rpc_reset_cursor_def cursor_wf_def readv_cursor_def ref_vecs_def Let_def)

lemma reset_cells:
  assumes "cursor_wf v"
  shows "\<exists>v'. rpc_reset_cursor v = Some v' \<and> cursor_wf v' \<and>
    cells v' = concat (map vec_cells (ref_vecs v)) \<and> ref_vecs v' = ref_vecs v"
  using reset_readv [OF assms] readv_cursor_wf [of "ref_vecs v"] assms
  by (simp add: cursor_wf_def)

section \<open>The contract\<close>

text \<open>
  What the receive path of the socket layer relies on. The client's lemmas: data that arrives
  in pieces fills the same cells as the whole, and after a reset, as for a retransmission, the
  reply is read from the start again.
\<close>

locale byte_sink =
  fixes wf :: "'c \<Rightarrow> bool"
    and todo :: "'c \<Rightarrow> nat list"
    and origin :: "'c \<Rightarrow> nat list"
    and advance :: "'c \<Rightarrow> nat \<Rightarrow> 'c option"
    and shrink :: "'c \<Rightarrow> nat \<Rightarrow> 'c option"
    and copy :: "'c \<Rightarrow> memory \<Rightarrow> byte list \<Rightarrow> ('c \<times> memory) option"
    and reset :: "'c \<Rightarrow> 'c option"
  assumes advance: "wf v \<Longrightarrow> n \<le> length (todo v) \<Longrightarrow>
      \<exists>v'. advance v n = Some v' \<and> wf v' \<and> todo v' = drop n (todo v) \<and> origin v' = origin v"
    and shrink: "wf v \<Longrightarrow> \<exists>v'. shrink v n = Some v' \<and> wf v' \<and> todo v' = take n (todo v) \<and> origin v' = origin v"
    and copy: "wf v \<Longrightarrow> length bs \<le> length (todo v) \<Longrightarrow>
      \<exists>v'. copy v m bs = Some (v', fill m (todo v) bs) \<and> wf v' \<and> todo v' = drop (length bs) (todo v) \<and>
           origin v' = origin v"
    and reset: "wf v \<Longrightarrow> \<exists>v'. reset v = Some v' \<and> wf v' \<and> todo v' = origin v \<and> origin v' = origin v"
begin

fun copy_chunks :: "'c \<Rightarrow> memory \<Rightarrow> byte list list \<Rightarrow> ('c \<times> memory) option" where
  "copy_chunks v m [] = Some (v, m)"
| "copy_chunks v m (bs # bss) =
     (case copy v m bs of None \<Rightarrow> None | Some (v', m') \<Rightarrow> copy_chunks v' m' bss)"

lemma copy_chunks:
  "wf v \<Longrightarrow> length (concat bss) \<le> length (todo v) \<Longrightarrow>
   \<exists>v'. copy_chunks v m bss = Some (v', fill m (todo v) (concat bss)) \<and> wf v' \<and>
        todo v' = drop (length (concat bss)) (todo v) \<and> origin v' = origin v"
proof (induction bss arbitrary: v m)
  case Nil
  then show ?case by (simp add: fill_def)
next
  case (Cons bs bss)
  then obtain v1 where v1: "copy v m bs = Some (v1, fill m (todo v) bs)" "wf v1"
    "todo v1 = drop (length bs) (todo v)" "origin v1 = origin v"
    using copy [of v bs m] by auto
  have "fill m (take (length bs) (todo v) @ todo v1) (bs @ concat bss) =
      fill (fill m (todo v) bs) (todo v1) (concat bss)"
    using Cons.prems v1(3)
      fill_prefix [of bs "take (length bs) (todo v)" m "todo v1"] by (subst fill_append) simp_all
  then show ?case
    using Cons.IH [OF v1(2), of "fill m (todo v) bs"] Cons.prems v1 by (auto simp: add.commute)
qed

lemma refill:
  assumes "wf v" "length bs \<le> length (origin v)"
  shows "\<exists>v1 v2. reset v = Some v1 \<and> copy v1 m bs = Some (v2, fill m (origin v) bs)"
proof -
  obtain v1 where v1: "reset v = Some v1" "wf v1" "todo v1 = origin v" using reset [OF assms(1)] by auto
  then show ?thesis using copy [OF v1(2), of bs m] assms(2) by auto
qed

end

interpretation iov_sink: byte_sink cursor_wf cells "\<lambda>v. concat (map vec_cells (ref_vecs v))"
  rpc_advance_cursor rpc_shrink_cursor rpc_memcpy_cursor rpc_reset_cursor
proof unfold_locales
  fix v n m and bs :: "byte list"
  assume wf: "cursor_wf v"
  show "n \<le> length (cells v) \<Longrightarrow> \<exists>v'. rpc_advance_cursor v n = Some v' \<and> cursor_wf v' \<and>
      cells v' = drop n (cells v) \<and> concat (map vec_cells (ref_vecs v')) = concat (map vec_cells (ref_vecs v))"
    using advance_cells [OF wf] by fastforce
  show "\<exists>v'. rpc_shrink_cursor v n = Some v' \<and> cursor_wf v' \<and>
      cells v' = take n (cells v) \<and> concat (map vec_cells (ref_vecs v')) = concat (map vec_cells (ref_vecs v))"
    using shrink_cells [OF wf, of n] by fastforce
  show "length bs \<le> length (cells v) \<Longrightarrow> \<exists>v'. rpc_memcpy_cursor v m bs = Some (v', fill m (cells v) bs) \<and>
      cursor_wf v' \<and> cells v' = drop (length bs) (cells v) \<and>
      concat (map vec_cells (ref_vecs v')) = concat (map vec_cells (ref_vecs v))"
    using memcpy_cells [OF wf, of bs m] by fastforce
  show "\<exists>v'. rpc_reset_cursor v = Some v' \<and> cursor_wf v' \<and>
      cells v' = concat (map vec_cells (ref_vecs v)) \<and>
      concat (map vec_cells (ref_vecs v')) = concat (map vec_cells (ref_vecs v))"
    using reset_cells [OF wf] by fastforce
qed

section \<open>Properties\<close>

text \<open>
  Copying received data into the user's vectors: while the vectors have room, no assertion
  fails, the data stands in the first cells in order, no other address changes, and the cursor
  stands behind the data with its invariant intact.
\<close>

theorem rpc_memcpy_cursor_stores:
  assumes "cursor_wf v" "distinct (cells v)" "length src \<le> length (cells v)"
  shows "\<exists>v' m'. rpc_memcpy_cursor v m src = Some (v', m') \<and> cursor_wf v' \<and>
    cells v' = drop (length src) (cells v) \<and> map m' (take (length src) (cells v)) = src \<and>
    (\<forall>a. a \<notin> set (take (length src) (cells v)) \<longrightarrow> m' a = m a)"
  using memcpy_cells [OF assms(1,3), of m] fill_read [OF assms(2,3), of m] fill_other [of _ src "cells v" m]
  by blast

definition two_vecs :: "iovec list" where
  "two_vecs = [\<lparr>iov_base = 100, iov_len = 2\<rparr>, \<lparr>iov_base = 7, iov_len = 3\<rparr>]"

lemma two_vecs_cursor:
  "cursor_wf (readv_cursor two_vecs)" "cells (readv_cursor two_vecs) = [100, 101, 7, 8, 9]"
  "ref_vecs (readv_cursor two_vecs) = two_vecs"
  using readv_cursor_wf [of two_vecs] by (simp_all add: two_vecs_def vec_cells_def upt_rec)

theorem rpc_memcpy_cursor_stores_witness:
  "\<exists>v' m'. rpc_memcpy_cursor (readv_cursor two_vecs) (\<lambda>_. 0) [1, 2, 3] = Some (v', m') \<and>
     cells v' = [8, 9] \<and> m' 100 = 1 \<and> m' 101 = 2 \<and> m' 7 = 3 \<and> m' 8 = 0"
  using rpc_memcpy_cursor_stores [of "readv_cursor two_vecs" "[1, 2, 3]" "\<lambda>_. 0"] two_vecs_cursor
  by (auto simp: numeral_3_eq_3)

text \<open>
  Advancing the cursor by what \<open>readv\<close> returned takes exactly that many cells off the
  front, and shrinking it to the length of a short reply keeps exactly that many; both leave the
  reference copy of the vectors alone.
\<close>

theorem rpc_cursor_advance_shrink:
  assumes "cursor_wf v" "n \<le> length (cells v)"
  shows "\<exists>v1 v2. rpc_advance_cursor v n = Some v1 \<and> cursor_wf v1 \<and> cells v1 = drop n (cells v) \<and>
    ref_vecs v1 = ref_vecs v \<and>
    rpc_shrink_cursor v n = Some v2 \<and> cursor_wf v2 \<and> cells v2 = take n (cells v) \<and>
    ref_vecs v2 = ref_vecs v"
  using advance_cells [OF assms] shrink_cells [OF assms(1), of n] by blast

theorem rpc_cursor_advance_shrink_witness:
  "\<exists>v1 v2. rpc_advance_cursor (readv_cursor two_vecs) 3 = Some v1 \<and> cells v1 = [8, 9] \<and>
     rpc_shrink_cursor (readv_cursor two_vecs) 3 = Some v2 \<and> cells v2 = [100, 101, 7]"
  using rpc_cursor_advance_shrink [of "readv_cursor two_vecs" 3] two_vecs_cursor
  by (auto simp: numeral_3_eq_3)

text \<open>
  Resending a READ: whatever part of a reply was already read into the vectors, the reset
  cursor is the one the request started with, and reading the whole reply into it stores it in
  the user's buffers from the start.
\<close>

theorem rpc_reset_cursor_restarts:
  assumes "cursor_wf v" "length bs \<le> length (concat (map vec_cells (ref_vecs v)))"
  shows "\<exists>v2. rpc_reset_cursor v = Some (readv_cursor (ref_vecs v)) \<and>
    rpc_memcpy_cursor (readv_cursor (ref_vecs v)) m bs =
      Some (v2, fill m (concat (map vec_cells (ref_vecs v))) bs)"
  using iov_sink.refill [OF assms, of m] reset_readv [OF assms(1)] by auto

theorem rpc_reset_cursor_restarts_witness:
  "\<exists>v2. rpc_reset_cursor (readv_cursor two_vecs) = Some (readv_cursor two_vecs) \<and>
     rpc_memcpy_cursor (readv_cursor two_vecs) (\<lambda>_. 0) [9, 9] =
       Some (v2, fill (\<lambda>_. 0) (concat (map vec_cells two_vecs)) [9, 9])"
  using rpc_reset_cursor_restarts [of "readv_cursor two_vecs" "[9, 9]" "\<lambda>_. 0"] two_vecs_cursor
  by (simp add: two_vecs_def)

end
