(* ===== verification/Rpc_Context.thy ===== *)
theory Rpc_Context
  imports Rpc_Msg Pdu_Queue Iovec "HOL-Library.Multiset"
begin

text \<open>
  The RPC context and its PDUs: \<open>src/lib/init.c\<close> (creation, parameters, credentials,
  fragments, purging) and \<open>src/lib/pdu.c\<close> (allocation, timeouts, hashing, lookup by xid,
  cancellation, requeueing), in the build without Kerberos, TLS and multithreading.

  \<^item> A PDU is owned by one place at a time: the output queue, one bucket of the waiting queue,
    the slot \<open>rpc->pdu\<close> of the reply being read, or the caller. The queues are lists of
    PDU values; that the pointer code implements them is the subject of \<open>Pdu_Queue\<close>.
    \<open>pid\<close> is the address of the PDU. \<open>zdr_decode_buf\<close> is the buffer for the
    decoded results behind the PDU, and \<open>zdr_decode_null\<close> says that the pointer of that
    name is NULL.
  \<^item> Callbacks and calls of \<open>free\<close> are recorded in \<open>evlog\<close>, newest last. A callback
    does not call back into the context here; \<open>rpc_purge_all_pdus\<close> says that it relies on
    that.
  \<^item> The clock is an argument \<open>now\<close>, in milliseconds. Error strings and log messages
    are not modelled; the return values and state changes they go with are.
  \<^item> Memory allocation succeeds, except where it is an argument. A failing \<open>assert\<close>,
    signed overflow and undefined marshalling are \<open>None\<close>.
\<close>

section \<open>Data\<close>

datatype rpc_status = RPC_STATUS_SUCCESS | RPC_STATUS_ERROR | RPC_STATUS_CANCEL | RPC_STATUS_TIMEOUT

record ovec =
  ov_addr :: nat
  ov_data :: "byte list"
  ov_free :: bool

record 'r pdu =
  pid :: nat
  pxid :: u32
  pzdr :: zdr
  outaddr :: nat
  out :: "ovec rpc_io_vectors"
  pin :: cursor
  read_count :: u32
  requested_read_count :: u32
  has_cb :: bool
  zdr_decode_fn :: "'r zproc option"
  zdr_decode_buf :: 'r
  zdr_decode_null :: bool
  zdr_decode_bufsize :: u32
  discard_after_sending :: bool
  zero_copy_iov :: bool
  free_zdr :: bool
  free_pdu :: bool
  do_not_retry :: bool
  ptimeout :: u64
  major_timeout :: u64
  snr_logged :: bool
  pmsg :: "unit rpc_msg"

datatype 'r event = Cb nat rpc_status "'r option" | Freed nat | Connect_Cb rpc_status | Closed int

datatype connect_cb = No_Cb | User_Cb | Reconnect_Cb

datatype input_state = READ_RM | READ_PAYLOAD | READ_FRAGMENT | READ_IOVEC | READ_PADDING | READ_UNKNOWN

record rpc_stats =
  num_req_sent :: u64
  num_resp_rcvd :: u64
  num_timedout :: u64
  num_timedout_in_outqueue :: u64
  num_major_timedout :: u64
  num_retransmitted :: u64
  num_reconnects :: u64

definition zero_stats :: rpc_stats where
  "zero_stats = \<lparr>num_req_sent = 0, num_resp_rcvd = 0, num_timedout = 0, num_timedout_in_outqueue = 0,
     num_major_timedout = 0, num_retransmitted = 0, num_reconnects = 0\<rparr>"

text \<open>
  A registered procedure: its number, the decoder of its arguments, whose result is handed to
  the service function, and the size of the decode buffer.
\<close>

record service_proc =
  sproc :: u32
  sdecode :: "zdr \<Rightarrow> unit zres"
  decode_buf_size :: u32

record rpc_endpoint =
  eprogram :: u32
  eversion :: int
  eprocs :: "service_proc list"

text \<open>
  \<open>buf_at\<close> is where \<open>rpc->buf\<close> points: the two words read first, an offset of
  \<open>inbuf\<close>, or NULL for reading into the vectors of the PDU.
\<close>

datatype read_dest = To_Rm nat | To_Inbuf nat | To_Iovec

record sockaddr =
  sa_family :: int
  sa_port :: int
  sa_addr :: "byte list"

definition no_addr :: sockaddr where "no_addr = \<lparr>sa_family = 0, sa_port = 0, sa_addr = []\<rparr>"

record 'r rpc =
  fd :: int
  socket_disabled :: bool
  old_fd :: int
  is_connected :: bool
  program :: u32
  version :: u32
  connect_cb :: connect_cb
  auth :: AUTH
  xid :: u32
  outqueue :: "'r pdu list"
  waitpdu :: "'r pdu list list"
  waitpdu_len :: u32
  max_waitpdu_len :: u32
  inpos :: u32
  inbuf :: "byte list"
  istate :: input_state
  rm_bytes :: "byte list"
  rm_xid0 :: u32
  rm_xid1 :: u32
  pdu_size :: u32
  buf_at :: read_dest
  cur_pdu :: "'r pdu option"
  is_udp :: bool
  is_broadcast :: bool
  auto_reconnect :: int
  num_retries :: int
  mountport :: int
  fragments :: "byte list list"
  tcp_syncnt :: int
  uid :: int
  gid :: int
  debug :: int
  last_timeout_scan :: u64
  last_successful_rpc_response :: u64
  timeout :: int
  retrans :: int
  poll_timeout :: int
  is_server_context :: bool
  endpoints :: "rpc_endpoint list"
  stats :: rpc_stats
  peer :: sockaddr
  udp_dest :: sockaddr
  ifname :: "byte list"
  is_nonblocking :: bool
  evlog :: "'r event list"

definition num_hashes :: "'r rpc \<Rightarrow> u32" where
  "num_hashes rpc = word_of_nat (length (waitpdu rpc))"

section \<open>Creation and parameters\<close>

definition DEFAULT_HASHES :: nat where "DEFAULT_HASHES = 4"
definition RPC_PARAM_UNDEFINED :: int where "RPC_PARAM_UNDEFINED = -1"

text \<open>
  \<open>calloc\<close>: all fields zero, pointers NULL. A server context keeps a NULL
  \<open>auth\<close>, which it never uses; the record has some credential there.
\<close>

definition zero_rpc :: "'r rpc" where
  "zero_rpc = \<lparr>fd = 0, socket_disabled = False, old_fd = 0, is_connected = False, program = 0,
     version = 0, connect_cb = No_Cb, auth = authnone_create, xid = 0, outqueue = [], waitpdu = [],
     waitpdu_len = 0, max_waitpdu_len = 0, inpos = 0, inbuf = [], istate = READ_RM, rm_bytes = [],
     rm_xid0 = 0, rm_xid1 = 0, pdu_size = 0, buf_at = To_Iovec, cur_pdu = None, is_udp = False,
     is_broadcast = False, auto_reconnect = 0, num_retries = 0, mountport = 0, fragments = [],
     tcp_syncnt = 0, uid = 0, gid = 0, debug = 0, last_timeout_scan = 0,
     last_successful_rpc_response = 0, timeout = 0, retrans = 0, poll_timeout = 0,
     is_server_context = False, endpoints = [], stats = zero_stats, peer = no_addr, udp_dest = no_addr,
     ifname = [], is_nonblocking = False, evlog = []\<rparr>"

definition rpc_set_hash_size :: "'r rpc \<Rightarrow> nat \<Rightarrow> 'r rpc" where
  "rpc_set_hash_size rpc hashes = rpc\<lparr>waitpdu := replicate hashes []\<rparr>"

text \<open>\<open>salt\<close> is the static counter; the result has its next value. The outer option is NULL.\<close>

definition rpc_init_context ::
    "u32 \<Rightarrow> u64 \<Rightarrow> u32 \<Rightarrow> u32 \<Rightarrow> u32 \<Rightarrow> ('r rpc \<times> u32) option option" where
  "rpc_init_context salt now pidn myuid mygid =
     do {
       au \<leftarrow> libnfs_authunix_create_default (ucast now) myuid mygid;
       Some (case au of
         None \<Rightarrow> None
       | Some a \<Rightarrow>
           Some ((rpc_set_hash_size zero_rpc DEFAULT_HASHES)
             \<lparr>inpos := 0, istate := READ_RM, auth := a,
              xid := salt + ucast now + push_bit 16 pidn,
              fd := -1, tcp_syncnt := RPC_PARAM_UNDEFINED,
              uid := sint myuid, gid := sint mygid, outqueue := [], max_waitpdu_len := 0,
              timeout := 60 * 1000, retrans := 0, poll_timeout := 100\<rparr>,
            salt + 0x01000000))
     }"

definition rpc_init_udp_context ::
    "u32 \<Rightarrow> u64 \<Rightarrow> u32 \<Rightarrow> u32 \<Rightarrow> u32 \<Rightarrow> ('r rpc \<times> u32) option option" where
  "rpc_init_udp_context salt now pidn myuid mygid =
     map_option (map_option (\<lambda>(rpc, s). (rpc\<lparr>is_udp := True\<rparr>, s)))
       (rpc_init_context salt now pidn myuid mygid)"

text \<open>\<open>nonblocking\<close> and \<open>dgram\<close>: what \<open>fcntl\<close> and \<open>getsockopt(SO_TYPE)\<close> say of the descriptor.\<close>

definition rpc_init_server_context :: "int \<Rightarrow> bool \<Rightarrow> bool \<Rightarrow> 'r rpc" where
  "rpc_init_server_context s nonblocking dgram =
     zero_rpc\<lparr>is_server_context := True, fd := s, is_connected := True, is_nonblocking := nonblocking,
              is_udp := dgram, outqueue := []\<rparr>"

definition rpc_set_auth :: "'r rpc \<Rightarrow> AUTH \<Rightarrow> 'r rpc" where
  "rpc_set_auth rpc a = rpc\<lparr>auth := a\<rparr>"

definition libnfs_name :: "byte list" where
  "libnfs_name = [108, 105, 98, 110, 102, 115]"

definition rpc_set_uid_gid :: "u32 \<Rightarrow> 'r rpc \<Rightarrow> int \<Rightarrow> int \<Rightarrow> 'r rpc option" where
  "rpc_set_uid_gid now rpc u g =
     (if u \<noteq> uid rpc \<or> g \<noteq> gid rpc
      then do {
        au \<leftarrow> libnfs_authunix_create now libnfs_name (word_of_int u) (word_of_int g) 0 [];
        Some (case au of
          None \<Rightarrow> rpc
        | Some a \<Rightarrow> (rpc_set_auth rpc a)\<lparr>uid := u, gid := g\<rparr>)
      }
      else Some rpc)"

definition rpc_set_uid :: "u32 \<Rightarrow> 'r rpc \<Rightarrow> int \<Rightarrow> 'r rpc option" where
  "rpc_set_uid now rpc u = rpc_set_uid_gid now rpc u (gid rpc)"

definition rpc_set_gid :: "u32 \<Rightarrow> 'r rpc \<Rightarrow> int \<Rightarrow> 'r rpc option" where
  "rpc_set_gid now rpc g = rpc_set_uid_gid now rpc (uid rpc) g"

definition rpc_set_auxiliary_gids :: "u32 \<Rightarrow> 'r rpc \<Rightarrow> u32 \<Rightarrow> u32 list \<Rightarrow> 'r rpc option" where
  "rpc_set_auxiliary_gids now rpc len gids =
     do {
       au \<leftarrow> libnfs_authunix_create now libnfs_name (word_of_int (uid rpc)) (word_of_int (gid rpc)) len gids;
       Some (case au of None \<Rightarrow> rpc | Some a \<Rightarrow> rpc_set_auth rpc a)
     }"

definition rpc_set_next_xid :: "'r rpc \<Rightarrow> u32 \<Rightarrow> 'r rpc" where
  "rpc_set_next_xid rpc x = rpc\<lparr>xid := x\<rparr>"

definition rpc_set_timeout :: "'r rpc \<Rightarrow> int \<Rightarrow> 'r rpc" where
  "rpc_set_timeout rpc t = rpc\<lparr>timeout := t\<rparr>"

definition rpc_get_timeout :: "'r rpc \<Rightarrow> int" where
  "rpc_get_timeout rpc = timeout rpc"

definition rpc_set_poll_timeout :: "'r rpc \<Rightarrow> int \<Rightarrow> 'r rpc" where
  "rpc_set_poll_timeout rpc t = rpc\<lparr>poll_timeout := t\<rparr>"

definition rpc_get_poll_timeout :: "'r rpc \<Rightarrow> int" where
  "rpc_get_poll_timeout rpc = poll_timeout rpc"

definition rpc_set_mountport :: "'r rpc \<Rightarrow> int \<Rightarrow> 'r rpc" where
  "rpc_set_mountport rpc port = rpc\<lparr>mountport := port\<rparr>"

definition rpc_get_mountport :: "'r rpc \<Rightarrow> int" where
  "rpc_get_mountport rpc = mountport rpc"

definition rpc_set_debug :: "'r rpc \<Rightarrow> int \<Rightarrow> 'r rpc" where
  "rpc_set_debug rpc level = rpc\<lparr>debug := level\<rparr>"

definition rpc_set_tcp_syncnt :: "'r rpc \<Rightarrow> int \<Rightarrow> 'r rpc" where
  "rpc_set_tcp_syncnt rpc v = rpc\<lparr>tcp_syncnt := v\<rparr>"

definition rpc_disable_socket :: "'r rpc \<Rightarrow> int \<Rightarrow> 'r rpc" where
  "rpc_disable_socket rpc val = rpc\<lparr>socket_disabled := (val \<noteq> 0)\<rparr>"

text \<open>The name is cut to the 15 bytes that leave room for its end.\<close>

definition rpc_set_interface :: "'r rpc \<Rightarrow> byte list option \<Rightarrow> 'r rpc" where
  "rpc_set_interface rpc name = (case name of None \<Rightarrow> rpc | Some s \<Rightarrow> rpc\<lparr>ifname := take 15 s\<rparr>)"

definition rpc_get_stats :: "'r rpc \<Rightarrow> rpc_stats" where
  "rpc_get_stats rpc = stats rpc"

definition rpc_set_awaiting_limit :: "'r rpc \<Rightarrow> int \<Rightarrow> 'r rpc" where
  "rpc_set_awaiting_limit rpc n = rpc\<lparr>max_waitpdu_len := word_of_int n\<rparr>"

definition rpc_set_resiliency :: "'r rpc \<Rightarrow> int \<Rightarrow> int \<Rightarrow> int \<Rightarrow> 'r rpc" where
  "rpc_set_resiliency rpc num_tcp_reconnect timeout_msecs r =
     (if is_server_context rpc then rpc
      else rpc\<lparr>auto_reconnect := num_tcp_reconnect, timeout := timeout_msecs, retrans := r\<rparr>)"

text \<open>Registration puts the new endpoint in front; the result is the return value -1 or 0.\<close>

definition rpc_register_service ::
    "'r rpc \<Rightarrow> u32 \<Rightarrow> int \<Rightarrow> service_proc list \<Rightarrow> 'r rpc \<times> int" where
  "rpc_register_service rpc prg ver procs =
     (if \<not> is_server_context rpc then (rpc, -1)
      else (rpc\<lparr>endpoints := \<lparr>eprogram = prg, eversion = ver, eprocs = procs\<rparr> # endpoints rpc\<rparr>, 0))"

section \<open>Fragments\<close>

definition rpc_free_all_fragments :: "'r rpc \<Rightarrow> 'r rpc" where
  "rpc_free_all_fragments rpc = rpc\<lparr>fragments := []\<rparr>"

definition rpc_add_fragment :: "'r rpc \<Rightarrow> byte list \<Rightarrow> u32 \<Rightarrow> 'r rpc option" where
  "rpc_add_fragment rpc data sz =
     map_option (\<lambda>bs. rpc\<lparr>fragments := fragments rpc @ [bs]\<rparr>) (buf_read data 0 (unat sz))"

section \<open>PDUs\<close>

definition ZDR_ENCODEBUF_MINSIZE :: nat where "ZDR_ENCODEBUF_MINSIZE = 4096"
definition NFS_PROGRAM :: u32 where "NFS_PROGRAM = 100003"

definition zero_zdr :: zdr where
  "zero_zdr = \<lparr>x_op = ZDR_ENCODE, zbuf = [], zsize = 0, zpos = 0, zmem = [], zheap = 0\<rparr>"

text \<open>\<open>memset(pdu, 0, ...)\<close>; \<open>zero\<close> is the zeroed buffer for the decoded results.\<close>

definition zero_pdu :: "nat \<Rightarrow> 'r \<Rightarrow> 'r pdu" where
  "zero_pdu addr zero = \<lparr>pid = addr, pxid = 0, pzdr = zero_zdr, outaddr = 0,
     out = \<lparr>num_done = 0, total_size = 0, iov_capacity = 0, vecs = [], dyn = False\<rparr>, pin = no_cursor,
     read_count = 0, requested_read_count = 0, has_cb = False, zdr_decode_fn = None,
     zdr_decode_buf = zero, zdr_decode_null = True, zdr_decode_bufsize = 0, discard_after_sending = False,
     zero_copy_iov = False, free_zdr = False, free_pdu = False, do_not_retry = False, ptimeout = 0,
     major_timeout = 0, snr_logged = False, pmsg = zero_msg None ()\<rparr>"

text \<open>The call header \<open>rpc_allocate_pdu2\<close> builds.\<close>

definition call_msg :: "AUTH \<Rightarrow> u32 \<Rightarrow> u32 \<Rightarrow> u32 \<Rightarrow> u32 \<Rightarrow> unit rpc_msg" where
  "call_msg au x prg ver prc =
     (zero_msg None ())\<lparr>msg_xid := x, direction := CALL,
        cbody := \<lparr>rpcvers = RPC_MSG_VERSION, prog = prg, vers = ver, rproc = prc,
                  cred = (if prc = 0 then auth_none else ah_cred au), verf = ah_verf au\<rparr>\<rparr>"

definition iov_header :: "'r pdu \<Rightarrow> zdr \<Rightarrow> 'r pdu" where
  "iov_header pdu z =
     pdu\<lparr>pzdr := z,
         out := fst (rpc_add_iovector (out pdu)
                 \<lparr>ov_addr = outaddr pdu + 4, ov_data = take (unat (libnfs_zdr_getpos z)) (zbuf z),
                  ov_free = False\<rparr>)\<rparr>"

text \<open>The output vectors of a new PDU: the inline array or an allocated one, holding the record marker.\<close>

definition new_vectors :: "nat \<Rightarrow> nat \<Rightarrow> ovec rpc_io_vectors" where
  "new_vectors oaddr iovcnt_hint =
     fst (rpc_add_iovector
       (if iovcnt_hint > RPC_FAST_VECTORS
        then \<lparr>num_done = 0, total_size = 0, iov_capacity = iovcnt_hint, vecs = [], dyn = True\<rparr>
        else \<lparr>num_done = 0, total_size = 0, iov_capacity = RPC_FAST_VECTORS, vecs = [], dyn = False\<rparr>)
       \<lparr>ov_addr = oaddr, ov_data = [0, 0, 0, 0], ov_free = False\<rparr>)"

lemma new_vectors_sel [simp]:
  "vecs (new_vectors oaddr k) = [\<lparr>ov_addr = oaddr, ov_data = [0, 0, 0, 0], ov_free = False\<rparr>]"
  "num_done (new_vectors oaddr k) = 0" "iov_capacity (new_vectors oaddr k) = max k RPC_FAST_VECTORS"
  by (simp_all add: new_vectors_def rpc_add_iovector_def RPC_FAST_VECTORS_def)

text \<open>
  \<open>addr\<close> and \<open>oaddr\<close> are the addresses of the new PDU and of its marshalling
  buffer, \<open>heap\<close> the largest block \<open>zdr_malloc\<close> gets. The buffer has
  \<open>ZDR_ENCODEBUF_MINSIZE + alloc_hint\<close> bytes, the first four for the record marker.
  The result is the context and the PDU, or NULL.
\<close>

definition rpc_allocate_pdu2 ::
    "nat \<Rightarrow> nat \<Rightarrow> nat \<Rightarrow> 'r rpc \<Rightarrow> u32 \<Rightarrow> u32 \<Rightarrow> u32 \<Rightarrow> bool \<Rightarrow> 'r zproc option \<Rightarrow> 'r \<Rightarrow> u32 \<Rightarrow>
     nat \<Rightarrow> nat \<Rightarrow> ('r rpc \<times> 'r pdu option) option" where
  "rpc_allocate_pdu2 heap addr oaddr rpc prg ver prc cb fn zero bufsize alloc_hint iovcnt_hint =
     (let x = xid rpc;
          rpc1 = rpc\<lparr>xid := x + 1\<rparr>;
          msg = call_msg (auth rpc) x prg ver prc;
          pdu = (zero_pdu addr zero)\<lparr>pxid := x, has_cb := cb, zdr_decode_fn := fn,
                   zdr_decode_bufsize := bufsize, outaddr := oaddr,
                   out := new_vectors oaddr iovcnt_hint, pmsg := msg,
                   do_not_retry := (prg \<noteq> NFS_PROGRAM \<or> prc = 0)\<rparr>;
          z = libnfs_zdrmem_create heap (replicate (ZDR_ENCODEBUF_MINSIZE + alloc_hint - 4) 0)
                (word_of_nat (ZDR_ENCODEBUF_MINSIZE + alloc_hint - 4)) ZDR_ENCODE
      in case libnfs_zdr_callmsg z msg of
           Undef \<Rightarrow> None
         | Ret ok z' _ \<Rightarrow> Some (rpc1, if ok then Some (iov_header pdu z') else None))"

definition rpc_allocate_pdu ::
    "nat \<Rightarrow> nat \<Rightarrow> nat \<Rightarrow> 'r rpc \<Rightarrow> u32 \<Rightarrow> u32 \<Rightarrow> u32 \<Rightarrow> bool \<Rightarrow> 'r zproc option \<Rightarrow> 'r \<Rightarrow> u32 \<Rightarrow>
     ('r rpc \<times> 'r pdu option) option" where
  "rpc_allocate_pdu heap addr oaddr rpc prg ver prc cb fn zero bufsize =
     rpc_allocate_pdu2 heap addr oaddr rpc prg ver prc cb fn zero bufsize 0 0"

text \<open>
  A reply. The buffer behind the record marker has \<open>ZDR_ENCODEBUF_MINSIZE + alloc_hint - 4\<close>
  bytes, but the stream is created with four bytes more, as in the source.
\<close>

definition rpc_allocate_reply_pdu ::
    "nat \<Rightarrow> nat \<Rightarrow> nat \<Rightarrow> 'q rpc_msg \<Rightarrow> 'r \<Rightarrow> nat \<Rightarrow> 'r pdu option option" where
  "rpc_allocate_reply_pdu heap addr oaddr res zero alloc_hint =
     (let pdu = (zero_pdu addr zero)\<lparr>discard_after_sending := True, outaddr := oaddr,
                   out := new_vectors oaddr 0\<rparr>;
          z = libnfs_zdrmem_create heap (replicate (ZDR_ENCODEBUF_MINSIZE + alloc_hint - 4) 0)
                (word_of_nat (ZDR_ENCODEBUF_MINSIZE + alloc_hint)) ZDR_ENCODE
      in case libnfs_zdr_replymsg z res of
           Undef \<Rightarrow> None
         | Ret ok z' _ \<Rightarrow> Some (if ok then Some (iov_header pdu z') else None))"

definition rpc_free_pdu :: "'r rpc \<Rightarrow> 'r pdu \<Rightarrow> 'r rpc" where
  "rpc_free_pdu rpc pdu = rpc\<lparr>evlog := evlog rpc @ [Freed (pid pdu)]\<rparr>"

definition call_cb :: "'r rpc \<Rightarrow> 'r pdu \<Rightarrow> rpc_status \<Rightarrow> 'r option \<Rightarrow> 'r rpc" where
  "call_cb rpc pdu st v = rpc\<lparr>evlog := evlog rpc @ [Cb (pid pdu) st v]\<rparr>"

section \<open>Timeouts\<close>

text \<open>
  \<open>now\<close> is what \<open>rpc_current_time\<close> returns. The product of the \<open>int\<close>
  fields \<open>timeout\<close> and \<open>retrans\<close> may overflow, which is undefined.
\<close>

definition pdu_set_timeout :: "u64 \<Rightarrow> 'r rpc \<Rightarrow> 'r pdu \<Rightarrow> u64 \<Rightarrow> 'r pdu option" where
  "pdu_set_timeout now rpc pdu now_msecs =
     (if timeout rpc \<le> 0 then Some (pdu\<lparr>ptimeout := 0\<rparr>)
      else
        let t = (if now_msecs = 0 then now else now_msecs);
            minor = t + word_of_int (timeout rpc);
            pdu1 = (if ptimeout pdu = 0 then pdu\<lparr>ptimeout := minor\<rparr> else pdu)
        in if major_timeout pdu1 = 0
           then if \<not> int_range (timeout rpc * retrans rpc) then None
                else let major = t + word_of_int (timeout rpc * retrans rpc)
                     in Some (pdu1\<lparr>ptimeout := minor,
                                   major_timeout := (if major < minor then minor else major)\<rparr>)
           else Some pdu1)"

section \<open>Queues\<close>

definition rpc_hash_xid :: "'r rpc \<Rightarrow> u32 \<Rightarrow> u32" where
  "rpc_hash_xid rpc x = (x * 7919) mod num_hashes rpc"

definition bucket :: "'r rpc \<Rightarrow> u32 \<Rightarrow> nat" where
  "bucket rpc x = unat (rpc_hash_xid rpc x)"

definition inc_retransmitted :: "'r rpc \<Rightarrow> 'r rpc" where
  "inc_retransmitted rpc = rpc\<lparr>stats := (stats rpc)\<lparr>num_retransmitted := num_retransmitted (stats rpc) + 1\<rparr>\<rparr>"

definition rewind_pdu :: "'r pdu \<Rightarrow> 'r pdu option" where
  "rewind_pdu pdu =
     map_option (\<lambda>c. pdu\<lparr>out := (out pdu)\<lparr>num_done := 0\<rparr>, pin := c\<rparr>) (rpc_reset_cursor (pin pdu))"

definition rpc_return_to_outqueue :: "'r rpc \<Rightarrow> 'r pdu \<Rightarrow> 'r rpc option" where
  "rpc_return_to_outqueue rpc pdu =
     map_option (\<lambda>p. (inc_retransmitted rpc)\<lparr>outqueue := after_head p (outqueue rpc)\<rparr>) (rewind_pdu pdu)"

text \<open>
  Lookup by xid: the first PDU with the xid in the output queue, else in the bucket selected by
  \<open>rm_xid[1]\<close>, the xid of the reply read last. For a broadcast the PDU stays where it is,
  but its \<open>next\<close> is cleared, so that the list ends with it.
\<close>

definition unlink :: "'r rpc \<Rightarrow> 'r pdu list \<Rightarrow> 'r pdu \<Rightarrow> 'r pdu list \<Rightarrow> 'r pdu list" where
  "unlink rpc as p bs = (if \<not> is_udp rpc \<or> \<not> is_broadcast rpc then as @ bs else as @ [p])"

definition rpc_find_pdu :: "'r rpc \<Rightarrow> u32 \<Rightarrow> ('r rpc \<times> 'r pdu option) option" where
  "rpc_find_pdu rpc x =
     (case List.extract (\<lambda>p. pxid p = x) (outqueue rpc) of
        Some (as, p, bs) \<Rightarrow> Some (rpc\<lparr>outqueue := unlink rpc as p bs\<rparr>, Some p)
      | None \<Rightarrow>
          let h = bucket rpc (rm_xid1 rpc)
          in if length (waitpdu rpc) \<le> h then None
             else case List.extract (\<lambda>p. pxid p = x) (waitpdu rpc ! h) of
                    None \<Rightarrow> Some (rpc, None)
                  | Some (as, p, bs) \<Rightarrow>
                      Some (rpc\<lparr>waitpdu := (waitpdu rpc)[h := unlink rpc as p bs],
                               waitpdu_len := (if \<not> is_udp rpc \<or> \<not> is_broadcast rpc
                                               then waitpdu_len rpc - 1 else waitpdu_len rpc)\<rparr>,
                            Some p))"

definition ENOENT :: int where "ENOENT = 2"

definition rpc_cancel_pdu :: "'r rpc \<Rightarrow> 'r pdu \<Rightarrow> ('r rpc \<times> int) option" where
  "rpc_cancel_pdu rpc pdu =
     do {
       (rpc', found) \<leftarrow> rpc_find_pdu rpc (pxid pdu);
       Some (case found of
         None \<Rightarrow> (rpc', - ENOENT)
       | Some p \<Rightarrow> (rpc_free_pdu rpc' p, 0))
     }"

fun purge_queue :: "rpc_status \<Rightarrow> 'r rpc \<Rightarrow> 'r pdu list \<Rightarrow> 'r rpc" where
  "purge_queue st rpc [] = rpc"
| "purge_queue st rpc (p # ps) =
     purge_queue st (rpc_free_pdu (if has_cb p then call_cb rpc p st None else rpc) p) ps"

fun purge_buckets :: "rpc_status \<Rightarrow> 'r rpc \<Rightarrow> nat \<Rightarrow> nat \<Rightarrow> 'r rpc" where
  "purge_buckets st rpc i 0 = rpc"
| "purge_buckets st rpc i (Suc n) =
     purge_buckets st (purge_queue st (rpc\<lparr>waitpdu := (waitpdu rpc)[i := []]\<rparr>) (waitpdu rpc ! i)) (i + 1) n"

definition rpc_purge_all_pdus :: "rpc_status \<Rightarrow> 'r rpc \<Rightarrow> 'r rpc" where
  "rpc_purge_all_pdus st rpc =
     purge_buckets st (purge_queue st (rpc\<lparr>outqueue := []\<rparr>) (outqueue rpc)) 0 (length (waitpdu rpc))"

definition rpc_error_all_pdus :: "'r rpc \<Rightarrow> 'r rpc" where
  "rpc_error_all_pdus rpc = rpc_purge_all_pdus RPC_STATUS_ERROR rpc"

definition rpc_destroy_context :: "'r rpc \<Rightarrow> 'r rpc" where
  "rpc_destroy_context rpc =
     (let r1 = rpc_free_all_fragments (rpc_purge_all_pdus RPC_STATUS_CANCEL rpc);
          r2 = (if fd r1 \<noteq> -1 then r1\<lparr>evlog := evlog r1 @ [Closed (fd r1)]\<rparr> else r1)
      in r2\<lparr>waitpdu := [], inbuf := []\<rparr>)"

definition rpc_queue_length :: "'r rpc \<Rightarrow> int" where
  "rpc_queue_length rpc = s32 (int (length (outqueue rpc)) + uint (waitpdu_len rpc))"

definition rpc_get_num_awaiting :: "'r rpc \<Rightarrow> int" where
  "rpc_get_num_awaiting rpc = sint (waitpdu_len rpc)"

section \<open>Invariants\<close>

definition waiting :: "'r rpc \<Rightarrow> 'r pdu list" where
  "waiting rpc = concat (waitpdu rpc)"

text \<open>Every waiting PDU is in the bucket of its xid, and the counter counts them.\<close>

definition buckets_ok :: "'r rpc \<Rightarrow> bool" where
  "buckets_ok rpc \<longleftrightarrow> 0 < length (waitpdu rpc) \<and> length (waitpdu rpc) < 2 ^ 32 \<and>
     (\<forall>i < length (waitpdu rpc). \<forall>p \<in> set (waitpdu rpc ! i). bucket rpc (pxid p) = i)"

definition len_ok :: "'r rpc \<Rightarrow> bool" where
  "len_ok rpc \<longleftrightarrow> waitpdu_len rpc = word_of_nat (length (waiting rpc))"

definition wait_ok :: "'r rpc \<Rightarrow> bool" where
  "wait_ok rpc \<longleftrightarrow> buckets_ok rpc \<and> len_ok rpc"

lemma bucket_less:
  assumes "0 < length (waitpdu rpc)" "length (waitpdu rpc) < 2 ^ 32"
  shows "bucket rpc x < length (waitpdu rpc)"
proof -
  have n: "unat (num_hashes rpc) = length (waitpdu rpc)"
    using assms(2) by (simp add: num_hashes_def unat_of_nat)
  then have "num_hashes rpc \<noteq> 0" using assms(1) by auto
  then have "rpc_hash_xid rpc x < num_hashes rpc"
    unfolding rpc_hash_xid_def by (rule word_mod_less_divisor [OF word_neq_0_conv [THEN iffD1]])
  then show ?thesis by (simp add: bucket_def word_less_nat_alt n)
qed

lemma bucket_cong:
  "length (waitpdu rpc') = length (waitpdu rpc) \<Longrightarrow> bucket rpc' x = bucket rpc x"
  by (simp add: bucket_def rpc_hash_xid_def num_hashes_def)

lemma mset_concat_update:
  "i < length xss \<Longrightarrow> mset (concat (xss[i := ys])) + mset (xss ! i) = mset (concat xss) + mset ys"
proof (induction xss arbitrary: i)
  case (Cons xs xss)
  then show ?case by (cases i) (auto simp: ac_simps)
qed simp

lemma extract_SomeD:
  "List.extract P xs = Some (as, p, bs) \<Longrightarrow> xs = as @ p # bs \<and> P p \<and> (\<forall>a \<in> set as. \<not> P a)"
  by (auto simp: extract_Some_iff)

section \<open>Lookup, cancellation and purging\<close>

lemma waiting_bucket:
  assumes "buckets_ok rpc" "p \<in> set (waiting rpc)"
  shows "p \<in> set (waitpdu rpc ! bucket rpc (pxid p))" "bucket rpc (pxid p) < length (waitpdu rpc)"
proof -
  obtain qs where "qs \<in> set (waitpdu rpc)" "p \<in> set qs" using assms(2) by (auto simp: waiting_def)
  then obtain i where "i < length (waitpdu rpc)" "p \<in> set (waitpdu rpc ! i)"
    by (metis in_set_conv_nth)
  moreover from this have "bucket rpc (pxid p) = i" using assms(1) by (simp add: buckets_ok_def)
  ultimately show "p \<in> set (waitpdu rpc ! bucket rpc (pxid p))" "bucket rpc (pxid p) < length (waitpdu rpc)"
    by auto
qed

text \<open>Taking a PDU out of its bucket and decrementing the counter keeps the invariant.\<close>

lemma wait_ok_take:
  assumes "wait_ok rpc" "h < length (waitpdu rpc)" "waitpdu rpc ! h = as @ p # bs"
    and rpc': "waitpdu rpc' = (waitpdu rpc)[h := as @ bs]" "waitpdu_len rpc' = waitpdu_len rpc - 1"
  shows "wait_ok rpc'" "mset (waiting rpc) = add_mset p (mset (waiting rpc'))"
proof -
  have "mset (waiting rpc') + mset (as @ p # bs) = mset (waiting rpc) + mset (as @ bs)"
    using mset_concat_update [OF assms(2), of "as @ bs"] assms(3) by (simp add: waiting_def rpc'(1))
  then show m: "mset (waiting rpc) = add_mset p (mset (waiting rpc'))" by simp
  have "length (waiting rpc) = Suc (length (waiting rpc'))" using arg_cong [OF m, of size] by simp
  then have "len_ok rpc'" using assms(1) rpc'(2) by (simp add: wait_ok_def len_ok_def)
  moreover have "buckets_ok rpc'"
    unfolding buckets_ok_def
  proof (intro conjI allI impI ballI)
    show "0 < length (waitpdu rpc')" "length (waitpdu rpc') < 2 ^ 32"
      using assms(1) rpc'(1) by (simp_all add: wait_ok_def buckets_ok_def)
    fix i q
    assume i: "i < length (waitpdu rpc')" "q \<in> set (waitpdu rpc' ! i)"
    then have "q \<in> set (waitpdu rpc ! i)" "i < length (waitpdu rpc)"
      using assms(2,3) rpc'(1) by (auto simp: nth_list_update split: if_splits)
    then show "bucket rpc' (pxid q) = i"
      using assms(1) rpc'(1) bucket_cong [of rpc' rpc "pxid q"] by (simp add: wait_ok_def buckets_ok_def)
  qed
  ultimately show "wait_ok rpc'" by (simp add: wait_ok_def)
qed

lemma find_pdu_waiting:
  assumes "wait_ok rpc" "\<not> (is_udp rpc \<and> is_broadcast rpc)" "rm_xid1 rpc = x"
    and "\<forall>q \<in> set (outqueue rpc). pxid q \<noteq> x" "p \<in> set (waiting rpc)" "pxid p = x"
  shows "\<exists>rpc' q. rpc_find_pdu rpc x = Some (rpc', Some q) \<and> pxid q = x \<and>
    mset (waiting rpc) = add_mset q (mset (waiting rpc')) \<and> wait_ok rpc' \<and> outqueue rpc' = outqueue rpc"
proof -
  let ?h = "bucket rpc x"
  have h: "p \<in> set (waitpdu rpc ! ?h)" "?h < length (waitpdu rpc)"
    using waiting_bucket [of rpc p] assms by (auto simp: wait_ok_def)
  have out: "List.extract (\<lambda>p. pxid p = x) (outqueue rpc) = None"
    using assms(4) by (auto simp: extract_None_iff)
  obtain as q bs where ex: "List.extract (\<lambda>p. pxid p = x) (waitpdu rpc ! ?h) = Some (as, q, bs)"
    using h(1) assms(6) by (cases "List.extract (\<lambda>p. pxid p = x) (waitpdu rpc ! ?h)")
      (auto simp: extract_None_iff)
  note q = extract_SomeD [OF ex]
  let ?rpc = "rpc\<lparr>waitpdu := (waitpdu rpc)[?h := as @ bs], waitpdu_len := waitpdu_len rpc - 1\<rparr>"
  have "rpc_find_pdu rpc x = Some (?rpc, Some q)"
    using out ex h(2) assms(2,3) by (auto simp: rpc_find_pdu_def Let_def unlink_def)
  moreover have "wait_ok ?rpc" "mset (waiting rpc) = add_mset q (mset (waiting ?rpc))"
    using wait_ok_take [OF assms(1) h(2), of as q bs ?rpc] q by auto
  ultimately show ?thesis using q by auto
qed

definition purge_events :: "rpc_status \<Rightarrow> 'r pdu \<Rightarrow> 'r event list" where
  "purge_events st p = (if has_cb p then [Cb (pid p) st None] else []) @ [Freed (pid p)]"

lemma purge_queue_alt:
  "purge_queue st rpc ps = rpc\<lparr>evlog := evlog rpc @ concat (map (purge_events st) ps)\<rparr>"
  by (induction ps arbitrary: rpc)
     (simp_all add: purge_events_def rpc_free_pdu_def call_cb_def)

lemma purge_buckets_alt:
  "i + n = length (waitpdu rpc) \<Longrightarrow>
   purge_buckets st rpc i n =
     rpc\<lparr>waitpdu := take i (waitpdu rpc) @ replicate n [],
         evlog := evlog rpc @ concat (map (purge_events st) (concat (drop i (waitpdu rpc))))\<rparr>"
proof (induction n arbitrary: rpc i)
  case (Suc n)
  let ?r = "purge_queue st (rpc\<lparr>waitpdu := (waitpdu rpc)[i := []]\<rparr>) (waitpdu rpc ! i)"
  have i: "i < length (waitpdu rpc)" using Suc.prems by simp
  have "purge_buckets st rpc i (Suc n) = purge_buckets st ?r (i + 1) n" by simp
  also have "\<dots> = ?r\<lparr>waitpdu := take (i + 1) (waitpdu ?r) @ replicate n [],
         evlog := evlog ?r @ concat (map (purge_events st) (concat (drop (i + 1) (waitpdu ?r))))\<rparr>"
    using Suc.prems by (intro Suc.IH) (simp add: purge_queue_alt)
  finally show ?case
    using i by (simp add: purge_queue_alt take_Suc_conv_app_nth Cons_nth_drop_Suc [symmetric]
        replicate_append_same flip: append_Cons)
qed simp

lemma find_pdu_none:
  assumes "wait_ok rpc" "\<forall>q \<in> set (outqueue rpc) \<union> set (waiting rpc). pxid q \<noteq> x"
  shows "rpc_find_pdu rpc x = Some (rpc, None)"
proof -
  let ?h = "bucket rpc (rm_xid1 rpc)"
  have h: "?h < length (waitpdu rpc)" using assms(1) bucket_less [of rpc] by (auto simp: wait_ok_def buckets_ok_def)
  then have "set (waitpdu rpc ! ?h) \<subseteq> set (waiting rpc)" by (auto simp: waiting_def intro: nth_mem)
  then have "List.extract (\<lambda>p. pxid p = x) (waitpdu rpc ! ?h) = None" "List.extract (\<lambda>p. pxid p = x) (outqueue rpc) = None"
    using assms(2) by (auto simp: extract_None_iff)
  then show ?thesis using h by (simp add: rpc_find_pdu_def Let_def)
qed

lemma purge_all_alt:
  "rpc_purge_all_pdus st rpc =
     rpc\<lparr>outqueue := [], waitpdu := replicate (length (waitpdu rpc)) [],
         evlog := evlog rpc @ concat (map (purge_events st) (outqueue rpc @ waiting rpc))\<rparr>"
  by (simp add: rpc_purge_all_pdus_def purge_queue_alt purge_buckets_alt waiting_def)

section \<open>Properties\<close>

definition sample_pdu :: "nat \<Rightarrow> u32 \<Rightarrow> unit pdu" where
  "sample_pdu a x = (zero_pdu a ())\<lparr>pxid := x, has_cb := True\<rparr>"

text \<open>One request with xid 1 waits for its reply, in the last of four buckets.\<close>

definition sample_rpc :: "u32 \<Rightarrow> unit rpc" where
  "sample_rpc l = zero_rpc\<lparr>waitpdu := [[], [], [], [sample_pdu 10 1]], waitpdu_len := 1, rm_xid1 := l\<rparr>"

lemma sample_bucket: "bucket (sample_rpc l) x = unat ((x * 7919) mod 4)"
  by (simp add: bucket_def rpc_hash_xid_def num_hashes_def sample_rpc_def)

lemma sample_wait_ok: "wait_ok (sample_rpc l)"
  by (auto simp: wait_ok_def buckets_ok_def len_ok_def sample_bucket waiting_def)
     (auto simp: sample_rpc_def sample_pdu_def nth_Cons' zero_pdu_def split: if_splits)

text \<open>
  C18. A reply finds its request: when the xid just read belongs to a waiting request that is
  not queued for sending, the lookup returns a request with that xid, takes exactly that one out
  of the waiting queue, and keeps the buckets and the count of waiting requests right.
\<close>

theorem rpc_find_pdu_for_reply:
  assumes "wait_ok rpc" "\<not> (is_udp rpc \<and> is_broadcast rpc)" "rm_xid1 rpc = x"
    and "\<forall>q \<in> set (outqueue rpc). pxid q \<noteq> x" "p \<in> set (waiting rpc)" "pxid p = x"
  shows "\<exists>rpc' q. rpc_find_pdu rpc x = Some (rpc', Some q) \<and> pxid q = x \<and>
    mset (waiting rpc) = add_mset q (mset (waiting rpc')) \<and> wait_ok rpc' \<and> outqueue rpc' = outqueue rpc"
  using find_pdu_waiting [OF assms] .

theorem rpc_find_pdu_for_reply_witness:
  "\<exists>rpc' q. rpc_find_pdu (sample_rpc 1) 1 = Some (rpc', Some q) \<and> pxid q = 1 \<and> waiting rpc' = []"
proof -
  have "sample_pdu 10 1 \<in> set (waiting (sample_rpc 1))" "mset (waiting (sample_rpc 1)) = {#sample_pdu 10 1#}"
    "outqueue (sample_rpc 1) = []" "rm_xid1 (sample_rpc 1) = 1" "\<not> is_udp (sample_rpc 1)"
    "pxid (sample_pdu 10 1) = 1"
    by (simp_all add: sample_rpc_def waiting_def zero_rpc_def sample_pdu_def)
  then show ?thesis
    using rpc_find_pdu_for_reply [of "sample_rpc 1" 1 "sample_pdu 10 1"] sample_wait_ok by fastforce
qed

text \<open>
  Cancelling a request that waits for its reply: the lookup selects the bucket by the xid
  of the reply read last, not by the xid of the request, so that unless both fall into one bucket
  the request is not found, the answer is -ENOENT and the request stays queued.
\<close>

theorem rpc_cancel_pdu_misses:
  assumes "wait_ok rpc" "p \<in> set (waiting rpc)" "\<forall>q \<in> set (outqueue rpc). pxid q \<noteq> pxid p"
    and "bucket rpc (rm_xid1 rpc) \<noteq> bucket rpc (pxid p)"
  shows "rpc_cancel_pdu rpc p = Some (rpc, - ENOENT)"
proof -
  let ?h = "bucket rpc (rm_xid1 rpc)"
  have h: "?h < length (waitpdu rpc)"
    using assms(1) by (intro bucket_less) (simp_all add: wait_ok_def buckets_ok_def)
  have "List.extract (\<lambda>q. pxid q = pxid p) (outqueue rpc) = None"
    using assms(3) by (auto simp: extract_None_iff)
  moreover have "bucket rpc (pxid q) = ?h" if "q \<in> set (waitpdu rpc ! ?h)" for q
    using that assms(1) h by (simp add: wait_ok_def buckets_ok_def)
  then have "List.extract (\<lambda>q. pxid q = pxid p) (waitpdu rpc ! ?h) = None"
    using assms(4) by (auto simp: extract_None_iff) (metis assms(4))
  ultimately show ?thesis using h by (simp add: rpc_cancel_pdu_def rpc_find_pdu_def Let_def)
qed

theorem rpc_cancel_pdu_misses_witness:
  "rpc_cancel_pdu (sample_rpc 0) (sample_pdu 10 1) = Some (sample_rpc 0, - ENOENT)"
proof -
  have "sample_pdu 10 1 \<in> set (waiting (sample_rpc 0))" "outqueue (sample_rpc 0) = []"
    by (simp_all add: sample_rpc_def waiting_def zero_rpc_def)
  moreover have "bucket (sample_rpc 0) (rm_xid1 (sample_rpc 0)) \<noteq> bucket (sample_rpc 0) (pxid (sample_pdu 10 1))"
    by (simp add: sample_bucket) (simp add: sample_rpc_def sample_pdu_def)
  ultimately show ?thesis using rpc_cancel_pdu_misses [OF sample_wait_ok] by simp
qed

text \<open>
  Failing all requests: every queued request, to be sent or waiting, gets its callback with
  the status exactly once and is then freed, in queue order, and both queues are empty; the
  counter of waiting requests, however, keeps its old value.
\<close>

theorem rpc_purge_all_pdus_completes:
  "rpc_purge_all_pdus st rpc =
     rpc\<lparr>outqueue := [], waitpdu := replicate (length (waitpdu rpc)) [],
         evlog := evlog rpc @ concat (map (purge_events st) (outqueue rpc @ waiting rpc)),
         waitpdu_len := waitpdu_len rpc\<rparr>"
  by (simp add: purge_all_alt)

text \<open>
  After a purge with requests waiting, the counter no longer counts the waiting requests:
  \<open>rpc_queue_length\<close> reports requests that do not exist.
\<close>

theorem rpc_purge_leaves_stale_count:
  assumes "wait_ok rpc" "waiting rpc \<noteq> []" "length (waiting rpc) < 2 ^ 31"
  shows "\<not> len_ok (rpc_purge_all_pdus st rpc) \<and>
    rpc_queue_length (rpc_purge_all_pdus st rpc) = int (length (waiting rpc))"
proof
  let ?n = "length (waiting rpc)"
  have w: "waiting (rpc_purge_all_pdus st rpc) = []" by (simp add: waiting_def purge_all_alt)
  have l: "waitpdu_len (rpc_purge_all_pdus st rpc) = word_of_nat ?n"
    using assms(1) by (simp add: purge_all_alt wait_ok_def len_ok_def)
  have u: "unat (word_of_nat ?n :: u32) = ?n" using assms(3) by (simp add: unat_of_nat)
  then have "word_of_nat ?n \<noteq> (0 :: u32)" using assms(2) by auto
  then show "\<not> len_ok (rpc_purge_all_pdus st rpc)" unfolding len_ok_def w l by simp
  have "uint (word_of_nat ?n :: u32) = int ?n" using u by (metis uint_nat)
  then show "rpc_queue_length (rpc_purge_all_pdus st rpc) = int ?n"
    using assms(3) unfolding rpc_queue_length_def l by (simp add: purge_all_alt s32_nonneg)
qed

theorem rpc_purge_leaves_stale_count_witness:
  "rpc_queue_length (rpc_purge_all_pdus RPC_STATUS_ERROR (sample_rpc 0)) = 1"
proof -
  have "length (waiting (sample_rpc 0)) = 1" by (simp add: sample_rpc_def waiting_def)
  then show ?thesis
    using rpc_purge_leaves_stale_count [OF sample_wait_ok, of 0 RPC_STATUS_ERROR] by fastforce
qed

end
