(* ===== verification/Socket_Out.thy ===== *)
theory Socket_Out
  imports Rpc_Context
begin

text \<open>
  The sending side: \<open>rpc_write_to_socket\<close> of \<open>src/lib/socket.c\<close> and
  \<open>rpc_queue_pdu\<close> of \<open>src/lib/pdu.c\<close>.

  The results of the successive \<open>writev\<close> calls are a list: \<open>WCount c\<close> accepts
  \<open>c\<close> bytes, or all that are offered where these are fewer; \<open>WAgain\<close> is EAGAIN or
  EWOULDBLOCK, \<open>WError\<close> any other error; after the last element the socket takes no
  more. The model returns the bytes that went out. The larger array for the vectors is
  allocated successfully; without it the code only makes more calls.
\<close>

section \<open>Gathering\<close>

datatype wres = WCount nat | WAgain | WError

type_synonym iovs = "(nat \<times> byte list) list"

definition extend_last :: "iovs \<Rightarrow> byte list \<Rightarrow> iovs" where
  "extend_last vio d = butlast vio @ [(fst (last vio), snd (last vio) @ d)]"

text \<open>The inner \<open>for\<close>: \<open>lb\<close> is \<open>last_buf\<close>, \<open>nd\<close> what is left of \<open>num_done\<close>.\<close>

fun gather_vecs :: "nat \<Rightarrow> nat \<Rightarrow> ovec list \<Rightarrow> iovs \<Rightarrow> nat option \<Rightarrow> iovs \<times> nat option" where
  "gather_vecs cap nd [] vio lb = (vio, lb)"
| "gather_vecs cap nd (v # vs) vio lb =
     (if nd \<ge> length (ov_data v) then gather_vecs cap (nd - length (ov_data v)) vs vio lb
      else let a = ov_addr v + nd; d = drop nd (ov_data v)
           in if lb \<noteq> Some a
              then if length vio + 1 \<ge> cap then (vio @ [(a, d)], lb)
                   else gather_vecs cap 0 vs (vio @ [(a, d)]) (Some (a + length d))
              else gather_vecs cap 0 vs (extend_last vio d) (Some (a + length d)))"

text \<open>The \<open>do ... while\<close> over the PDUs; a fully sent PDU in the queue fails an assertion.\<close>

fun gather_pdus :: "'r rpc \<Rightarrow> nat \<Rightarrow> 'r pdu list \<Rightarrow> iovs \<Rightarrow> nat option \<Rightarrow> u32 \<Rightarrow> iovs option" where
  "gather_pdus rpc cap [] vio lb n = Some vio"
| "gather_pdus rpc cap (p # ps) vio lb n =
     (if num_done (out p) \<ge> total_size (out p) then None
      else let (vio', lb') = gather_vecs cap (num_done (out p)) (vecs (out p)) vio lb
           in if (max_waitpdu_len rpc = 0 \<or> max_waitpdu_len rpc > waitpdu_len rpc + (n + 1)) \<and>
                 ps \<noteq> [] \<and> length vio' < cap
              then gather_pdus rpc cap ps vio' lb' (n + 1)
              else Some vio')"

section \<open>Completion\<close>

definition inc_req_sent :: "'r rpc \<Rightarrow> 'r rpc" where
  "inc_req_sent rpc = rpc\<lparr>stats := (stats rpc)\<lparr>num_req_sent := num_req_sent (stats rpc) + 1\<rparr>\<rparr>"

definition add_waiting :: "'r rpc \<Rightarrow> 'r pdu \<Rightarrow> 'r rpc" where
  "add_waiting rpc p =
     rpc\<lparr>waitpdu := (waitpdu rpc)[bucket rpc (pxid p) := waitpdu rpc ! bucket rpc (pxid p) @ [p]],
         waitpdu_len := waitpdu_len rpc + 1\<rparr>"

text \<open>The loop over the PDUs that \<open>count\<close> bytes complete; True: \<open>goto finished\<close>.\<close>

function complete_pdus :: "'r rpc \<Rightarrow> nat \<Rightarrow> ('r rpc \<times> bool) option" where
  "complete_pdus rpc cnt =
     (if cnt = 0 then Some (rpc, False)
      else case outqueue rpc of
        [] \<Rightarrow> Some (rpc, False)
      | p # ps \<Rightarrow>
          let remaining = sub64 (total_size (out p)) (num_done (out p))
          in if remaining \<le> cnt
             then let p' = p\<lparr>out := (out p)\<lparr>num_done := total_size (out p)\<rparr>\<rparr>;
                      rpc1 = inc_req_sent (rpc\<lparr>outqueue := ps\<rparr>)
                  in if discard_after_sending p then Some (rpc_free_pdu rpc1 p', True)
                     else if length (waitpdu rpc1) \<le> bucket rpc1 (pxid p') then None
                     else complete_pdus (add_waiting rpc1 p') (cnt - remaining)
             else Some (rpc\<lparr>outqueue := p\<lparr>out := (out p)\<lparr>num_done := num_done (out p) + cnt\<rparr>\<rparr> # ps\<rparr>, False))"
  by pat_completeness auto
termination
  by (relation "measure (\<lambda>(rpc, cnt). length (outqueue rpc))")
     (auto simp: add_waiting_def inc_req_sent_def)

section \<open>Writing\<close>

definition may_send :: "'r rpc \<Rightarrow> bool" where
  "may_send rpc \<longleftrightarrow> max_waitpdu_len rpc = 0 \<or> max_waitpdu_len rpc > waitpdu_len rpc"

definition write_cap :: "nat \<Rightarrow> 'r pdu \<Rightarrow> nat" where
  "write_cap cap p =
     (if length (vecs (out p)) > cap \<and> cap \<noteq> RPC_MAX_VECTORS then RPC_MAX_VECTORS else cap)"

fun write_loop :: "wres list \<Rightarrow> nat \<Rightarrow> 'r rpc \<Rightarrow> (byte list \<times> 'r rpc \<times> int) option" where
  "write_loop ws cap rpc =
     (if \<not> may_send rpc then Some ([], rpc, 0)
      else case outqueue rpc of
        [] \<Rightarrow> Some ([], rpc, 0)
      | p # ps \<Rightarrow>
          if length (vecs (out p)) > iov_capacity (out p) \<or> iov_capacity (out p) > RPC_MAX_VECTORS then None
          else case gather_pdus rpc (write_cap cap p) (p # ps) [] None 0 of
            None \<Rightarrow> None
          | Some vio \<Rightarrow>
              if vio = [] then None
              else case ws of
                [] \<Rightarrow> Some ([], rpc, 0)
              | WAgain # _ \<Rightarrow> Some ([], rpc, 0)
              | WError # _ \<Rightarrow> Some ([], rpc, -1)
              | WCount c # ws' \<Rightarrow>
                  let sent = take c (concat (map snd vio))
                  in case complete_pdus rpc (length sent) of
                       None \<Rightarrow> None
                     | Some (rpc', True) \<Rightarrow> Some (sent, rpc', 0)
                     | Some (rpc', False) \<Rightarrow>
                         map_option (\<lambda>(bs, r, ret). (sent @ bs, r, ret)) (write_loop ws' (write_cap cap p) rpc'))"

definition rpc_write_to_socket :: "wres list \<Rightarrow> 'r rpc \<Rightarrow> (byte list \<times> 'r rpc \<times> int) option" where
  "rpc_write_to_socket ws rpc =
     (if socket_disabled rpc then Some ([], rpc, 0)
      else if fd rpc = -1 then Some ([], rpc, -1)
      else write_loop ws RPC_FAST_VECTORS rpc)"

section \<open>Queueing\<close>

text \<open>
  The common part of \<open>rpc_queue_pdu\<close>: timeouts, the vector for the rest of the marshalling
  buffer, and the record marker. The inner \<open>None\<close>: there are too many vectors, the PDU is
  freed and the result is -1.
\<close>

definition recordmarker :: "int \<Rightarrow> u32" where
  "recordmarker sz = word_of_int sz OR 0x80000000"

definition finish_pdu :: "u64 \<Rightarrow> 'r rpc \<Rightarrow> 'r pdu \<Rightarrow> ('r pdu \<times> int) option option" where
  "finish_pdu now rpc pdu0 =
     do {
       pdu \<leftarrow> pdu_set_timeout now rpc pdu0 0;
       let pos = sint (libnfs_zdr_getpos (pzdr pdu));
       let sz0 = s32 (int (sum_list (map (\<lambda>v. length (ov_data v)) (List.tl (vecs (out pdu))))));
       let o1 = (out pdu)\<lparr>total_size := nat (sz0 + 4)\<rparr>;
       if pos > sz0
       then (let data = take (nat (pos - sz0)) (drop (nat sz0) (zbuf (pzdr pdu)));
                 (o2, ok) = rpc_add_iovector o1 \<lparr>ov_addr = outaddr pdu + total_size o1, ov_data = data, ov_free = False\<rparr>
             in if \<not> ok then Some None
                else Some (Some (pdu\<lparr>out := o2\<lparr>total_size := total_size o2 + nat (pos - sz0)\<rparr>\<rparr>, pos)))
       else Some (Some (pdu\<lparr>out := o1\<rparr>, sz0))
     }"

definition put_marker :: "int \<Rightarrow> 'r pdu \<Rightarrow> 'r pdu" where
  "put_marker sz pdu =
     pdu\<lparr>out := (out pdu)\<lparr>vecs := (vecs (out pdu))[0 := (vecs (out pdu) ! 0)\<lparr>ov_data := be32 (recordmarker sz)\<rparr>]\<rparr>\<rparr>"

text \<open>
  \<open>udp_ok\<close> is the outcome of the \<open>sendto\<close> or \<open>writev\<close> on a datagram socket.
  Where it fails the PDU leaves the waiting queue, but the counter was already incremented.
\<close>

definition remove_waiting :: "'r rpc \<Rightarrow> 'r pdu \<Rightarrow> 'r rpc" where
  "remove_waiting rpc p =
     rpc\<lparr>waitpdu := (waitpdu rpc)[bucket rpc (pxid p) :=
            filter (\<lambda>q. pid q \<noteq> pid p) (waitpdu rpc ! bucket rpc (pxid p))]\<rparr>"

definition queue_udp :: "bool \<Rightarrow> 'r rpc \<Rightarrow> 'r pdu \<Rightarrow> ('r rpc \<times> int) option" where
  "queue_udp udp_ok rpc pdu =
     (if is_server_context rpc then Some (rpc_free_pdu rpc pdu, if udp_ok then 0 else -1)
      else if length (waitpdu rpc) \<le> bucket rpc (pxid pdu) then None
      else if \<not> is_broadcast rpc \<and> length (vecs (out pdu)) > RPC_FAST_VECTORS then None
      else let rpc1 = add_waiting rpc pdu
           in if udp_ok then Some (rpc1, 0)
              else Some (rpc_free_pdu (remove_waiting rpc1 pdu) pdu, -1))"

definition rpc_queue_pdu ::
    "u64 \<Rightarrow> wres list \<Rightarrow> bool \<Rightarrow> 'r rpc \<Rightarrow> 'r pdu \<Rightarrow> (byte list \<times> 'r rpc \<times> int) option" where
  "rpc_queue_pdu now ws udp_ok rpc pdu0 =
     do {
       r \<leftarrow> finish_pdu now rpc pdu0;
       case r of
         None \<Rightarrow> Some ([], rpc_free_pdu rpc pdu0, -1)
       | Some (pdu1, sz) \<Rightarrow>
           if vecs (out pdu1) = [] then None
           else
             let pdu = put_marker sz pdu1
             in if is_udp rpc then map_option (\<lambda>(r, i). ([], r, i)) (queue_udp udp_ok rpc pdu)
                else if num_done (out pdu) \<noteq> 0 then None
                else
                  let rpc1 = rpc\<lparr>outqueue := outqueue rpc @ [pdu]\<rparr>
                  in if outqueue rpc = []
                     then map_option (\<lambda>(bs, r, _). (bs, r, 0)) (rpc_write_to_socket ws rpc1)
                     else Some ([], rpc1, 0)
     }"

section \<open>The byte stream\<close>

definition wire :: "'r pdu \<Rightarrow> byte list" where
  "wire p = concat (map ov_data (vecs (out p)))"

definition unsent :: "'r pdu \<Rightarrow> byte list" where
  "unsent p = drop (num_done (out p)) (wire p)"

definition pending :: "'r rpc \<Rightarrow> byte list" where
  "pending rpc = concat (map unsent (outqueue rpc))"

text \<open>A request in the output queue: its size is right and it is not fully sent.\<close>

definition pdu_sendable :: "'r pdu \<Rightarrow> bool" where
  "pdu_sendable p \<longleftrightarrow> total_size (out p) = length (wire p) \<and> num_done (out p) < total_size (out p) \<and>
     total_size (out p) < 2 ^ 64 \<and> length (vecs (out p)) \<le> iov_capacity (out p) \<and>
     iov_capacity (out p) \<le> RPC_MAX_VECTORS \<and> \<not> discard_after_sending p"

definition sendq_ok :: "'r rpc \<Rightarrow> bool" where
  "sendq_ok rpc \<longleftrightarrow> (\<forall>p \<in> set (outqueue rpc). pdu_sendable p)"

definition bytes_of :: "iovs \<Rightarrow> byte list" where
  "bytes_of vio = concat (map snd vio)"

lemma bytes_of_simps [simp]:
  "bytes_of [] = []" "bytes_of (vio @ [(a, d)]) = bytes_of vio @ d"
  by (simp_all add: bytes_of_def)

lemma bytes_of_extend [simp]: "vio \<noteq> [] \<Longrightarrow> bytes_of (extend_last vio d) = bytes_of vio @ d"
  by (cases vio rule: rev_cases) (simp_all add: extend_last_def bytes_of_def)

lemma extend_last_len [simp]: "vio \<noteq> [] \<Longrightarrow> length (extend_last vio d) = length vio"
  by (simp add: extend_last_def)

text \<open>
  \<open>gathered W cap vio vio'\<close>: of the bytes \<open>W\<close> a prefix was added to
  \<open>vio\<close>, all of them unless the array is full.
\<close>

definition gathered :: "byte list \<Rightarrow> nat \<Rightarrow> iovs \<Rightarrow> iovs \<Rightarrow> bool" where
  "gathered W cap vio vio' \<longleftrightarrow> (\<exists>taken rest. W = taken @ rest \<and> bytes_of vio' = bytes_of vio @ taken \<and>
     (length vio' < cap \<longrightarrow> rest = []) \<and> (vio \<noteq> [] \<or> W \<noteq> [] \<longrightarrow> vio' \<noteq> []))"

lemma gathered_step:
  assumes "gathered W cap vio1 vio'" "bytes_of vio1 = bytes_of vio @ d" "vio1 \<noteq> []"
  shows "gathered (d @ W) cap vio vio'"
proof -
  obtain taken rest where "W = taken @ rest" "bytes_of vio' = bytes_of vio1 @ taken"
    "length vio' < cap \<longrightarrow> rest = []" "vio' \<noteq> []"
    using assms by (auto simp: gathered_def)
  then show ?thesis
    unfolding gathered_def using assms(2) by (intro exI [of _ "d @ taken"] exI [of _ rest]) simp
qed

lemma gathered_full: "length vio + 1 \<ge> cap \<Longrightarrow> gathered (d @ W) cap vio (vio @ [(a, d)])"
  unfolding gathered_def by (intro exI [of _ d] exI [of _ W]) simp

lemma gather_vecs_bytes:
  "(lb \<noteq> None \<longrightarrow> vio \<noteq> []) \<Longrightarrow> gather_vecs cap nd vs vio lb = (vio', lb') \<Longrightarrow>
   gathered (drop nd (concat (map ov_data vs))) cap vio vio' \<and> (lb' \<noteq> None \<longrightarrow> vio' \<noteq> [])"
proof (induction cap nd vs vio lb rule: gather_vecs.induct)
  case (1 cap nd vio lb)
  then show ?case by (auto simp: gathered_def)
next
  case (2 cap nd v vs vio lb)
  let ?a = "ov_addr v + nd" and ?d = "drop nd (ov_data v)"
  have W: "drop nd (concat (map ov_data (v # vs))) = ?d @ drop (nd - length (ov_data v)) (concat (map ov_data vs))"
    by simp
  consider "length (ov_data v) \<le> nd" | "nd < length (ov_data v)" "lb \<noteq> Some ?a" "cap \<le> length vio + 1"
    | "nd < length (ov_data v)" "lb \<noteq> Some ?a" "\<not> cap \<le> length vio + 1"
    | "nd < length (ov_data v)" "lb = Some ?a" by linarith
  then show ?case
  proof cases
    case 1
    then show ?thesis using 2(1) [OF 1 2(4)] 2(5) by simp
  next
    case 2
    then have "vio' = vio @ [(?a, ?d)]" using "2.prems"(2) by (simp add: Let_def split: if_splits)
    then show ?thesis unfolding W using gathered_full [OF 2(3)] by simp
  next
    case 3
    then have "gather_vecs cap 0 vs (vio @ [(?a, ?d)]) (Some (?a + length ?d)) = (vio', lb')"
      using "2.prems"(2) by (simp add: Let_def)
    then have ih: "gathered (drop 0 (concat (map ov_data vs))) cap (vio @ [(?a, ?d)]) vio'" "lb' \<noteq> None \<longrightarrow> vio' \<noteq> []"
      using 2(2) [OF _ refl refl] 3 by simp_all
    show ?thesis unfolding W using gathered_step [OF ih(1), of vio ?d] ih(2) 3 by simp
  next
    case 4
    then have "gather_vecs cap 0 vs (extend_last vio ?d) (Some (?a + length ?d)) = (vio', lb')"
      using "2.prems"(2) by (simp add: Let_def)
    moreover have v: "vio \<noteq> []" "extend_last vio ?d \<noteq> []" using 4 "2.prems"(1) by (simp_all add: extend_last_def)
    ultimately have ih: "gathered (drop 0 (concat (map ov_data vs))) cap (extend_last vio ?d) vio'" "lb' \<noteq> None \<longrightarrow> vio' \<noteq> []"
      using 2(3) [OF _ refl refl] 4 by simp_all
    show ?thesis unfolding W using gathered_step [OF ih(1) _ v(2), of vio ?d] ih(2) 4 v(1) by simp
  qed
qed

lemma unsent_nonempty: "pdu_sendable p \<Longrightarrow> unsent p \<noteq> []"
  by (simp add: pdu_sendable_def unsent_def)

text \<open>What is offered to \<open>writev\<close> is a non-empty prefix of the pending bytes.\<close>

lemma gather_pdus_bytes:
  "\<forall>p \<in> set ps. pdu_sendable p \<Longrightarrow> (lb \<noteq> None \<longrightarrow> vio \<noteq> []) \<Longrightarrow>
   \<exists>vio' taken rest. gather_pdus rpc cap ps vio lb n = Some vio' \<and> concat (map unsent ps) = taken @ rest \<and>
     bytes_of vio' = bytes_of vio @ taken \<and> (vio \<noteq> [] \<or> ps \<noteq> [] \<longrightarrow> vio' \<noteq> [])"
proof (induction ps arbitrary: vio lb n)
  case (Cons p ps)
  obtain vio1 lb1 where g: "gather_vecs cap (num_done (out p)) (vecs (out p)) vio lb = (vio1, lb1)" by fastforce
  have G: "gathered (unsent p) cap vio vio1" "lb1 \<noteq> None \<longrightarrow> vio1 \<noteq> []"
    using gather_vecs_bytes [OF Cons.prems(2) g] by (simp_all add: unsent_def wire_def)
  then obtain taken rest where tr: "unsent p = taken @ rest" "bytes_of vio1 = bytes_of vio @ taken"
    "length vio1 < cap \<longrightarrow> rest = []" "vio1 \<noteq> []"
    using unsent_nonempty [of p] Cons.prems(1) by (auto simp: gathered_def)
  have nd: "\<not> num_done (out p) \<ge> total_size (out p)" using Cons.prems(1) by (simp add: pdu_sendable_def)
  show ?case
  proof (cases "(max_waitpdu_len rpc = 0 \<or> max_waitpdu_len rpc > waitpdu_len rpc + (n + 1)) \<and>
      ps \<noteq> [] \<and> length vio1 < cap")
    case False
    then show ?thesis using g nd tr
      by (intro exI [of _ vio1] exI [of _ taken] exI [of _ "rest @ concat (map unsent ps)"]) auto
  next
    case True
    then obtain vio' taken' rest' where
      "gather_pdus rpc cap ps vio1 lb1 (n + 1) = Some vio'" "concat (map unsent ps) = taken' @ rest'"
      "bytes_of vio' = bytes_of vio1 @ taken'" "vio' \<noteq> []"
      using Cons.IH [of lb1 vio1 "n + 1"] Cons.prems(1) G(2) tr(4) by auto
    then show ?thesis using g nd tr True
      by (intro exI [of _ vio'] exI [of _ "taken @ taken'"] exI [of _ rest']) auto
  qed
qed simp

text \<open>
  The request that a PDU stands for, whatever of it was sent or received and however its timers
  stand, and the requests of a context.
\<close>

definition request :: "'r pdu \<Rightarrow> 'r pdu" where
  "request p = p\<lparr>out := (out p)\<lparr>num_done := 0\<rparr>,
     pin := (if has_base (pin p) then readv_cursor (ref_vecs (pin p)) else pin p),
     ptimeout := 0, major_timeout := 0, snr_logged := False\<rparr>"

definition queued :: "'r rpc \<Rightarrow> 'r pdu multiset" where
  "queued rpc = mset (map request (outqueue rpc @ waiting rpc))"

lemma request_sent [simp]: "request (p\<lparr>out := (out p)\<lparr>num_done := n\<rparr>\<rparr>) = request p"
  by (simp add: request_def)

lemma request_timers [simp]:
  "request (p\<lparr>ptimeout := t\<rparr>) = request p" "request (p\<lparr>major_timeout := t\<rparr>) = request p"
  "request (p\<lparr>snr_logged := b\<rparr>) = request p"
  by (simp_all add: request_def)

lemma request_sel [simp]:
  "pid (request p) = pid p" "pxid (request p) = pxid p" "wire (request p) = wire p"
  "has_cb (request p) = has_cb p" "zdr_decode_fn (request p) = zdr_decode_fn p"
  "zdr_decode_buf (request p) = zdr_decode_buf p" "free_pdu (request p) = free_pdu p"
  "free_zdr (request p) = free_zdr p" "has_base (pin (request p)) = has_base (pin p)"
  by (simp_all add: request_def wire_def readv_cursor_def)

text \<open>
  The parameters of a context and the state of its reader, which sending leaves alone; and what
  sending keeps in all.
\<close>

definition conf :: "'r rpc \<Rightarrow> bool \<times> bool \<times> bool \<times> int \<times> int \<times> int \<times> sockaddr" where
  "conf rpc = (is_server_context rpc, is_udp rpc, socket_disabled rpc, timeout rpc, retrans rpc,
     auto_reconnect rpc, peer rpc)"

definition inp :: "'r rpc \<Rightarrow> input_state \<times> u32 \<times> byte list list \<times> byte list \<times> 'r pdu option" where
  "inp rpc = (istate rpc, inpos rpc, fragments rpc, inbuf rpc, cur_pdu rpc)"

definition kept :: "'r rpc \<Rightarrow> 'r rpc \<Rightarrow> bool" where
  "kept rpc rpc' \<longleftrightarrow> queued rpc' = queued rpc \<and> evlog rpc' = evlog rpc \<and> conf rpc' = conf rpc \<and> inp rpc' = inp rpc"

lemma conf_inp_upd [simp]:
  "conf (rpc\<lparr>outqueue := a\<rparr>) = conf rpc" "conf (rpc\<lparr>waitpdu := b\<rparr>) = conf rpc"
  "conf (rpc\<lparr>waitpdu_len := c\<rparr>) = conf rpc" "conf (rpc\<lparr>stats := d\<rparr>) = conf rpc"
  "conf (rpc\<lparr>evlog := e\<rparr>) = conf rpc" "conf (rpc\<lparr>last_timeout_scan := f\<rparr>) = conf rpc"
  "inp (rpc\<lparr>outqueue := a\<rparr>) = inp rpc" "inp (rpc\<lparr>waitpdu := b\<rparr>) = inp rpc"
  "inp (rpc\<lparr>waitpdu_len := c\<rparr>) = inp rpc" "inp (rpc\<lparr>stats := d\<rparr>) = inp rpc"
  "inp (rpc\<lparr>evlog := e\<rparr>) = inp rpc" "inp (rpc\<lparr>last_timeout_scan := f\<rparr>) = inp rpc"
  by (simp_all add: conf_def inp_def)

lemma kept_refl [simp]: "kept rpc rpc"
  by (simp add: kept_def)

lemma kept_trans: "kept r1 r2 \<Longrightarrow> kept r2 r3 \<Longrightarrow> kept r1 r3"
  by (simp add: kept_def)

lemma add_waiting_ok:
  assumes "wait_ok rpc"
  shows "wait_ok (add_waiting rpc p)" "mset (waiting (add_waiting rpc p)) = add_mset p (mset (waiting rpc))"
proof -
  let ?r = "add_waiting rpc p" and ?h = "bucket rpc (pxid p)"
  have h: "?h < length (waitpdu rpc)"
    using assms by (intro bucket_less) (simp_all add: wait_ok_def buckets_ok_def)
  show m: "mset (waiting ?r) = add_mset p (mset (waiting rpc))"
    using mset_concat_update [OF h, of "waitpdu rpc ! ?h @ [p]"] by (simp add: waiting_def add_waiting_def)
  have "length (waiting ?r) = Suc (length (waiting rpc))" using arg_cong [OF m, of size] by simp
  then have "len_ok ?r" using assms by (simp add: wait_ok_def len_ok_def add_waiting_def)
  moreover have "buckets_ok ?r"
    unfolding buckets_ok_def
  proof (intro conjI allI impI ballI)
    show "0 < length (waitpdu ?r)" "length (waitpdu ?r) < 2 ^ 32"
      using assms by (simp_all add: add_waiting_def wait_ok_def buckets_ok_def)
    fix i q
    assume i: "i < length (waitpdu ?r)" "q \<in> set (waitpdu ?r ! i)"
    then have "q \<in> set (waitpdu rpc ! i) \<or> q = p \<and> i = ?h"
      using h by (auto simp: add_waiting_def nth_list_update split: if_splits)
    moreover have "i < length (waitpdu rpc)" using i(1) by (simp add: add_waiting_def)
    ultimately have "bucket rpc (pxid q) = i" using assms by (auto simp: wait_ok_def buckets_ok_def)
    then show "bucket ?r (pxid q) = i" using bucket_cong [of ?r rpc] by (simp add: add_waiting_def)
  qed
  ultimately show "wait_ok ?r" by (simp add: wait_ok_def)
qed

lemma wait_ok_cong:
  "waitpdu rpc' = waitpdu rpc \<Longrightarrow> waitpdu_len rpc' = waitpdu_len rpc \<Longrightarrow> wait_ok rpc' = wait_ok rpc"
  by (simp add: wait_ok_def buckets_ok_def len_ok_def waiting_def bucket_cong [of rpc' rpc])

lemma add_waiting_sel [simp]: "outqueue (add_waiting rpc p) = outqueue rpc"
  by (simp add: add_waiting_def)

lemma inc_req_sent_sel [simp]:
  "outqueue (inc_req_sent rpc) = outqueue rpc" "waitpdu (inc_req_sent rpc) = waitpdu rpc"
  "waitpdu_len (inc_req_sent rpc) = waitpdu_len rpc" "waiting (inc_req_sent rpc) = waiting rpc"
  by (simp_all add: inc_req_sent_def waiting_def)

declare complete_pdus.simps [simp del] write_loop.simps [simp del]

lemma complete_pdus_stream:
  "wait_ok rpc \<Longrightarrow> sendq_ok rpc \<Longrightarrow> n \<le> length (pending rpc) \<Longrightarrow>
   \<exists>rpc'. complete_pdus rpc n = Some (rpc', False) \<and> wait_ok rpc' \<and> sendq_ok rpc' \<and>
     pending rpc' = drop n (pending rpc) \<and> kept rpc rpc'"
proof (induction rpc n rule: complete_pdus.induct)
  case (1 rpc n)
  show ?case
  proof (cases "n = 0 \<or> outqueue rpc = []")
    case True
    then show ?thesis using 1 by (subst complete_pdus.simps) (auto simp: pending_def)
  next
    case False
    then obtain p ps where q: "outqueue rpc = p # ps" by (cases "outqueue rpc") auto
    let ?rem = "total_size (out p) - num_done (out p)"
    have p: "pdu_sendable p" "\<forall>q \<in> set ps. pdu_sendable q" using 1(3) by (simp_all add: sendq_ok_def q)
    have rem: "sub64 (total_size (out p)) (num_done (out p)) = ?rem" "length (unsent p) = ?rem"
      using p(1) by (simp_all add: pdu_sendable_def sub64_le unsent_def)
    show ?thesis
    proof (cases "?rem \<le> n")
      case True
      let ?p = "p\<lparr>out := (out p)\<lparr>num_done := total_size (out p)\<rparr>\<rparr>"
      let ?r1 = "inc_req_sent (rpc\<lparr>outqueue := ps\<rparr>)"
      let ?r2 = "add_waiting ?r1 ?p"
      have w1: "wait_ok ?r1" using 1(2) by (subst wait_ok_cong [of _ rpc]) simp_all
      have b: "\<not> length (waitpdu ?r1) \<le> bucket ?r1 (pxid ?p)"
        using w1 bucket_less [of ?r1 "pxid ?p"] by (simp add: wait_ok_def buckets_ok_def not_le)
      have s2: "sendq_ok ?r2" using p(2) by (simp add: sendq_ok_def)
      have pend: "pending rpc = unsent p @ pending ?r2" by (simp add: pending_def q)
      have n2: "n - ?rem \<le> length (pending ?r2)" using 1(4) rem(2) unfolding pend by simp
      have d: "\<not> discard_after_sending p" using p(1) by (simp add: pdu_sendable_def)
      have step: "complete_pdus rpc n = complete_pdus ?r2 (n - ?rem)"
        using False q True rem(1) d b by (subst complete_pdus.simps) (simp add: Let_def)
      have "\<exists>rpc'. complete_pdus ?r2 (n - ?rem) = Some (rpc', False) \<and> wait_ok rpc' \<and> sendq_ok rpc' \<and>
          pending rpc' = drop (n - ?rem) (pending ?r2) \<and> kept ?r2 rpc'"
        using 1(1) [of p ps _ ?p ?r1] False q True rem(1) d b add_waiting_ok(1) [OF w1] s2 n2 by (simp add: rem)
      moreover have "queued ?r2 = queued rpc"
        using arg_cong [OF add_waiting_ok(2) [OF w1, of ?p], of "image_mset request"]
        by (simp add: queued_def q) (simp add: waiting_def)
      then have "kept rpc ?r2"
        by (simp add: kept_def conf_def inp_def add_waiting_def inc_req_sent_def)
      ultimately show ?thesis using True rem(2) kept_trans [of rpc ?r2] by (auto simp: step pend)
    next
      case lt: False
      let ?p = "p\<lparr>out := (out p)\<lparr>num_done := num_done (out p) + n\<rparr>\<rparr>"
      let ?r = "rpc\<lparr>outqueue := ?p # ps\<rparr>"
      have "complete_pdus rpc n = Some (?r, False)"
        using False q lt rem(1) by (subst complete_pdus.simps) (simp add: Let_def)
      moreover have "wait_ok ?r" using 1(2) by (subst wait_ok_cong [of _ rpc]) simp_all
      moreover have u: "unsent ?p = drop n (unsent p)" by (simp add: unsent_def wire_def add.commute)
      moreover have "pdu_sendable ?p" using p(1) lt by (simp add: pdu_sendable_def wire_def)
      moreover have "pending ?r = drop n (pending rpc)" using lt rem(2) u by (simp add: pending_def q)
      moreover have "kept rpc ?r" by (simp add: kept_def queued_def conf_def inp_def q waiting_def)
      ultimately show ?thesis using p(2) by (simp add: sendq_ok_def)
    qed
  qed
qed

lemma write_loop_stream:
  "wait_ok rpc \<Longrightarrow> sendq_ok rpc \<Longrightarrow>
   \<exists>bs rpc' ret. write_loop ws cap rpc = Some (bs, rpc', ret) \<and> bs @ pending rpc' = pending rpc \<and>
     wait_ok rpc' \<and> sendq_ok rpc' \<and> kept rpc rpc'"
proof (induction ws arbitrary: cap rpc)
  case Nil
  show ?case
  proof (cases "may_send rpc \<and> outqueue rpc \<noteq> []")
    case True
    then obtain p ps where q: "outqueue rpc = p # ps" by (cases "outqueue rpc") auto
    obtain vio where "gather_pdus rpc (write_cap cap p) (p # ps) [] None 0 = Some vio" "vio \<noteq> []"
      using gather_pdus_bytes [of "p # ps" None "[]" rpc "write_cap cap p" 0] Nil.prems(2)
      by (auto simp: sendq_ok_def q)
    then show ?thesis
      using Nil.prems True q by (subst write_loop.simps) (auto simp: sendq_ok_def pdu_sendable_def)
  next
    case False
    then show ?thesis using Nil.prems by (subst write_loop.simps) (auto split: list.splits)
  qed
next
  case (Cons w ws)
  show ?case
  proof (cases "may_send rpc \<and> outqueue rpc \<noteq> []")
    case False
    then show ?thesis using Cons.prems by (subst write_loop.simps) (auto split: list.splits)
  next
    case True
    then obtain p ps where q: "outqueue rpc = p # ps" by (cases "outqueue rpc") auto
    obtain vio taken rest where g: "gather_pdus rpc (write_cap cap p) (p # ps) [] None 0 = Some vio" "vio \<noteq> []"
      "pending rpc = taken @ rest" "bytes_of vio = taken"
      using gather_pdus_bytes [of "p # ps" None "[]" rpc "write_cap cap p" 0] Cons.prems(2)
      by (auto simp: sendq_ok_def q pending_def)
    have cap: "\<not> (length (vecs (out p)) > iov_capacity (out p) \<or> iov_capacity (out p) > RPC_MAX_VECTORS)"
      using Cons.prems(2) by (simp add: sendq_ok_def pdu_sendable_def q)
    show ?thesis
    proof (cases w)
      case (WCount c)
      let ?sent = "take c taken"
      have "length ?sent \<le> length (pending rpc)" by (simp add: g(3))
      then obtain r1 where r1: "complete_pdus rpc (length ?sent) = Some (r1, False)" "wait_ok r1" "sendq_ok r1"
        "pending r1 = drop (length ?sent) (pending rpc)" "kept rpc r1"
        using complete_pdus_stream [OF Cons.prems] by blast
      obtain bs r2 ret where "write_loop ws (write_cap cap p) r1 = Some (bs, r2, ret)" "bs @ pending r2 = pending r1"
        "wait_ok r2" "sendq_ok r2" "kept r1 r2"
        using Cons.IH [OF r1(2,3)] by blast
      moreover have "?sent @ drop (length ?sent) (pending rpc) = pending rpc"
        by (cases "c \<le> length taken") (simp_all add: g(3))
      ultimately show ?thesis
        using True q g cap r1 WCount kept_trans [of rpc r1 r2] by (subst write_loop.simps) (simp add: bytes_of_def)
    next
      case WAgain
      then show ?thesis using True q g cap Cons.prems by (subst write_loop.simps) simp
    next
      case WError
      then show ?thesis using True q g cap Cons.prems by (subst write_loop.simps) simp
    qed
  qed
qed

lemma write_to_socket_stream:
  assumes "wait_ok rpc" "sendq_ok rpc"
  shows "\<exists>bs rpc' ret. rpc_write_to_socket ws rpc = Some (bs, rpc', ret) \<and>
    bs @ pending rpc' = pending rpc \<and> wait_ok rpc' \<and> sendq_ok rpc' \<and> kept rpc rpc'"
  using write_loop_stream [OF assms, of ws RPC_FAST_VECTORS] assms
  by (auto simp: rpc_write_to_socket_def)

section \<open>Framing\<close>

text \<open>
  A PDU between its allocation and its queueing: the vectors are the record marker and a prefix
  of the marshalling buffer, the rest of the marshalled bytes is not in a vector yet.
\<close>

definition fresh_pdu :: "'r pdu \<Rightarrow> bool" where
  "fresh_pdu p \<longleftrightarrow> (\<exists>rm hdr h. vecs (out p) = [rm, hdr] \<and> length (ov_data rm) = 4 \<and>
      ov_data hdr = take h (zbuf (pzdr p)) \<and> int h \<le> zpos (pzdr p)) \<and>
     zpos (pzdr p) \<le> int (length (zbuf (pzdr p))) \<and> zpos (pzdr p) \<le> 2 ^ 30 \<and>
     num_done (out p) = 0 \<and> 3 \<le> iov_capacity (out p) \<and> iov_capacity (out p) \<le> RPC_MAX_VECTORS \<and>
     \<not> discard_after_sending p"

definition marshalled :: "'r pdu \<Rightarrow> byte list" where
  "marshalled p = take (nat (zpos (pzdr p))) (zbuf (pzdr p))"

definition record_of :: "'r pdu \<Rightarrow> byte list" where
  "record_of p = be32 (recordmarker (zpos (pzdr p))) @ marshalled p"

text \<open>What of a PDU the reply needs; queueing keeps it.\<close>

definition reply_side :: "'r pdu \<Rightarrow> nat \<times> u32 \<times> bool \<times> 'r zproc option \<times> 'r \<times> bool \<times> bool \<times> cursor" where
  "reply_side p = (pid p, pxid p, has_cb p, zdr_decode_fn p, zdr_decode_buf p, free_pdu p, free_zdr p, pin p)"

lemma set_timeout_frame:
  assumes "pdu_set_timeout now rpc p t = Some p'"
  shows "pzdr p' = pzdr p" "out p' = out p" "outaddr p' = outaddr p" "pid p' = pid p"
    "discard_after_sending p' = discard_after_sending p" "pxid p' = pxid p" "reply_side p' = reply_side p"
  using assms by (auto simp: pdu_set_timeout_def reply_side_def Let_def split: if_splits)

lemma sint_getpos: "0 \<le> zpos z \<Longrightarrow> zpos z \<le> 2 ^ 30 \<Longrightarrow> sint (libnfs_zdr_getpos z) = zpos z"
  unfolding libnfs_zdr_getpos_def
  by (simp add: signed_take_bit_int_eq_self_iff signed_of_int)

lemma finish_fresh:
  assumes p: "fresh_pdu p" and t: "pdu_set_timeout now rpc p 0 = Some q"
  shows "\<exists>q'. finish_pdu now rpc p = Some (Some (q', zpos (pzdr p))) \<and>
    vecs (out q') \<noteq> [] \<and> reply_side q' = reply_side p \<and> num_done (out q') = 0 \<and>
    wire (put_marker (zpos (pzdr p)) q') = record_of p \<and> pdu_sendable (put_marker (zpos (pzdr p)) q')"
proof -
  let ?z = "pzdr p"
  obtain rm hdr h where v: "vecs (out p) = [rm, hdr]" "length (ov_data rm) = 4"
    "ov_data hdr = take h (zbuf ?z)" "int h \<le> zpos ?z"
    using p by (auto simp: fresh_pdu_def)
  have z: "zpos ?z \<le> int (length (zbuf ?z))" "zpos ?z \<le> 2 ^ 30" "0 \<le> zpos ?z"
    using p v(4) by (auto simp: fresh_pdu_def)
  have len: "length (ov_data hdr) = h" using v(3,4) z(1) by simp
  have s: "s32 (int h) = int h" using v(4) z(2) by (intro s32_nonneg) simp_all
  note q = set_timeout_frame [OF t]
  have pos: "sint (libnfs_zdr_getpos (pzdr q)) = zpos ?z" using sint_getpos z q(1) by simp
  have split: "take h (zbuf ?z) @ take (nat (zpos ?z) - h) (drop h (zbuf ?z)) = marshalled p"
    using v(4) unfolding marshalled_def by (metis le_add_diff_inverse nat_int_comparison(3) nat_0_le take_add z(3))
  let ?data = "take (nat (zpos ?z - int h)) (drop h (zbuf ?z))"
  let ?w = "\<lparr>ov_addr = outaddr p + (h + 4), ov_data = ?data, ov_free = False\<rparr>"
  let ?q = "if zpos ?z > int h
            then q\<lparr>out := (out p)\<lparr>total_size := nat (zpos ?z) + 4, vecs := [rm, hdr, ?w]\<rparr>\<rparr>
            else q\<lparr>out := (out p)\<lparr>total_size := h + 4\<rparr>\<rparr>"
  have fin: "finish_pdu now rpc p = Some (Some (?q, zpos ?z))"
    using t q v len s pos p z(3)
    by (auto simp: finish_pdu_def rpc_add_iovector_def fresh_pdu_def nat_add_distrib Let_def nat_diff_distrib)
  have m: "length (marshalled p) = nat (zpos ?z)" using z by (simp add: marshalled_def)
  have w: "wire (put_marker (zpos ?z) ?q) = record_of p"
    using v split z(3) by (auto simp: put_marker_def wire_def record_of_def nat_diff_distrib not_less
        marshalled_def)
  moreover have "pdu_sendable (put_marker (zpos ?z) ?q)"
    unfolding pdu_sendable_def w
    using p v m z q(2,5) by (auto simp: put_marker_def fresh_pdu_def record_of_def)
  moreover have "vecs (out ?q) \<noteq> []" "reply_side ?q = reply_side p" "num_done (out ?q) = 0"
    using q v p by (auto simp: fresh_pdu_def reply_side_def)
  ultimately show ?thesis using fin by blast
qed

lemma put_marker_sel [simp]:
  "reply_side (put_marker n p) = reply_side p" "num_done (out (put_marker n p)) = num_done (out p)"
  by (simp_all add: put_marker_def reply_side_def)

lemma queue_pdu_frames:
  assumes rpc: "wait_ok rpc" "sendq_ok rpc" "\<not> is_udp rpc"
    and p: "fresh_pdu p" "pdu_set_timeout now rpc p 0 \<noteq> None"
  shows "\<exists>bs rpc'. rpc_queue_pdu now ws udp_ok rpc p = Some (bs, rpc', 0) \<and>
    bs @ pending rpc' = pending rpc @ record_of p \<and> wait_ok rpc' \<and> sendq_ok rpc' \<and>
    (\<exists>q. queued rpc' = add_mset (request q) (queued rpc) \<and> pdu_sendable q \<and> num_done (out q) = 0 \<and>
       reply_side q = reply_side p) \<and>
    evlog rpc' = evlog rpc \<and> conf rpc' = conf rpc \<and> inp rpc' = inp rpc"
proof -
  obtain q where "pdu_set_timeout now rpc p 0 = Some q" using p(2) by blast
  then obtain q' where q': "finish_pdu now rpc p = Some (Some (q', zpos (pzdr p)))" "vecs (out q') \<noteq> []"
    "reply_side q' = reply_side p" "num_done (out q') = 0" "wire (put_marker (zpos (pzdr p)) q') = record_of p"
    "pdu_sendable (put_marker (zpos (pzdr p)) q')"
    using finish_fresh [OF p(1)] by blast
  let ?p = "put_marker (zpos (pzdr p)) q'"
  let ?r = "rpc\<lparr>outqueue := outqueue rpc @ [?p]\<rparr>"
  have r: "wait_ok ?r" "sendq_ok ?r" using rpc q'(6)
    by (subst wait_ok_cong [of _ rpc], simp_all add: sendq_ok_def)
  have pend: "pending ?r = pending rpc @ record_of p"
    using q' by (simp add: pending_def unsent_def)
  have ids: "queued ?r = add_mset (request ?p) (queued rpc)" "evlog ?r = evlog rpc" "conf ?r = conf rpc" "inp ?r = inp rpc"
    by (simp_all add: queued_def waiting_def conf_def inp_def)
  have qp: "pdu_sendable ?p" "num_done (out ?p) = 0" "reply_side ?p = reply_side p" using q' by simp_all
  have step: "rpc_queue_pdu now ws udp_ok rpc p =
      (if outqueue rpc = [] then map_option (\<lambda>(bs, r, _). (bs, r, 0)) (rpc_write_to_socket ws ?r)
       else Some ([], ?r, 0))"
    using q' rpc(3) by (simp add: rpc_queue_pdu_def Let_def)
  show ?thesis
  proof (cases "outqueue rpc = []")
    case True
    obtain bs rpc' ret where "rpc_write_to_socket ws ?r = Some (bs, rpc', ret)" "bs @ pending rpc' = pending ?r"
      "wait_ok rpc'" "sendq_ok rpc'" "kept ?r rpc'"
      using write_to_socket_stream [OF r] by blast
    then show ?thesis using True step pend ids qp
      by (intro exI [of _ bs] exI [of _ rpc'] conjI exI [of _ ?p]) (simp_all add: kept_def)
  next
    case False
    then show ?thesis using step pend ids r qp
      by (intro exI [of _ "[]"] exI [of _ ?r] conjI exI [of _ ?p]) simp_all
  qed
qed

section \<open>Allocation\<close>

definition no_results :: "unit \<Rightarrow> byte list" where
  "no_results _ = []"

definition auth_ready :: "AUTH \<Rightarrow> bool" where
  "auth_ready a \<longleftrightarrow> auth_sendable (ah_cred a) \<and> auth_sendable (ah_verf a)"

lemma unit_codec: "zdr_codec libnfs_zdr_void no_results (\<lambda>_. True) (\<lambda>_. True)"
proof unfold_locales
  fix x y
  show "encodes libnfs_zdr_void x (no_results x)"
    using encodes_done [of x] by (simp add: libnfs_zdr_void_def [abs_def] no_results_def)
  show "decodes libnfs_zdr_void y (no_results x) x"
    using decodes_done [of x y] by (simp add: libnfs_zdr_void_def [abs_def] no_results_def)
qed

lemma call_msg_encodes:
  assumes "auth_ready au"
  shows "encodes libnfs_rpc_msg (call_msg au x prg ver prc) (msg_enc no_results (call_msg au x prg ver prc))"
proof (rule zdr_codec.msg_encodes [OF unit_codec])
  show "msg_sendable libnfs_zdr_void (\<lambda>_. True) (call_msg au x prg ver prc)"
    using assms by (auto simp: msg_sendable_def call_msg_def call_sendable_def auth_ready_def
        auth_none_def auth_sendable_def bytes_sendable_def oa_body_def)
qed

lemma encode_buffer:
  assumes "n \<le> 2 ^ 29"
    and z_def: "z = libnfs_zdrmem_create heap (replicate (n - 4) 0) (word_of_nat (n - 4)) ZDR_ENCODE"
  shows "zwf z" "x_op z = ZDR_ENCODE" "zpos z = 0" "zsize z = int (n - 4)" "zbuf z = replicate (n - 4) 0"
proof -
  have u: "uint (word_of_nat (n - 4) :: u32) = int (n - 4)"
    using assms(1) by (simp add: unsigned_of_nat take_bit_nat_eq_self)
  have s: "s32 (int (n - 4)) = int (n - 4)" using assms(1) by (intro s32_nonneg) simp_all
  show "x_op z = ZDR_ENCODE" "zpos z = 0" "zbuf z = replicate (n - 4) 0"
    by (simp_all add: z_def libnfs_zdrmem_create_def)
  show size: "zsize z = int (n - 4)" by (simp add: z_def libnfs_zdrmem_create_def u s)
  show "zwf z" using assms(1) size by (simp add: zwf_def z_def libnfs_zdrmem_create_def)
qed
text \<open>The image of the call header stands at the start of the new PDU's buffer.\<close>

lemma allocate_pdu_header:
  fixes rpc :: "'r rpc"
  assumes "auth_ready (auth rpc)" and hint: "alloc_hint \<le> 2 ^ 28" and iovs: "iovcnt_hint \<le> RPC_MAX_VECTORS"
    and len: "length (msg_enc no_results (call_msg (auth rpc) (xid rpc) prg ver prc)) \<le> 4092"
  shows "\<exists>p. rpc_allocate_pdu2 heap addr oaddr rpc prg ver prc cb fn zero bufsize alloc_hint iovcnt_hint =
      Some (rpc\<lparr>xid := xid rpc + 1\<rparr>, Some p) \<and> fresh_pdu p \<and> pxid p = xid rpc \<and> pid p = addr \<and>
    marshalled p = msg_enc no_results (call_msg (auth rpc) (xid rpc) prg ver prc) \<and>
    zwf (pzdr p) \<and> x_op (pzdr p) = ZDR_ENCODE \<and> zsize (pzdr p) = int (4092 + alloc_hint) \<and>
    zpos (pzdr p) = int (length (msg_enc no_results (call_msg (auth rpc) (xid rpc) prg ver prc)))"
proof -
  let ?m = "call_msg (auth rpc) (xid rpc) prg ver prc"
  let ?h = "msg_enc no_results ?m"
  let ?n = "ZDR_ENCODEBUF_MINSIZE + alloc_hint"
  let ?z = "libnfs_zdrmem_create heap (replicate (?n - 4) 0) (word_of_nat (?n - 4)) ZDR_ENCODE"
  have "?n \<le> 2 ^ 29" using hint by (simp add: ZDR_ENCODEBUF_MINSIZE_def)
  note z = encode_buffer [OF this refl, of heap]
  have room: "z_room ?z (length ?h)"
    using len z(3,4) by (simp add: z_room_def ZDR_ENCODEBUF_MINSIZE_def)
  have enc: "libnfs_zdr_callmsg ?z ?m = Ret True (z_put ?z ?h) ?m"
    unfolding libnfs_zdr_callmsg_def using call_msg_encodes [OF assms(1)] z(1,2) room by (intro encodesD)
  have fit: "fits (zbuf ?z) (zpos ?z) (length ?h)" using z(1) room by (rule z_room_fits)
  have wf: "zwf (z_put ?z ?h)"
    using z(1) room encodes_dvd [OF call_msg_encodes [OF assms(1)]] by (rule zwf_z_put)
  have gp: "unat (libnfs_zdr_getpos (z_put ?z ?h)) = length ?h"
    using len z(3) by (simp add: libnfs_zdr_getpos_def unat_of_nat)
  have buf: "take (length ?h) (splice (zbuf ?z) (zpos ?z) ?h) = ?h"
    using read_splice [OF fit] z(3) by simp
  have lb: "length (zbuf (z_put ?z ?h)) = ?n - 4" using fit z(5) by simp
  show ?thesis
  proof (intro exI conjI)
    show "rpc_allocate_pdu2 heap addr oaddr rpc prg ver prc cb fn zero bufsize alloc_hint iovcnt_hint =
      Some (rpc\<lparr>xid := xid rpc + 1\<rparr>, Some (iov_header ((zero_pdu addr zero)\<lparr>pxid := xid rpc, has_cb := cb,
        zdr_decode_fn := fn, zdr_decode_bufsize := bufsize, outaddr := oaddr,
        out := new_vectors oaddr iovcnt_hint, pmsg := ?m, do_not_retry := (prg \<noteq> NFS_PROGRAM \<or> prc = 0)\<rparr>) (z_put ?z ?h)))"
      (is "_ = Some (_, Some ?p)")
      unfolding rpc_allocate_pdu2_def Let_def enc by simp
    have "vecs (out ?p) = [\<lparr>ov_addr = oaddr, ov_data = [0, 0, 0, 0], ov_free = False\<rparr>,
        \<lparr>ov_addr = oaddr + 4, ov_data = take (length ?h) (zbuf (z_put ?z ?h)), ov_free = False\<rparr>]"
      by (simp add: iov_header_def rpc_add_iovector_def gp RPC_FAST_VECTORS_def)
    moreover have pz: "pzdr ?p = z_put ?z ?h" "zpos (z_put ?z ?h) = int (length ?h)"
      using z(3) by (simp_all add: iov_header_def)
    ultimately show "fresh_pdu ?p"
      unfolding fresh_pdu_def using len lb iovs
      by (auto simp: iov_header_def rpc_add_iovector_def RPC_FAST_VECTORS_def RPC_MAX_VECTORS_def
          zero_pdu_def ZDR_ENCODEBUF_MINSIZE_def)
    show "pxid ?p = xid rpc" "pid ?p = addr" by (simp_all add: iov_header_def zero_pdu_def)
    show "marshalled ?p = ?h" using pz buf by (simp add: marshalled_def)
    show "zwf (pzdr ?p)" "x_op (pzdr ?p) = ZDR_ENCODE" "zsize (pzdr ?p) = int (4092 + alloc_hint)"
      "zpos (pzdr ?p) = int (length ?h)"
      using pz wf z(2,4) by (simp_all add: ZDR_ENCODEBUF_MINSIZE_def)
  qed
qed

text \<open>Marshalling more into a fresh PDU.\<close>

lemma fresh_encode:
  assumes p: "fresh_pdu p" "zwf (pzdr p)" "x_op (pzdr p) = ZDR_ENCODE"
    and f: "encodes f x args" "z_room (pzdr p) (length args)"
  shows "f (pzdr p) x = Ret True (z_put (pzdr p) args) x"
    "fresh_pdu (p\<lparr>pzdr := z_put (pzdr p) args\<rparr>)"
    "marshalled (p\<lparr>pzdr := z_put (pzdr p) args\<rparr>) = marshalled p @ args"
proof -
  let ?z = "z_put (pzdr p) args"
  show "f (pzdr p) x = Ret True ?z x" using encodesD [OF f(1) p(2,3) f(2)] .
  have fit: "fits (zbuf (pzdr p)) (zpos (pzdr p)) (length args)" using p(2) f(2) by (rule z_room_fits)
  have wf: "zwf ?z" using p(2) f(2) encodes_dvd [OF f(1)] by (rule zwf_z_put)
  obtain rm hdr h where v: "vecs (out p) = [rm, hdr]" "length (ov_data rm) = 4"
    "ov_data hdr = take h (zbuf (pzdr p))" "int h \<le> zpos (pzdr p)"
    using p(1) by (auto simp: fresh_pdu_def)
  have keep: "take n (zbuf ?z) = take n (zbuf (pzdr p))" if "n \<le> nat (zpos (pzdr p))" for n
    using fit that by (simp add: splice_def fits_def min_def)
  have "h \<le> nat (zpos (pzdr p))" using v(4) by linarith
  then have "ov_data hdr = take h (zbuf ?z)" using keep v(3) by metis
  moreover have "zpos ?z \<le> int (length (zbuf ?z))" "zpos ?z \<le> 2 ^ 30"
    using wf unfolding zwf_def by linarith+
  ultimately show "fresh_pdu (p\<lparr>pzdr := ?z\<rparr>)"
    unfolding fresh_pdu_def using p(1) v by (auto simp: fresh_pdu_def)
  have n: "nat (zpos ?z) = nat (zpos (pzdr p)) + length args"
    using fit by (simp add: fits_def nat_add_distrib)
  show "marshalled (p\<lparr>pzdr := ?z\<rparr>) = marshalled p @ args"
    using fit by (simp add: marshalled_def splice_def fits_def nat_add_distrib)
qed

lemma set_timeout_defined: "int_range (timeout rpc * retrans rpc) \<Longrightarrow> pdu_set_timeout now rpc p t \<noteq> None"
  by (simp add: pdu_set_timeout_def Let_def)

section \<open>Properties\<close>

text \<open>
  C4. Sending, on a client: however the socket splits the data, no assertion fails, and what
  went out followed by what is still pending is what was pending before: no byte of a request is
  lost, repeated or reordered. Every request is still queued, now to be sent or waiting for its
  reply, no callback was called, and the buckets and the count of waiting requests stay right.
\<close>

theorem rpc_write_to_socket_stream:
  assumes "wait_ok rpc" "sendq_ok rpc"
  shows "\<exists>bs rpc' ret. rpc_write_to_socket ws rpc = Some (bs, rpc', ret) \<and>
    bs @ pending rpc' = pending rpc \<and> wait_ok rpc' \<and> sendq_ok rpc' \<and>
    queued rpc' = queued rpc \<and> evlog rpc' = evlog rpc"
  using write_to_socket_stream [OF assms, of ws] by (auto simp: kept_def)

definition out_pdu :: "nat \<Rightarrow> u32 \<Rightarrow> byte list \<Rightarrow> bool \<Rightarrow> unit pdu" where
  "out_pdu a x bs discard = (sample_pdu a x)\<lparr>discard_after_sending := discard,
     out := \<lparr>num_done = 0, total_size = length bs, iov_capacity = 8,
             vecs = [\<lparr>ov_addr = 1000 * a, ov_data = bs, ov_free = False\<rparr>], dyn = False\<rparr>\<rparr>"

definition two_out :: "bool \<Rightarrow> unit rpc" where
  "two_out discard = (sample_rpc 0)\<lparr>fd := 3, outqueue := [out_pdu 1 5 [1, 2] discard, out_pdu 2 6 [3, 4] discard]\<rparr>"

lemma two_out_ok: "wait_ok (two_out d)" "sendq_ok (two_out False)"
proof -
  show "wait_ok (two_out d)"
    using sample_wait_ok [of 0] by (subst wait_ok_cong [of _ "sample_rpc 0"]) (simp_all add: two_out_def)
  show "sendq_ok (two_out False)"
    by (simp add: sendq_ok_def two_out_def out_pdu_def pdu_sendable_def wire_def RPC_MAX_VECTORS_def)
qed

theorem rpc_write_to_socket_stream_witness:
  "\<exists>bs rpc' ret. rpc_write_to_socket [WCount 3, WAgain] (two_out False) = Some (bs, rpc', ret) \<and>
     bs @ pending rpc' = [1, 2, 3, 4]"
proof -
  have "pending (two_out False) = [1, 2, 3, 4]"
    by (simp add: pending_def two_out_def out_pdu_def unsent_def wire_def)
  then show ?thesis using rpc_write_to_socket_stream [OF two_out_ok] by metis
qed

text \<open>
  Gathering looks at the vectors of a PDU only, and adds at most one entry for each of them.
\<close>

definition sendable_reply :: "'r pdu \<Rightarrow> bool" where
  "sendable_reply p \<longleftrightarrow> discard_after_sending p \<and> pdu_sendable (p\<lparr>discard_after_sending := False\<rparr>)"

lemma unsent_discard [simp]: "unsent (p\<lparr>discard_after_sending := b\<rparr>) = unsent p"
  by (simp add: unsent_def wire_def)

lemma gather_pdus_discard:
  "gather_pdus rpc cap (map (\<lambda>p. p\<lparr>discard_after_sending := False\<rparr>) ps) vio lb n = gather_pdus rpc cap ps vio lb n"
  by (induction ps arbitrary: vio lb n) (simp_all split: prod.split)

lemma gather_vecs_length: "gather_vecs cap nd vs vio lb = (vio', lb') \<Longrightarrow> (lb \<noteq> None \<longrightarrow> vio \<noteq> []) \<Longrightarrow>
  length vio' \<le> length vio + length vs"
proof (induction cap nd vs vio lb rule: gather_vecs.induct)
  case (2 cap nd v vs vio lb)
  then show ?case
    by (fastforce simp: Let_def extend_last_def split: if_splits)
qed simp

text \<open>As long as there is room, the first two replies are offered completely.\<close>

lemma gather_two:
  assumes "\<forall>x \<in> set (p # q # ps). pdu_sendable x" "length (vecs (out p)) + length (vecs (out q)) < cap" "max_waitpdu_len rpc = 0"
  shows "\<exists>vio rest. gather_pdus rpc cap (p # q # ps) [] None 0 = Some vio \<and> vio \<noteq> [] \<and>
    bytes_of vio = unsent p @ unsent q @ rest"
proof -
  obtain v1 l1 where g1: "gather_vecs cap (num_done (out p)) (vecs (out p)) [] None = (v1, l1)" by fastforce
  obtain v2 l2 where g2: "gather_vecs cap (num_done (out q)) (vecs (out q)) v1 l1 = (v2, l2)" by fastforce
  have b1: "gathered (unsent p) cap [] v1" "l1 \<noteq> None \<longrightarrow> v1 \<noteq> []"
    using gather_vecs_bytes [OF _ g1] by (simp_all add: unsent_def wire_def)
  have b2: "gathered (unsent q) cap v1 v2" "l2 \<noteq> None \<longrightarrow> v2 \<noteq> []"
    using gather_vecs_bytes [OF b1(2) g2] by (simp_all add: unsent_def wire_def)
  have l: "length v1 < cap" "length v2 < cap"
    using gather_vecs_length [OF g1] gather_vecs_length [OF g2 b1(2)] assms(2) by simp_all
  have by2: "bytes_of v2 = unsent p @ unsent q" "v2 \<noteq> []"
    using b1(1) b2(1) l unsent_nonempty [of q] assms(1) by (auto simp: gathered_def)
  have nd: "\<not> num_done (out p) \<ge> total_size (out p)" "\<not> num_done (out q) \<ge> total_size (out q)"
    using assms(1) by (simp_all add: pdu_sendable_def)
  show ?thesis
  proof (cases "ps = []")
    case True
    then show ?thesis using g1 g2 nd l assms(3) by2 by (intro exI [of _ v2] exI [of _ "[]"]) simp
  next
    case False
    obtain vio taken where "gather_pdus rpc cap ps v2 l2 2 = Some vio" "bytes_of vio = bytes_of v2 @ taken" "vio \<noteq> []"
      using gather_pdus_bytes [of ps l2 v2 rpc cap 2] b2(2) by2(2) assms(1) by auto
    then show ?thesis using False g1 g2 nd l assms(3) by2 by (intro exI [of _ vio] exI [of _ taken]) simp
  qed
qed

text \<open>
  C35. A server sends a reply twice. Replies are freed once they are sent, and freeing one ends
  the loop at once, so that the rest of what \<open>writev\<close> has taken is forgotten. For any two
  replies at the head of the queue of a server that fit into one call of \<open>writev\<close>: if the
  socket takes both, the bytes of both went out, but the second one is still in the queue as if
  nothing of it was sent, and the next call sends it again.
\<close>

theorem rpc_write_to_socket_repeats_reply:
  assumes "is_server_context rpc" "\<not> socket_disabled rpc" "fd rpc \<noteq> -1" "max_waitpdu_len rpc = 0"
    and "outqueue rpc = p # q # ps" "\<forall>x \<in> set (outqueue rpc). sendable_reply x"
    and "length (vecs (out p)) + length (vecs (out q)) < RPC_FAST_VECTORS"
  shows "\<exists>rpc'. rpc_write_to_socket (WCount (length (unsent p @ unsent q)) # ws) rpc = Some (unsent p @ unsent q, rpc', 0)
    \<and> outqueue rpc' = q # ps \<and> pending rpc' = unsent q @ concat (map unsent ps) \<and> unsent q \<noteq> []"
proof -
  let ?c = "length (unsent p @ unsent q)" and ?d = "\<lambda>x :: 'a pdu. x\<lparr>discard_after_sending := False\<rparr>"
  have s: "pdu_sendable (?d x)" if "x \<in> set (p # q # ps)" for x
    using assms(5,6) that by (auto simp: sendable_reply_def)
  have cap: "write_cap RPC_FAST_VECTORS p = RPC_FAST_VECTORS" using assms(7) by (simp add: write_cap_def)
  obtain vio rest where g: "gather_pdus rpc RPC_FAST_VECTORS (p # q # ps) [] None 0 = Some vio" "vio \<noteq> []"
      "bytes_of vio = unsent p @ unsent q @ rest"
    using gather_two [of "?d p" "?d q" "map ?d ps" RPC_FAST_VECTORS rpc] s assms(4,7)
      gather_pdus_discard [of rpc RPC_FAST_VECTORS "p # q # ps" "[]" None 0] by auto
  have p: "discard_after_sending p" "num_done (out p) < total_size (out p)" "total_size (out p) = length (wire p)"
    "total_size (out p) < 2 ^ 64" "\<not> (length (vecs (out p)) > iov_capacity (out p) \<or> iov_capacity (out p) > RPC_MAX_VECTORS)"
    using assms(5,6) by (auto simp: sendable_reply_def pdu_sendable_def wire_def)
  have rem: "sub64 (total_size (out p)) (num_done (out p)) = length (unsent p)"
    using p(2-4) by (simp add: sub64_def unsent_def)
  have ne: "unsent p \<noteq> []" "unsent q \<noteq> []" using unsent_nonempty [OF s, of p] unsent_nonempty [OF s, of q] by simp_all
  let ?r = "rpc_free_pdu (inc_req_sent (rpc\<lparr>outqueue := q # ps\<rparr>)) (p\<lparr>out := (out p)\<lparr>num_done := total_size (out p)\<rparr>\<rparr>)"
  have "complete_pdus rpc ?c = Some (?r, True)"
    using ne by (subst complete_pdus.simps) (simp add: assms(5) p(1) rem Let_def)
  moreover have "take ?c (concat (map snd vio)) = unsent p @ unsent q" using g(3) by (simp add: bytes_of_def)
  ultimately have "rpc_write_to_socket (WCount ?c # ws) rpc = Some (unsent p @ unsent q, ?r, 0)"
    using assms(2-4) p(5) g(1,2) unfolding rpc_write_to_socket_def
    by (subst write_loop.simps) (simp add: may_send_def assms(5) cap)
  then show ?thesis
    using ne(2) by (intro exI [of _ ?r]) (simp add: rpc_free_pdu_def inc_req_sent_def pending_def)
qed

text \<open>Two replies of two bytes each.\<close>

theorem rpc_write_to_socket_repeats_reply_witness:
  "\<exists>rpc'. rpc_write_to_socket [WCount 4] ((two_out True)\<lparr>is_server_context := True\<rparr>) = Some ([1, 2, 3, 4], rpc', 0)
     \<and> pending rpc' = [3, 4]"
proof -
  let ?r = "(two_out True)\<lparr>is_server_context := True\<rparr>"
  let ?p = "out_pdu 1 5 [1, 2] True" and ?q = "out_pdu 2 6 [3, 4] True"
  have u: "unsent ?p = [1, 2]" "unsent ?q = [3, 4]"
    by (simp_all add: unsent_def wire_def out_pdu_def)
  have r: "is_server_context ?r" "\<not> socket_disabled ?r" "fd ?r \<noteq> -1" "max_waitpdu_len ?r = 0" "outqueue ?r = [?p, ?q]"
    by (simp_all add: two_out_def sample_rpc_def zero_rpc_def)
  have s: "\<forall>x \<in> set (outqueue ?r). sendable_reply x"
    by (simp add: two_out_def out_pdu_def sendable_reply_def pdu_sendable_def wire_def RPC_MAX_VECTORS_def)
  have "length (vecs (out ?p)) + length (vecs (out ?q)) < RPC_FAST_VECTORS"
    by (simp add: out_pdu_def RPC_FAST_VECTORS_def)
  from rpc_write_to_socket_repeats_reply [OF r s this, of "[]"] show ?thesis
    unfolding u by (auto simp: numeral_eq_Suc)
qed

text \<open>
  C12. A request from allocation to the wire: the call header is marshalled, the caller
  marshals arguments with image \<open>args\<close> behind it, and queueing the request appends
  exactly one record to the byte stream: the marker with the last-fragment bit and the length,
  the header with the request's own xid, and the arguments. The next request gets the next xid.
\<close>

theorem rpc_request_on_the_wire:
  assumes rpc: "wait_ok rpc" "sendq_ok rpc" "\<not> is_udp rpc" "auth_ready (auth rpc)"
    and tmo: "int_range (timeout rpc * retrans rpc)"
    and len: "length (msg_enc no_results (call_msg (auth rpc) (xid rpc) prg ver prc)) + length args \<le> 4092"
    and enc: "encodes f x args"
  shows "\<exists>p z bs rpc'.
    rpc_allocate_pdu heap addr oaddr rpc prg ver prc cb fn zero bufsize =
      Some (rpc\<lparr>xid := xid rpc + 1\<rparr>, Some p) \<and>
    f (pzdr p) x = Ret True z x \<and>
    rpc_queue_pdu now ws udp_ok (rpc\<lparr>xid := xid rpc + 1\<rparr>) (p\<lparr>pzdr := z\<rparr>) = Some (bs, rpc', 0) \<and>
    bs @ pending rpc' = pending rpc @
      (let body = msg_enc no_results (call_msg (auth rpc) (xid rpc) prg ver prc) @ args
       in be32 (recordmarker (int (length body))) @ body) \<and>
    wait_ok rpc' \<and> sendq_ok rpc'"
proof -
  let ?h = "msg_enc no_results (call_msg (auth rpc) (xid rpc) prg ver prc)"
  let ?rpc = "rpc\<lparr>xid := xid rpc + 1\<rparr>"
  obtain p where p: "rpc_allocate_pdu heap addr oaddr rpc prg ver prc cb fn zero bufsize = Some (?rpc, Some p)"
    "fresh_pdu p" "marshalled p = ?h" "zwf (pzdr p)" "x_op (pzdr p) = ZDR_ENCODE"
    "zsize (pzdr p) = 4092" "zpos (pzdr p) = int (length ?h)"
    using allocate_pdu_header [OF rpc(4), of 0 0 prg ver prc heap addr oaddr cb fn zero bufsize] len
    by (auto simp: rpc_allocate_pdu_def)
  have "z_room (pzdr p) (length args)" using len p(6,7) by (simp add: z_room_def)
  note f = fresh_encode [OF p(2,4,5) enc this]
  let ?p = "p\<lparr>pzdr := z_put (pzdr p) args\<rparr>"
  have r: "wait_ok ?rpc" "sendq_ok ?rpc" "\<not> is_udp ?rpc" "pending ?rpc = pending rpc"
    using rpc by (subst wait_ok_cong [of _ rpc], simp_all add: sendq_ok_def pending_def)
  have "pdu_set_timeout now ?rpc ?p 0 \<noteq> None" using tmo by (intro set_timeout_defined) simp
  then obtain bs rpc' where "rpc_queue_pdu now ws udp_ok ?rpc ?p = Some (bs, rpc', 0)"
    "bs @ pending rpc' = pending ?rpc @ record_of ?p" "wait_ok rpc'" "sendq_ok rpc'"
    using queue_pdu_frames [OF r(1-3) f(2)] by blast
  moreover have "record_of ?p = be32 (recordmarker (int (length (?h @ args)))) @ ?h @ args"
    using f(3) p(3,7) by (simp add: record_of_def)
  ultimately show ?thesis using p(1) f(1) r(4) by (auto simp: Let_def)
qed

theorem rpc_request_on_the_wire_witness:
  "\<exists>p z bs rpc'.
     rpc_allocate_pdu 0 0 0 ((sample_rpc 0)\<lparr>fd := 3\<rparr>) 100003 3 1 True None () 0 =
       Some ((sample_rpc 0)\<lparr>fd := 3, xid := 1\<rparr>, Some p) \<and>
     libnfs_zdr_u_int (pzdr p) 7 = Ret True z 7 \<and>
     rpc_queue_pdu 0 [WAgain] True ((sample_rpc 0)\<lparr>fd := 3, xid := 1\<rparr>) (p\<lparr>pzdr := z\<rparr>) = Some (bs, rpc', 0) \<and>
     bs @ pending rpc' =
       (let body = msg_enc no_results (call_msg authnone_create 0 100003 3 1) @ be32 7
        in be32 (recordmarker (int (length body))) @ body)"
proof -
  let ?rpc = "(sample_rpc 0)\<lparr>fd := 3\<rparr>"
  have a: "auth ?rpc = authnone_create" "xid ?rpc = 0" "outqueue ?rpc = []" "timeout ?rpc = 0"
    and u: "\<not> is_udp ?rpc"
    by (simp_all add: sample_rpc_def zero_rpc_def)
  have "wait_ok ?rpc" using sample_wait_ok by (subst wait_ok_cong [of _ "sample_rpc 0"]) simp_all
  moreover have "sendq_ok ?rpc" "pending ?rpc = []" using a by (simp_all add: sendq_ok_def pending_def)
  moreover have "auth_ready authnone_create"
    by (simp add: auth_ready_def authnone_create_def auth_none_def auth_sendable_def bytes_sendable_def oa_body_def)
  moreover have "length (msg_enc no_results (call_msg authnone_create 0 100003 3 1)) + length (be32 7) \<le> 4092"
    by (simp add: msg_enc_def call_msg_def call_body_enc_def authnone_create_def auth_none_def auth_enc_def
        oa_body_def)
  ultimately show ?thesis
    using rpc_request_on_the_wire [of ?rpc 100003 3 1 "be32 7" libnfs_zdr_u_int 7 0 0 0 True None "()" 0 0
        "[WAgain]" True] u u_int_encodes
    unfolding a by (auto simp: int_range_def)
qed

end
