(* ===== verification/Rpc_Process.thy ===== *)
theory Rpc_Process
  imports Socket_Out
begin

text \<open>
  Processing of a complete message, \<open>src/lib/pdu.c\<close>: on a client
  \<open>rpc_process_reply\<close> decodes the reply of the request in \<open>rpc->pdu\<close> and calls its
  callback; on a server \<open>rpc_process_call\<close> decodes a call, selects the registered
  procedure and runs it, or answers with an error reply (\<open>rpc_send_error_reply\<close>,
  \<open>rpc_send_reply\<close>). \<open>rpc_process_pdu\<close> selects between them. Calling a NULL
  callback is \<open>None\<close>.
\<close>

section \<open>Replies\<close>

definition inc_resp_rcvd :: "'r rpc \<Rightarrow> 'r rpc" where
  "inc_resp_rcvd rpc = rpc\<lparr>stats := (stats rpc)\<lparr>num_resp_rcvd := num_resp_rcvd (stats rpc) + 1\<rparr>\<rparr>"

definition run_cb :: "'r rpc \<Rightarrow> 'r pdu \<Rightarrow> rpc_status \<Rightarrow> 'r option \<Rightarrow> 'r rpc option" where
  "run_cb rpc p st v = (if has_cb p then Some (call_cb rpc p st v) else None)"

text \<open>
  The body of a message is a union, and the functions below read the member they expect,
  whatever direction the message has. In the layout of 64-bit targets \<open>rbody.stat\<close> is
  the place of \<open>cbody.rpcvers\<close>, \<open>areply.stat\<close> that of \<open>cbody.verf.oa_flavor\<close>,
  \<open>cbody.prog\<close> and \<open>cbody.proc\<close> of an accepted reply are padding, which is
  zero, \<open>cbody.vers\<close> is the place of \<open>areply.verf.oa_flavor\<close> or of
  \<open>rreply.stat\<close>, and \<open>cbody.proc\<close> of a rejected reply that of \<open>low\<close>.
\<close>

definition reply_view :: "'r rpc_msg \<Rightarrow> u32 \<times> u32" where
  "reply_view m =
     (if direction m = CALL then (rpcvers (cbody m), oa_flavor (verf (cbody m)))
      else (rb_stat (rbody m), ar_stat (areply (rbody m))))"

definition call_view :: "'r rpc_msg \<Rightarrow> call_body" where
  "call_view m =
     (if direction m = CALL then cbody m
      else (let rb = rbody m; acc = rb_stat rb = MSG_ACCEPTED
            in zero_call\<lparr>rpcvers := rb_stat rb, prog := 0,
                 vers := (if acc then oa_flavor (ar_verf (areply rb)) else rr_stat (rreply rb)),
                 rproc := (if acc then 0 else rr_low (rreply rb))\<rparr>))"

text \<open>
  \<open>now\<close> is the time of the reply. The result has the stream behind what was decoded. The
  request keeps the decoded results in its buffer; after a failure to decode the message its
  pointer to the buffer is NULL.
\<close>

definition rpc_process_reply :: "u64 \<Rightarrow> 'r rpc \<Rightarrow> zdr \<Rightarrow> ('r rpc \<times> zdr) option" where
  "rpc_process_reply now rpc0 z =
     (let rpc = inc_resp_rcvd rpc0
      in case cur_pdu rpc of
        None \<Rightarrow> None
      | Some p0 \<Rightarrow>
          let p = (if zdr_decode_bufsize p0 > 0 then p0\<lparr>zdr_decode_null := False\<rparr> else p0)
          in (case libnfs_zdr_replymsg z (zero_msg (zdr_decode_fn p) (zdr_decode_buf p)) of
             Undef \<Rightarrow> None
           | Ret ok z' msg \<Rightarrow>
               let (body_stat, reply_stat) = reply_view msg;
                   p' = p\<lparr>zdr_decode_buf := results_where (areply (rbody msg))\<rparr>;
                   rpc1 = rpc\<lparr>cur_pdu := Some p'\<rparr>
               in if \<not> ok
                  then map_option (\<lambda>r. (r\<lparr>cur_pdu := Some (p'\<lparr>zdr_decode_null := True\<rparr>)\<rparr>, z'))
                         (run_cb rpc1 p' RPC_STATUS_ERROR None)
                  else if body_stat \<noteq> MSG_ACCEPTED
                  then map_option (\<lambda>r. (r, z')) (run_cb rpc1 p' RPC_STATUS_ERROR None)
                  else if reply_stat = SUCCESS
                  then let rpc2 = rpc1\<lparr>last_successful_rpc_response := now\<rparr>
                       in if has_base (pin p')
                          then Some (rpc2\<lparr>cur_pdu := Some (p'\<lparr>free_pdu := True\<rparr>)\<rparr>, z')
                          else map_option (\<lambda>r. (r, z'))
                                 (run_cb rpc2 p' RPC_STATUS_SUCCESS (Some (zdr_decode_buf p')))
                  else map_option (\<lambda>r. (r, z')) (run_cb rpc1 p' RPC_STATUS_ERROR None)))"

section \<open>Calls\<close>

text \<open>The reply messages. \<open>_null_auth\<close> is AUTH_NONE with no body.\<close>

definition error_reply :: "u32 \<Rightarrow> u32 \<Rightarrow> int \<Rightarrow> int \<Rightarrow> unit rpc_msg" where
  "error_reply x err min_vers max_vers =
     (zero_msg None ())\<lparr>msg_xid := x, direction := REPLY,
        rbody := (zero_reply None ())\<lparr>rb_stat := MSG_ACCEPTED,
          areply := \<lparr>ar_verf = auth_none, ar_stat = err, results_proc = None, results_where = (),
                     ar_low = word_of_int min_vers, ar_high = word_of_int max_vers\<rparr>\<rparr>\<rparr>"

definition success_reply :: "u32 \<Rightarrow> 'a zproc \<Rightarrow> 'a \<Rightarrow> 'a rpc_msg" where
  "success_reply x encode_fn reply =
     (zero_msg (Some encode_fn) reply)\<lparr>msg_xid := x, direction := REPLY,
        rbody := (zero_reply (Some encode_fn) reply)\<lparr>rb_stat := MSG_ACCEPTED,
          areply := \<lparr>ar_verf = auth_none, ar_stat = SUCCESS, results_proc = Some encode_fn,
                     results_where = reply, ar_low = 0, ar_high = 0\<rparr>\<rparr>\<rparr>"

text \<open>
  \<open>env\<close> collects what the allocation and the socket contribute: the heap bound, the
  addresses of the new PDU and its buffer, the clock, and the socket's answers.
\<close>

record send_env =
  e_heap :: nat
  e_addr :: nat
  e_oaddr :: nat
  e_now :: u64
  e_writev :: "wres list"
  e_udp :: bool

definition send_msg ::
    "send_env \<Rightarrow> 'r \<Rightarrow> 'r rpc \<Rightarrow> 'a rpc_msg \<Rightarrow> nat \<Rightarrow> (byte list \<times> 'r rpc \<times> int) option" where
  "send_msg env zero rpc res alloc_hint =
     (case rpc_allocate_reply_pdu (e_heap env) (e_addr env) (e_oaddr env) res zero alloc_hint of
        None \<Rightarrow> None
      | Some None \<Rightarrow> Some ([], rpc, -1)
      | Some (Some p) \<Rightarrow> rpc_queue_pdu (e_now env) (e_writev env) (e_udp env) rpc p)"

definition rpc_send_error_reply ::
    "send_env \<Rightarrow> 'r \<Rightarrow> 'r rpc \<Rightarrow> u32 \<Rightarrow> u32 \<Rightarrow> int \<Rightarrow> int \<Rightarrow> (byte list \<times> 'r rpc \<times> int) option" where
  "rpc_send_error_reply env zero rpc x err min_vers max_vers =
     send_msg env zero rpc (error_reply x err min_vers max_vers) 0"

definition rpc_send_reply ::
    "send_env \<Rightarrow> 'r \<Rightarrow> 'r rpc \<Rightarrow> u32 \<Rightarrow> 'a \<Rightarrow> 'a zproc \<Rightarrow> nat \<Rightarrow> (byte list \<times> 'r rpc \<times> int) option" where
  "rpc_send_reply env zero rpc x reply encode_fn alloc_hint =
     send_msg env zero rpc (success_reply x encode_fn reply) alloc_hint"

text \<open>
  The search for the endpoint: the last argument is NULL before the program was found, then the
  smallest and the largest version seen; the endpoint found ends the loop.
\<close>

fun find_endpoint ::
    "u32 \<Rightarrow> u32 \<Rightarrow> rpc_endpoint list \<Rightarrow> (int \<times> int) option \<Rightarrow> rpc_endpoint option \<times> (int \<times> int) option" where
  "find_endpoint prg ver [] rng = (None, rng)"
| "find_endpoint prg ver (e # es) rng =
     (if prg = eprogram e
      then let rng' = (case rng of
                 None \<Rightarrow> (eversion e, eversion e)
               | Some (lo, hi) \<Rightarrow> (if eversion e < lo then eversion e else lo,
                                   if eversion e > hi then eversion e else hi))
           in if ver = word_of_int (eversion e) then (Some e, Some rng')
              else find_endpoint prg ver es (Some rng')
      else find_endpoint prg ver es rng)"

fun find_proc :: "u32 \<Rightarrow> service_proc list \<Rightarrow> service_proc option" where
  "find_proc n [] = None"
| "find_proc n (s # ss) = (if sproc s = n then Some s else find_proc n ss)"

text \<open>What a call leads to: an error reply, or the service function of the procedure.\<close>

datatype call_action = Answer u32 u32 int int | Serve call_body service_proc

definition select_call :: "rpc_endpoint list \<Rightarrow> zdr \<Rightarrow> call_action option" where
  "select_call eps z =
     (case libnfs_zdr_callmsg z (zero_msg None ()) of
        Undef \<Rightarrow> None
      | Ret ok z' msg \<Rightarrow>
          if \<not> ok then Some (Answer (msg_xid msg) GARBAGE_ARGS 0 0)
          else let c = call_view msg
               in case find_endpoint (prog c) (vers c) eps None of
                 (None, None) \<Rightarrow> Some (Answer (msg_xid msg) PROG_UNAVAIL 0 0)
               | (None, Some (lo, hi)) \<Rightarrow> Some (Answer (msg_xid msg) PROG_MISMATCH lo hi)
               | (Some e, _) \<Rightarrow>
                   (case find_proc (rproc c) (eprocs e) of
                      None \<Rightarrow> Some (Answer (msg_xid msg) PROC_UNAVAIL 0 0)
                    | Some s \<Rightarrow>
                        Option.bind (if decode_buf_size s \<noteq> 0 then zdr_malloc z' (decode_buf_size s) else Some z')
                          (\<lambda>z''. case sdecode s z'' of
                             Undef \<Rightarrow> None
                           | Ret ok2 _ _ \<Rightarrow>
                               Some (if ok2 then Serve c s else Answer (msg_xid msg) GARBAGE_ARGS 0 0))))"

text \<open>\<open>serve\<close> is the service function, code of the caller.\<close>

definition rpc_process_call ::
    "send_env \<Rightarrow> 'r \<Rightarrow> ('r rpc \<Rightarrow> call_body \<Rightarrow> service_proc \<Rightarrow> (byte list \<times> 'r rpc \<times> int) option) \<Rightarrow>
     'r rpc \<Rightarrow> zdr \<Rightarrow> (byte list \<times> 'r rpc \<times> int) option" where
  "rpc_process_call env zero serve rpc z =
     (case select_call (endpoints rpc) z of
        None \<Rightarrow> None
      | Some (Answer x err lo hi) \<Rightarrow> rpc_send_error_reply env zero rpc x err lo hi
      | Some (Serve c s) \<Rightarrow> serve rpc c s)"

text \<open>
  \<open>call\<close> is \<open>rpc_process_call\<close> with the environment of the moment. On a client,
  after the reply was processed, a zero-copy READ keeps the stream for the data that follows.
\<close>

definition rpc_process_pdu ::
    "nat \<Rightarrow> u64 \<Rightarrow> ('r rpc \<Rightarrow> zdr \<Rightarrow> ('r rpc \<times> int) option) \<Rightarrow> 'r rpc \<Rightarrow> byte list \<Rightarrow> u32 \<Rightarrow>
     ('r rpc \<times> int) option" where
  "rpc_process_pdu heap now call rpc buf sz =
     (let z = libnfs_zdrmem_create heap buf sz ZDR_DECODE
      in if is_server_context rpc then call rpc z
         else do {
           (rpc1, z') \<leftarrow> rpc_process_reply now rpc z;
           Some (case cur_pdu rpc1 of
             Some p \<Rightarrow> if fragments rpc1 = [] \<and> has_base (pin p)
                       then rpc1\<lparr>cur_pdu := Some (p\<lparr>pzdr := z', free_zdr := True\<rparr>)\<rparr> else rpc1
           | None \<Rightarrow> rpc1, 0)
         })"

section \<open>Lemmas\<close>

definition stands_at :: "zdr \<Rightarrow> byte list \<Rightarrow> bool" where
  "stands_at z bs \<longleftrightarrow> zwf z \<and> ample z \<and> x_op z = ZDR_DECODE \<and> z_room z (length bs) \<and>
     holds_at (zbuf z) (zpos z) bs"

lemma stands_atD: "decodes p y bs x \<Longrightarrow> stands_at z bs \<Longrightarrow> \<exists>m. p z y = Ret True (z_skip z (length bs) m) x"
  by (simp add: stands_at_def decodesD)

lemma call_decodes:
  assumes "call_sendable c" "call_blank (cbody y)"
  shows "decodes libnfs_rpc_msg y (be32 x @ be32 CALL @ call_body_enc c)
    (y\<lparr>msg_xid := x, direction := CALL, cbody := call_norm c\<rparr>)"
  unfolding libnfs_rpc_msg_def
  by (rule decodes_struct u_int_decodes decodes_if_True call_body_decodes | simp add: assms)+

text \<open>Decoding the first field of a sequence leaves the rest of the bytes for the others.\<close>

lemma decode_step:
  assumes "decodes p y bs y'" "stands_at z (bs @ rest)"
  shows "\<exists>z'. zseq p q z y = q z' y' \<and> stands_at z' rest"
proof -
  have s: "stands_at z bs" using assms(2) by (auto simp: stands_at_def holds_at_append z_room_def)
  obtain m where m: "p z y = Ret True (z_skip z (length bs) m) y'" using stands_atD [OF assms(1) s] by blast
  have "zwf (z_skip z (length bs) m)"
    using s decodes_dvd [OF assms(1)] by (intro zwf_z_skip) (auto simp: stands_at_def)
  then have "stands_at (z_skip z (length bs) m) rest"
    using assms(2) by (auto simp: stands_at_def holds_at_append z_room_def ample_def)
  then show ?thesis using m by (auto simp: zseq_def)
qed

text \<open>Bytes on which a function has no defined result.\<close>

definition crashes :: "'a zproc \<Rightarrow> 'a \<Rightarrow> byte list \<Rightarrow> bool" where
  "crashes p y bs \<longleftrightarrow> (\<forall>z. stands_at z bs \<longrightarrow> p z y = Undef)"

lemma crashes_next: "decodes p (get y) as v \<Longrightarrow> crashes q (upd (\<lambda>_. v) y) bs \<Longrightarrow>
   crashes (zseq (zfield p get upd) q) y (as @ bs)"
  unfolding crashes_def using decode_step [OF decodes_zfield] by metis

lemma crashes_field: "crashes p (get y) bs \<Longrightarrow> crashes (zfield p get upd) y bs"
  by (simp add: crashes_def zfield_def)

lemma crashes_branch:
  "c s \<Longrightarrow> crashes p s bs \<Longrightarrow> crashes (\<lambda>z s. if c s then p z s else q z s) s bs"
  "\<not> c s \<Longrightarrow> crashes q s bs \<Longrightarrow> crashes (\<lambda>z s. if c s then p z s else q z s) s bs"
  "f s = None \<Longrightarrow> crashes (\<lambda>z s. case f s of None \<Rightarrow> Undef | Some v \<Rightarrow> g v z s) s bs"
  by (simp_all add: crashes_def)

lemma null_results_crash:
  assumes "auth_sendable v"
  shows "crashes libnfs_rpc_msg (zero_msg None r)
    (be32 x @ be32 REPLY @ be32 MSG_ACCEPTED @ auth_enc v @ be32 SUCCESS @ rest)"
proof -
  have "crashes libnfs_accepted_reply (areply (zero_reply None r)) (auth_enc v @ be32 SUCCESS @ rest)"
    unfolding libnfs_accepted_reply_def verf_is_cred
    by (rule crashes_next cred_decodes u_int_decodes crashes_branch(1,3) | simp add: assms zero_defs)+
  then have B: "crashes libnfs_rpc_reply_body (zero_reply None r) (be32 MSG_ACCEPTED @ auth_enc v @ be32 SUCCESS @ rest)"
    unfolding libnfs_rpc_reply_body_def
    by (intro crashes_next [OF u_int_decodes] crashes_branch(1) crashes_field) simp_all
  show ?thesis
    unfolding libnfs_rpc_msg_def
    by (rule crashes_next [OF u_int_decodes], rule crashes_next [OF u_int_decodes],
        rule crashes_branch(2), simp, rule crashes_branch(1), simp, rule crashes_field)
       (simp add: zero_msg_def B)
qed

lemma zero_msg_blank: "blank r \<Longrightarrow> msg_blank p blank (zero_msg (Some p) r)"
  by (simp add: msg_blank_def reply_blank_def call_blank_def zero_defs)

lemma inc_resp_rcvd_sel [simp]:
  "cur_pdu (inc_resp_rcvd rpc) = cur_pdu rpc" "evlog (inc_resp_rcvd rpc) = evlog rpc"
  "outqueue (inc_resp_rcvd rpc) = outqueue rpc" "waitpdu (inc_resp_rcvd rpc) = waitpdu rpc"
  by (simp_all add: inc_resp_rcvd_def)

text \<open>The versions registered for a program, and the range the search computes over them.\<close>

definition versions :: "u32 \<Rightarrow> rpc_endpoint list \<Rightarrow> int list" where
  "versions prg es = map eversion (filter (\<lambda>e. eprogram e = prg) es)"

definition widen :: "(int \<times> int) option \<Rightarrow> int \<Rightarrow> (int \<times> int) option" where
  "widen rng v = Some (case rng of None \<Rightarrow> (v, v) | Some (lo, hi) \<Rightarrow> (min v lo, max v hi))"

lemma find_endpoint_None:
  "\<forall>e \<in> set es. eprogram e = prg \<longrightarrow> word_of_int (eversion e) \<noteq> ver \<Longrightarrow>
   find_endpoint prg ver es rng = (None, foldl widen rng (versions prg es))"
proof (induction es arbitrary: rng)
  case (Cons e es)
  have "ver \<noteq> word_of_int (eversion e)" if "eprogram e = prg" using Cons.prems that by auto
  then show ?case
    using Cons by (auto simp: versions_def widen_def min_def max_def Let_def split: option.splits)
qed (simp add: versions_def)

lemma foldl_widen_Some: "foldl widen (Some (lo, hi)) vs = Some (Min (insert lo (set vs)), Max (insert hi (set vs)))"
proof (induction vs arbitrary: lo hi)
  case (Cons v vs)
  have "Min (insert (min v lo) (set vs)) = Min (insert lo (insert v (set vs)))"
    "Max (insert (max v hi) (set vs)) = Max (insert hi (insert v (set vs)))"
    by (cases "vs = []"; simp add: min.assoc min.left_commute max.assoc max.left_commute)+
  then show ?case using Cons.IH by (simp add: widen_def insert_commute)
qed simp

lemma foldl_widen: "foldl widen None vs = (if vs = [] then None else Some (Min (set vs), Max (set vs)))"
  by (cases vs) (simp_all add: foldl_widen_Some widen_def)

lemma find_endpoint_Some:
  "find_endpoint prg ver es rng = (Some e, r) \<Longrightarrow>
   e \<in> set es \<and> eprogram e = prg \<and> word_of_int (eversion e) = ver"
  by (induction es arbitrary: rng) (auto simp: Let_def split: if_splits)

text \<open>How a well-formed reply completes its request.\<close>

definition reply_event :: "'r pdu \<Rightarrow> 'r rpc_msg \<Rightarrow> 'r event" where
  "reply_event p m =
     (if rb_stat (rbody m) = MSG_ACCEPTED \<and> ar_stat (areply (rbody m)) = SUCCESS
      then Cb (pid p) RPC_STATUS_SUCCESS (Some (results_where (areply (rbody m))))
      else Cb (pid p) RPC_STATUS_ERROR None)"

lemma process_reply_wf:
  assumes "zdr_codec f enc ok blank" "msg_sendable f ok m" "direction m = REPLY" "stands_at z (msg_enc enc m)"
    and p: "cur_pdu rpc = Some p" "zdr_decode_fn p = Some f" "blank (zdr_decode_buf p)" "has_cb p"
      "\<not> has_base (pin p)"
  shows "\<exists>rpc' z' p'. rpc_process_reply now rpc z = Some (rpc', z') \<and> evlog rpc' = evlog rpc @ [reply_event p m] \<and>
    outqueue rpc' = outqueue rpc \<and> waitpdu rpc' = waitpdu rpc \<and> waitpdu_len rpc' = waitpdu_len rpc \<and>
    is_udp rpc' = is_udp rpc \<and> is_server_context rpc' = is_server_context rpc \<and> fragments rpc' = fragments rpc \<and>
    cur_pdu rpc' = Some p' \<and> pid p' = pid p \<and> free_pdu p' = free_pdu p \<and> free_zdr p' = free_zdr p \<and>
    pin p' = pin p \<and> conf rpc' = conf rpc \<and> inbuf rpc' = inbuf rpc"
proof -
  let ?y = "zero_msg (Some f) (zdr_decode_buf p)"
  obtain mem where d: "libnfs_zdr_replymsg z ?y = Ret True (z_skip z (length (msg_enc enc m)) mem) (msg_received ?y m)"
    using stands_atD [OF zdr_codec.msg_decodes [OF assms(1,2) zero_msg_blank [of blank]] assms(4)] p(3)
    by (auto simp: libnfs_zdr_replymsg_def)
  have b: "rb_stat (rbody m) = MSG_ACCEPTED \<or> rb_stat (rbody m) = MSG_DENIED"
    using assms(2,3) by (auto simp: msg_sendable_def reply_sendable_def)
  show ?thesis
    using b assms(3) p
    by (auto simp: rpc_process_reply_def d Let_def run_cb_def call_cb_def msg_received_def reply_view_def
        reply_body_received_def accepted_received_def reply_event_def inc_resp_rcvd_def conf_def)
qed

definition at_bytes :: "byte list \<Rightarrow> zdr" where
  "at_bytes bs = \<lparr>x_op = ZDR_DECODE, zbuf = bs, zsize = int (length bs), zpos = 0, zmem = [], zheap = 2 ^ 31\<rparr>"

lemma at_bytes_stands: "length bs \<le> 2 ^ 30 \<Longrightarrow> stands_at (at_bytes bs) bs"
  by (auto simp: stands_at_def at_bytes_def zwf_def ample_def z_room_def holds_at_def fits_def)

definition reader_rpc :: "u32 rpc" where
  "reader_rpc = zero_rpc\<lparr>cur_pdu := Some ((zero_pdu 1 0)\<lparr>has_cb := True, zdr_decode_fn := Some libnfs_zdr_u_int\<rparr>)\<rparr>"

section \<open>Properties\<close>

text \<open>
  C21. The reply to a request without a zero-copy buffer: when the record holds a well-formed reply
  message and the request decodes the results with a function that keeps its contract, the
  request's callback is called exactly once, with the results of an accepted successful reply and
  RPC_STATUS_ERROR for every other one, and no queue changes. A zero-copy READ is excluded: its
  successful reply is called back only when the data was read too.
\<close>

theorem rpc_process_reply_delivers:
  assumes "zdr_codec f enc ok blank" "msg_sendable f ok m" "direction m = REPLY" "stands_at z (msg_enc enc m)"
    and "cur_pdu rpc = Some p" "zdr_decode_fn p = Some f" "blank (zdr_decode_buf p)" "has_cb p"
      "\<not> has_base (pin p)"
  shows "\<exists>rpc' z'. rpc_process_reply now rpc z = Some (rpc', z') \<and>
    evlog rpc' = evlog rpc @
      [if rb_stat (rbody m) = MSG_ACCEPTED \<and> ar_stat (areply (rbody m)) = SUCCESS
       then Cb (pid p) RPC_STATUS_SUCCESS (Some (results_where (areply (rbody m))))
       else Cb (pid p) RPC_STATUS_ERROR None] \<and>
    outqueue rpc' = outqueue rpc \<and> waitpdu rpc' = waitpdu rpc"
  using process_reply_wf [OF assms] unfolding reply_event_def by blast

theorem rpc_process_reply_delivers_witness:
  "\<exists>rpc' z'. rpc_process_reply 0 reader_rpc (at_bytes (msg_enc be32 (success_reply 5 libnfs_zdr_u_int 7))) =
     Some (rpc', z') \<and> evlog rpc' = [Cb 1 RPC_STATUS_SUCCESS (Some 7)]"
proof -
  let ?m = "success_reply 5 libnfs_zdr_u_int 7"
  have m: "msg_sendable libnfs_zdr_u_int (\<lambda>_. True) ?m" "direction ?m = REPLY" "rb_stat (rbody ?m) = MSG_ACCEPTED"
    "ar_stat (areply (rbody ?m)) = SUCCESS" "results_where (areply (rbody ?m)) = 7"
    by (simp_all add: success_reply_def msg_sendable_def reply_sendable_def accepted_sendable_def auth_sendable_def
        bytes_sendable_def oa_body_def auth_none_def)
  have "length (msg_enc be32 ?m) \<le> 2 ^ 30"
    by (simp add: success_reply_def msg_enc_def reply_body_enc_def accepted_enc_def auth_enc_def oa_body_def
        auth_none_def)
  note s = at_bytes_stands [OF this]
  show ?thesis
    using rpc_process_reply_delivers [OF u_int.zdr_codec_axioms m(1,2) s, of reader_rpc _ 0] m(3-5)
    by (auto simp: reader_rpc_def zero_rpc_def zero_pdu_def no_cursor_def)
qed

text \<open>
  Whatever bytes arrive for a request, a reply that can be processed completes it once: one
  callback, or, for the successful reply of a zero-copy READ, none yet and the request is marked to
  be completed when its data was read.
\<close>

theorem rpc_process_reply_once:
  assumes "rpc_process_reply now rpc z = Some (rpc', z')" "cur_pdu rpc = Some p"
  shows "(\<exists>st v. evlog rpc' = evlog rpc @ [Cb (pid p) st v]) \<or>
    (evlog rpc' = evlog rpc \<and> has_base (pin p) \<and> (\<exists>p'. cur_pdu rpc' = Some p' \<and> free_pdu p'))"
  using assms
  by (auto simp: rpc_process_reply_def Let_def run_cb_def call_cb_def split: zres.splits if_splits prod.splits)

theorem rpc_process_reply_once_witness:
  "\<exists>rpc' z' st v. rpc_process_reply 0 reader_rpc (at_bytes []) = Some (rpc', z') \<and> evlog rpc' = [Cb 1 st v]"
proof -
  obtain rpc' z' where r: "rpc_process_reply 0 reader_rpc (at_bytes []) = Some (rpc', z')"
    by (auto simp: rpc_process_reply_def reader_rpc_def zero_rpc_def zero_pdu_def libnfs_zdr_replymsg_def
        libnfs_rpc_msg_def zseq_def zfield_def libnfs_zdr_u_int_def at_bytes_def int_range_def zero_msg_def
        inc_resp_rcvd_def run_cb_def Let_def)
  show ?thesis
    using rpc_process_reply_once [OF r] r
    by (auto simp: reader_rpc_def zero_rpc_def zero_pdu_def no_cursor_def)
qed

text \<open>
  A server that receives a call for a program it does not serve in that version answers
  PROG_UNAVAIL when the program is not registered at all, and otherwise PROG_MISMATCH with the
  smallest and the largest registered version.
\<close>

theorem rpc_process_call_mismatch:
  assumes "call_sendable c" "stands_at z (be32 x @ be32 CALL @ call_body_enc c)"
    and "\<forall>e \<in> set eps. eprogram e = prog c \<longrightarrow> word_of_int (eversion e) \<noteq> vers c"
  shows "select_call eps z =
    Some (if versions (prog c) eps = [] then Answer x PROG_UNAVAIL 0 0
          else Answer x PROG_MISMATCH (Min (set (versions (prog c) eps))) (Max (set (versions (prog c) eps))))"
proof -
  let ?y = "zero_msg None () :: unit rpc_msg"
  have "call_blank (cbody ?y)" by (simp add: call_blank_def zero_defs)
  then obtain mem where "libnfs_zdr_callmsg z ?y = Ret True (z_skip z (length (be32 x @ be32 CALL @ call_body_enc c)) mem)
      (?y\<lparr>msg_xid := x, direction := CALL, cbody := call_norm c\<rparr>)"
    using stands_atD [OF call_decodes [OF assms(1)] assms(2)] unfolding libnfs_zdr_callmsg_def by blast
  moreover have "prog (call_norm c) = prog c" "vers (call_norm c) = vers c" by (simp_all add: call_norm_def)
  ultimately show ?thesis
    using find_endpoint_None [OF assms(3)] by (simp add: select_call_def call_view_def Let_def foldl_widen)
qed

definition one_service :: "rpc_endpoint list" where
  "one_service = [\<lparr>eprogram = 7, eversion = 4, eprocs = []\<rparr>, \<lparr>eprogram = 7, eversion = 2, eprocs = []\<rparr>]"

definition some_call :: "u32 \<Rightarrow> u32 \<Rightarrow> call_body" where
  "some_call prg ver = zero_call\<lparr>rpcvers := 2, prog := prg, vers := ver\<rparr>"

lemma some_call_enc: "call_sendable (some_call prg ver)" "length (call_body_enc (some_call prg ver)) = 32"
  by (simp_all add: some_call_def call_sendable_def zero_call_def zero_auth_def auth_sendable_def
      bytes_sendable_def oa_body_def call_body_enc_def auth_enc_def)

theorem rpc_process_call_mismatch_witness:
  "select_call one_service (at_bytes (be32 9 @ be32 CALL @ call_body_enc (some_call 7 3))) =
     Some (Answer 9 PROG_MISMATCH 2 4)"
proof -
  have "versions 7 one_service = [4, 2]" by (simp add: versions_def one_service_def)
  moreover have "stands_at (at_bytes (be32 9 @ be32 CALL @ call_body_enc (some_call 7 3)))
      (be32 9 @ be32 CALL @ call_body_enc (some_call 7 3))"
    by (rule at_bytes_stands) (simp add: some_call_enc)
  ultimately show ?thesis
    using rpc_process_call_mismatch [OF some_call_enc(1), of _ 9 7 3 one_service]
    by (simp add: some_call_def one_service_def)
qed

text \<open>
  A server that receives a reply message instead of a call: the decoder follows the
  direction in the message, finds an accepted successful reply, and calls the decoder of the
  results, which is NULL in a server. The call header that follows makes no difference.
\<close>

theorem rpc_process_call_reply_crashes:
  assumes "auth_sendable v"
    and "stands_at z (be32 x @ be32 REPLY @ be32 MSG_ACCEPTED @ auth_enc v @ be32 SUCCESS @ rest)"
  shows "rpc_process_call env zero serve rpc z = None"
proof -
  have "libnfs_rpc_msg z (zero_msg None ()) = Undef"
    using null_results_crash [OF assms(1), of "()" x rest] assms(2) unfolding crashes_def by blast
  then show ?thesis by (simp add: rpc_process_call_def select_call_def libnfs_zdr_callmsg_def)
qed

theorem rpc_process_call_reply_crashes_witness:
  "\<forall>env zero serve. rpc_process_call env zero serve (rpc_init_server_context 4 False False)
     (at_bytes (be32 9 @ be32 REPLY @ be32 MSG_ACCEPTED @ auth_enc auth_none @ be32 SUCCESS)) = None"
proof -
  have "auth_sendable auth_none" by (simp add: auth_sendable_def bytes_sendable_def oa_body_def auth_none_def)
  moreover have "length (auth_enc auth_none) = 8" by (simp add: auth_enc_def oa_body_def auth_none_def)
  then have "stands_at (at_bytes (be32 9 @ be32 REPLY @ be32 MSG_ACCEPTED @ auth_enc auth_none @ be32 SUCCESS))
      (be32 9 @ be32 REPLY @ be32 MSG_ACCEPTED @ auth_enc auth_none @ be32 SUCCESS)"
    by (intro at_bytes_stands) simp
  ultimately show ?thesis
    by (intro allI rpc_process_call_reply_crashes [of auth_none _ 9 "[]"]) simp_all
qed

end
