(* ===== verification/Socket_In.thy ===== *)
theory Socket_In
  imports Rpc_Process
begin

text \<open>
  The receiving side of a stream socket: \<open>rpc_read_from_socket\<close> of
  \<open>src/lib/socket.c\<close> with \<open>adjust_inbuf\<close>, \<open>rpc_reassemble_pdu\<close> and
  \<open>rpc_finished_pdu\<close>, as a state machine over \<open>input_state\<close>. One pass through the
  \<open>while (1)\<close> is \<open>read_iter\<close>: prepare the next part when nothing of it was read yet,
  receive, and act when the part is complete. The branch for datagram sockets is
  \<open>read_datagram\<close>.

  \<^item> The socket is the list of what the successive reads find: bytes, of which a read takes at
    most as many as it asks for, the end of the stream, or an error; at the end of the list there
    is nothing to read yet (EAGAIN).
  \<^item> \<open>mem\<close> is the user's memory, which a zero-copy READ fills.
  \<^item> The marker and the xid are received over the words \<open>rm_xid[]\<close> themselves, on a
    little-endian host: \<open>rm_bytes\<close> are the bytes of the two words.
  \<^item> Parameters: the heap bound and the clock, the status field of a decoded READ3 result,
    and \<open>call\<close>, the \<open>rpc_process_call\<close> of a server with its environment.
\<close>

section \<open>The socket\<close>

datatype rin = Bytes "byte list" | Eof | Fail

type_synonym sock = "rin list"

fun sock_len :: "sock \<Rightarrow> nat" where
  "sock_len [] = 0"
| "sock_len (Bytes bs # s) = length bs + sock_len s"
| "sock_len (_ # s) = sock_len s"

datatype rres = RData "byte list" sock | RAgain | RClosed | RError

fun recv :: "nat \<Rightarrow> sock \<Rightarrow> rres" where
  "recv n [] = RAgain"
| "recv n (Eof # s) = RClosed"
| "recv n (Fail # s) = RError"
| "recv n (Bytes bs # s) =
     (if bs = [] \<or> n = 0 then RClosed
      else if length bs \<le> n then RData bs s
      else RData (take n bs) (Bytes (drop n bs) # s))"

lemma recv_shrinks: "recv n s = RData bs s' \<Longrightarrow> sock_len s' < sock_len s"
  by (cases "(n, s)" rule: recv.cases) (auto split: if_splits)

section \<open>Helpers\<close>

definition ZCRP :: u32 where "ZCRP = 1024"
definition NFS_MAX_XFER_SIZE :: u32 where "NFS_MAX_XFER_SIZE = 4 * 1024 * 1024"
definition MAX_FRAGMENT_SIZE :: u32 where "MAX_FRAGMENT_SIZE = 8 * 1024 * 1024"
definition NFS_V3 :: u32 where "NFS_V3 = 3"
definition NFS3_OK :: u32 where "NFS3_OK = 0"

definition inbuf_size :: "'r rpc \<Rightarrow> u32" where
  "inbuf_size rpc = word_of_nat (length (inbuf rpc))"

text \<open>\<open>realloc\<close> keeps the old bytes; the new ones are taken as zero.\<close>

definition adjust_inbuf :: "'r rpc \<Rightarrow> u32 \<Rightarrow> 'r rpc option" where
  "adjust_inbuf rpc n =
     (if inbuf_size rpc < n
      then if n > NFS_MAX_XFER_SIZE + 4096 then None
           else Some (rpc\<lparr>inbuf := inbuf rpc @ replicate (unat n - length (inbuf rpc)) 0\<rparr>)
      else Some rpc)"

fun fragments_size :: "u32 \<Rightarrow> byte list list \<Rightarrow> u32 option" where
  "fragments_size sz [] = Some sz"
| "fragments_size sz (f # fs) =
     (let sz' = sz + word_of_nat (length f)
      in if sz' < word_of_nat (length f) then None else fragments_size sz' fs)"

text \<open>The inner \<open>None\<close>: the fragments are too large and are dropped.\<close>

definition rpc_reassemble_pdu :: "'r rpc \<Rightarrow> ((byte list \<times> u32) option \<times> 'r rpc) option" where
  "rpc_reassemble_pdu rpc =
     (case fragments_size (inpos rpc) (fragments rpc) of
        None \<Rightarrow> Some (None, rpc_free_all_fragments rpc)
      | Some sz \<Rightarrow>
          map_option (\<lambda>bs. (Some (concat (fragments rpc) @ bs, sz), rpc)) (buf_read (inbuf rpc) 0 (unat (inpos rpc))))"

definition rpc_finished_pdu :: "'r rpc \<Rightarrow> 'r rpc option" where
  "rpc_finished_pdu rpc =
     (case cur_pdu rpc of
        None \<Rightarrow> Some (rpc\<lparr>istate := READ_RM, inpos := 0\<rparr>)
      | Some p \<Rightarrow>
          do {
            r1 \<leftarrow> (if free_pdu p then run_cb rpc p RPC_STATUS_SUCCESS (Some (zdr_decode_buf p)) else Some rpc);
            let r2 = r1\<lparr>istate := READ_RM, inpos := 0\<rparr>;
            Some (if \<not> is_udp rpc \<or> \<not> is_broadcast rpc
                  then (rpc_free_pdu r2 p)\<lparr>cur_pdu := None\<rparr> else r2)
          })"

definition le32 :: "u32 \<Rightarrow> byte list" where "le32 w = rev (be32 w)"
definition host32 :: "byte list \<Rightarrow> u32" where "host32 bs = de32 (rev bs)"

definition set_rm :: "'r rpc \<Rightarrow> byte list \<Rightarrow> 'r rpc" where
  "set_rm rpc bs = rpc\<lparr>rm_bytes := bs, rm_xid0 := host32 (take 4 bs), rm_xid1 := host32 (drop 4 bs)\<rparr>"

section \<open>One pass\<close>

text \<open>Prepare the next part, when \<open>inpos\<close> is 0.\<close>

definition read_setup :: "'r rpc \<Rightarrow> 'r rpc option" where
  "read_setup rpc =
     (if inpos rpc \<noteq> 0 then Some rpc
      else case istate rpc of
        READ_RM \<Rightarrow> Some (rpc\<lparr>pdu_size := 8, buf_at := To_Rm 0, cur_pdu := None,
                           rm_bytes := le32 (rm_xid0 rpc) @ le32 (rm_xid1 rpc)\<rparr>)
      | READ_PAYLOAD \<Rightarrow>
          Some (rpc\<lparr>inpos := 4, buf_at := To_Inbuf 4,
                    pdu_size := (case cur_pdu rpc of
                        Some p \<Rightarrow> if has_base (pin p) \<and> rm_xid0 rpc > ZCRP then ZCRP else rm_xid0 rpc
                      | None \<Rightarrow> rm_xid0 rpc)\<rparr>)
      | READ_IOVEC \<Rightarrow>
          (case cur_pdu rpc of
             None \<Rightarrow> None
           | Some p \<Rightarrow> Some (rpc\<lparr>buf_at := To_Iovec, pdu_size := read_count p\<rparr>))
      | READ_PADDING \<Rightarrow> Some (rpc\<lparr>pdu_size := rm_xid0 rpc, buf_at := To_Inbuf 0\<rparr>)
      | _ \<Rightarrow>
          if rm_xid0 rpc > inbuf_size rpc then None
          else Some (rpc\<lparr>inpos := 4, buf_at := To_Inbuf 4, pdu_size := rm_xid0 rpc\<rparr>))"

datatype 'r rstep = Again "'r rpc" memory sock | Stop int "'r rpc" memory sock

text \<open>Receive into the place \<open>rpc->buf\<close> points to, or into the vectors of the request.\<close>

definition store_at :: "'r rpc \<Rightarrow> memory \<Rightarrow> byte list \<Rightarrow> ('r rpc \<times> memory) option" where
  "store_at rpc m bs =
     (case buf_at rpc of
        To_Rm k \<Rightarrow> map_option (\<lambda>b. ((set_rm rpc b)\<lparr>buf_at := To_Rm (k + length bs)\<rparr>, m))
                     (buf_write (rm_bytes rpc) (int k) bs)
      | To_Inbuf k \<Rightarrow> map_option (\<lambda>b. (rpc\<lparr>inbuf := b, buf_at := To_Inbuf (k + length bs)\<rparr>, m))
                     (buf_write (inbuf rpc) (int k) bs)
      | To_Iovec \<Rightarrow>
          (case cur_pdu rpc of
             None \<Rightarrow> None
           | Some p \<Rightarrow> map_option (\<lambda>c. (rpc\<lparr>cur_pdu := Some (p\<lparr>pin := c\<rparr>)\<rparr>, fill m (cells (pin p)) bs))
                          (rpc_advance_cursor (pin p) (length bs))))"

definition want :: "'r rpc \<Rightarrow> nat option" where
  "want rpc =
     (let n = unat (pdu_size rpc - inpos rpc)
      in case buf_at rpc of
           To_Iovec \<Rightarrow>
             (case cur_pdu rpc of
                None \<Rightarrow> None
              | Some p \<Rightarrow> if iovcnt (pin p) = 0 \<or> n > remaining_size (pin p) then None
                          else Some (length (cells (pin p))))
         | _ \<Rightarrow> Some (if istate rpc = READ_PADDING then min n (length (inbuf rpc)) else n))"

definition read_receive :: "'r rpc \<Rightarrow> memory \<Rightarrow> sock \<Rightarrow> 'r rstep option" where
  "read_receive rpc0 m s =
     (let rpc = (if istate rpc0 = READ_PADDING then rpc0\<lparr>buf_at := To_Inbuf 0\<rparr> else rpc0)
      in case want rpc of
        None \<Rightarrow> None
      | Some n \<Rightarrow>
          (case recv n s of
             RAgain \<Rightarrow> Some (Stop 0 rpc m s)
           | RClosed \<Rightarrow> Some (Stop (-1) rpc m s)
           | RError \<Rightarrow> Some (Stop (-1) rpc m s)
           | RData bs s' \<Rightarrow>
               map_option (\<lambda>(r, m'). Again (r\<lparr>inpos := inpos r + word_of_nat (length bs)\<rparr>) m' s')
                 (store_at rpc m bs)))"

text \<open>The record marker and the xid are complete.\<close>

definition finish_rm :: "'r rpc \<Rightarrow> memory \<Rightarrow> sock \<Rightarrow> 'r rstep option" where
  "finish_rm rpc m s =
     (let rm = de32 (take 4 (rm_bytes rpc));
          len = rm AND 0x7fffffff;
          rpc1 = rpc\<lparr>istate := READ_PAYLOAD, rm_xid0 := len\<rparr>
      in if rm AND 0x80000000 = 0 then Some (Stop (-1) (rpc\<lparr>rm_xid0 := rm, istate := READ_FRAGMENT\<rparr>) m s)
         else if len < 8 \<or> len > MAX_FRAGMENT_SIZE then Some (Stop (-1) rpc1 m s)
         else
           do {
             let x = de32 (drop 4 (rm_bytes rpc));
             let rpc2 = rpc1\<lparr>rm_xid1 := x\<rparr>;
             rpc3 \<leftarrow> (if is_server_context rpc2 then Some rpc2
                      else map_option (\<lambda>(r, p). r\<lparr>cur_pdu := p\<rparr>) (rpc_find_pdu rpc2 x));
             let zc = (case cur_pdu rpc3 of Some p \<Rightarrow> \<not> is_server_context rpc3 \<and> has_base (pin p) | None \<Rightarrow> False);
             case adjust_inbuf rpc3 (if zc then ZCRP else len) of
               None \<Rightarrow>
                 (case cur_pdu rpc3 of
                    Some p \<Rightarrow>
                      if is_server_context rpc3 then Some (Stop (-1) rpc3 m s)
                      else map_option (\<lambda>r. Stop (-1) (r\<lparr>cur_pdu := None\<rparr>) m s) (rpc_return_to_outqueue rpc3 p)
                  | None \<Rightarrow> Some (Stop (-1) rpc3 m s))
             | Some rpc4 \<Rightarrow>
                 map_option (\<lambda>b.
                     Again (rpc4\<lparr>inbuf := b, inpos := 0,
                                 istate := (if \<not> is_server_context rpc4 \<and> cur_pdu rpc4 = None
                                            then READ_UNKNOWN else READ_PAYLOAD)\<rparr>) m s)
                   (buf_write (inbuf rpc4) 0 (be32 x))
           })"

text \<open>
  The payload is complete. \<open>payload_finished\<close> is the label of that name; \<open>read_data\<close>
  moves the first part of the data of a zero-copy READ from \<open>inbuf\<close> to the user's vectors
  and, when there is more, goes on to read it there directly.
\<close>

definition payload_finished :: "'r rpc \<Rightarrow> memory \<Rightarrow> sock \<Rightarrow> 'r rstep option" where
  "payload_finished rpc m s = map_option (\<lambda>r. Again r m s) (rpc_finished_pdu (rpc_free_all_fragments rpc))"

definition read_data ::
    "('r \<Rightarrow> u32) \<Rightarrow> 'r rpc \<Rightarrow> 'r pdu \<Rightarrow> memory \<Rightarrow> sock \<Rightarrow> 'r rstep option" where
  "read_data read_status rpc p m s =
     (let v3 = (program rpc = NFS_PROGRAM \<and> version rpc = NFS_V3)
      in if v3 \<and> zdr_decode_null p then None
         else if v3 \<and> read_status (zdr_decode_buf p) \<noteq> NFS3_OK then payload_finished rpc m s
         else case libnfs_zdr_u_int (pzdr p) (read_count p) of
           Undef \<Rightarrow> None
         | Ret ok z n \<Rightarrow>
             if \<not> ok then Some (Stop (-1) (rpc\<lparr>cur_pdu := Some (p\<lparr>pzdr := z, read_count := n\<rparr>)\<rparr>) m s)
             else do {
               let pos = libnfs_zdr_getpos z;
               let n1 = min n (requested_read_count p);
               let count0 = unat (inpos rpc - pos);
               _ \<leftarrow> (if count0 \<le> unat ZCRP then Some () else None);
               c1 \<leftarrow> (if remaining_size (pin p) > unat n1 then rpc_shrink_cursor (pin p) (unat n1) else Some (pin p));
               _ \<leftarrow> (if remaining_size (pin p) > unat n1 \<and> remaining_size c1 \<noteq> unat n1 then None else Some ());
               let count = min (min count0 (unat n1)) (remaining_size c1);
               bs \<leftarrow> buf_read (inbuf rpc) (int (unat pos)) count;
               (c2, m2) \<leftarrow> rpc_memcpy_cursor c1 m bs;
               let p2 = p\<lparr>pzdr := z, pin := c2, read_count := n1\<rparr>;
               if remaining_size c2 = 0
               then payload_finished (rpc\<lparr>cur_pdu := Some p2\<rparr>) m2 s
               else Some (Again (rpc\<lparr>cur_pdu := Some (p2\<lparr>read_count := n1 - word_of_nat count\<rparr>),
                                     istate := READ_IOVEC, inpos := 0,
                                     rm_xid0 := rm_xid0 rpc - (pos + word_of_nat count)\<rparr>) m2 s)
             })"

definition finish_payload ::
    "nat \<Rightarrow> u64 \<Rightarrow> ('r rpc \<Rightarrow> zdr \<Rightarrow> ('r rpc \<times> int) option) \<Rightarrow> ('r \<Rightarrow> u32) \<Rightarrow>
     'r rpc \<Rightarrow> memory \<Rightarrow> sock \<Rightarrow> 'r rstep option" where
  "finish_payload heap now call read_status rpc m s =
     (case (if fragments rpc = [] then Some (Some (inbuf rpc, pdu_size rpc), rpc) else rpc_reassemble_pdu rpc) of
        None \<Rightarrow> None
      | Some (None, r) \<Rightarrow> Some (Stop (-1) r m s)
      | Some (Some (buf, sz), r) \<Rightarrow>
          do {
            (r1, ret) \<leftarrow> rpc_process_pdu heap now call (r\<lparr>pdu_size := sz\<rparr>) buf sz;
            if ret \<noteq> 0 then Some (Stop (-1) r1 m s)
            else case cur_pdu r1 of
              Some p \<Rightarrow> if free_zdr p then read_data read_status r1 p m s else payload_finished r1 m s
            | None \<Rightarrow> payload_finished r1 m s
          })"

text \<open>A part is complete.\<close>

definition read_finish ::
    "nat \<Rightarrow> u64 \<Rightarrow> ('r rpc \<Rightarrow> zdr \<Rightarrow> ('r rpc \<times> int) option) \<Rightarrow> ('r \<Rightarrow> u32) \<Rightarrow>
     'r rpc \<Rightarrow> memory \<Rightarrow> sock \<Rightarrow> 'r rstep option" where
  "read_finish heap now call read_status rpc m s =
     (case istate rpc of
        READ_RM \<Rightarrow> finish_rm rpc m s
      | READ_FRAGMENT \<Rightarrow>
          map_option (\<lambda>r. Again (r\<lparr>istate := READ_RM, inpos := 0\<rparr>) m s)
            (rpc_add_fragment rpc (inbuf rpc) (inpos rpc))
      | READ_UNKNOWN \<Rightarrow> Some (Again (rpc\<lparr>istate := READ_RM, inpos := 0\<rparr>) m s)
      | READ_PAYLOAD \<Rightarrow> finish_payload heap now call read_status rpc m s
      | READ_IOVEC \<Rightarrow>
          (case cur_pdu rpc of
             None \<Rightarrow> None
           | Some p \<Rightarrow>
               let r1 = rpc\<lparr>cur_pdu := Some (p\<lparr>read_count := read_count p - pdu_size rpc\<rparr>),
                            rm_xid0 := rm_xid0 rpc - pdu_size rpc\<rparr>
               in if rm_xid0 r1 = 0 then map_option (\<lambda>r. Again r m s) (rpc_finished_pdu r1)
                  else Some (Again (r1\<lparr>istate := READ_PADDING, inpos := 0\<rparr>) m s))
      | READ_PADDING \<Rightarrow> map_option (\<lambda>r. Again r m s) (rpc_finished_pdu rpc))"

definition read_iter ::
    "nat \<Rightarrow> u64 \<Rightarrow> ('r rpc \<Rightarrow> zdr \<Rightarrow> ('r rpc \<times> int) option) \<Rightarrow> ('r \<Rightarrow> u32) \<Rightarrow>
     'r rpc \<Rightarrow> memory \<Rightarrow> sock \<Rightarrow> 'r rstep option" where
  "read_iter heap now call read_status rpc m s =
     (case Option.bind (read_setup rpc) (\<lambda>r. read_receive r m s) of
        None \<Rightarrow> None
      | Some (Stop ret r m' s') \<Rightarrow> Some (Stop ret r m' s')
      | Some (Again r m' s') \<Rightarrow>
          if inpos r = pdu_size r then read_finish heap now call read_status r m' s'
          else Some (Again r m' s'))"

section \<open>The loop\<close>

lemma read_receive_shrinks: "read_receive rpc m s = Some (Again r m' s') \<Longrightarrow> sock_len s' < sock_len s"
  by (auto simp: read_receive_def Let_def recv_shrinks split: option.splits rres.splits)

lemma payload_finished_sock: "payload_finished rpc m s = Some (Again r m' s') \<Longrightarrow> s' = s"
  by (auto simp: payload_finished_def)

lemma finish_sock:
  assumes "read_finish heap now call read_status rpc m s = Some (Again r m' s')"
  shows "s' = s"
proof -
  have rm: "s' = s" if "finish_rm rpc m s = Some (Again r m' s')"
    using that by (auto simp: finish_rm_def Let_def split: if_splits option.splits bind_splits)
  have dt: "s' = s" if "read_data read_status r0 p m s = Some (Again r m' s')" for r0 p
    using that by (auto simp: read_data_def Let_def dest!: payload_finished_sock
        split: if_splits zres.splits bind_splits prod.splits)
  have "s' = s" if "finish_payload heap now call read_status rpc m s = Some (Again r m' s')"
    using that by (auto simp: finish_payload_def dest!: payload_finished_sock dt
        split: if_splits option.splits bind_splits prod.splits)
  then show ?thesis using assms rm by (auto simp: read_finish_def Let_def split: input_state.splits option.splits if_splits)
qed

lemma read_iter_shrinks:
  "read_iter heap now call read_status rpc m s = Some (Again r m' s') \<Longrightarrow> sock_len s' < sock_len s"
  by (auto simp: read_iter_def split: option.splits rstep.splits if_splits bind_splits
      dest!: read_receive_shrinks finish_sock)

function read_loop ::
    "nat \<Rightarrow> u64 \<Rightarrow> ('r rpc \<Rightarrow> zdr \<Rightarrow> ('r rpc \<times> int) option) \<Rightarrow> ('r \<Rightarrow> u32) \<Rightarrow>
     'r rpc \<Rightarrow> memory \<Rightarrow> sock \<Rightarrow> (int \<times> 'r rpc \<times> memory \<times> sock) option" where
  "read_loop heap now call read_status rpc m s =
     (case read_iter heap now call read_status rpc m s of
        None \<Rightarrow> None
      | Some (Stop ret r m' s') \<Rightarrow> Some (ret, r, m', s')
      | Some (Again r m' s') \<Rightarrow> read_loop heap now call read_status r m' s')"
  by pat_completeness auto
termination
  by (relation "measure (\<lambda>(_, _, _, _, _, _, s). sock_len s)") (auto simp: read_iter_shrinks)

declare read_loop.simps [simp del]

text \<open>
  A datagram: the buffer has \<open>MAX_UDP_SIZE\<close> bytes, of which those behind the datagram are
  undetermined, and the first four are read whatever the size of the datagram.
\<close>

definition read_datagram ::
    "nat \<Rightarrow> u64 \<Rightarrow> ('r rpc \<Rightarrow> zdr \<Rightarrow> ('r rpc \<times> int) option) \<Rightarrow> byte list \<Rightarrow>
     'r rpc \<Rightarrow> sock \<Rightarrow> (int \<times> 'r rpc \<times> sock) option" where
  "read_datagram heap now call old rpc s =
     (case s of
        [] \<Rightarrow> Some (0, rpc, s)
      | Bytes bs # s' \<Rightarrow>
          do {
            let dg = take 65536 bs;
            let buf = dg @ drop (length dg) old;
            let x = de32 (take 4 buf);
            let r1 = rpc\<lparr>rm_xid0 := word_of_nat (length dg), rm_xid1 := x\<rparr>;
            r2 \<leftarrow> (if is_server_context rpc then Some rpc
                   else map_option (\<lambda>(r, p). r\<lparr>cur_pdu := p\<rparr>) (rpc_find_pdu r1 x));
            if \<not> is_server_context rpc \<and> cur_pdu r2 = None then Some (0, r2, s')
            else map_option (\<lambda>(r3, ret). (if ret \<noteq> 0 then -1 else 0, r3, s'))
                   (rpc_process_pdu heap now call r2 buf (word_of_nat (length dg)))
          }
      | _ # s' \<Rightarrow> Some (-1, rpc, s'))"

definition rpc_read_from_socket ::
    "nat \<Rightarrow> u64 \<Rightarrow> ('r rpc \<Rightarrow> zdr \<Rightarrow> ('r rpc \<times> int) option) \<Rightarrow> ('r \<Rightarrow> u32) \<Rightarrow> byte list \<Rightarrow>
     'r rpc \<Rightarrow> memory \<Rightarrow> sock \<Rightarrow> (int \<times> 'r rpc \<times> memory \<times> sock) option" where
  "rpc_read_from_socket heap now call read_status old rpc m s =
     (if socket_disabled rpc then Some (0, rpc, m, s)
      else if is_udp rpc
      then map_option (\<lambda>(ret, r, s'). (ret, r, m, s')) (read_datagram heap now call old rpc s)
      else read_loop heap now call read_status rpc m s)"


section \<open>Receiving in pieces\<close>

text \<open>
  A client between two reads, with no zero-copy READ among its requests: it is in the middle of a
  part, or about to begin one.
\<close>

definition zc :: "'r pdu \<Rightarrow> bool" where
  "zc p \<longleftrightarrow> has_base (pin p) \<or> free_zdr p"

definition no_zc :: "'r rpc \<Rightarrow> bool" where
  "no_zc rpc \<longleftrightarrow> (\<forall>p \<in> set (outqueue rpc) \<union> set (waiting rpc) \<union> set_option (cur_pdu rpc). \<not> zc p)"

definition client :: "'r rpc \<Rightarrow> bool" where
  "client rpc \<longleftrightarrow> \<not> is_server_context rpc \<and> no_zc rpc \<and> istate rpc \<in> {READ_RM, READ_PAYLOAD, READ_UNKNOWN}"

definition ready :: "'r rpc \<Rightarrow> bool" where
  "ready rpc \<longleftrightarrow> client rpc \<and> inpos rpc < pdu_size rpc \<and> buf_at rpc \<noteq> To_Iovec"

definition plain :: "'r rpc \<Rightarrow> bool" where
  "plain rpc \<longleftrightarrow> client rpc \<and>
     (if inpos rpc = 0 then istate rpc = READ_RM \<or> 8 \<le> rm_xid0 rpc else ready rpc)"

definition put :: "'r rpc \<Rightarrow> memory \<Rightarrow> byte list \<Rightarrow> ('r rpc \<times> memory) option" where
  "put rpc m bs = map_option (\<lambda>(r, m'). (r\<lparr>inpos := inpos r + word_of_nat (length bs)\<rparr>, m')) (store_at rpc m bs)"

lemma buf_write_append:
  "buf_write b (int k) (xs @ ys) = Option.bind (buf_write b (int k) xs) (\<lambda>b'. buf_write b' (int (k + length xs)) ys)"
proof (cases "fits b (int k) (length (xs @ ys))")
  case True
  then have "fits b (int k) (length xs)" by (auto simp: fits_def)
  moreover from this have "fits (splice b (int k) xs) (int (k + length xs)) (length ys)"
    using True by (auto simp: fits_def)
  ultimately show ?thesis
    using True splice_splice [of b "int k" xs ys] by (simp add: buf_write_fits)
next
  case False
  then have "fits b (int k) (length xs) \<Longrightarrow> \<not> fits (splice b (int k) xs) (int (k + length xs)) (length ys)"
    by (auto simp: fits_def)
  then show ?thesis
    using False by (cases "fits b (int k) (length xs)") (simp_all add: buf_write_None buf_write_fits)
qed

lemma put_append:
  assumes "buf_at rpc \<noteq> To_Iovec"
  shows "put rpc m (xs @ ys) = Option.bind (put rpc m xs) (\<lambda>(r, m'). put r m' ys)"
  using assms
  by (cases "buf_at rpc")
     (auto simp: put_def store_at_def buf_write_append set_rm_def add.assoc option.map_comp comp_def
        split: bind_splits option.splits)

lemma put_keeps:
  assumes "put rpc m bs = Some (r, m')" "buf_at rpc \<noteq> To_Iovec"
  shows "buf_at r \<noteq> To_Iovec" "client r = client rpc" "pdu_size r = pdu_size rpc" "istate r = istate rpc"
    "inpos r = inpos rpc + word_of_nat (length bs)" "m' = m"
  using assms
  by (cases "buf_at rpc"; auto simp: put_def store_at_def set_rm_def client_def no_zc_def waiting_def)+

lemma setup_ready: "plain rpc \<Longrightarrow> read_setup rpc = Some r \<Longrightarrow> ready r"
  by (cases "inpos rpc = 0"; cases "istate rpc"; cases "cur_pdu rpc")
     (auto simp: plain_def ready_def read_setup_def client_def no_zc_def zc_def waiting_def word_less_nat_alt word_le_nat_alt
        split: if_splits)

lemma client_not_padding: "client rpc \<Longrightarrow> istate rpc \<noteq> READ_PADDING"
  by (auto simp: client_def)

lemma ready_receive:
  assumes "ready r" "bs \<noteq> []"
  defines "n \<equiv> unat (pdu_size r - inpos r)"
  shows "read_receive r m (Bytes bs # s) =
    map_option (\<lambda>(r', m'). Again r' m' (if length bs \<le> n then s else Bytes (drop n bs) # s)) (put r m (take n bs))"
proof -
  have "pdu_size r \<noteq> inpos r" using assms(1) by (auto simp: ready_def)
  then have n: "n \<noteq> 0" by (simp add: n_def unat_eq_0)
  have "istate r \<noteq> READ_PADDING" "buf_at r \<noteq> To_Iovec" using assms(1) by (auto simp: ready_def client_def)
  then have "want r = Some n" by (auto simp: want_def n_def Let_def split: read_dest.splits)
  moreover have "recv n (Bytes bs # s) = RData (take n bs) (if length bs \<le> n then s else Bytes (drop n bs) # s)"
    using assms(2) n by simp
  ultimately show ?thesis
    using \<open>istate r \<noteq> READ_PADDING\<close>
    by (simp add: read_receive_def Let_def put_def option.map_comp comp_def split_def del: recv.simps)
qed


text \<open>What finishing a part does is independent of what is left on the socket.\<close>

fun with_sock :: "sock \<Rightarrow> 'r rstep \<Rightarrow> 'r rstep" where
  "with_sock s (Again r m _) = Again r m s"
| "with_sock s (Stop ret r m _) = Stop ret r m s"

lemma map_option_bind: "map_option f (Option.bind x g) = Option.bind x (\<lambda>y. map_option f (g y))"
  by (cases x) simp_all

lemmas push_sock = if_distrib [of "map_option (with_sock s)" for s] option.case_distrib [of "map_option (with_sock s)" for s]
  prod.case_distrib [of "map_option (with_sock s)" for s] zres.case_distrib [of "map_option (with_sock s)" for s]
  input_state.case_distrib [of "map_option (with_sock s)" for s] map_option_bind option.map_comp comp_def

lemma payload_finished_frame: "payload_finished rpc m s = map_option (with_sock s) (payload_finished rpc m [])"
  by (simp add: payload_finished_def option.map_comp comp_def)

lemma finish_rm_frame: "finish_rm rpc m s = map_option (with_sock s) (finish_rm rpc m [])"
  unfolding finish_rm_def Let_def push_sock by (simp only: option.map with_sock.simps)

lemma read_data_frame:
  "read_data rs rpc p m s = map_option (with_sock s) (read_data rs rpc p m [])"
  unfolding read_data_def Let_def push_sock payload_finished_frame [of _ _ s, symmetric]
  by (simp only: option.map with_sock.simps)

lemma finish_payload_frame:
  "finish_payload heap now call rs rpc m s = map_option (with_sock s) (finish_payload heap now call rs rpc m [])"
  unfolding finish_payload_def push_sock payload_finished_frame [of _ _ s, symmetric]
    read_data_frame [of _ _ _ _ s, symmetric]
  by (simp only: option.map with_sock.simps)

lemma read_finish_frame:
  "read_finish heap now call rs rpc m s = map_option (with_sock s) (read_finish heap now call rs rpc m [])"
  unfolding read_finish_def Let_def push_sock finish_rm_frame [of _ _ s, symmetric]
    finish_payload_frame [of _ _ _ _ _ _ s, symmetric]
  by (simp only: option.map with_sock.simps)


text \<open>Finishing a part leaves a client that is about to begin the next one.\<close>

lemma find_pdu_cases:
  assumes "rpc_find_pdu r x = Some (r', q)"
  obtains (none) "q = None" "r' = r"
  | (queued) as p bs where "q = Some p" "outqueue r = as @ p # bs" "r' = r\<lparr>outqueue := unlink r as p bs\<rparr>"
  | (waits) h as p bs n where "q = Some p" "h < length (waitpdu r)" "waitpdu r ! h = as @ p # bs"
      "r' = r\<lparr>waitpdu := (waitpdu r)[h := unlink r as p bs], waitpdu_len := n\<rparr>"
proof (cases "List.extract (\<lambda>p. pxid p = x) (outqueue r)")
  case (Some a)
  then show ?thesis
    using assms by (cases a) (auto simp: rpc_find_pdu_def dest!: extract_SomeD intro: queued)
next
  case None
  let ?h = "bucket r (rm_xid1 r)"
  have h: "?h < length (waitpdu r)" using assms None by (auto simp: rpc_find_pdu_def Let_def split: if_splits)
  show ?thesis
  proof (cases "List.extract (\<lambda>p. pxid p = x) (waitpdu r ! ?h)")
    case None': None
    then show ?thesis using assms None h by (auto simp: rpc_find_pdu_def Let_def intro: none)
  next
    case (Some a)
    obtain as p bs where a: "a = (as, p, bs)" by (cases a)
    have "waitpdu r ! ?h = as @ p # bs" using Some unfolding a by (auto dest: extract_SomeD)
    then show ?thesis
      using waits [OF _ h, of p as bs] assms None h Some by (auto simp: rpc_find_pdu_def Let_def a)
  qed
qed

lemma unlink_subset: "set (unlink r as p bs) \<subseteq> set (as @ p # bs)"
  by (auto simp: unlink_def)

lemma no_zc_find:
  assumes "rpc_find_pdu r x = Some (r', q)" "no_zc r"
  shows "no_zc (r'\<lparr>cur_pdu := q\<rparr>)"
  using assms(1)
proof (cases rule: find_pdu_cases)
  case (queued as p bs)
  then show ?thesis using assms(2) unlink_subset [of r as p bs] by (auto simp: no_zc_def waiting_def)
next
  case (waits h as p bs n)
  have "set (as @ p # bs) \<subseteq> set (waiting r)"
    using nth_mem [OF waits(2)] unfolding waits(3) waiting_def set_concat by (rule UN_upper)
  moreover have "set (concat ((waitpdu r)[h := unlink r as p bs])) \<subseteq> set (waiting r) \<union> set (as @ p # bs)"
    using set_update_subset_insert [of "waitpdu r" h "unlink r as p bs"] unlink_subset [of r as p bs]
    unfolding waiting_def by fastforce
  ultimately have "set (waiting (r'\<lparr>cur_pdu := q\<rparr>)) \<subseteq> set (waiting r)" "p \<in> set (waiting r)"
    using waits(4) by (auto simp: waiting_def)
  moreover have "outqueue r' = outqueue r" using waits(4) by simp
  ultimately show ?thesis using waits(1) assms(2) by (auto simp: no_zc_def)
qed (use assms(2) in \<open>simp add: no_zc_def waiting_def\<close>)

lemma find_pdu_keeps:
  assumes "rpc_find_pdu r x = Some (r', q)"
  shows "is_server_context r' = is_server_context r" "rm_xid0 r' = rm_xid0 r"
  using assms by (cases rule: find_pdu_cases; simp)+

lemma adjust_inbuf_keeps: "adjust_inbuf r n = Some r' \<Longrightarrow> r' = r\<lparr>inbuf := inbuf r'\<rparr>"
  by (auto simp: adjust_inbuf_def split: if_splits)

lemma finish_rm_again:
  assumes "finish_rm r m s = Some (Again r' m' s')" "\<not> is_server_context r"
  obtains x len r3 q b st where
    "rpc_find_pdu (r\<lparr>istate := READ_PAYLOAD, rm_xid0 := len, rm_xid1 := x\<rparr>) x = Some (r3, q)" "8 \<le> len"
    "st = READ_PAYLOAD \<or> st = READ_UNKNOWN" "r' = r3\<lparr>cur_pdu := q, inbuf := b, inpos := 0, istate := st\<rparr>"
proof -
  let ?x = "de32 (drop 4 (rm_bytes r))" and ?len = "de32 (take 4 (rm_bytes r)) AND 0x7fffffff"
  have l: "\<not> (?len < 8)" using assms(1) by (auto simp: finish_rm_def Let_def split: if_splits)
  obtain r3 q where f: "rpc_find_pdu (r\<lparr>istate := READ_PAYLOAD, rm_xid0 := ?len, rm_xid1 := ?x\<rparr>) ?x = Some (r3, q)"
    using assms by (auto simp: finish_rm_def Let_def split: if_splits bind_splits)
  have sv: "\<not> is_server_context r3" using find_pdu_keeps [OF f] assms(2) by simp
  let ?r = "r3\<lparr>cur_pdu := q\<rparr>"
  obtain r4 n b st where r4: "adjust_inbuf ?r n = Some r4" "st = READ_PAYLOAD \<or> st = READ_UNKNOWN"
    "r' = r4\<lparr>inbuf := b, inpos := 0, istate := st\<rparr>"
    using assms f sv by (auto simp: finish_rm_def Let_def split: if_splits option.splits)
  have "r' = r3\<lparr>cur_pdu := q, inbuf := b, inpos := 0, istate := st\<rparr>"
    unfolding r4(3) by (subst adjust_inbuf_keeps [OF r4(1)]) simp
  then show ?thesis using that [OF f _ r4(2)] l by simp
qed

lemma finish_rm_plain:
  assumes "finish_rm r m s = Some (Again r' m' s')" "client r"
  shows "plain r'"
proof -
  have "\<not> is_server_context r" "no_zc r" using assms(2) by (auto simp: client_def)
  from finish_rm_again [OF assms(1) this(1)] obtain x len r3 q b st where
    f: "rpc_find_pdu (r\<lparr>istate := READ_PAYLOAD, rm_xid0 := len, rm_xid1 := x\<rparr>) x = Some (r3, q)" "8 \<le> len"
      "st = READ_PAYLOAD \<or> st = READ_UNKNOWN" "r' = r3\<lparr>cur_pdu := q, inbuf := b, inpos := 0, istate := st\<rparr>" .
  have "no_zc (r3\<lparr>cur_pdu := q\<rparr>)" using no_zc_find [OF f(1)] \<open>no_zc r\<close> by (simp add: no_zc_def waiting_def)
  then show ?thesis
    using find_pdu_keeps [OF f(1)] f(2-4) \<open>\<not> is_server_context r\<close>
    by (auto simp: plain_def client_def no_zc_def waiting_def)
qed

lemma process_reply_keeps:
  assumes "rpc_process_reply now r z = Some (r', z')"
  shows "is_server_context r' = is_server_context r" "outqueue r' = outqueue r" "waitpdu r' = waitpdu r"
    "istate r' = istate r" "fragments r' = fragments r"
    "\<exists>p p'. cur_pdu r = Some p \<and> cur_pdu r' = Some p' \<and> pin p' = pin p \<and> free_zdr p' = free_zdr p"
  using assms
  by (auto simp: rpc_process_reply_def Let_def run_cb_def call_cb_def inc_resp_rcvd_def
      split: option.splits zres.splits if_splits prod.splits)

lemma client_cong:
  "is_server_context r' = is_server_context r \<Longrightarrow> outqueue r' = outqueue r \<Longrightarrow> waitpdu r' = waitpdu r \<Longrightarrow>
   istate r' = istate r \<Longrightarrow> (\<forall>p' \<in> set_option (cur_pdu r'). \<not> zc p') \<Longrightarrow> client r \<Longrightarrow> client r'"
  unfolding client_def no_zc_def waiting_def by (metis Un_iff)

lemma process_pdu_client:
  assumes "rpc_process_pdu heap now call r buf sz = Some (r', ret)" "client r"
  shows "client r'"
proof -
  obtain r1 z' where p: "rpc_process_reply now r (libnfs_zdrmem_create heap buf sz ZDR_DECODE) = Some (r1, z')"
    using assms by (auto simp: rpc_process_pdu_def client_def Let_def split: bind_splits)
  from process_reply_keeps(6) [OF p] obtain q q' where q: "cur_pdu r = Some q" "cur_pdu r1 = Some q'" "zc q' = zc q"
    by (auto simp: zc_def)
  then have nz: "\<not> zc q'" using assms(2) by (auto simp: client_def no_zc_def)
  then have "\<not> has_base (pin q')" by (simp add: zc_def)
  then have "r' = r1" using assms p q(2) by (simp add: rpc_process_pdu_def client_def Let_def)
  then show ?thesis using client_cong [OF process_reply_keeps(1-4) [OF p] _ assms(2)] q nz by simp
qed

lemma finished_plain:
  assumes "rpc_finished_pdu r = Some r'" "client r"
  shows "plain r'"
proof -
  have "istate r' = READ_RM \<and> inpos r' = 0 \<and> is_server_context r' = is_server_context r \<and> outqueue r' = outqueue r
      \<and> waitpdu r' = waitpdu r \<and> (cur_pdu r' = None \<or> cur_pdu r' = cur_pdu r)"
    using assms(1) by (cases "cur_pdu r")
      (simp_all add: rpc_finished_pdu_def Let_def run_cb_def call_cb_def rpc_free_pdu_def bind_eq_Some_conv
        split: if_splits, auto)
  then show ?thesis using assms(2) by (auto simp: plain_def client_def no_zc_def waiting_def)
qed

lemma payload_finished_plain: "payload_finished r m s = Some (Again r' m' s') \<Longrightarrow> client r \<Longrightarrow> plain r'"
  by (auto simp: payload_finished_def rpc_free_all_fragments_def client_def no_zc_def waiting_def
      intro!: finished_plain)

lemma finish_payload_plain:
  assumes "finish_payload heap now call rs r m s = Some (Again r' m' s')" "client r"
  shows "plain r'"
proof -
  have c: "client (r\<lparr>pdu_size := sz\<rparr>)" for sz using assms(2) by (simp add: client_def no_zc_def waiting_def)
  have pf: "plain r'" if "payload_finished r1 m s = Some (Again r' m' s')"
    "rpc_process_pdu heap now call r0 buf sz = Some (r1, 0)" "client r0" for r0 r1 buf sz
    using payload_finished_plain [OF that(1) process_pdu_client [OF that(2,3)]] .
  have nz: "\<not> free_zdr p" if "rpc_process_pdu heap now call r0 buf sz = Some (r1, 0)"
    "cur_pdu r1 = Some p" "client r0" for r0 r1 buf sz p
    using process_pdu_client [OF that(1,3)] that(2) by (auto simp: client_def no_zc_def zc_def)
  have "r0 = r" if "rpc_reassemble_pdu r = Some (Some b, r0)" for b r0
    using that by (auto simp: rpc_reassemble_pdu_def split: option.splits)
  then show ?thesis
    using assms pf nz c
    by (auto simp: finish_payload_def split: if_splits option.splits prod.splits bind_splits)
qed

lemma finish_plain:
  assumes "read_finish heap now call rs r m s = Some (Again r' m' s')" "client r"
  shows "plain r'"
proof -
  consider "istate r = READ_RM" | "istate r = READ_PAYLOAD" | "istate r = READ_UNKNOWN"
    using assms(2) by (auto simp: client_def)
  then show ?thesis
  proof cases
    case 3
    then show ?thesis using assms by (auto simp: read_finish_def plain_def client_def no_zc_def waiting_def)
  qed (use assms in \<open>auto simp: read_finish_def intro: finish_rm_plain finish_payload_plain\<close>)
qed


text \<open>What the caller sees: the return value, the context, the memory and how much is unread.\<close>

definition outcome :: "(int \<times> 'r rpc \<times> memory \<times> sock) option \<Rightarrow> (int \<times> 'r rpc \<times> memory \<times> nat) option" where
  "outcome = map_option (\<lambda>(ret, r, m, s). (ret, r, m, sock_len s))"

text \<open>One pass over a chunk, for a part prepared by \<open>read_setup\<close>.\<close>

definition read_on ::
    "nat \<Rightarrow> u64 \<Rightarrow> ('r rpc \<Rightarrow> zdr \<Rightarrow> ('r rpc \<times> int) option) \<Rightarrow> ('r \<Rightarrow> u32) \<Rightarrow>
     'r rpc \<Rightarrow> memory \<Rightarrow> sock \<Rightarrow> (int \<times> 'r rpc \<times> memory \<times> sock) option" where
  "read_on heap now call rs r m s =
     (if inpos r = pdu_size r
      then case read_finish heap now call rs r m s of
             None \<Rightarrow> None
           | Some (Stop ret r' m' s') \<Rightarrow> Some (ret, r', m', s')
           | Some (Again r' m' s') \<Rightarrow> read_loop heap now call rs r' m' s'
      else read_loop heap now call rs r m s)"

lemma loop_chunk:
  assumes "plain rpc" "read_setup rpc = Some r" "bs \<noteq> []"
  defines "n \<equiv> unat (pdu_size r - inpos r)"
  shows "read_loop heap now call rs rpc m (Bytes bs # s) =
    Option.bind (put r m (take n bs))
      (\<lambda>(r', m'). read_on heap now call rs r' m' (if length bs \<le> n then s else Bytes (drop n bs) # s))"
proof -
  note r = setup_ready [OF assms(1,2)]
  show ?thesis
    by (subst read_loop.simps, cases "put r m (take n bs)")
       (auto simp: read_iter_def read_on_def ready_receive [OF r assms(3)] assms(2) n_def [symmetric]
        split: option.splits rstep.splits)
qed

lemma setup_None: "read_setup rpc = None \<Longrightarrow> read_loop heap now call rs rpc m s = None"
  by (subst read_loop.simps) (simp add: read_iter_def)

text \<open>In the middle of a part the next pass goes on with it.\<close>

lemma put_middle:
  assumes "ready r" "put r m xs = Some (r', m')" "xs \<noteq> []" "length xs < unat (pdu_size r - inpos r)"
  shows "plain r'" "read_setup r' = Some r'" "inpos r' \<noteq> pdu_size r'"
    "unat (pdu_size r' - inpos r') = unat (pdu_size r - inpos r) - length xs"
proof -
  have b: "buf_at r \<noteq> To_Iovec" "inpos r < pdu_size r" using assms(1) by (auto simp: ready_def)
  note k = put_keeps [OF assms(2) b(1)]
  have d: "unat (pdu_size r - inpos r) = unat (pdu_size r) - unat (inpos r)"
    using b(2) by (intro unat_sub) simp
  have lt: "unat (inpos r) + length xs < 2 ^ 32"
    using assms(4) unsigned_less [of "pdu_size r", where ?'a = nat] unfolding d by simp
  then have i: "unat (inpos r') = unat (inpos r) + length xs"
    unfolding k(5) by (simp add: unat_word_ariths unat_of_nat)
  have l: "inpos r' < pdu_size r'" using assms(4) i d by (simp add: k(3) word_less_nat_alt)
  then show "inpos r' \<noteq> pdu_size r'" by simp
  have "inpos r' \<noteq> 0" using i assms(3) by auto
  then show "read_setup r' = Some r'" "plain r'"
    using l k(1,2) assms(1) by (simp_all add: read_setup_def plain_def ready_def)
  show "unat (pdu_size r' - inpos r') = unat (pdu_size r - inpos r) - length xs"
    using unat_sub [OF less_imp_le [OF l]] i d by (simp add: k(3))
qed


lemma read_on_finish:
  "inpos r = pdu_size r \<Longrightarrow> read_on heap now call rs r m s =
     (case read_finish heap now call rs r m [] of
        None \<Rightarrow> None
      | Some (Stop ret r' m' s') \<Rightarrow> Some (ret, r', m', s)
      | Some (Again r' m' s') \<Rightarrow> read_loop heap now call rs r' m' s)"
  by (subst read_on_def, subst read_finish_frame) (auto split: option.split rstep.split)

lemma split_chunk:
  assumes "plain rpc" "xs \<noteq> []" "ys \<noteq> []"
  shows "outcome (read_loop heap now call rs rpc m (Bytes (xs @ ys) # s)) =
    outcome (read_loop heap now call rs rpc m (Bytes xs # Bytes ys # s))"
  using assms
proof (induction "length xs" arbitrary: rpc m xs rule: less_induct)
  case less
  let ?loop = "read_loop heap now call rs" and ?on = "read_on heap now call rs"
  show ?case
  proof (cases "read_setup rpc")
    case None
    then show ?thesis by (simp add: setup_None)
  next
    case (Some r)
    define n where "n = unat (pdu_size r - inpos r)"
    note chunk = loop_chunk [OF less.prems(1) Some, of _ heap now call rs m, folded n_def]
    have r: "ready r" by (rule setup_ready [OF less.prems(1) Some])
    then have b: "buf_at r \<noteq> To_Iovec" "pdu_size r \<noteq> inpos r" "client r" by (auto simp: ready_def)
    then have n: "0 < n" by (simp add: n_def unat_gt_0)
    consider "length xs < n" | "length xs = n" | "n < length xs" by linarith
    then show ?thesis
    proof cases
      case 1
      have "?loop rpc m (Bytes (xs @ ys) # s) = ?loop rpc m (Bytes xs # Bytes ys # s)"
      proof (cases "put r m xs")
        case None
        then show ?thesis using less.prems 1 by (simp add: chunk put_append [OF b(1)])
      next
        case (Some q)
        obtain r' m' where q: "q = (r', m')" by (cases q)
        note mid = put_middle [OF r Some [unfolded q] less.prems(2) 1 [unfolded n_def], folded n_def]
        have "?on r' m' (Bytes ys # s) = ?loop r' m' (Bytes ys # s)" using mid(3) by (simp add: read_on_def)
        then show ?thesis
          using less.prems 1 Some
          by (simp add: chunk put_append [OF b(1)] q loop_chunk [OF mid(1,2)] mid(4))
             auto
      qed
      then show ?thesis by simp
    next
      case 2
      then show ?thesis using less.prems by (simp add: chunk)
    next
      case 3
      show ?thesis
      proof (cases "put r m (take n xs)")
        case None
        then show ?thesis using less.prems 3 by (simp add: chunk)
      next
        case (Some q)
        obtain r' m' where q: "q = (r', m')" by (cases q)
        note k = put_keeps [OF Some [unfolded q] b(1)]
        have "inpos r' = pdu_size r'" using 3 by (simp add: k(3,5) n_def)
        moreover have "outcome (?loop r2 m2 (Bytes (drop n xs @ ys) # s)) = outcome (?loop r2 m2 (Bytes (drop n xs) # Bytes ys # s))"
          if "read_finish heap now call rs r' m' [] = Some (Again r2 m2 s2)" for r2 m2 s2
          using that finish_plain [OF that] k(2) b(3) 3 n less.prems(3) by (intro less.hyps) auto
        ultimately have "outcome (?on r' m' (Bytes (drop n xs @ ys) # s)) = outcome (?on r' m' (Bytes (drop n xs) # Bytes ys # s))"
          by (simp add: read_on_finish outcome_def split: option.split rstep.split)
        then show ?thesis using less.prems 3 Some by (simp add: chunk q)
      qed
    qed
  qed
qed


lemma chunks_concat:
  assumes "plain rpc" "[] \<notin> set cs" "cs \<noteq> []"
  shows "outcome (read_loop heap now call rs rpc m (map Bytes cs)) =
    outcome (read_loop heap now call rs rpc m [Bytes (concat cs)])"
  using assms(2,3)
proof (induction "length cs" arbitrary: cs rule: less_induct)
  case less
  show ?case
  proof (cases cs)
    case (Cons c ds)
    show ?thesis
    proof (cases ds)
      case (Cons d es)
      have "outcome (read_loop heap now call rs rpc m (map Bytes ((c @ d) # es))) =
          outcome (read_loop heap now call rs rpc m [Bytes (concat ((c @ d) # es))])"
        using less.prems \<open>cs = c # ds\<close> Cons by (intro less.hyps) auto
      moreover have "c \<noteq> []" "d \<noteq> []" using less.prems \<open>cs = c # ds\<close> Cons by auto
      ultimately show ?thesis
        using split_chunk [OF assms(1), of c d heap now call rs m "map Bytes es"] \<open>cs = c # ds\<close> Cons by simp
    qed (simp add: \<open>cs = c # ds\<close>)
  qed (use less.prems in simp)
qed


section \<open>One record\<close>

text \<open>The states in which the marker and the payload of a record are complete.\<close>

definition at_marker :: "'r rpc \<Rightarrow> u32 \<Rightarrow> u32 \<Rightarrow> 'r rpc" where
  "at_marker rpc len x = (set_rm rpc (be32 (len OR 0x80000000) @ be32 x))
     \<lparr>pdu_size := 8, buf_at := To_Rm 8, cur_pdu := None, inpos := 8\<rparr>"

lemma marker_bits:
  assumes "len \<le> MAX_FRAGMENT_SIZE"
  shows "(len OR 0x80000000) AND 0x7fffffff = len" "(len OR 0x80000000) AND 0x80000000 \<noteq> 0"
proof -
  have "unat len < 2 ^ 31" using assms by (simp add: MAX_FRAGMENT_SIZE_def word_le_nat_alt)
  then have "unat (take_bit 31 len) = unat len" by (simp add: unsigned_take_bit_eq take_bit_nat_eq_self)
  then have "take_bit 31 len = len" by (rule unsigned_word_eqI)
  then have l: "n < 31" if "bit len n" for n using that by (metis bit_take_bit_iff)
  have m: "(0x7fffffff :: u32) = mask 31" "(0x80000000 :: u32) = push_bit 31 1" by (simp_all add: mask_eq_exp_minus_1)
  have h: "bit (0x80000000 :: u32) n \<longleftrightarrow> n = 31" for n unfolding m(2) bit_push_bit_iff by (auto simp: bit_1_iff)
  show "(len OR 0x80000000) AND 0x7fffffff = len"
    using l unfolding m(1)
    by (intro bit_word_eqI) (simp only: bit_and_iff bit_or_iff bit_mask_iff h, auto)
  have "bit ((len OR 0x80000000) AND 0x80000000) 31" by (simp add: bit_and_iff bit_or_iff h)
  then show "(len OR 0x80000000) AND 0x80000000 \<noteq> 0" by (metis bit_0_eq bot_apply bot_bool_def)
qed

lemma loop_marker:
  assumes "plain rpc" "istate rpc = READ_RM" "inpos rpc = 0" "bs \<noteq> []"
  shows "read_loop heap now call rs rpc m [Bytes (be32 (len OR 0x80000000) @ be32 x @ bs)] =
    read_on heap now call rs (at_marker rpc len x) m [Bytes bs]"
proof -
  define r where "r = rpc\<lparr>pdu_size := 8, buf_at := To_Rm 0, cur_pdu := None,
      rm_bytes := le32 (rm_xid0 rpc) @ le32 (rm_xid1 rpc)\<rparr>"
  let ?bs = "be32 (len OR 0x80000000) @ be32 x"
  have s: "read_setup rpc = Some r" using assms(2,3) by (simp add: read_setup_def r_def)
  have n: "unat (pdu_size r - inpos r) = 8" using assms(3) by (simp add: r_def)
  have "buf_write (rm_bytes r) 0 ?bs = Some ?bs" by (simp add: r_def buf_write_def le32_def)
  then have "put r m ?bs = Some (at_marker rpc len x, m)"
    using assms(3) by (simp add: put_def store_at_def r_def at_marker_def set_rm_def)
  then show ?thesis
    using loop_chunk [OF assms(1) s, of "?bs @ bs" heap now call rs m "[]"] assms(4) by (simp add: n)
qed


text \<open>The state in which the payload is read, for a request that was found or for none.\<close>

definition payload_state :: "'r pdu option \<Rightarrow> input_state" where
  "payload_state q = (if q = None then READ_UNKNOWN else READ_PAYLOAD)"

lemma marker_found:
  assumes "8 \<le> len" "len \<le> NFS_MAX_XFER_SIZE + 4096" "\<not> is_server_context rpc" "istate rpc = READ_RM"
    and "length (inbuf rpc) < 2 ^ 32"
    and find: "rpc_find_pdu ((at_marker rpc len x)\<lparr>istate := READ_PAYLOAD, rm_xid0 := len, rm_xid1 := x\<rparr>) x = Some (r3, q)"
    and nz: "\<forall>p. q = Some p \<longrightarrow> \<not> has_base (pin p)"
  shows "\<exists>b. finish_rm (at_marker rpc len x) m s =
      Some (Again (r3\<lparr>cur_pdu := q, inbuf := b, inpos := 0, istate := payload_state q\<rparr>) m s) \<and>
    take 4 b = be32 x \<and> unat len \<le> length b \<and> length b < 2 ^ 32"
proof -
  have le: "len \<le> MAX_FRAGMENT_SIZE"
    using assms(2) by (simp add: MAX_FRAGMENT_SIZE_def NFS_MAX_XFER_SIZE_def word_le_nat_alt)
  have b: "de32 (take 4 (rm_bytes (at_marker rpc len x))) = len OR 0x80000000"
    "de32 (drop 4 (rm_bytes (at_marker rpc len x))) = x" "\<not> is_server_context (at_marker rpc len x)"
    "inbuf (at_marker rpc len x) = inbuf rpc"
    using assms(3) by (simp_all add: at_marker_def set_rm_def)
  have r3: "inbuf r3 = inbuf rpc" "\<not> is_server_context r3"
    using find b(3,4) by (cases rule: find_pdu_cases; simp)+
  have z: "(case q of None \<Rightarrow> False | Some p \<Rightarrow> \<not> is_server_context (r3\<lparr>cur_pdu := q\<rparr>) \<and> has_base (pin p)) = False"
    using nz by (simp split: option.split)
  obtain b1 where a: "adjust_inbuf (r3\<lparr>cur_pdu := q\<rparr>) len = Some (r3\<lparr>cur_pdu := q, inbuf := b1\<rparr>)"
    "unat len \<le> length b1" "length b1 < 2 ^ 32"
  proof (cases "inbuf_size rpc < len")
    case True
    then have ad: "adjust_inbuf (r3\<lparr>cur_pdu := q\<rparr>) len =
        Some (r3\<lparr>cur_pdu := q, inbuf := inbuf rpc @ replicate (unat len - length (inbuf rpc)) 0\<rparr>)"
      using assms(2) r3(1) by (simp add: adjust_inbuf_def inbuf_size_def)
    have "length (inbuf rpc @ replicate (unat len - length (inbuf rpc)) (0 :: byte)) < 2 ^ 32"
      using assms(5) unsigned_less [of len, where ?'a = nat] by simp
    then show ?thesis by (intro that [OF ad]) simp
  next
    case False
    then have "unat len \<le> length (inbuf rpc)"
      using assms(5) by (simp add: inbuf_size_def word_le_nat_alt unat_of_nat not_less)
    moreover have "adjust_inbuf (r3\<lparr>cur_pdu := q\<rparr>) len = Some (r3\<lparr>cur_pdu := q, inbuf := inbuf rpc\<rparr>)"
      using False r3(1) by (auto simp: adjust_inbuf_def inbuf_size_def)
    ultimately show ?thesis using assms(5) by (intro that)
  qed
  have "4 \<le> length b1" using a(2) assms(1) by (simp add: word_le_nat_alt)
  then have w: "buf_write b1 0 (be32 x) = Some (be32 x @ drop 4 b1)" by (simp add: buf_write_def)
  have "finish_rm (at_marker rpc len x) m s =
      Some (Again (r3\<lparr>cur_pdu := q, inbuf := be32 x @ drop 4 b1, inpos := 0, istate := payload_state q\<rparr>) m s)"
    unfolding finish_rm_def Let_def b(1,2) marker_bits(1) [OF le]
    by (simp add: b(3) find r3(2) z a(1) w payload_state_def marker_bits(2) [OF le] leD [OF assms(1)] leD [OF le])
  then show ?thesis using a(2,3) \<open>4 \<le> length b1\<close> by (intro exI [of _ "be32 x @ drop 4 b1"]) simp
qed

lemma loop_payload:
  assumes "istate r = payload_state (cur_pdu r)" "inpos r = 0" "rm_xid0 r = len" "plain r"
    "\<forall>p. cur_pdu r = Some p \<longrightarrow> \<not> has_base (pin p)"
    and "length bs = unat len - 4" "bs \<noteq> []" "unat len \<le> length (inbuf r)" "length (inbuf r) < 2 ^ 32"
  shows "\<exists>b. read_loop heap now call rs r m [Bytes bs] =
      read_on heap now call rs (r\<lparr>inpos := len, buf_at := To_Inbuf (unat len), pdu_size := len, inbuf := b\<rparr>) m [] \<and>
    length b = length (inbuf r) \<and> take (unat len) b = take 4 (inbuf r) @ bs"
proof -
  define r1 where "r1 = r\<lparr>inpos := 4, buf_at := To_Inbuf 4, pdu_size := len\<rparr>"
  have "rm_xid0 r \<le> inbuf_size r"
    using assms(3,8,9) by (simp add: inbuf_size_def word_le_nat_alt unat_of_nat)
  then have s: "read_setup r = Some r1"
    using assms(1-3,5) by (auto simp: read_setup_def r1_def payload_state_def split: option.split)
  have l: "4 < unat len" using assms(6,7) by (cases bs) auto
  have n: "unat (pdu_size r1 - inpos r1) = length bs"
    using assms(6) l by (simp add: r1_def unat_sub word_le_nat_alt)
  have f: "fits (inbuf r) 4 (length bs)" using assms(6,8) l by (simp add: fits_def)
  let ?b = "splice (inbuf r) 4 bs"
  have w: "buf_write (inbuf r) 4 bs = Some ?b" by (rule buf_write_fits [OF f])
  have i: "(4 :: u32) + word_of_nat (length bs) = len"
    using assms(6) l unsigned_less [of len, where ?'a = nat]
    by (intro unsigned_word_eqI) (simp add: unat_word_ariths unat_of_nat)
  have "put r1 m bs = Some (r\<lparr>inpos := len, buf_at := To_Inbuf (unat len), pdu_size := len, inbuf := ?b\<rparr>, m)"
    using w i assms(6) l by (simp add: put_def store_at_def r1_def)
  then have "read_loop heap now call rs r m [Bytes bs] =
      read_on heap now call rs (r\<lparr>inpos := len, buf_at := To_Inbuf (unat len), pdu_size := len, inbuf := ?b\<rparr>) m []"
    using loop_chunk [OF assms(4) s assms(7), of heap now call rs m "[]"] by (simp add: n)
  moreover have "take (unat len) ?b = take 4 (inbuf r) @ bs"
    using assms(6,8) l by (simp add: splice_def)
  ultimately show ?thesis using f by (intro exI [of _ ?b]) simp
qed


text \<open>A client between two records.\<close>

definition idle :: "'r rpc \<Rightarrow> bool" where
  "idle rpc \<longleftrightarrow> istate rpc = READ_RM \<and> inpos rpc = 0 \<and> \<not> is_server_context rpc \<and> \<not> is_udp rpc \<and>
     \<not> socket_disabled rpc \<and> fragments rpc = [] \<and> no_zc rpc \<and> length (inbuf rpc) < 2 ^ 32"

lemma idle_plain: "idle rpc \<Longrightarrow> plain rpc"
  by (simp add: idle_def plain_def client_def)

text \<open>With nothing to read the loop prepares for the next record and returns.\<close>

lemma loop_empty:
  assumes "istate rpc = READ_RM" "inpos rpc = 0"
  shows "\<exists>r. read_loop heap now call rs rpc m [] = Some (0, r, m, []) \<and> evlog r = evlog rpc \<and>
    waitpdu r = waitpdu rpc \<and> waitpdu_len r = waitpdu_len rpc \<and> outqueue r = outqueue rpc \<and>
    conf r = conf rpc \<and> inp r = (READ_RM, 0, fragments rpc, inbuf rpc, None)"
  using assms
  by (subst read_loop.simps)
     (simp add: read_iter_def read_setup_def read_receive_def want_def conf_def inp_def Let_def)

lemma s32_uint_len:
  assumes "unat (len :: u32) \<le> 2 ^ 30"
  shows "s32 (uint len) = uint len" "uint len \<le> 2 ^ 30"
proof -
  have "len \<le> 1073741824" using assms by (simp add: word_le_nat_alt)
  then show u: "uint len \<le> 2 ^ 30" by (simp add: word_le_def)
  then show "s32 (uint len) = uint len" by (simp add: s32_nonneg)
qed

lemma zdr_stands:
  assumes "take (unat len) buf = bs" "unat len \<le> length buf" "unat len \<le> 2 ^ 30" "2 ^ 31 \<le> heap"
  shows "stands_at (libnfs_zdrmem_create heap buf len ZDR_DECODE) bs"
proof -
  have "int (unat len) \<le> int (length buf)" using assms(2) by (simp only: of_nat_le_iff)
  then show ?thesis
    using assms s32_uint_len [OF assms(3)]
    by (auto simp: stands_at_def libnfs_zdrmem_create_def zwf_def ample_def z_room_def holds_at_def fits_def)
qed

text \<open>The payload of a reply, once it is complete.\<close>

lemma payload_reply:
  assumes "zdr_codec f enc ok blank" "msg_sendable f ok msg" "direction msg = REPLY"
    and p: "cur_pdu r = Some p" "zdr_decode_fn p = Some f" "blank (zdr_decode_buf p)" "has_cb p"
      "\<not> zc p" "\<not> free_pdu p"
    and r: "istate r = READ_PAYLOAD" "inpos r = pdu_size r" "\<not> is_server_context r" "\<not> is_udp r" "fragments r = []"
    and buf: "take (unat (pdu_size r)) (inbuf r) = msg_enc enc msg" "unat (pdu_size r) \<le> length (inbuf r)"
      "unat (pdu_size r) \<le> 2 ^ 30" "2 ^ 31 \<le> heap"
  shows "\<exists>r'. read_on heap now call rs r m [] = Some (0, r', m, []) \<and>
    evlog r' = evlog r @ [reply_event p msg, Freed (pid p)] \<and> waitpdu r' = waitpdu r \<and>
    waitpdu_len r' = waitpdu_len r \<and> outqueue r' = outqueue r \<and> conf r' = conf r \<and>
    inp r' = (READ_RM, 0, [], inbuf r, None)"
proof -
  have nz: "\<not> has_base (pin p)" "\<not> free_zdr p" using p(5) by (auto simp: zc_def)
  let ?z = "libnfs_zdrmem_create heap (inbuf r) (pdu_size r) ZDR_DECODE"
  obtain r1 z' p1 where P: "rpc_process_reply now r ?z = Some (r1, z')" "evlog r1 = evlog r @ [reply_event p msg]"
    "outqueue r1 = outqueue r" "waitpdu r1 = waitpdu r" "waitpdu_len r1 = waitpdu_len r" "\<not> is_udp r1"
    "fragments r1 = []" "cur_pdu r1 = Some p1" "pid p1 = pid p" "\<not> free_pdu p1" "\<not> free_zdr p1" "\<not> has_base (pin p1)"
    "conf r1 = conf r" "inbuf r1 = inbuf r"
    using process_reply_wf [OF assms(1-3) zdr_stands [OF buf] p(1-4) nz(1), of now] r(3-5) nz p(6) by auto
  let ?r2 = "(rpc_free_pdu (r1\<lparr>fragments := [], istate := READ_RM, inpos := 0\<rparr>) p1)\<lparr>cur_pdu := None\<rparr>"
  have "payload_finished r1 m [] = Some (Again ?r2 m [])"
    using P(6-8,10) by (simp add: payload_finished_def rpc_finished_pdu_def rpc_free_all_fragments_def)
  then have "finish_payload heap now call rs r m [] = Some (Again ?r2 m [])"
    using r(3,5) P by (simp add: finish_payload_def rpc_process_pdu_def Let_def)
  then have on: "read_on heap now call rs r m [] = read_loop heap now call rs ?r2 m []"
    using r(1,2) by (simp add: read_on_def read_finish_def)
  have "istate ?r2 = READ_RM" "inpos ?r2 = 0" "evlog ?r2 = evlog r @ [reply_event p msg, Freed (pid p)]"
    "waitpdu ?r2 = waitpdu r" "waitpdu_len ?r2 = waitpdu_len r" "outqueue ?r2 = outqueue r"
    "conf ?r2 = conf r" "fragments ?r2 = []" "inbuf ?r2 = inbuf r"
    using P by (simp_all add: rpc_free_pdu_def) (simp add: conf_def)
  then show ?thesis unfolding on using loop_empty [of ?r2 heap now call rs m] by auto
qed


lemma read_reply:
  assumes rpc: "idle rpc" "wait_ok rpc" "p \<in> set (waiting rpc)"
      "\<forall>q \<in> set (outqueue rpc). pxid q \<noteq> pxid p" "\<forall>q \<in> set (waiting rpc). pxid q = pxid p \<longrightarrow> q = p"
    and p: "zdr_decode_fn p = Some f" "blank (zdr_decode_buf p)" "has_cb p" "\<not> free_pdu p"
    and msg: "zdr_codec f enc ok blank" "msg_sendable f ok msg" "direction msg = REPLY" "msg_xid msg = pxid p"
      "length (msg_enc enc msg) \<le> 4 * 1024 * 1024 + 4096" "2 ^ 31 \<le> heap"
  shows "\<exists>rpc'. read_loop heap now call rs rpc m
      [Bytes (be32 (recordmarker (int (length (msg_enc enc msg)))) @ msg_enc enc msg)] = Some (0, rpc', m, []) \<and>
    evlog rpc' = evlog rpc @ [reply_event p msg, Freed (pid p)] \<and>
    mset (waiting rpc) = add_mset p (mset (waiting rpc')) \<and> wait_ok rpc' \<and> outqueue rpc' = outqueue rpc \<and>
    conf rpc' = conf rpc \<and> idle rpc' \<and> cur_pdu rpc' = None"
proof -
  let ?bs = "msg_enc enc msg" and ?x = "pxid p"
  define len :: u32 where "len = word_of_nat (length ?bs)"
  define tl where "tl = drop 4 ?bs"
  have bs: "?bs = be32 ?x @ tl" "tl \<noteq> []" using msg(3,4) by (auto simp: msg_enc_def tl_def be32_def)
  have L: "unat len = length ?bs" using msg(5) by (simp add: len_def unat_of_nat)
  have tl: "length tl = unat len - 4" by (simp add: L tl_def)
  have l8: "8 \<le> len" using msg(3) by (simp add: word_le_nat_alt L) (simp add: msg_enc_def)
  have lx: "len \<le> NFS_MAX_XFER_SIZE + 4096" using msg(5) by (simp add: word_le_nat_alt L NFS_MAX_XFER_SIZE_def)
  have mk: "recordmarker (int (length ?bs)) = len OR 0x80000000" by (simp add: recordmarker_def len_def)
  note id = rpc(1) [unfolded idle_def]
  let ?r = "(at_marker rpc len ?x)\<lparr>istate := READ_PAYLOAD, rm_xid0 := len, rm_xid1 := ?x\<rparr>"
  have r: "waitpdu ?r = waitpdu rpc" "waitpdu_len ?r = waitpdu_len rpc" "outqueue ?r = outqueue rpc" "\<not> is_udp ?r"
    "rm_xid1 ?r = ?x" "evlog ?r = evlog rpc" "fragments ?r = []" "rm_xid0 ?r = len" "\<not> is_server_context ?r"
    using id by (simp_all add: at_marker_def set_rm_def)
  have w: "waiting ?r = waiting rpc" "wait_ok ?r" using wait_ok_cong [OF r(1,2)] rpc(2) r(1) by (simp_all add: waiting_def)
  obtain r3 q where q: "rpc_find_pdu ?r ?x = Some (r3, Some q)" "pxid q = ?x"
    "mset (waiting ?r) = add_mset q (mset (waiting r3))" "wait_ok r3" "outqueue r3 = outqueue ?r"
    using find_pdu_waiting [OF w(2), of ?x p] r(3-5) rpc(3,4) w(1) by auto
  have "q \<in> set (waiting rpc)" using q(3) w(1) by (metis set_mset_mset union_single_eq_member)
  then have qp: "q = p" using rpc(5) q(2) by simp
  have np: "\<not> zc p" using id rpc(3) by (auto simp: no_zc_def)
  have r3: "evlog r3 = evlog rpc" "fragments r3 = []" "\<not> is_udp r3" "\<not> is_server_context r3" "rm_xid0 r3 = len"
    "conf r3 = conf ?r"
    using q(1) r by (cases rule: find_pdu_cases; simp)+
  obtain b where b: "finish_rm (at_marker rpc len ?x) m [Bytes tl] =
      Some (Again (r3\<lparr>cur_pdu := Some p, inbuf := b, inpos := 0, istate := READ_PAYLOAD\<rparr>) m [Bytes tl])"
    "take 4 b = be32 ?x" "unat len \<le> length b" "length b < 2 ^ 32"
    using marker_found [OF l8 lx _ _ _ q(1) [unfolded qp], of m "[Bytes tl]"] id np by (auto simp: zc_def payload_state_def)
  let ?r4 = "r3\<lparr>cur_pdu := Some p, inbuf := b, inpos := 0, istate := READ_PAYLOAD\<rparr>"
  have "istate (at_marker rpc len ?x) = READ_RM" "inpos (at_marker rpc len ?x) = pdu_size (at_marker rpc len ?x)"
    "client (at_marker rpc len ?x)"
    using id by (simp_all add: at_marker_def set_rm_def client_def no_zc_def waiting_def)
  then have one: "read_loop heap now call rs rpc m [Bytes (be32 (len OR 0x80000000) @ ?bs)] = read_loop heap now call rs ?r4 m [Bytes tl]"
    and pl: "plain ?r4"
    using loop_marker [OF idle_plain [OF rpc(1)] _ _ bs(2), of heap now call rs m len ?x] bs(1) id b(1)
      finish_rm_plain [OF b(1)]
    by (simp_all add: read_on_def read_finish_def)
  obtain c where c: "read_loop heap now call rs ?r4 m [Bytes tl] =
      read_on heap now call rs (?r4\<lparr>inpos := len, buf_at := To_Inbuf (unat len), pdu_size := len, inbuf := c\<rparr>) m []"
    "length c = length b" "take (unat len) c = ?bs"
    using loop_payload [of ?r4 len tl heap now call rs m] pl np r3(5) bs(2) tl b(2-4)
    unfolding bs(1) by (auto simp: zc_def payload_state_def)
  let ?r5 = "?r4\<lparr>inpos := len, buf_at := To_Inbuf (unat len), pdu_size := len, inbuf := c\<rparr>"
  obtain r' where r': "read_on heap now call rs ?r5 m [] = Some (0, r', m, [])"
    "evlog r' = evlog ?r5 @ [reply_event p msg, Freed (pid p)]" "waitpdu r' = waitpdu ?r5"
    "waitpdu_len r' = waitpdu_len ?r5" "outqueue r' = outqueue ?r5" "conf r' = conf ?r5"
    "inp r' = (READ_RM, 0, [], inbuf ?r5, None)"
    using payload_reply [OF msg(1-3), of ?r5 p heap now call rs m] p np r3 c(2,3) b(3) msg(5,6) L by auto
  have ww: "waiting r' = waiting r3" "wait_ok r'"
    using wait_ok_cong [of r' r3] r'(3,4) q(4) by (simp_all add: waiting_def)
  have "read_loop heap now call rs rpc m [Bytes (be32 (recordmarker (int (length ?bs))) @ ?bs)] = Some (0, r', m, [])"
    unfolding mk one c(1) by (rule r'(1))
  moreover have "evlog r' = evlog rpc @ [reply_event p msg, Freed (pid p)]" using r'(2) r3(1) by simp
  moreover have "mset (waiting rpc) = add_mset p (mset (waiting r'))" using q(3) unfolding qp w(1) ww(1) .
  moreover have "outqueue r' = outqueue rpc" using r'(5) q(5) r(3) by simp
  moreover have cf: "conf r' = conf rpc" using r'(6) r3(6) by (simp add: conf_def at_marker_def set_rm_def)
  moreover have "set (waiting r') \<subseteq> set (waiting rpc)"
    using q(3) unfolding qp w(1) ww(1) by (metis set_mset_add_mset_insert set_mset_mset subset_insertI)
  then have "idle r'" "cur_pdu r' = None"
    using r'(7) c(2) b(4) cf id r'(5) q(5) r(3) by (auto simp: idle_def inp_def conf_def no_zc_def)
  ultimately show ?thesis using ww(2) by blast
qed

text \<open>A record that answers no request is skipped.\<close>

lemma read_stray:
  assumes rpc: "idle rpc" "wait_ok rpc" "\<forall>q \<in> set (outqueue rpc) \<union> set (waiting rpc). pxid q \<noteq> x"
    and len: "4 \<le> length bs" "length bs \<le> 4 * 1024 * 1024 + 4092"
  shows "\<exists>rpc'. read_loop heap now call rs rpc m
      [Bytes (be32 (recordmarker (int (4 + length bs))) @ be32 x @ bs)] = Some (0, rpc', m, []) \<and>
    evlog rpc' = evlog rpc \<and> waiting rpc' = waiting rpc \<and> wait_ok rpc' \<and> outqueue rpc' = outqueue rpc \<and>
    conf rpc' = conf rpc \<and> idle rpc' \<and> cur_pdu rpc' = None"
proof -
  define len :: u32 where "len = word_of_nat (4 + length bs)"
  have L: "unat len = 4 + length bs" using len(2) unfolding len_def by (subst unat_of_nat) simp
  have l: "8 \<le> len" "len \<le> NFS_MAX_XFER_SIZE + 4096" "bs \<noteq> []" "length bs = unat len - 4"
    using len by (auto simp: word_le_nat_alt L NFS_MAX_XFER_SIZE_def)
  have mk: "recordmarker (int (4 + length bs)) = len OR 0x80000000" by (simp add: recordmarker_def len_def)
  note id = rpc(1) [unfolded idle_def]
  let ?r = "(at_marker rpc len x)\<lparr>istate := READ_PAYLOAD, rm_xid0 := len, rm_xid1 := x\<rparr>"
  have r: "waitpdu ?r = waitpdu rpc" "waitpdu_len ?r = waitpdu_len rpc" "outqueue ?r = outqueue rpc"
    by (simp_all add: at_marker_def set_rm_def)
  have w: "waiting ?r = waiting rpc" "wait_ok ?r" using wait_ok_cong [OF r(1,2)] rpc(2) r(1) by (simp_all add: waiting_def)
  have f: "rpc_find_pdu ?r x = Some (?r, None)" by (rule find_pdu_none [OF w(2)]) (use rpc(3) r(3) w(1) in simp_all)
  obtain b where b: "finish_rm (at_marker rpc len x) m [Bytes bs] =
      Some (Again (?r\<lparr>cur_pdu := None, inbuf := b, inpos := 0, istate := READ_UNKNOWN\<rparr>) m [Bytes bs])"
    "unat len \<le> length b" "length b < 2 ^ 32"
    using marker_found [OF l(1,2) _ _ _ f, of m "[Bytes bs]"] id by (auto simp: payload_state_def)
  let ?r4 = "?r\<lparr>cur_pdu := None, inbuf := b, inpos := 0, istate := READ_UNKNOWN\<rparr>"
  have "istate (at_marker rpc len x) = READ_RM" "inpos (at_marker rpc len x) = pdu_size (at_marker rpc len x)"
    "client (at_marker rpc len x)"
    using id by (simp_all add: at_marker_def set_rm_def client_def no_zc_def waiting_def)
  then have one: "read_loop heap now call rs rpc m [Bytes (be32 (len OR 0x80000000) @ be32 x @ bs)] =
      read_loop heap now call rs ?r4 m [Bytes bs]" and pl: "plain ?r4"
    using loop_marker [OF idle_plain [OF rpc(1)] _ _ l(3), of heap now call rs m len x] id b(1) finish_rm_plain [OF b(1)]
    by (simp_all add: read_on_def read_finish_def)
  obtain c where c: "read_loop heap now call rs ?r4 m [Bytes bs] =
      read_on heap now call rs (?r4\<lparr>inpos := len, buf_at := To_Inbuf (unat len), pdu_size := len, inbuf := c\<rparr>) m []"
    "length c = length b"
    using loop_payload [of ?r4 len bs heap now call rs m] pl l(3,4) b(2,3) by (auto simp: payload_state_def)
  let ?r5 = "?r4\<lparr>inpos := len, buf_at := To_Inbuf (unat len), pdu_size := len, inbuf := c\<rparr>"
  let ?r6 = "?r5\<lparr>istate := READ_RM, inpos := 0\<rparr>"
  have on: "read_on heap now call rs ?r5 m [] = read_loop heap now call rs ?r6 m []"
    by (simp add: read_on_def read_finish_def)
  obtain r' where r': "read_loop heap now call rs ?r6 m [] = Some (0, r', m, [])" "evlog r' = evlog ?r6"
    "waitpdu r' = waitpdu ?r6" "waitpdu_len r' = waitpdu_len ?r6" "outqueue r' = outqueue ?r6" "conf r' = conf ?r6"
    "inp r' = (READ_RM, 0, fragments ?r6, inbuf ?r6, None)"
    using loop_empty [of ?r6 heap now call rs m] by auto
  have q: "evlog r' = evlog rpc" "waitpdu r' = waitpdu rpc" "waitpdu_len r' = waitpdu_len rpc" "outqueue r' = outqueue rpc"
    "conf r' = conf rpc" "fragments ?r6 = []" "inbuf ?r6 = c"
    using r'(2-6) id by (simp_all add: at_marker_def set_rm_def conf_def)
  have "waiting r' = waiting rpc" "wait_ok r'" using wait_ok_cong [OF q(2,3)] rpc(2) q(2) by (simp_all add: waiting_def)
  moreover from this have "idle r'" "cur_pdu r' = None"
    using r'(7) c(2) b(3) q(4-7) id by (auto simp: idle_def inp_def conf_def no_zc_def)
  ultimately show ?thesis unfolding mk one c(1) on using r'(1) q by blast
qed


section \<open>Replies to a zero-copy READ\<close>

text \<open>A READ over NFSv3 whose payload is complete.\<close>

definition read_waits :: "'r rpc \<Rightarrow> 'r pdu \<Rightarrow> bool" where
  "read_waits r p \<longleftrightarrow> cur_pdu r = Some p \<and> has_base (pin p) \<and> has_cb p \<and> zdr_decode_bufsize p > 0 \<and>
     istate r = READ_PAYLOAD \<and> \<not> is_server_context r \<and> fragments r = [] \<and>
     program r = NFS_PROGRAM \<and> version r = NFS_V3"

lemma read_waitsD:
  assumes "read_waits r p"
  shows "cur_pdu r = Some p" "has_base (pin p)" "has_cb p" "zdr_decode_bufsize p > 0"
    "istate r = READ_PAYLOAD" "\<not> is_server_context r" "fragments r = []" "program r = NFS_PROGRAM" "version r = NFS_V3"
  using assms by (simp_all add: read_waits_def)

text \<open>An error reply to it: the callback runs and the message is consumed.\<close>

lemma process_error_reply:
  assumes "zdr_codec f enc ok blank" "msg_sendable f ok msg" "direction msg = REPLY" "stands_at z (msg_enc enc msg)"
    and p: "cur_pdu r = Some p" "zdr_decode_fn p = Some f" "blank (zdr_decode_buf p)" "has_cb p" "zdr_decode_bufsize p > 0"
    and err: "\<not> (rb_stat (rbody msg) = MSG_ACCEPTED \<and> ar_stat (areply (rbody msg)) = SUCCESS)"
  shows "\<exists>r' mem. rpc_process_reply now r z = Some (r', z_skip z (length (msg_enc enc msg)) mem) \<and>
    evlog r' = evlog r @ [Cb (pid p) RPC_STATUS_ERROR None] \<and> cur_pdu r' = Some (p\<lparr>zdr_decode_null := False\<rparr>) \<and>
    fragments r' = fragments r \<and> program r' = program r \<and> version r' = version r"
proof -
  let ?y = "zero_msg (Some f) (zdr_decode_buf p)"
  obtain mem where d: "libnfs_zdr_replymsg z ?y = Ret True (z_skip z (length (msg_enc enc msg)) mem) (msg_received ?y msg)"
    using stands_atD [OF zdr_codec.msg_decodes [OF assms(1,2) zero_msg_blank [of blank]] assms(4)] p(3)
    by (auto simp: libnfs_zdr_replymsg_def)
  have b: "rb_stat (rbody msg) = MSG_ACCEPTED \<or> rb_stat (rbody msg) = MSG_DENIED"
    using assms(2,3) by (auto simp: msg_sendable_def reply_sendable_def)
  have zw: "results_where (areply (rbody ?y)) = zdr_decode_buf p" by (simp add: zero_defs)
  show ?thesis
    using b assms(3) p err
    by (auto simp: rpc_process_reply_def d Let_def run_cb_def call_cb_def msg_received_def reply_view_def
        reply_body_received_def accepted_received_def inc_resp_rcvd_def zw)
qed

lemma u_int_at_end: "zwf z \<Longrightarrow> zpos z = zsize z \<Longrightarrow> libnfs_zdr_u_int z u = Ret False z u"
  using zwf_ranges(1) [of z] by (simp add: libnfs_zdr_u_int_def)


section \<open>Properties\<close>

text \<open>
  C14. How TCP cuts the byte stream makes no difference: with no zero-copy READ among the
  requests, two ways to cut the same bytes into pieces give the same return value, the same
  context, the same callbacks in the same order, and the same number of unread bytes.
\<close>

theorem rpc_read_chunks:
  assumes "plain rpc" "\<not> is_udp rpc" "\<not> socket_disabled rpc"
    and "concat cs = concat ds" "[] \<notin> set cs" "[] \<notin> set ds"
  shows "outcome (rpc_read_from_socket heap now call rs old rpc m (map Bytes cs)) =
    outcome (rpc_read_from_socket heap now call rs old rpc m (map Bytes ds))"
proof (cases "cs = []")
  case True
  then have "ds = []" using assms(4,6) by (cases ds) auto
  then show ?thesis using True by simp
next
  case False
  then have "ds \<noteq> []" using assms(4,5) by (cases cs) auto
  then show ?thesis
    using chunks_concat [OF assms(1,5) False, of heap now call rs m] chunks_concat [OF assms(1,6), of heap now call rs m]
      assms(2-4) by (simp add: rpc_read_from_socket_def)
qed

definition idle_rpc :: "u32 rpc" where
  "idle_rpc = zero_rpc\<lparr>waitpdu := [[(zero_pdu 10 0)\<lparr>pxid := 5, has_cb := True, zdr_decode_fn := Some libnfs_zdr_u_int\<rparr>]],
     waitpdu_len := 1\<rparr>"

lemma idle_rpc_idle: "idle idle_rpc" "wait_ok idle_rpc"
proof -
  show "idle idle_rpc"
    by (simp add: idle_def idle_rpc_def zero_rpc_def no_zc_def waiting_def zc_def zero_pdu_def no_cursor_def)
  have "bucket idle_rpc x = 0" for x using bucket_less [of idle_rpc x] by (simp add: idle_rpc_def)
  then show "wait_ok idle_rpc" by (simp add: wait_ok_def buckets_ok_def len_ok_def waiting_def) (simp add: idle_rpc_def)
qed

theorem rpc_read_chunks_witness:
  "\<forall>heap now call rs old m.
     outcome (rpc_read_from_socket heap now call rs old idle_rpc m (map Bytes [[128, 0], [0, 12, 7]])) =
     outcome (rpc_read_from_socket heap now call rs old idle_rpc m (map Bytes [[128], [0, 0, 12], [7]]))"
  using idle_plain [OF idle_rpc_idle(1)] idle_rpc_idle(1)
  by (intro allI rpc_read_chunks) (simp_all add: idle_def)

lemma read_delivers:
  assumes "idle rpc" "wait_ok rpc" "p \<in> set (waiting rpc)"
      "\<forall>q \<in> set (outqueue rpc). pxid q \<noteq> pxid p" "\<forall>q \<in> set (waiting rpc). pxid q = pxid p \<longrightarrow> q = p"
    and "zdr_decode_fn p = Some f" "blank (zdr_decode_buf p)" "has_cb p" "\<not> free_pdu p"
    and "zdr_codec f enc ok blank" "msg_sendable f ok msg" "direction msg = REPLY" "msg_xid msg = pxid p"
      "length (msg_enc enc msg) \<le> 4 * 1024 * 1024 + 4096" "2 ^ 31 \<le> heap"
    and cs: "concat cs = be32 (recordmarker (int (length (msg_enc enc msg)))) @ msg_enc enc msg" "[] \<notin> set cs"
  shows "\<exists>rpc'. outcome (rpc_read_from_socket heap now call rs old rpc m (map Bytes cs)) = Some (0, rpc', m, 0) \<and>
    evlog rpc' = evlog rpc @ [reply_event p msg, Freed (pid p)] \<and>
    mset (waiting rpc) = add_mset p (mset (waiting rpc')) \<and> wait_ok rpc' \<and> outqueue rpc' = outqueue rpc \<and>
    conf rpc' = conf rpc \<and> idle rpc' \<and> cur_pdu rpc' = None"
proof -
  have "cs \<noteq> []" using cs(1) by (auto simp: be32_def)
  note c = chunks_concat [OF idle_plain [OF assms(1)] cs(2) this, of heap now call rs m, unfolded cs(1)]
  obtain rpc' where r: "read_loop heap now call rs rpc m
      [Bytes (be32 (recordmarker (int (length (msg_enc enc msg)))) @ msg_enc enc msg)] = Some (0, rpc', m, [])"
    "evlog rpc' = evlog rpc @ [reply_event p msg, Freed (pid p)]"
    "mset (waiting rpc) = add_mset p (mset (waiting rpc'))" "wait_ok rpc'" "outqueue rpc' = outqueue rpc"
    "conf rpc' = conf rpc" "idle rpc'" "cur_pdu rpc' = None"
    using read_reply [OF assms(1-15), of now call rs m] by blast
  have "outcome (rpc_read_from_socket heap now call rs old rpc m (map Bytes cs)) = Some (0, rpc', m, 0)"
    using c r(1) assms(1) by (simp add: rpc_read_from_socket_def idle_def outcome_def)
  then show ?thesis using r(2-8) by blast
qed

text \<open>
  C2. From the socket to the callback, for a client of a stream socket that is between two records
  and has no zero-copy READ among its requests: when the bytes of a record of at most 4 MiB + 4096
  bytes with a well-formed reply to a waiting request, whose xid no other request has, arrive, cut
  in any way, one call of \<open>rpc_read_from_socket\<close> reads them all, finds the request by its
  xid, calls its callback exactly once with the decoded results (or with an error for an error
  reply), frees the request, and leaves the other requests and the bookkeeping of the queues as
  they were. Replies to a zero-copy READ behave differently, see
  \<open>rpc_read_error_reply_kept\<close> and \<open>rpc_read_garbage_reply_crashes\<close> below.
\<close>

theorem rpc_read_delivers_reply:
  assumes "idle rpc" "wait_ok rpc" "p \<in> set (waiting rpc)"
      "\<forall>q \<in> set (outqueue rpc). pxid q \<noteq> pxid p" "\<forall>q \<in> set (waiting rpc). pxid q = pxid p \<longrightarrow> q = p"
    and "zdr_decode_fn p = Some f" "blank (zdr_decode_buf p)" "has_cb p" "\<not> free_pdu p"
    and "zdr_codec f enc ok blank" "msg_sendable f ok msg" "direction msg = REPLY" "msg_xid msg = pxid p"
      "length (msg_enc enc msg) \<le> 4 * 1024 * 1024 + 4096" "2 ^ 31 \<le> heap"
    and cs: "concat cs = be32 (recordmarker (int (length (msg_enc enc msg)))) @ msg_enc enc msg" "[] \<notin> set cs"
  shows "\<exists>rpc'. outcome (rpc_read_from_socket heap now call rs old rpc m (map Bytes cs)) = Some (0, rpc', m, 0) \<and>
    evlog rpc' = evlog rpc @ [reply_event p msg, Freed (pid p)] \<and>
    mset (waiting rpc) = add_mset p (mset (waiting rpc')) \<and> wait_ok rpc' \<and> outqueue rpc' = outqueue rpc"
  using read_delivers [OF assms, of now call rs old m] by blast

theorem rpc_read_delivers_reply_witness:
  "\<exists>rpc'. outcome (rpc_read_from_socket (2 ^ 31) 0 (\<lambda>r z. None) (\<lambda>v. v) [] idle_rpc (\<lambda>_. 0)
      [Bytes (be32 0x8000001c), Bytes (msg_enc be32 (success_reply 5 libnfs_zdr_u_int 7))]) = Some (0, rpc', (\<lambda>_. 0), 0) \<and>
    evlog rpc' = [Cb 10 RPC_STATUS_SUCCESS (Some 7), Freed 10] \<and> waiting rpc' = []"
proof -
  let ?m = "success_reply 5 libnfs_zdr_u_int 7" and ?p = "(zero_pdu 10 0)\<lparr>pxid := 5, has_cb := True, zdr_decode_fn := Some libnfs_zdr_u_int\<rparr>"
  have m: "msg_sendable libnfs_zdr_u_int (\<lambda>_. True) ?m" "direction ?m = REPLY" "msg_xid ?m = 5"
    by (simp_all add: success_reply_def msg_sendable_def reply_sendable_def accepted_sendable_def auth_sendable_def
        bytes_sendable_def oa_body_def auth_none_def)
  have l: "length (msg_enc be32 ?m) = 28" "reply_event ?p ?m = Cb 10 RPC_STATUS_SUCCESS (Some 7)"
    by (simp_all add: success_reply_def msg_enc_def reply_body_enc_def accepted_enc_def auth_enc_def oa_body_def
        auth_none_def reply_event_def zero_pdu_def)
  have w: "waiting idle_rpc = [?p]" "outqueue idle_rpc = []" "evlog idle_rpc = []"
    by (simp_all add: idle_rpc_def waiting_def zero_rpc_def)
  have mk: "recordmarker 28 = 0x8000001c" by (simp add: recordmarker_def)
  have ne: "msg_enc be32 ?m \<noteq> []" "be32 0x8000001c \<noteq> []" using l(1) by (auto simp: be32_def)
  show ?thesis
    using rpc_read_delivers_reply [OF idle_rpc_idle, of ?p libnfs_zdr_u_int "\<lambda>_. True" be32 "\<lambda>_. True" ?m "2 ^ 31"
        "[be32 0x8000001c, msg_enc be32 ?m]" 0 "\<lambda>r z. None" "\<lambda>v. v" "[]" "\<lambda>_. 0"] u_int.zdr_codec_axioms m l w mk ne
    by (auto simp: zero_pdu_def)
qed


text \<open>
  A reply to a zero-copy READ over NFSv3 that cannot be decoded: the request's callback is
  called with an error, the pointer to its result buffer is set to NULL, and then the status in
  that buffer is read through the pointer.
\<close>

theorem rpc_read_garbage_reply_crashes:
  assumes "read_waits r p"
    and "libnfs_zdr_replymsg (libnfs_zdrmem_create heap (inbuf r) (pdu_size r) ZDR_DECODE)
      (zero_msg (zdr_decode_fn p) (zdr_decode_buf p)) = Ret False z msg"
  shows "(\<exists>r'. rpc_process_pdu heap now call r (inbuf r) (pdu_size r) = Some (r', 0) \<and>
      evlog r' = evlog r @ [Cb (pid p) RPC_STATUS_ERROR None]) \<and>
    read_finish heap now call rs r m s = None"
proof -
  note w = read_waitsD [OF assms(1)]
  obtain r' p' where r': "rpc_process_pdu heap now call r (inbuf r) (pdu_size r) = Some (r', 0)"
    "evlog r' = evlog r @ [Cb (pid p) RPC_STATUS_ERROR None]" "cur_pdu r' = Some p'" "free_zdr p'" "zdr_decode_null p'"
    "program r' = NFS_PROGRAM" "version r' = NFS_V3"
    using w assms(2)
    by (simp add: rpc_process_pdu_def rpc_process_reply_def Let_def run_cb_def call_cb_def inc_resp_rcvd_def split_def)
  then show ?thesis using w by (simp add: read_finish_def finish_payload_def read_data_def)
qed

text \<open>
  An error reply to a zero-copy READ over NFSv3, one that the RPC layer of the server
  rejects: the callback is called with an error, but the code goes on to look for the length of
  the data, finds the end of the record and gives up on the connection, with the completed
  request still in \<open>rpc->pdu\<close>, from where the reconnection sends it again.
\<close>

theorem rpc_read_error_reply_kept:
  assumes "read_waits r p" "zdr_decode_fn p = Some f" "blank (zdr_decode_buf p)" "rs (zdr_decode_buf p) = NFS3_OK"
    and "zdr_codec f enc ok blank" "msg_sendable f ok msg" "direction msg = REPLY"
      "\<not> (rb_stat (rbody msg) = MSG_ACCEPTED \<and> ar_stat (areply (rbody msg)) = SUCCESS)"
    and "take (unat (pdu_size r)) (inbuf r) = msg_enc enc msg" "unat (pdu_size r) = length (msg_enc enc msg)"
      "length (msg_enc enc msg) \<le> length (inbuf r)" "length (msg_enc enc msg) \<le> 2 ^ 30" "2 ^ 31 \<le> heap"
  shows "\<exists>r' p'. read_finish heap now call rs r m s = Some (Stop (-1) r' m s) \<and>
    evlog r' = evlog r @ [Cb (pid p) RPC_STATUS_ERROR None] \<and> cur_pdu r' = Some p' \<and> pid p' = pid p"
proof -
  note w = read_waitsD [OF assms(1)]
  let ?z = "libnfs_zdrmem_create heap (inbuf r) (pdu_size r) ZDR_DECODE" and ?n = "length (msg_enc enc msg)"
  have st: "stands_at ?z (msg_enc enc msg)" using assms(9-13) by (intro zdr_stands) simp_all
  obtain r1 mem where r1: "rpc_process_reply now r ?z = Some (r1, z_skip ?z ?n mem)"
    "evlog r1 = evlog r @ [Cb (pid p) RPC_STATUS_ERROR None]" "cur_pdu r1 = Some (p\<lparr>zdr_decode_null := False\<rparr>)"
    "fragments r1 = []" "program r1 = NFS_PROGRAM" "version r1 = NFS_V3"
    using process_error_reply [OF assms(5-7) st w(1) assms(2,3) w(3,4) assms(8), of now] w by auto
  have u: "unat (pdu_size r) \<le> 2 ^ 30" using assms(10,12) by simp
  have "zsize ?z = int (unat (pdu_size r))" using s32_uint_len(1) [OF u] by (simp add: libnfs_zdrmem_create_def)
  moreover have "4 dvd ?n"
    by (rule decodes_dvd [OF zdr_codec.msg_decodes [OF assms(5,6) zero_msg_blank [of blank, OF assms(3)]]])
  ultimately have "zsize ?z = int ?n" "4 dvd ?n" unfolding assms(10) by simp_all
  moreover have "zpos ?z = 0" by (simp add: libnfs_zdrmem_create_def)
  ultimately have "zwf (z_skip ?z ?n mem)" "zpos (z_skip ?z ?n mem) = zsize (z_skip ?z ?n mem)"
    using st by (auto simp: stands_at_def intro!: zwf_z_skip)
  from u_int_at_end [OF this] show ?thesis
    using w r1 assms(4) by (auto simp: read_finish_def finish_payload_def rpc_process_pdu_def read_data_def Let_def)
qed


definition some_read :: "u32 pdu" where
  "some_read = (zero_pdu 10 0)\<lparr>pxid := 5, has_cb := True, zdr_decode_fn := Some libnfs_zdr_u_int,
     zdr_decode_bufsize := 4, pin := readv_cursor two_vecs\<rparr>"

definition read_rpc :: "byte list \<Rightarrow> u32 rpc" where
  "read_rpc bs = zero_rpc\<lparr>program := NFS_PROGRAM, version := NFS_V3, istate := READ_PAYLOAD,
     cur_pdu := Some some_read, inbuf := bs, pdu_size := word_of_nat (length bs)\<rparr>"

lemma read_rpc_waits: "read_waits (read_rpc bs) some_read"
  by (simp add: read_waits_def read_rpc_def some_read_def zero_rpc_def zero_pdu_def readv_cursor_def)

theorem rpc_read_garbage_reply_crashes_witness:
  "\<forall>heap now call rs m s. read_finish heap now call rs (read_rpc (be32 5 @ be32 2)) m s = None"
proof (intro allI)
  fix heap now call rs m s
  let ?z = "libnfs_zdrmem_create heap (be32 5 @ be32 2) 8 ZDR_DECODE"
  have "\<exists>z msg. libnfs_zdr_replymsg ?z (zero_msg (Some libnfs_zdr_u_int) 0) = Ret False z msg"
    by (simp add: libnfs_zdr_replymsg_def libnfs_rpc_msg_def zseq_def zfield_def libnfs_zdr_u_int_def
        libnfs_zdrmem_create_def s32_nonneg int_range_def buf_read_def rpc_consts)
  then show "read_finish heap now call rs (read_rpc (be32 5 @ be32 2)) m s = None"
    using rpc_read_garbage_reply_crashes [OF read_rpc_waits [of "be32 5 @ be32 2"], of heap _ _ now call rs m s]
    by (auto simp: read_rpc_def some_read_def zero_pdu_def)
qed

definition denied :: "u32 rpc_msg" where
  "denied = (zero_msg None 0)\<lparr>msg_xid := 5, direction := REPLY,
     rbody := (zero_reply None 0)\<lparr>rb_stat := MSG_DENIED, rreply := \<lparr>rr_stat = AUTH_ERROR, rr_low = 1, rr_high = 0\<rparr>\<rparr>\<rparr>"

theorem rpc_read_error_reply_kept_witness:
  "\<forall>now call m s. \<exists>r' p'. read_finish (2 ^ 31) now call (\<lambda>v. v) (read_rpc (msg_enc be32 denied)) m s = Some (Stop (-1) r' m s) \<and>
     evlog r' = [Cb 10 RPC_STATUS_ERROR None] \<and> cur_pdu r' = Some p' \<and> pid p' = 10"
proof (intro allI)
  fix now call m s
  have d: "msg_sendable libnfs_zdr_u_int (\<lambda>_. True) denied" "direction denied = REPLY"
    "\<not> (rb_stat (rbody denied) = MSG_ACCEPTED \<and> ar_stat (areply (rbody denied)) = SUCCESS)"
    by (simp_all add: denied_def msg_sendable_def reply_sendable_def)
  have l: "length (msg_enc be32 denied) = 20"
    by (simp add: denied_def msg_enc_def reply_body_enc_def rejected_enc_def)
  have "\<exists>r' p'. read_finish (2 ^ 31) now call (\<lambda>v. v) (read_rpc (msg_enc be32 denied)) m s = Some (Stop (-1) r' m s) \<and>
     evlog r' = evlog (read_rpc (msg_enc be32 denied)) @ [Cb (pid some_read) RPC_STATUS_ERROR None] \<and>
     cur_pdu r' = Some p' \<and> pid p' = pid some_read"
    by (rule rpc_read_error_reply_kept [OF read_rpc_waits _ _ _ u_int.zdr_codec_axioms d])
       (simp_all add: some_read_def zero_pdu_def read_rpc_def l NFS3_OK_def)
  then show "\<exists>r' p'. read_finish (2 ^ 31) now call (\<lambda>v. v) (read_rpc (msg_enc be32 denied)) m s = Some (Stop (-1) r' m s) \<and>
     evlog r' = [Cb 10 RPC_STATUS_ERROR None] \<and> cur_pdu r' = Some p' \<and> pid p' = 10"
    by (simp add: read_rpc_def some_read_def zero_rpc_def zero_pdu_def)
qed

end
