(* ===== verification/Socket_Ctl.thy ===== *)
theory Socket_Ctl
  imports Socket_In
begin

text \<open>
  Control of a connection, \<open>src/lib/socket.c\<close>: connecting, disconnecting and reconnecting
  (\<open>rpc_connect_async\<close>, \<open>rpc_connect_sockaddr_async\<close>, \<open>rpc_disconnect\<close>,
  \<open>rpc_reconnect_requeue\<close>), the scan for timed out requests (\<open>rpc_timeout_scan\<close>),
  the dispatch of poll events (\<open>rpc_which_events\<close>, \<open>rpc_service\<close>) and the
  addresses of datagram sockets.

  \<^item> What the operating system answers is an argument: \<open>net_env\<close> holds the outcomes of the
    calls of one attempt to connect, the results of \<open>getaddrinfo\<close> and \<open>SO_ERROR\<close>
    are arguments of their own.
  \<^item> \<open>portOfs\<close>, a static variable of \<open>rpc_connect_sockaddr_async\<close>, is passed along.
  \<^item> A user's connect callback is recorded in \<open>evlog\<close>; \<open>reconnect_cb\<close> is run.
  \<^item> The socket options that do not influence the control flow (\<open>TCP_NODELAY\<close>,
    \<open>TCP_SYNCNT\<close>, linger) are left out.
\<close>

section \<open>Events\<close>

definition POLLIN :: int where "POLLIN = 1"
definition POLLOUT :: int where "POLLOUT = 4"
definition POLLERR :: int where "POLLERR = 8"
definition POLLHUP :: int where "POLLHUP = 16"

definition rpc_get_fd :: "'r rpc \<Rightarrow> int" where
  "rpc_get_fd rpc = (if old_fd rpc \<noteq> 0 then old_fd rpc else fd rpc)"

definition rpc_set_fd :: "'r rpc \<Rightarrow> int \<Rightarrow> 'r rpc" where
  "rpc_set_fd rpc n = rpc\<lparr>fd := n\<rparr>"

definition rpc_has_queue :: "'r pdu list \<Rightarrow> bool" where
  "rpc_has_queue q \<longleftrightarrow> q \<noteq> []"

definition rpc_which_events :: "'r rpc \<Rightarrow> int" where
  "rpc_which_events rpc =
     (let events = (if is_connected rpc then POLLIN else POLLOUT)
      in if is_udp rpc then POLLIN
         else if rpc_has_queue (outqueue rpc) then events OR POLLOUT else events)"

section \<open>Connecting\<close>

definition AF_INET :: int where "AF_INET = 2"
definition AF_INET6 :: int where "AF_INET6 = 10"

datatype bind_res = Bind_Ok | Bind_Eacces | Bind_Fails

text \<open>
  \<open>n_socket\<close> is the new descriptor or -1, \<open>n_service\<close> whether \<open>getservbyport\<close>
  knows a port, \<open>n_bind\<close> the answer of \<open>bind\<close> for a port, and the truth values are
  whether the call succeeds (for \<open>connect\<close>: succeeds or is in progress).
\<close>

record net_env =
  n_socket :: int
  n_device :: bool
  n_dup2 :: bool
  n_service :: "nat \<Rightarrow> bool"
  n_bind :: "nat \<Rightarrow> bind_res"
  n_nonblocking :: bool
  n_keepalive :: bool
  n_connect :: bool
  n_time :: u64

lemma distance_mod:
  fixes s k :: nat
  assumes "s < 512" "k < 512"
  shows "(s + 511 - k) mod 512 = (if k < s then s - k - 1 else s + 511 - k)"
proof (cases "k < s")
  case True
  then have "s + 511 - k = (s - k - 1) + 512" by simp
  then show ?thesis using True assms by (simp only: mod_add_self2 if_True) simp
qed (use assms in simp)

lemma distance_less:
  fixes s k k' :: nat
  assumes "s < 512" "k < 512" "k' = (if k = 511 then 0 else Suc k)" "k' \<noteq> s"
  shows "(if k' < s then s - k' - 1 else s + 511 - k') < (if k < s then s - k - 1 else s + 511 - k)"
  using assms by (cases "k = 511"; cases "k < s"; simp; linarith)

lemma distance_decreases:
  fixes start ofs :: nat
  assumes "Suc ofs mod 512 \<noteq> start mod 512"
  shows "(start mod 512 + 511 - Suc ofs mod 512) mod 512 < (start mod 512 + 511 - ofs mod 512) mod 512"
proof -
  have lt: "start mod 512 < 512" "ofs mod 512 < 512" "Suc ofs mod 512 < 512" by simp_all
  have "Suc ofs mod 512 = (if ofs mod 512 = 511 then 0 else Suc (ofs mod 512))" by (simp add: mod_Suc)
  then show ?thesis
    unfolding distance_mod [OF lt(1,2)] distance_mod [OF lt(1,3)] by (rule distance_less [OF lt(1,2) _ assms])
qed

text \<open>
  The search for a reserved port, from offset \<open>start\<close> around to it again. The result is the
  new offset and the port that was bound. Offsets are below \<open>portCount\<close>, which is 512.
\<close>

function bind_port :: "(nat \<Rightarrow> bool) \<Rightarrow> (nat \<Rightarrow> bind_res) \<Rightarrow> nat \<Rightarrow> nat \<Rightarrow> nat \<times> nat option" where
  "bind_port service bnd start ofs =
     (let port = 512 + ofs;
          ofs' = (ofs + 1) mod 512;
          rc = (if service port then Bind_Fails else bnd port)
      in if rc = Bind_Ok then (ofs', Some port)
         else if rc = Bind_Eacces \<or> ofs' = start mod 512 then (ofs', None)
         else bind_port service bnd start ofs')"
  by pat_completeness auto
termination
  by (relation "measure (\<lambda>(_, _, start, ofs). (start mod 512 + 511 - ofs mod 512) mod 512)")
     (auto simp: distance_decreases)

declare bind_port.simps [simp del]

definition log_event :: "'r rpc \<Rightarrow> 'r event \<Rightarrow> 'r rpc" where
  "log_event rpc e = rpc\<lparr>evlog := evlog rpc @ [e]\<rparr>"

definition rpc_connect_sockaddr_async :: "net_env \<Rightarrow> nat \<Rightarrow> 'r rpc \<Rightarrow> 'r rpc \<times> nat \<times> int" where
  "rpc_connect_sockaddr_async env portOfs rpc =
     (if sa_family (peer rpc) \<noteq> AF_INET \<and> sa_family (peer rpc) \<noteq> AF_INET6 then (rpc, portOfs, -1)
      else
        let rpc1 = rpc\<lparr>fd := n_socket env\<rparr>
        in if ifname rpc1 \<noteq> [] \<and> \<not> n_device env then (rpc1, portOfs, -1)
           else if fd rpc1 = -1 then (rpc1, portOfs, -1)
           else if old_fd rpc1 \<noteq> 0 \<and> \<not> n_dup2 env then (rpc1, portOfs, -1)
           else
             let rpc2 = (if old_fd rpc1 \<noteq> 0 then (log_event rpc1 (Closed (fd rpc1)))\<lparr>fd := old_fd rpc1\<rparr> else rpc1);
                 start = (if portOfs = 0 then unat (n_time env mod 400) else portOfs);
                 ofs = fst (bind_port (n_service env) (n_bind env) start start);
                 rpc3 = rpc2\<lparr>is_nonblocking := n_nonblocking env\<rparr>
             in if \<not> n_keepalive env then (rpc3, ofs, -1)
                else if \<not> n_connect env then (rpc3, ofs, -1)
                else (rpc3, ofs, 0))"

text \<open>\<open>ai\<close>: the family and the address \<open>getaddrinfo\<close> finds.\<close>

definition rpc_set_sockaddr :: "(int \<times> byte list) option \<Rightarrow> 'r rpc \<Rightarrow> int \<Rightarrow> 'r rpc \<times> int" where
  "rpc_set_sockaddr ai rpc port =
     (case ai of
        None \<Rightarrow> (rpc, -1)
      | Some (family, addr) \<Rightarrow>
          if family = AF_INET \<or> family = AF_INET6
          then (rpc\<lparr>peer := \<lparr>sa_family = family, sa_port = port mod 65536, sa_addr = addr\<rparr>\<rparr>, 0)
          else (rpc, 0))"

definition rpc_connect_async ::
    "net_env \<Rightarrow> nat \<Rightarrow> (int \<times> byte list) option \<Rightarrow> 'r rpc \<Rightarrow> int \<Rightarrow> connect_cb \<Rightarrow> 'r rpc \<times> nat \<times> int" where
  "rpc_connect_async env portOfs ai rpc port cb =
     (if is_server_context rpc then (rpc, portOfs, -1)
      else if fd rpc \<noteq> -1 then (rpc, portOfs, -1)
      else if is_udp rpc then (rpc, portOfs, -1)
      else
        let (rpc1, ret) = rpc_set_sockaddr ai (rpc\<lparr>auto_reconnect := 0\<rparr>) port
        in if ret \<noteq> 0 then (rpc1, portOfs, -1)
           else rpc_connect_sockaddr_async env portOfs (rpc1\<lparr>connect_cb := cb\<rparr>))"

section \<open>Reconnecting\<close>

fun requeue_pdus :: "'r rpc \<Rightarrow> 'r pdu list \<Rightarrow> 'r rpc option" where
  "requeue_pdus rpc [] = Some rpc"
| "requeue_pdus rpc (p # ps) = Option.bind (rpc_return_to_outqueue rpc p) (\<lambda>r. requeue_pdus r ps)"

text \<open>The loop over the buckets, which are reset one by one.\<close>

fun requeue_buckets :: "'r rpc \<Rightarrow> nat \<Rightarrow> nat \<Rightarrow> 'r rpc option" where
  "requeue_buckets rpc i 0 = Some rpc"
| "requeue_buckets rpc i (Suc n) =
     Option.bind (requeue_pdus rpc (waitpdu rpc ! i))
       (\<lambda>r. requeue_buckets (r\<lparr>waitpdu := (waitpdu r)[i := []]\<rparr>) (i + 1) n)"

definition restart_head :: "'r pdu list \<Rightarrow> 'r pdu list" where
  "restart_head q = (case q of [] \<Rightarrow> [] | p # ps \<Rightarrow> p\<lparr>out := (out p)\<lparr>num_done := 0\<rparr>\<rparr> # ps)"

definition inc_reconnects :: "'r rpc \<Rightarrow> 'r rpc" where
  "inc_reconnects rpc = rpc\<lparr>stats := (stats rpc)\<lparr>num_reconnects := num_reconnects (stats rpc) + 1\<rparr>\<rparr>"

text \<open>The old connection is given up, then everything in flight goes back to the output queue.\<close>

definition begin_reconnect :: "'r rpc \<Rightarrow> 'r rpc" where
  "begin_reconnect rpc =
     (let r1 = (if is_connected rpc then rpc\<lparr>num_retries := auto_reconnect rpc\<rparr> else rpc);
          r2 = (if fd r1 \<noteq> -1 then r1\<lparr>old_fd := fd r1\<rparr> else r1)
      in rpc_free_all_fragments (r2\<lparr>fd := -1, is_connected := False,
           outqueue := restart_head (outqueue r2), inpos := 0, istate := READ_RM\<rparr>))"

definition requeue_all :: "'r rpc \<Rightarrow> 'r rpc option" where
  "requeue_all rpc =
     do {
       let r1 = begin_reconnect rpc;
       r2 \<leftarrow> requeue_buckets r1 0 (length (waitpdu r1));
       let r3 = r2\<lparr>waitpdu_len := 0\<rparr>;
       case cur_pdu r3 of
         None \<Rightarrow> Some r3
       | Some p \<Rightarrow> map_option (\<lambda>r. r\<lparr>cur_pdu := None\<rparr>) (rpc_return_to_outqueue r3 p)
     }"

definition rpc_reconnect_requeue :: "net_env \<Rightarrow> nat \<Rightarrow> 'r rpc \<Rightarrow> ('r rpc \<times> nat \<times> int) option" where
  "rpc_reconnect_requeue env portOfs rpc =
     (if auto_reconnect rpc = 0 then Some (rpc_error_all_pdus rpc, portOfs, -1)
      else do {
        r \<leftarrow> requeue_all rpc;
        if auto_reconnect r < 0 \<or> num_retries r > 0
        then
          if \<not> int_range (num_retries r - 1) then None
          else
            let (r1, ofs, ret) = rpc_connect_sockaddr_async env portOfs
                  (r\<lparr>num_retries := num_retries r - 1, connect_cb := Reconnect_Cb\<rparr>)
            in if ret \<noteq> 0 then Some (rpc_error_all_pdus r1, ofs, -1)
               else Some (inc_reconnects r1, ofs, 0)
        else Some (rpc_error_all_pdus r, portOfs, -1)
      })"

definition reconnect_cb :: "net_env \<Rightarrow> nat \<Rightarrow> 'r rpc \<Rightarrow> rpc_status \<Rightarrow> ('r rpc \<times> nat) option" where
  "reconnect_cb env portOfs rpc st =
     (if st \<noteq> RPC_STATUS_SUCCESS
      then map_option (\<lambda>(r, ofs, _). (r, ofs)) (rpc_reconnect_requeue env portOfs rpc)
      else Some (rpc\<lparr>is_connected := True, connect_cb := No_Cb, old_fd := 0\<rparr>, portOfs))"

definition maybe_call_connect_cb :: "net_env \<Rightarrow> nat \<Rightarrow> 'r rpc \<Rightarrow> rpc_status \<Rightarrow> ('r rpc \<times> nat) option" where
  "maybe_call_connect_cb env portOfs rpc st =
     (case connect_cb rpc of
        No_Cb \<Rightarrow> Some (rpc, portOfs)
      | User_Cb \<Rightarrow> Some (log_event (rpc\<lparr>connect_cb := No_Cb\<rparr>) (Connect_Cb st), portOfs)
      | Reconnect_Cb \<Rightarrow> reconnect_cb env portOfs (rpc\<lparr>connect_cb := No_Cb\<rparr>) st)"

definition rpc_disconnect :: "net_env \<Rightarrow> nat \<Rightarrow> 'r rpc \<Rightarrow> ('r rpc \<times> nat) option" where
  "rpc_disconnect env portOfs rpc =
     (let r1 = (if fd rpc \<noteq> -1 then (log_event rpc (Closed (fd rpc)))\<lparr>fd := -1\<rparr> else rpc)
      in if \<not> is_connected r1 then Some (r1, portOfs)
         else
           let r2 = (rpc_set_resiliency r1 0 (timeout r1) 0)\<lparr>is_connected := False\<rparr>;
               r3 = (if is_server_context r2 then r2 else rpc_error_all_pdus r2)
           in maybe_call_connect_cb env portOfs r3 RPC_STATUS_CANCEL)"


section \<open>Datagram sockets\<close>

text \<open>
  The port is printed in decimal into a buffer of six bytes; a longer number leaves it, which is
  \<open>None\<close>. \<open>sk\<close> is the new descriptor, \<open>ok\<close> whether \<open>bind\<close> or
  \<open>connect\<close> succeeds.
\<close>

definition service_fits :: "int \<Rightarrow> bool" where
  "service_fits port \<longleftrightarrow> -9999 \<le> port \<and> port \<le> 99999"

definition rpc_bind_udp :: "int \<Rightarrow> bool \<Rightarrow> (int \<times> byte list) option \<Rightarrow> 'r rpc \<Rightarrow> int \<Rightarrow> ('r rpc \<times> int) option" where
  "rpc_bind_udp sk ok ai rpc port =
     (if \<not> is_udp rpc then Some (rpc, -1)
      else if \<not> service_fits port then None
      else case ai of
        None \<Rightarrow> Some (rpc, -1)
      | Some (family, _) \<Rightarrow>
          if family = AF_INET
          then Some (rpc\<lparr>fd := sk\<rparr>, if sk = -1 \<or> \<not> ok then -1 else 0)
          else Some (rpc, -1))"

definition rpc_set_udp_destination ::
    "bool \<Rightarrow> (int \<times> byte list) option \<Rightarrow> 'r rpc \<Rightarrow> int \<Rightarrow> bool \<Rightarrow> ('r rpc \<times> int) option" where
  "rpc_set_udp_destination ok ai rpc port bc =
     (if \<not> is_udp rpc then Some (rpc, -1)
      else if \<not> service_fits port then None
      else case ai of
        None \<Rightarrow> Some (rpc, -1)
      | Some (family, addr) \<Rightarrow>
          Some (rpc\<lparr>is_broadcast := bc, udp_dest := \<lparr>sa_family = family, sa_port = port mod 65536, sa_addr = addr\<rparr>\<rparr>,
                if \<not> bc \<and> \<not> ok then -1 else 0))"

section \<open>Timeouts\<close>

definition inc_timedout_in_outqueue :: "'r rpc \<Rightarrow> 'r rpc" where
  "inc_timedout_in_outqueue rpc =
     rpc\<lparr>stats := (stats rpc)\<lparr>num_timedout_in_outqueue := num_timedout_in_outqueue (stats rpc) + 1\<rparr>\<rparr>"

definition inc_timedout :: "'r rpc \<Rightarrow> 'r rpc" where
  "inc_timedout rpc = rpc\<lparr>stats := (stats rpc)\<lparr>num_timedout := num_timedout (stats rpc) + 1\<rparr>\<rparr>"

definition inc_major_timedout :: "'r rpc \<Rightarrow> 'r rpc" where
  "inc_major_timedout rpc = rpc\<lparr>stats := (stats rpc)\<lparr>num_major_timedout := num_major_timedout (stats rpc) + 1\<rparr>\<rparr>"

definition time_out :: "'r rpc \<Rightarrow> 'r pdu \<Rightarrow> 'r rpc" where
  "time_out rpc p = rpc_free_pdu (if has_cb p then call_cb rpc p RPC_STATUS_TIMEOUT None else rpc) p"

definition may_retry :: "'r rpc \<Rightarrow> 'r pdu \<Rightarrow> bool" where
  "may_retry rpc p \<longleftrightarrow> \<not> do_not_retry p \<and> retrans rpc > 0"

text \<open>The scan of the output queue; the result has the requests that stay in it.\<close>

fun scan_outqueue :: "u64 \<Rightarrow> 'r rpc \<Rightarrow> 'r pdu list \<Rightarrow> ('r rpc \<times> 'r pdu list) option" where
  "scan_outqueue t rpc [] = Some (rpc, [])"
| "scan_outqueue t rpc (p # ps) =
     (if ptimeout p = 0 \<or> t < ptimeout p
      then map_option (\<lambda>(r, qs). (r, p # qs)) (scan_outqueue t rpc ps)
      else
        let rpc1 = inc_timedout_in_outqueue rpc
        in if may_retry rpc1 p
           then do {
             p' \<leftarrow> pdu_set_timeout t rpc1 (p\<lparr>ptimeout := 0, major_timeout := 0\<rparr>) t;
             (r, qs) \<leftarrow> scan_outqueue t rpc1 ps;
             Some (r, p' # qs)
           }
           else scan_outqueue t (time_out rpc1 p) ps)"

text \<open>
  The scan of one bucket. \<open>last_msecs\<close> is the time since the last successful reply,
  \<open>need\<close> whether the connection has to be replaced.
\<close>

fun scan_bucket ::
    "u64 \<Rightarrow> int \<Rightarrow> 'r rpc \<Rightarrow> bool \<Rightarrow> 'r pdu list \<Rightarrow> ('r rpc \<times> bool \<times> 'r pdu list) option" where
  "scan_bucket t last_msecs rpc need [] = Some (rpc, need, [])"
| "scan_bucket t last_msecs rpc need (p # ps) =
     (if ptimeout p = 0 \<or> (t < ptimeout p \<and> t < major_timeout p)
      then map_option (\<lambda>(r, n, qs). (r, n, p # qs)) (scan_bucket t last_msecs rpc need ps)
      else
        let rpc0 = (if t \<ge> ptimeout p then inc_timedout rpc else rpc);
            rpc1 = rpc0\<lparr>waitpdu_len := waitpdu_len rpc0 - 1\<rparr>
        in if may_retry rpc1 p
           then do {
             let major = (t \<ge> major_timeout p);
             let rpc2 = (if major then inc_major_timedout rpc1 else rpc1);
             let p1 = (if major then p\<lparr>ptimeout := 0, major_timeout := 0, snr_logged := True\<rparr> else p\<lparr>ptimeout := 0\<rparr>);
             p2 \<leftarrow> pdu_set_timeout t rpc2 p1 t;
             rpc3 \<leftarrow> rpc_return_to_outqueue rpc2 p2;
             scan_bucket t last_msecs rpc3 (need \<or> (major \<and> last_msecs > timeout rpc)) ps
           }
           else scan_bucket t last_msecs (time_out rpc1 p) need ps)"

fun scan_buckets :: "u64 \<Rightarrow> int \<Rightarrow> 'r rpc \<Rightarrow> bool \<Rightarrow> nat \<Rightarrow> nat \<Rightarrow> ('r rpc \<times> bool) option" where
  "scan_buckets t last_msecs rpc need i 0 = Some (rpc, need)"
| "scan_buckets t last_msecs rpc need i (Suc n) =
     Option.bind (scan_bucket t last_msecs rpc need (waitpdu rpc ! i))
       (\<lambda>(r, need', qs). scan_buckets t last_msecs (r\<lparr>waitpdu := (waitpdu r)[i := qs]\<rparr>) need' (i + 1) n)"

text \<open>\<open>t\<close> is the current time.\<close>

definition rpc_timeout_scan :: "u64 \<Rightarrow> 'r rpc \<Rightarrow> ('r rpc \<times> int) option" where
  "rpc_timeout_scan t rpc =
     (let last_msecs = (if last_successful_rpc_response rpc = 0 then -1
                        else s32 (uint (t - last_successful_rpc_response rpc)))
      in if t \<le> last_timeout_scan rpc + 1000 then Some (rpc, 0)
         else do {
           let r1 = rpc\<lparr>last_timeout_scan := t\<rparr>;
           (r2, qs) \<leftarrow> scan_outqueue t r1 (outqueue r1);
           (r3, need) \<leftarrow> scan_buckets t last_msecs (r2\<lparr>outqueue := qs\<rparr>) False 0 (length (waitpdu r2));
           Some (r3, if need then -1 else 0)
         })"

section \<open>Service\<close>

text \<open>
  What the world contributes to one call of \<open>rpc_service\<close>: the outcome of connecting, the
  time, the arguments of reading and writing, and whether \<open>SO_ERROR\<close> reports an error.
\<close>

record 'r service_env =
  s_net :: net_env
  s_time :: u64
  s_heap :: nat
  s_call :: "'r rpc \<Rightarrow> zdr \<Rightarrow> ('r rpc \<times> int) option"
  s_read_status :: "'r \<Rightarrow> u32"
  s_old :: "byte list"
  s_writev :: "wres list"
  s_so_error :: bool

definition events :: "int \<Rightarrow> int \<Rightarrow> bool" where
  "events revents e \<longleftrightarrow> revents AND e \<noteq> 0"

text \<open>The writing part of \<open>rpc_service\<close>, then the reading part in front of it.\<close>

definition service_write ::
    "'r service_env \<Rightarrow> nat \<Rightarrow> 'r rpc \<Rightarrow> int \<Rightarrow> (byte list \<times> 'r rpc \<times> nat \<times> int) option" where
  "service_write env ofs rpc revents =
     (if events revents POLLOUT \<and> rpc_has_queue (outqueue rpc)
      then do {
        (bs, r, ret) \<leftarrow> rpc_write_to_socket (s_writev env) rpc;
        if ret = 0 then Some (bs, r, ofs, 0)
        else if is_server_context r then Some (bs, r, ofs, -1)
        else map_option (\<lambda>(r', ofs', ret'). (bs, r', ofs', ret')) (rpc_reconnect_requeue (s_net env) ofs r)
      }
      else Some ([], rpc, ofs, 0))"

definition service_read ::
    "'r service_env \<Rightarrow> nat \<Rightarrow> 'r rpc \<Rightarrow> memory \<Rightarrow> sock \<Rightarrow> int \<Rightarrow>
     ('r rpc \<times> nat \<times> memory \<times> sock \<times> byte list \<times> int) option" where
  "service_read env ofs rpc m s revents =
     do {
       (ret, r, m', s') \<leftarrow> (if events revents POLLIN
            then rpc_read_from_socket (s_heap env) (s_time env) (s_call env) (s_read_status env) (s_old env) rpc m s
            else Some (0, rpc, m, s));
       if ret \<noteq> 0
       then if is_server_context r then Some (r, ofs, m', s', [], -1)
            else map_option (\<lambda>(r', ofs', ret'). (r', ofs', m', s', [], ret'))
                   (rpc_reconnect_requeue (s_net env) ofs r)
       else map_option (\<lambda>(bs, r', ofs', ret'). (r', ofs', m', s', bs, ret')) (service_write env ofs r revents)
     }"

definition rpc_service ::
    "'r service_env \<Rightarrow> nat \<Rightarrow> 'r rpc \<Rightarrow> memory \<Rightarrow> sock \<Rightarrow> int \<Rightarrow>
     ('r rpc \<times> nat \<times> memory \<times> sock \<times> byte list \<times> int) option" where
  "rpc_service env ofs rpc0 m s revents =
     do {
       (rpc, scan) \<leftarrow> rpc_timeout_scan (s_time env) rpc0;
       if scan \<noteq> 0
       then map_option (\<lambda>(r, ofs', ret). (r, ofs', m, s, [], ret)) (rpc_reconnect_requeue (s_net env) ofs rpc)
       else if revents = -1 \<or> events revents (POLLERR OR POLLHUP)
       then if auto_reconnect rpc \<noteq> 0
            then map_option (\<lambda>(r, ofs', ret). (r, ofs', m, s, [], ret)) (rpc_reconnect_requeue (s_net env) ofs rpc)
            else map_option (\<lambda>(r, ofs'). (r, ofs', m, s, [], -1))
                   (maybe_call_connect_cb (s_net env) ofs rpc RPC_STATUS_ERROR)
       else if \<not> is_connected rpc \<and> fd rpc \<noteq> -1 \<and> events revents POLLOUT
       then if s_so_error env
            then map_option (\<lambda>(r, ofs'). (r, ofs', m, s, [], -1))
                   (maybe_call_connect_cb (s_net env) ofs rpc RPC_STATUS_ERROR)
            else map_option (\<lambda>(r, ofs'). (r, ofs', m, s, [], 0))
                   (maybe_call_connect_cb (s_net env) ofs (rpc\<lparr>is_connected := True\<rparr>) RPC_STATUS_SUCCESS)
       else service_read env ofs rpc m s revents
     }"


section \<open>Requeueing\<close>

definition can_rewind :: "'r pdu \<Rightarrow> bool" where
  "can_rewind p \<longleftrightarrow> has_base (pin p) \<longrightarrow> cursor_wf (pin p)"

text \<open>The request as it was before anything of it was sent or of its data was received.\<close>

definition rewound :: "'r pdu \<Rightarrow> 'r pdu" where
  "rewound p = p\<lparr>out := (out p)\<lparr>num_done := 0\<rparr>,
     pin := (if has_base (pin p) then readv_cursor (ref_vecs (pin p)) else pin p)\<rparr>"

lemma rewind_rewound:
  assumes "can_rewind p"
  shows "rewind_pdu p = Some (rewound p)"
proof (cases "has_base (pin p)")
  case True
  then show ?thesis using assms by (simp add: rewind_pdu_def rewound_def can_rewind_def reset_readv)
next
  case False
  then show ?thesis by (simp add: rewind_pdu_def rewound_def rpc_reset_cursor_def)
qed

lemma rewound_sel [simp]:
  "request (rewound p) = request p" "num_done (out (rewound p)) = 0" "pid (rewound p) = pid p"
  by (simp_all add: rewound_def request_def readv_cursor_def ref_vecs_def)

lemma mset_after_head [simp]: "mset (after_head p xs) = add_mset p (mset xs)"
  by (cases xs) simp_all

lemma requeue_pdus_alt:
  "\<forall>p \<in> set ps. can_rewind p \<Longrightarrow>
   \<exists>q st. requeue_pdus rpc ps = Some (rpc\<lparr>outqueue := q, stats := st\<rparr>) \<and>
     mset q = mset (outqueue rpc) + mset (map rewound ps)"
proof (induction ps arbitrary: rpc)
  case Nil
  show ?case by (rule exI [of _ "outqueue rpc"], rule exI [of _ "stats rpc"]) simp
next
  case (Cons p ps)
  let ?r = "(inc_retransmitted rpc)\<lparr>outqueue := after_head (rewound p) (outqueue rpc)\<rparr>"
  have r: "rpc_return_to_outqueue rpc p = Some ?r"
    using Cons.prems by (simp add: rpc_return_to_outqueue_def rewind_rewound)
  have "\<forall>p \<in> set ps. can_rewind p" using Cons.prems by simp
  from Cons.IH [OF this, of ?r] obtain q st where
    "requeue_pdus ?r ps = Some (?r\<lparr>outqueue := q, stats := st\<rparr>)" "mset q = mset (outqueue ?r) + mset (map rewound ps)"
    by blast
  then show ?case using r by (intro exI [of _ q] exI [of _ st]) (simp add: inc_retransmitted_def)
qed

lemma requeue_buckets_alt:
  assumes "i + n = length (waitpdu rpc)" "\<forall>p \<in> set (concat (drop i (waitpdu rpc))). can_rewind p"
  shows "\<exists>q st. requeue_buckets rpc i n =
      Some (rpc\<lparr>outqueue := q, stats := st, waitpdu := take i (waitpdu rpc) @ replicate n []\<rparr>) \<and>
    mset q = mset (outqueue rpc) + mset (map rewound (concat (drop i (waitpdu rpc))))"
  using assms
proof (induction n arbitrary: rpc i)
  case 0
  then show ?case by (intro exI [of _ "outqueue rpc"] exI [of _ "stats rpc"]) simp
next
  case (Suc n)
  have i: "i < length (waitpdu rpc)" using Suc.prems by simp
  note d = Cons_nth_drop_Suc [OF i, symmetric]
  obtain q st where q: "requeue_pdus rpc (waitpdu rpc ! i) = Some (rpc\<lparr>outqueue := q, stats := st\<rparr>)"
    "mset q = mset (outqueue rpc) + mset (map rewound (waitpdu rpc ! i))"
    using requeue_pdus_alt [of "waitpdu rpc ! i" rpc] Suc.prems(2) unfolding d by auto
  let ?r = "rpc\<lparr>outqueue := q, stats := st, waitpdu := (waitpdu rpc)[i := []]\<rparr>"
  have dr: "drop (i + 1) (waitpdu ?r) = drop (i + 1) (waitpdu rpc)" by simp
  obtain q' st' where q': "requeue_buckets ?r (i + 1) n =
      Some (?r\<lparr>outqueue := q', stats := st', waitpdu := take (i + 1) (waitpdu ?r) @ replicate n []\<rparr>)"
    "mset q' = mset (outqueue ?r) + mset (map rewound (concat (drop (i + 1) (waitpdu ?r))))"
    using Suc.IH [of "i + 1" ?r] Suc.prems unfolding d dr by auto
  have t: "take (i + 1) (waitpdu ?r) @ replicate n [] = take i (waitpdu rpc) @ replicate (Suc n) []"
    using i by (simp add: take_Suc_conv_app_nth replicate_append_same flip: append_Cons)
  have "requeue_buckets rpc i (Suc n) =
      Some (rpc\<lparr>outqueue := q', stats := st', waitpdu := take i (waitpdu rpc) @ replicate (Suc n) []\<rparr>)"
    using q(1) q'(1) t by simp
  moreover have "mset q' = mset (outqueue rpc) + mset (map rewound (concat (drop i (waitpdu rpc))))"
    using q'(2) q(2) unfolding d dr by simp
  ultimately show ?case by blast
qed


text \<open>All requests of a context: queued for sending, waiting, and the one being read.\<close>

definition all_pdus :: "'r rpc \<Rightarrow> 'r pdu list" where
  "all_pdus rpc = outqueue rpc @ waiting rpc @ (case cur_pdu rpc of None \<Rightarrow> [] | Some p \<Rightarrow> [p])"

lemma request_restart: "map request (restart_head q) = map request q"
  by (cases q) (simp_all add: restart_head_def)

definition requeued :: "'r rpc \<Rightarrow> 'r pdu list \<Rightarrow> rpc_stats \<Rightarrow> 'r rpc" where
  "requeued rpc q st =
     rpc\<lparr>num_retries := (if is_connected rpc then auto_reconnect rpc else num_retries rpc),
         old_fd := (if fd rpc \<noteq> -1 then fd rpc else old_fd rpc), fd := -1, is_connected := False,
         outqueue := q, inpos := 0, istate := READ_RM, fragments := [], stats := st,
         waitpdu := replicate (length (waitpdu rpc)) [], waitpdu_len := 0, cur_pdu := None\<rparr>"

lemma begin_reconnect_alt:
  "begin_reconnect rpc = rpc\<lparr>num_retries := (if is_connected rpc then auto_reconnect rpc else num_retries rpc),
     old_fd := (if fd rpc \<noteq> -1 then fd rpc else old_fd rpc), fd := -1, is_connected := False,
     outqueue := restart_head (outqueue rpc), inpos := 0, istate := READ_RM, fragments := []\<rparr>"
  by (simp add: begin_reconnect_def rpc_free_all_fragments_def Let_def)

lemma requeue_all_alt:
  assumes "\<forall>p \<in> set (waiting rpc) \<union> set_option (cur_pdu rpc). can_rewind p"
    and "\<forall>p \<in> set (List.tl (outqueue rpc)). num_done (out p) = 0"
  shows "\<exists>q st. requeue_all rpc = Some (requeued rpc q st) \<and>
    mset (map request q) = mset (map request (all_pdus rpc)) \<and> (\<forall>p \<in> set q. num_done (out p) = 0)"
proof -
  define r where "r = begin_reconnect rpc"
  note r_alt = r_def [unfolded begin_reconnect_alt]
  have rw: "waitpdu r = waitpdu rpc" "cur_pdu r = cur_pdu rpc" "outqueue r = restart_head (outqueue rpc)"
    by (simp_all add: r_alt)
  obtain q1 st1 where b: "requeue_buckets r 0 (length (waitpdu r)) =
      Some (r\<lparr>outqueue := q1, stats := st1, waitpdu := replicate (length (waitpdu rpc)) []\<rparr>)"
    "mset q1 = mset (outqueue r) + mset (map rewound (waiting rpc))"
    using requeue_buckets_alt [of 0 "length (waitpdu r)" r] assms(1) rw(1) by (auto simp: waiting_def)
  obtain q st where q: "requeue_all rpc = Some (requeued rpc q st)"
    "mset q = mset q1 + mset (map rewound (case cur_pdu rpc of None \<Rightarrow> [] | Some p \<Rightarrow> [p]))"
  proof (cases "cur_pdu rpc")
    case None
    then have "requeue_all rpc = Some (requeued rpc q1 st1)"
      using b(1) by (simp add: requeue_all_def flip: r_def) (simp add: requeued_def r_alt)
    then show ?thesis using that None by simp
  next
    case (Some p)
    then have "can_rewind p" using assms(1) by simp
    then have "requeue_all rpc = Some (requeued rpc (after_head (rewound p) q1)
        (st1\<lparr>num_retransmitted := num_retransmitted st1 + 1\<rparr>))"
      using b(1) Some
      by (simp add: requeue_all_def rw(2) rpc_return_to_outqueue_def rewind_rewound flip: r_def)
         (simp add: requeued_def r_alt inc_retransmitted_def)
    then show ?thesis using that Some by simp
  qed
  have "mset (map request q) = mset (map request (all_pdus rpc))"
    using arg_cong [OF q(2), of "image_mset request"] arg_cong [OF b(2), of "image_mset request"] rw(3)
      request_restart [of "outqueue rpc"]
    by (simp add: all_pdus_def comp_def multiset.map_comp del: mset_map flip: mset_map split: option.splits)
  moreover have "\<forall>p \<in> set q. num_done (out p) = 0"
  proof
    fix p
    assume "p \<in> set q"
    then have "p \<in># mset q" by simp
    then have "p \<in> set (restart_head (outqueue rpc)) \<or> (\<exists>p'. p = rewound p')"
      unfolding q(2) b(2) rw(3) by (auto split: option.splits)
    then show "num_done (out p) = 0"
      using assms(2) by (cases "outqueue rpc") (auto simp: restart_head_def)
  qed
  ultimately show ?thesis using q(1) by blast
qed


text \<open>The operating system lets the attempt to connect succeed.\<close>

definition net_ok :: "net_env \<Rightarrow> 'r rpc \<Rightarrow> bool" where
  "net_ok env rpc \<longleftrightarrow> sa_family (peer rpc) \<in> {AF_INET, AF_INET6} \<and> n_socket env \<noteq> -1 \<and> n_device env \<and>
     n_dup2 env \<and> n_keepalive env \<and> n_connect env"

lemma connect_ok:
  assumes "net_ok env rpc"
  shows "\<exists>n nb ofs' evs. rpc_connect_sockaddr_async env ofs rpc =
      (rpc\<lparr>fd := n, is_nonblocking := nb, evlog := evlog rpc @ evs\<rparr>, ofs', 0) \<and> (\<forall>e \<in> set evs. \<exists>n. e = Closed n)"
proof -
  have ok: "sa_family (peer rpc) = AF_INET \<or> sa_family (peer rpc) = AF_INET6" "n_socket env \<noteq> -1" "n_device env"
    "n_dup2 env" "n_keepalive env" "n_connect env"
    using assms by (auto simp: net_ok_def)
  let ?start = "if ofs = 0 then unat (n_time env mod 400) else ofs"
  let ?ofs = "fst (bind_port (n_service env) (n_bind env) ?start ?start)"
  show ?thesis
  proof (cases "old_fd rpc = 0")
    case True
    then have "rpc_connect_sockaddr_async env ofs rpc =
        (rpc\<lparr>fd := n_socket env, is_nonblocking := n_nonblocking env, evlog := evlog rpc @ []\<rparr>, ?ofs, 0)"
      using ok by (simp add: rpc_connect_sockaddr_async_def Let_def)
    then show ?thesis by (metis empty_iff list.set(1))
  next
    case False
    then have "rpc_connect_sockaddr_async env ofs rpc =
        (rpc\<lparr>fd := old_fd rpc, is_nonblocking := n_nonblocking env, evlog := evlog rpc @ [Closed (n_socket env)]\<rparr>, ?ofs, 0)"
      using ok by (simp add: rpc_connect_sockaddr_async_def Let_def log_event_def)
    then show ?thesis by (metis empty_iff insert_iff list.set)
  qed
qed

text \<open>Whatever the operating system answers, only the descriptor and its mode change.\<close>

lemma connect_frame:
  "\<exists>n nb ofs' evs ret. rpc_connect_sockaddr_async env ofs rpc =
     (rpc\<lparr>fd := n, is_nonblocking := nb, evlog := evlog rpc @ evs\<rparr>, ofs', ret) \<and>
     (\<forall>e \<in> set evs. \<exists>n. e = Closed n) \<and> (ret = 0 \<or> ret = -1)"
proof -
  obtain rpc' ofs' ret where c: "rpc_connect_sockaddr_async env ofs rpc = (rpc', ofs', ret)" by (metis prod_cases3)
  have "\<exists>n nb evs. rpc' = rpc\<lparr>fd := n, is_nonblocking := nb, evlog := evlog rpc @ evs\<rparr> \<and> (\<forall>e \<in> set evs. \<exists>n. e = Closed n)"
  proof (cases "evlog rpc' = evlog rpc")
    case True
    then have "rpc' = rpc\<lparr>fd := fd rpc', is_nonblocking := is_nonblocking rpc', evlog := evlog rpc @ []\<rparr>"
      using c by (auto simp: rpc_connect_sockaddr_async_def Let_def log_event_def split: if_splits)
    then show ?thesis by (metis empty_iff list.set(1))
  next
    case False
    then have "rpc' = rpc\<lparr>fd := fd rpc', is_nonblocking := is_nonblocking rpc', evlog := evlog rpc @ [Closed (n_socket env)]\<rparr>"
      using c by (auto simp: rpc_connect_sockaddr_async_def Let_def log_event_def split: if_splits)
    then show ?thesis by (metis empty_iff insert_iff list.set)
  qed
  moreover have "ret = 0 \<or> ret = -1"
    using c by (auto simp: rpc_connect_sockaddr_async_def Let_def split: if_splits)
  ultimately show ?thesis unfolding c by blast
qed

section \<open>The scan for timeouts\<close>

definition expired :: "u64 \<Rightarrow> 'r pdu \<Rightarrow> bool" where
  "expired t p \<longleftrightarrow> ptimeout p \<noteq> 0 \<and> (ptimeout p \<le> t \<or> major_timeout p \<le> t)"

lemma time_out_alt: "time_out rpc p = rpc\<lparr>evlog := evlog rpc @ purge_events RPC_STATUS_TIMEOUT p\<rparr>"
  by (simp add: time_out_def purge_events_def rpc_free_pdu_def call_cb_def)

lemma inc_timedout_sel [simp]:
  "outqueue (inc_timedout_in_outqueue rpc) = outqueue rpc" "evlog (inc_timedout_in_outqueue rpc) = evlog rpc"
  "waitpdu (inc_timedout_in_outqueue rpc) = waitpdu rpc" "waitpdu_len (inc_timedout_in_outqueue rpc) = waitpdu_len rpc"
  "timeout (inc_timedout_in_outqueue rpc) = timeout rpc" "retrans (inc_timedout_in_outqueue rpc) = retrans rpc"
  "outqueue (inc_timedout rpc) = outqueue rpc" "evlog (inc_timedout rpc) = evlog rpc"
  "waitpdu (inc_timedout rpc) = waitpdu rpc" "waitpdu_len (inc_timedout rpc) = waitpdu_len rpc"
  "timeout (inc_timedout rpc) = timeout rpc" "retrans (inc_timedout rpc) = retrans rpc"
  "outqueue (inc_major_timedout rpc) = outqueue rpc" "evlog (inc_major_timedout rpc) = evlog rpc"
  "waitpdu (inc_major_timedout rpc) = waitpdu rpc" "waitpdu_len (inc_major_timedout rpc) = waitpdu_len rpc"
  "timeout (inc_major_timedout rpc) = timeout rpc" "retrans (inc_major_timedout rpc) = retrans rpc"
  by (simp_all add: inc_timedout_in_outqueue_def inc_timedout_def inc_major_timedout_def)

text \<open>What both scans keep; \<open>tos\<close> are the requests that time out for good.\<close>

definition scanned :: "'r rpc \<Rightarrow> 'r pdu list \<Rightarrow> 'r rpc \<Rightarrow> bool" where
  "scanned rpc tos r \<longleftrightarrow> evlog r = evlog rpc @ concat (map (purge_events RPC_STATUS_TIMEOUT) tos) \<and>
     waitpdu r = waitpdu rpc \<and> timeout r = timeout rpc \<and> retrans r = retrans rpc \<and>
     conf r = conf rpc \<and> inp r = inp rpc"

lemma inc_conf_inp [simp]:
  "conf (inc_timedout_in_outqueue rpc) = conf rpc" "inp (inc_timedout_in_outqueue rpc) = inp rpc"
  "conf (inc_timedout rpc) = conf rpc" "inp (inc_timedout rpc) = inp rpc"
  "conf (inc_major_timedout rpc) = conf rpc" "inp (inc_major_timedout rpc) = inp rpc"
  "conf (inc_retransmitted rpc) = conf rpc" "inp (inc_retransmitted rpc) = inp rpc"
  by (simp_all add: inc_timedout_in_outqueue_def inc_timedout_def inc_major_timedout_def inc_retransmitted_def)

lemma scanned_trans: "scanned r tos r' \<Longrightarrow> scanned r' tos' r'' \<Longrightarrow> scanned r (tos @ tos') r''"
  by (simp add: scanned_def)

lemma set_timeout_request:
  "pdu_set_timeout now rpc p t = Some p' \<Longrightarrow> request p' = request p \<and> pin p' = pin p \<and> pxid p' = pxid p"
  by (auto simp: pdu_set_timeout_def Let_def split: if_splits)

lemma set_timeout_total:
  "int_range (timeout rpc * retrans rpc) \<Longrightarrow> \<exists>p'. pdu_set_timeout now rpc p t = Some p'"
  by (simp add: pdu_set_timeout_def Let_def)

lemma scan_outqueue_alt:
  assumes "int_range (timeout rpc * retrans rpc)"
  shows "\<exists>r qs tos. scan_outqueue t rpc ps = Some (r, qs) \<and> scanned rpc tos r \<and> outqueue r = outqueue rpc \<and>
    waitpdu_len r = waitpdu_len rpc \<and> cur_pdu r = cur_pdu rpc \<and> last_timeout_scan r = last_timeout_scan rpc \<and>
    mset (map request ps) = mset (map request qs) + mset (map request tos) \<and>
    (\<forall>p \<in> set tos. expired t p \<and> \<not> may_retry rpc p)"
  using assms
proof (induction ps arbitrary: rpc)
  case Nil
  show ?case by (rule exI [of _ rpc], rule exI [of _ "[]"], rule exI [of _ "[]"]) (simp add: scanned_def)
next
  case (Cons p ps)
  let ?r = "inc_timedout_in_outqueue rpc"
  consider (keep) "ptimeout p = 0 \<or> t < ptimeout p"
    | (retry) "\<not> (ptimeout p = 0 \<or> t < ptimeout p)" "may_retry ?r p"
    | (out) "\<not> (ptimeout p = 0 \<or> t < ptimeout p)" "\<not> may_retry ?r p" by blast
  then show ?case
  proof cases
    case keep
    then show ?thesis using Cons.IH [OF Cons.prems] by fastforce
  next
    case retry
    have i: "int_range (timeout ?r * retrans ?r)" using Cons.prems by simp
    obtain p' where p': "pdu_set_timeout t ?r (p\<lparr>ptimeout := 0, major_timeout := 0\<rparr>) t = Some p'"
      using set_timeout_total [OF i] by blast
    have "request p' = request p" using set_timeout_request [OF p'] by simp
    moreover obtain r qs tos where s: "scan_outqueue t ?r ps = Some (r, qs)" "scanned ?r tos r"
      "outqueue r = outqueue rpc" "waitpdu_len r = waitpdu_len rpc" "cur_pdu r = cur_pdu ?r"
      "last_timeout_scan r = last_timeout_scan ?r"
      "mset (map request ps) = mset (map request qs) + mset (map request tos)"
      "\<forall>p \<in> set tos. expired t p \<and> \<not> may_retry ?r p"
      using Cons.IH [OF i] by auto
    moreover have "scan_outqueue t rpc (p # ps) = Some (r, p' # qs)" using retry s(1) p' by (simp add: Let_def)
    ultimately show ?thesis
      by (intro exI [of _ r] exI [of _ "p' # qs"] exI [of _ tos])
         (auto simp: scanned_def may_retry_def inc_timedout_in_outqueue_def)
  next
    case out
    let ?r' = "time_out ?r p"
    have i: "int_range (timeout ?r' * retrans ?r')" using Cons.prems by (simp add: time_out_alt)
    obtain r qs tos where s: "scan_outqueue t ?r' ps = Some (r, qs)" "scanned ?r' tos r"
      "outqueue r = outqueue rpc" "waitpdu_len r = waitpdu_len rpc" "cur_pdu r = cur_pdu ?r'"
      "last_timeout_scan r = last_timeout_scan ?r'"
      "mset (map request ps) = mset (map request qs) + mset (map request tos)"
      "\<forall>p \<in> set tos. expired t p \<and> \<not> may_retry ?r' p"
      using Cons.IH [OF i] by (auto simp: time_out_alt)
    moreover have "scan_outqueue t rpc (p # ps) = Some (r, qs)" using out s(1) by (simp add: Let_def)
    moreover have "scanned rpc (p # tos) r" using s(2) by (simp add: scanned_def time_out_alt)
    moreover have "expired t p" using out(1) by (auto simp: expired_def not_less)
    ultimately show ?thesis using out(2)
      by (intro exI [of _ r] exI [of _ qs] exI [of _ "p # tos"])
         (auto simp: may_retry_def time_out_alt inc_timedout_in_outqueue_def)
  qed
qed


text \<open>A bucket: \<open>qs\<close> stay, \<open>rs\<close> go back to the output queue, \<open>tos\<close> time out.\<close>

definition divided :: "'r rpc \<Rightarrow> 'r pdu list \<Rightarrow> 'r rpc \<Rightarrow> 'r pdu list \<Rightarrow> 'r pdu list \<Rightarrow> 'r pdu list \<Rightarrow> bool" where
  "divided rpc ps r qs rs tos \<longleftrightarrow> scanned rpc tos r \<and> cur_pdu r = cur_pdu rpc \<and>
     last_timeout_scan r = last_timeout_scan rpc \<and>
     mset (map request (outqueue r)) = mset (map request (outqueue rpc)) + mset (map request rs) \<and>
     mset (map request ps) = mset (map request qs) + mset (map request rs) + mset (map request tos) \<and>
     set qs \<subseteq> set ps \<and> waitpdu_len r = waitpdu_len rpc - word_of_nat (length rs + length tos)"

lemma return_divided:
  assumes "can_rewind p" "scanned rpc [] r2" "outqueue r2 = outqueue rpc" "waitpdu_len r2 = waitpdu_len rpc - 1"
    and "cur_pdu r2 = cur_pdu rpc" "last_timeout_scan r2 = last_timeout_scan rpc" "request p = request p0"
  shows "\<exists>r3. rpc_return_to_outqueue r2 p = Some r3 \<and>
    (\<forall>r qs rs tos. divided r3 ps r qs rs tos \<longrightarrow> divided rpc (p0 # ps) r qs (p0 # rs) tos)"
proof -
  let ?r3 = "(inc_retransmitted r2)\<lparr>outqueue := after_head (rewound p) (outqueue r2)\<rparr>"
  have "rpc_return_to_outqueue r2 p = Some ?r3"
    using assms(1) by (simp add: rpc_return_to_outqueue_def rewind_rewound)
  moreover have "divided rpc (p0 # ps) r qs (p0 # rs) tos" if "divided ?r3 ps r qs rs tos" for r qs rs tos
    using that assms(2-7) by (auto simp: divided_def scanned_def inc_retransmitted_def)
  ultimately show ?thesis by blast
qed

text \<open>The steps for an expired request: it is sent again, or it fails.\<close>

lemma bucket_step:
  fixes t :: u64 and p :: "'r pdu" and rpc :: "'r rpc"
  defines "r1 \<equiv> (if ptimeout p \<le> t then inc_timedout rpc else rpc)\<lparr>waitpdu_len := waitpdu_len rpc - 1\<rparr>"
  shows "scanned rpc [] r1" "outqueue r1 = outqueue rpc" "cur_pdu r1 = cur_pdu rpc"
    "waitpdu_len r1 = waitpdu_len rpc - 1" "last_timeout_scan r1 = last_timeout_scan rpc"
    "timeout r1 = timeout rpc" "retrans r1 = retrans rpc" "may_retry r1 = may_retry rpc"
  by (auto simp: r1_def scanned_def inc_timedout_def may_retry_def fun_eq_iff)

lemma bucket_step_retry:
  assumes "\<not> (ptimeout p = 0 \<or> (t < ptimeout p \<and> t < major_timeout p))" "may_retry rpc p"
    and "int_range (timeout rpc * retrans rpc)" "can_rewind p"
  shows "\<exists>r3 need3. scan_bucket t l rpc need (p # ps) = scan_bucket t l r3 need3 ps \<and>
    timeout r3 = timeout rpc \<and> retrans r3 = retrans rpc \<and>
    (\<forall>r qs rs tos. divided r3 ps r qs rs tos \<longrightarrow> divided rpc (p # ps) r qs (p # rs) tos)"
proof -
  let ?r0 = "if t \<ge> ptimeout p then inc_timedout rpc else rpc"
  let ?r1 = "?r0\<lparr>waitpdu_len := waitpdu_len rpc - 1\<rparr>"
  have wl: "waitpdu_len ?r0 = waitpdu_len rpc" by simp
  note s1 = bucket_step [where t = t and rpc = rpc and p = p]
  define major where "major = (t \<ge> major_timeout p)"
  define r2 where "r2 = (if major then inc_major_timedout ?r1 else ?r1)"
  define p1 where "p1 = (if major then p\<lparr>ptimeout := 0, major_timeout := 0, snr_logged := True\<rparr> else p\<lparr>ptimeout := 0\<rparr>)"
  have s2: "scanned rpc [] r2" "outqueue r2 = outqueue rpc" "cur_pdu r2 = cur_pdu rpc" "waitpdu_len r2 = waitpdu_len rpc - 1"
    "last_timeout_scan r2 = last_timeout_scan rpc" "timeout r2 = timeout rpc" "retrans r2 = retrans rpc"
    using s1 by (auto simp: r2_def scanned_def inc_major_timedout_def)
  obtain p2 where p2: "pdu_set_timeout t r2 p1 t = Some p2"
    using set_timeout_total [of r2 t p1 t] s2(6,7) assms(3) by auto
  have rq: "request p2 = request p" "can_rewind p2"
    using set_timeout_request [OF p2] assms(4) by (auto simp: p1_def can_rewind_def)
  obtain r3 where r3: "rpc_return_to_outqueue r2 p2 = Some r3"
    "\<forall>r qs rs tos. divided r3 ps r qs rs tos \<longrightarrow> divided rpc (p # ps) r qs (p # rs) tos"
    using return_divided [OF rq(2) s2(1,2,4,3,5) rq(1), of ps] by blast
  have "scan_bucket t l rpc need (p # ps) = scan_bucket t l r3 (need \<or> (major \<and> l > timeout rpc)) ps"
    using assms(1,2) p2 r3(1) s1(8) unfolding scan_bucket.simps Let_def wl
    by (simp add: major_def [symmetric] flip: r2_def p1_def) auto
  moreover have "timeout r3 = timeout rpc" "retrans r3 = retrans rpc"
    using r3(1) s2(6,7) by (auto simp: rpc_return_to_outqueue_def inc_retransmitted_def)
  ultimately show ?thesis using r3(2) by blast
qed

lemma bucket_step_out:
  assumes "\<not> (ptimeout p = 0 \<or> (t < ptimeout p \<and> t < major_timeout p))" "\<not> may_retry rpc p"
  shows "\<exists>r3. scan_bucket t l rpc need (p # ps) = scan_bucket t l r3 need ps \<and>
    timeout r3 = timeout rpc \<and> retrans r3 = retrans rpc \<and>
    (\<forall>r qs rs tos. divided r3 ps r qs rs tos \<longrightarrow> divided rpc (p # ps) r qs rs (p # tos))"
proof -
  let ?r0 = "if t \<ge> ptimeout p then inc_timedout rpc else rpc"
  let ?r1 = "?r0\<lparr>waitpdu_len := waitpdu_len rpc - 1\<rparr>"
  have wl: "waitpdu_len ?r0 = waitpdu_len rpc" by simp
  note s1 = bucket_step [where t = t and rpc = rpc and p = p]
  have "scan_bucket t l rpc need (p # ps) = scan_bucket t l (time_out ?r1 p) need ps"
    using assms s1(8) unfolding scan_bucket.simps Let_def wl by auto
  moreover have "divided rpc (p # ps) r qs rs (p # tos)" if "divided (time_out ?r1 p) ps r qs rs tos" for r qs rs tos
    using that s1(1-5) by (auto simp: divided_def scanned_def time_out_alt)
  ultimately show ?thesis
    using s1(6,7) by (intro exI [of _ "time_out ?r1 p"]) (simp add: time_out_alt)
qed

lemma scan_bucket_alt:
  assumes "int_range (timeout rpc * retrans rpc)" "\<forall>p \<in> set ps. can_rewind p"
  shows "\<exists>r need' qs rs tos. scan_bucket t l rpc need ps = Some (r, need', qs) \<and> divided rpc ps r qs rs tos \<and>
    (\<forall>p \<in> set tos. expired t p \<and> \<not> may_retry rpc p)"
  using assms
proof (induction ps arbitrary: rpc need)
  case Nil
  show ?case
    by (rule exI [of _ rpc], rule exI [of _ need], rule exI [of _ "[]"], rule exI [of _ "[]"], rule exI [of _ "[]"])
       (simp add: divided_def scanned_def)
next
  case (Cons p ps)
  have ps: "\<forall>p \<in> set ps. can_rewind p" "can_rewind p" using Cons.prems(2) by simp_all
  have IH: "\<exists>r need' qs rs tos. scan_bucket t l r3 need3 ps = Some (r, need', qs) \<and> divided r3 ps r qs rs tos \<and>
      (\<forall>p \<in> set tos. expired t p \<and> \<not> may_retry rpc p)"
    if "timeout r3 = timeout rpc" "retrans r3 = retrans rpc" for r3 need3
    using Cons.IH [of r3 need3] Cons.prems(1) ps(1) that by (auto simp: may_retry_def)
  consider (keep) "ptimeout p = 0 \<or> (t < ptimeout p \<and> t < major_timeout p)"
    | (retry) "\<not> (ptimeout p = 0 \<or> (t < ptimeout p \<and> t < major_timeout p))" "may_retry rpc p"
    | (out) "\<not> (ptimeout p = 0 \<or> (t < ptimeout p \<and> t < major_timeout p))" "\<not> may_retry rpc p" by blast
  then show ?case
  proof cases
    case keep
    obtain r need' qs rs tos where s: "scan_bucket t l rpc need ps = Some (r, need', qs)" "divided rpc ps r qs rs tos"
      "\<forall>p \<in> set tos. expired t p \<and> \<not> may_retry rpc p"
      using IH [of rpc need] by blast
    have "scan_bucket t l rpc need (p # ps) = Some (r, need', p # qs)" using keep s(1) by simp
    moreover have "divided rpc (p # ps) r (p # qs) rs tos" using s(2) by (auto simp: divided_def)
    ultimately show ?thesis using s(3) by blast
  next
    case retry
    then show ?thesis using bucket_step_retry [OF retry Cons.prems(1) ps(2), of l need ps] IH by metis
  next
    case out
    then have "expired t p" by (auto simp: expired_def not_less)
    moreover obtain r3 where r3: "scan_bucket t l rpc need (p # ps) = scan_bucket t l r3 need ps"
      "timeout r3 = timeout rpc" "retrans r3 = retrans rpc"
      "\<And>r qs rs tos. divided r3 ps r qs rs tos \<Longrightarrow> divided rpc (p # ps) r qs rs (p # tos)"
      using bucket_step_out [OF out, of l need ps] by blast
    moreover obtain r need' qs rs tos where "scan_bucket t l r3 need ps = Some (r, need', qs)" "divided r3 ps r qs rs tos"
      "\<forall>p \<in> set tos. expired t p \<and> \<not> may_retry rpc p"
      using IH [OF r3(2,3), of need] by blast
    ultimately show ?thesis
      using out(2) by (intro exI [of _ r] exI [of _ need'] exI [of _ qs] exI [of _ rs] exI [of _ "p # tos"]) auto
  qed
qed


lemma divided_queued:
  assumes "i < length (waitpdu rpc)" "divided rpc (waitpdu rpc ! i) r qs rs tos"
  defines "r1 \<equiv> r\<lparr>waitpdu := (waitpdu r)[i := qs]\<rparr>"
  shows "queued rpc = queued r1 + mset (map request tos)"
    "length (waiting rpc) = length (waiting r1) + length rs + length tos"
proof -
  note d = assms(2) [unfolded divided_def scanned_def]
  have w: "mset (waiting r1) + mset (waitpdu rpc ! i) = mset (waiting rpc) + mset qs"
    using mset_concat_update [OF assms(1), of qs] d by (simp add: r1_def waiting_def)
  have q: "mset (map request (waitpdu rpc ! i)) = mset (map request qs) + mset (map request rs) + mset (map request tos)"
    using d by simp
  have "mset (map request (waiting r1)) + mset (map request (waitpdu rpc ! i)) =
      mset (map request (waiting rpc)) + mset (map request qs)"
    using arg_cong [OF w, of "image_mset request"] by simp
  then have wr: "mset (map request (waiting rpc)) = mset (map request (waiting r1)) + mset (map request rs) + mset (map request tos)"
    unfolding q by (simp add: ac_simps)
  then show "queued rpc = queued r1 + mset (map request tos)"
    using d by (simp add: queued_def r1_def ac_simps)
  show "length (waiting rpc) = length (waiting r1) + length rs + length tos"
    using arg_cong [OF wr, of size] by simp
qed

lemma divided_wait_ok:
  assumes "wait_ok rpc" "i < length (waitpdu rpc)" "divided rpc (waitpdu rpc ! i) r qs rs tos"
  shows "wait_ok (r\<lparr>waitpdu := (waitpdu r)[i := qs]\<rparr>)"
proof -
  let ?r = "r\<lparr>waitpdu := (waitpdu r)[i := qs]\<rparr>"
  note d = assms(3) [unfolded divided_def scanned_def]
  have w: "waitpdu ?r = (waitpdu rpc)[i := qs]" "waitpdu_len ?r = waitpdu_len rpc - word_of_nat (length rs + length tos)"
    using d by simp_all
  have "len_ok ?r"
    using assms(1) divided_queued(2) [OF assms(2,3)] w(2) by (simp add: wait_ok_def len_ok_def algebra_simps)
  moreover have "buckets_ok ?r"
    unfolding buckets_ok_def
  proof (intro conjI allI impI ballI)
    show "0 < length (waitpdu ?r)" "length (waitpdu ?r) < 2 ^ 32"
      using assms(1) unfolding w(1) by (simp_all add: wait_ok_def buckets_ok_def)
    fix j p
    assume "j < length (waitpdu ?r)" "p \<in> set (waitpdu ?r ! j)"
    then have "p \<in> set (waitpdu rpc ! j)" "j < length (waitpdu rpc)"
      using d assms(2) unfolding w(1) by (auto simp: nth_list_update split: if_splits)
    then show "bucket ?r (pxid p) = j"
      using assms(1) bucket_cong [of ?r rpc "pxid p"] w(1) by (simp add: wait_ok_def buckets_ok_def)
  qed
  ultimately show ?thesis by (simp add: wait_ok_def)
qed

lemma scan_buckets_alt:
  assumes "i + n = length (waitpdu rpc)" "wait_ok rpc" "int_range (timeout rpc * retrans rpc)"
    and "\<forall>p \<in> set (concat (drop i (waitpdu rpc))). can_rewind p"
  shows "\<exists>r need' tos. scan_buckets t l rpc need i n = Some (r, need') \<and> wait_ok r \<and>
    queued rpc = queued r + mset (map request tos) \<and>
    evlog r = evlog rpc @ concat (map (purge_events RPC_STATUS_TIMEOUT) tos) \<and> conf r = conf rpc \<and> inp r = inp rpc \<and>
    (\<forall>p \<in> set tos. expired t p \<and> \<not> may_retry rpc p)"
  using assms
proof (induction n arbitrary: rpc i need)
  case 0
  then show ?case by (intro exI [of _ rpc] exI [of _ need] exI [of _ "[]"]) simp
next
  case (Suc n)
  have i: "i < length (waitpdu rpc)" using Suc.prems(1) by simp
  note d = Cons_nth_drop_Suc [OF i, symmetric]
  obtain r need1 qs rs tos where b: "scan_bucket t l rpc need (waitpdu rpc ! i) = Some (r, need1, qs)"
    "divided rpc (waitpdu rpc ! i) r qs rs tos" "\<forall>p \<in> set tos. expired t p \<and> \<not> may_retry rpc p"
    using scan_bucket_alt [OF Suc.prems(3), of "waitpdu rpc ! i" t l need] Suc.prems(4) unfolding d by auto
  let ?r = "r\<lparr>waitpdu := (waitpdu r)[i := qs]\<rparr>"
  note dv = b(2) [unfolded divided_def scanned_def]
  have m: "may_retry ?r = may_retry rpc" "int_range (timeout ?r * retrans ?r)" "i + 1 + n = length (waitpdu ?r)"
    "\<forall>p \<in> set (concat (drop (i + 1) (waitpdu ?r))). can_rewind p"
    using dv Suc.prems(1,3,4) unfolding d by (simp_all add: may_retry_def fun_eq_iff)
  obtain r' need' tos' where r': "scan_buckets t l ?r need1 (i + 1) n = Some (r', need')" "wait_ok r'"
    "queued ?r = queued r' + mset (map request tos')"
    "evlog r' = evlog ?r @ concat (map (purge_events RPC_STATUS_TIMEOUT) tos')" "conf r' = conf ?r" "inp r' = inp ?r"
    "\<forall>p \<in> set tos'. expired t p \<and> \<not> may_retry ?r p"
    using Suc.IH [OF m(3) divided_wait_ok [OF Suc.prems(2) i b(2)] m(2,4), of need1] by blast
  have "scan_buckets t l rpc need i (Suc n) = Some (r', need')" using b(1) r'(1) by simp
  moreover have "queued rpc = queued r' + mset (map request (tos @ tos'))"
    using divided_queued(1) [OF i b(2)] r'(3) by (simp add: ac_simps)
  moreover have "evlog r' = evlog rpc @ concat (map (purge_events RPC_STATUS_TIMEOUT) (tos @ tos'))"
    using r'(4) dv by simp
  moreover have "conf r' = conf rpc" "inp r' = inp rpc" using r'(5,6) dv by simp_all
  moreover have "\<forall>p \<in> set (tos @ tos'). expired t p \<and> \<not> may_retry rpc p" using b(3) r'(7) m(1) by auto
  ultimately show ?case using r'(2) by blast
qed


section \<open>The search for a port\<close>

definition port_free :: "(nat \<Rightarrow> bool) \<Rightarrow> (nat \<Rightarrow> bind_res) \<Rightarrow> nat \<Rightarrow> bool" where
  "port_free service bnd port \<longleftrightarrow> \<not> service port \<and> bnd port = Bind_Ok"

lemma bind_port_finds:
  assumes "start < 512" "ofs < 512" "\<And>port. 512 \<le> port \<Longrightarrow> port < 1024 \<Longrightarrow> service port \<or> bnd port \<noteq> Bind_Eacces"
    and "j \<le> (start + 511 - ofs) mod 512" "port_free service bnd (512 + (ofs + j) mod 512)"
  shows "\<exists>ofs' port. bind_port service bnd start ofs = (ofs', Some port) \<and> 512 \<le> port \<and> port < 1024 \<and>
    port_free service bnd port"
  using assms(2,4,5)
proof (induction "(start + 511 - ofs) mod 512" arbitrary: ofs j rule: less_induct)
  case less
  let ?rc = "if service (512 + ofs) then Bind_Fails else bnd (512 + ofs)"
  show ?case
  proof (cases "?rc = Bind_Ok")
    case True
    then have "port_free service bnd (512 + ofs)" by (auto simp: port_free_def split: if_splits)
    then show ?thesis using True less.prems(1) by (subst bind_port.simps) (simp add: Let_def)
  next
    case False
    have "j \<noteq> 0"
    proof
      assume "j = 0"
      then show False using False less.prems(1,3) by (simp add: port_free_def)
    qed
    then obtain k where j: "j = Suc k" by (cases j) auto
    have d: "(start + 511 - ofs) mod 512 \<noteq> 0" using less.prems(2) \<open>j \<noteq> 0\<close> by simp
    have n: "Suc ofs mod 512 \<noteq> start"
      using d assms(1) less.prems(1) distance_mod [OF assms(1) less.prems(1)]
      by (auto simp: mod_Suc split: if_splits)
    have lt: "Suc ofs mod 512 < 512" by simp
    have s: "(start + 511 - Suc ofs mod 512) mod 512 < (start + 511 - ofs) mod 512"
      using distance_decreases [of ofs start] n assms(1) less.prems(1) by simp
    have sd: "Suc ((start + 511 - Suc ofs mod 512) mod 512) = (start + 511 - ofs) mod 512"
      using n less.prems(1) assms(1) distance_mod [OF assms(1) lt] distance_mod [OF assms(1) less.prems(1)] d
      by (auto simp: mod_Suc split: if_splits)
    have "?rc \<noteq> Bind_Eacces" using assms(3) [of "512 + ofs"] less.prems(1) by auto
    then have "bind_port service bnd start ofs = bind_port service bnd start (Suc ofs mod 512)"
      using False n assms(1) by (subst bind_port.simps) (simp add: Let_def)
    moreover have "port_free service bnd (512 + (Suc ofs mod 512 + k) mod 512)"
      using less.prems(3) unfolding j by (simp add: mod_add_left_eq)
    ultimately show ?thesis using less.hyps [OF s lt, of k] less.prems(2) sd j by simp
  qed
qed

section \<open>Properties\<close>

text \<open>
  The search for a privileged port ends, and when some reserved port from 512 up is not a
  known service and can be bound, and no attempt is refused with EACCES, it binds such a port.
\<close>

theorem bind_port_search:
  assumes "start < 512" "512 \<le> p" "p < 1024" "port_free service bnd p"
    and "\<forall>q. 512 \<le> q \<and> q < 1024 \<longrightarrow> service q \<or> bnd q \<noteq> Bind_Eacces"
  shows "\<exists>ofs' port. bind_port service bnd start start = (ofs', Some port) \<and> 512 \<le> port \<and> port < 1024 \<and>
    port_free service bnd port"
proof -
  define j where "j = (p - 512 + 512 - start) mod 512"
  have e: "(start + 511 - start) mod 512 = 511" by simp
  have "j \<le> (start + 511 - start) mod 512" unfolding e j_def using mod_less_divisor [of 512 "p - 512 + 512 - start"] by linarith
  moreover have "(start + j) mod 512 = (start + (p - start)) mod 512"
    using assms(1,2) unfolding j_def by (simp add: mod_add_right_eq)
  then have "(start + j) mod 512 = p - 512" using assms(1-3) by (simp add: mod_if)
  then have "port_free service bnd (512 + (start + j) mod 512)" using assms(2,4) by simp
  ultimately show ?thesis using bind_port_finds [OF assms(1,1)] assms(5) by blast
qed

theorem bind_port_search_witness:
  "\<exists>ofs' port. bind_port (\<lambda>q. q = 515) (\<lambda>q. if q = 700 then Bind_Ok else Bind_Fails) 300 300 = (ofs', Some port) \<and>
     port_free (\<lambda>q. q = 515) (\<lambda>q. if q = 700 then Bind_Ok else Bind_Fails) port"
proof -
  have "port_free (\<lambda>q. q = 515) (\<lambda>q. if q = 700 then Bind_Ok else Bind_Fails) 700"
    "\<forall>q. 512 \<le> q \<and> q < 1024 \<longrightarrow> q = 515 \<or> (if q = 700 then Bind_Ok else Bind_Fails) \<noteq> Bind_Eacces"
    by (simp_all add: port_free_def)
  then show ?thesis using bind_port_search [of 300 700 "\<lambda>q. q = 515" "\<lambda>q. if q = 700 then Bind_Ok else Bind_Fails"] by auto
qed

lemma timeout_scan_accounts:
  assumes "wait_ok rpc" "int_range (timeout rpc * retrans rpc)" "\<forall>p \<in> set (waiting rpc). can_rewind p"
  shows "\<exists>rpc' ret tos. rpc_timeout_scan t rpc = Some (rpc', ret) \<and> wait_ok rpc' \<and>
    queued rpc = queued rpc' + mset (map request tos) \<and>
    evlog rpc' = evlog rpc @ concat (map (purge_events RPC_STATUS_TIMEOUT) tos) \<and>
    (\<forall>p \<in> set tos. expired t p \<and> \<not> may_retry rpc p) \<and>
    conf rpc' = conf rpc \<and> inp rpc' = inp rpc"
proof (cases "t \<le> last_timeout_scan rpc + 1000")
  case True
  then have "rpc_timeout_scan t rpc = Some (rpc, 0)" by (simp add: rpc_timeout_scan_def)
  then show ?thesis using assms(1) by (intro exI [of _ rpc] exI [of _ 0] exI [of _ "[]"]) simp
next
  case False
  let ?r1 = "rpc\<lparr>last_timeout_scan := t\<rparr>"
  let ?l = "if last_successful_rpc_response rpc = 0 then -1 else s32 (uint (t - last_successful_rpc_response rpc))"
  obtain r2 qs tos where o: "scan_outqueue t ?r1 (outqueue ?r1) = Some (r2, qs)" "scanned ?r1 tos r2"
    "outqueue r2 = outqueue rpc" "waitpdu_len r2 = waitpdu_len rpc"
    "mset (map request (outqueue rpc)) = mset (map request qs) + mset (map request tos)"
    "\<forall>p \<in> set tos. expired t p \<and> \<not> may_retry ?r1 p"
    using scan_outqueue_alt [of ?r1 t "outqueue ?r1"] assms(2) by auto
  let ?r2 = "r2\<lparr>outqueue := qs\<rparr>"
  note s = o(2) [unfolded scanned_def]
  have w: "waitpdu ?r2 = waitpdu rpc" "wait_ok ?r2" "may_retry ?r2 = may_retry rpc" "int_range (timeout ?r2 * retrans ?r2)"
    using s o(4) assms(1,2) wait_ok_cong [of ?r2 rpc] by (simp_all add: may_retry_def fun_eq_iff)
  obtain r need tos' where b: "scan_buckets t ?l ?r2 False 0 (length (waitpdu ?r2)) = Some (r, need)" "wait_ok r"
    "queued ?r2 = queued r + mset (map request tos')"
    "evlog r = evlog ?r2 @ concat (map (purge_events RPC_STATUS_TIMEOUT) tos')"
    "\<forall>p \<in> set tos'. expired t p \<and> \<not> may_retry ?r2 p" "conf r = conf ?r2" "inp r = inp ?r2"
    using scan_buckets_alt [of 0 "length (waitpdu ?r2)" ?r2 t ?l False] w assms(3) by (auto simp: waiting_def)
  have "rpc_timeout_scan t rpc = Some (r, if need then -1 else 0)"
    using False o(1) b(1) by (simp add: rpc_timeout_scan_def Let_def)
  moreover have "queued rpc = queued r + mset (map request (tos @ tos'))"
    using b(3) o(5) w(1) by (simp add: queued_def waiting_def ac_simps)
  moreover have "evlog r = evlog rpc @ concat (map (purge_events RPC_STATUS_TIMEOUT) (tos @ tos'))"
    using b(4) s by simp
  moreover have "\<forall>p \<in> set (tos @ tos'). expired t p \<and> \<not> may_retry rpc p"
    using o(6) b(5) w(3) by (auto simp: may_retry_def)
  moreover have "conf r = conf rpc" "inp r = inp rpc" using b(6,7) s by simp_all
  ultimately show ?thesis using b(2) by blast
qed

text \<open>
  C11. The scan for timeouts loses no request: it returns, every request that was queued is
  afterwards queued exactly once or was completed with RPC_STATUS_TIMEOUT and freed exactly once,
  only expired requests that may not be retried are completed, and the buckets and the count of
  waiting requests stay right.
\<close>

theorem rpc_timeout_scan_accounts:
  assumes "wait_ok rpc" "int_range (timeout rpc * retrans rpc)" "\<forall>p \<in> set (waiting rpc). can_rewind p"
  shows "\<exists>rpc' ret tos. rpc_timeout_scan t rpc = Some (rpc', ret) \<and> wait_ok rpc' \<and>
    queued rpc = queued rpc' + mset (map request tos) \<and>
    evlog rpc' = evlog rpc @ concat (map (purge_events RPC_STATUS_TIMEOUT) tos) \<and>
    (\<forall>p \<in> set tos. expired t p \<and> \<not> may_retry rpc p)"
  using timeout_scan_accounts [OF assms, of t] by blast

theorem rpc_timeout_scan_accounts_witness:
  "\<exists>rpc' ret (tos :: unit pdu list). rpc_timeout_scan 5000 (sample_rpc 0) = Some (rpc', ret) \<and> wait_ok rpc' \<and>
     queued (sample_rpc 0) = queued rpc' + mset (map request tos)"
proof -
  have "int_range (timeout (sample_rpc 0) * retrans (sample_rpc 0))" "\<forall>p \<in> set (waiting (sample_rpc 0)). can_rewind p"
    by (simp_all add: sample_rpc_def zero_rpc_def waiting_def can_rewind_def sample_pdu_def zero_pdu_def no_cursor_def int_range_def)
  from rpc_timeout_scan_accounts [OF sample_wait_ok this, of 5000] show ?thesis by auto
qed

text \<open>
  Every outcome of a reconnection, when the option is on: the requests are all in the output queue
  again, or all of them were failed.
\<close>

lemma reconnect_outcomes:
  assumes "wait_ok rpc" "auto_reconnect rpc \<noteq> 0"
    and "\<forall>p \<in> set (waiting rpc) \<union> set_option (cur_pdu rpc). can_rewind p"
    and "\<forall>p \<in> set (List.tl (outqueue rpc)). num_done (out p) = 0"
    and r: "rpc_reconnect_requeue env ofs rpc = Some (rpc', ofs', ret)"
  shows "\<exists>q evs. mset (map request q) = mset (map request (all_pdus rpc)) \<and> (\<forall>p \<in> set q. num_done (out p) = 0) \<and>
    (\<forall>e \<in> set evs. \<exists>n. e = Closed n) \<and> waiting rpc' = [] \<and> wait_ok rpc' \<and> conf rpc' = conf rpc \<and>
    inp rpc' = (READ_RM, 0, [], inbuf rpc, None) \<and>
    (ret = 0 \<and> outqueue rpc' = q \<and> evlog rpc' = evlog rpc @ evs \<or>
     ret = -1 \<and> outqueue rpc' = [] \<and> evlog rpc' = evlog rpc @ evs @ concat (map (purge_events RPC_STATUS_ERROR) q))"
proof -
  obtain q st where q: "requeue_all rpc = Some (requeued rpc q st)"
    "mset (map request q) = mset (map request (all_pdus rpc))" "\<forall>p \<in> set q. num_done (out p) = 0"
    using requeue_all_alt [OF assms(3,4)] by blast
  let ?r = "requeued rpc q st"
  let ?c = "?r\<lparr>num_retries := num_retries ?r - 1, connect_cb := Reconnect_Cb\<rparr>"
  obtain n nb o2 evs ret2 where c: "rpc_connect_sockaddr_async env ofs ?c =
      (?c\<lparr>fd := n, is_nonblocking := nb, evlog := evlog ?c @ evs\<rparr>, o2, ret2)"
    "\<forall>e \<in> set evs. \<exists>n. e = Closed n" "ret2 = 0 \<or> ret2 = -1"
    using connect_frame by blast
  let ?d = "?c\<lparr>fd := n, is_nonblocking := nb, evlog := evlog ?c @ evs\<rparr>"
  consider (ok) "rpc' = inc_reconnects ?d" "ret = 0" | (fails) "rpc' = rpc_error_all_pdus ?d" "ret = -1"
    | (no_retry) "rpc' = rpc_error_all_pdus ?r" "ret = -1"
    using r assms(2) q(1) c(1,3) by (auto simp: rpc_reconnect_requeue_def split: if_splits)
  then show ?thesis
  proof cases
    case ok
    then show ?thesis
      using q(2,3) c(2) assms(1)
      by (intro exI [of _ q] exI [of _ evs])
         (simp add: inc_reconnects_def requeued_def conf_def inp_def waiting_def wait_ok_def buckets_ok_def len_ok_def)
  next
    case fails
    then show ?thesis
      using q(2,3) c(2) assms(1)
      by (intro exI [of _ q] exI [of _ evs])
         (simp add: rpc_error_all_pdus_def purge_all_alt requeued_def conf_def inp_def waiting_def wait_ok_def
           buckets_ok_def len_ok_def)
  next
    case no_retry
    then show ?thesis
      using q(2,3) assms(1)
      by (intro exI [of _ q] exI [of _ "[]"])
         (simp add: rpc_error_all_pdus_def purge_all_alt requeued_def conf_def inp_def waiting_def wait_ok_def
           buckets_ok_def len_ok_def)
  qed
qed

lemma reconnect_keeps:
  assumes "wait_ok rpc" "auto_reconnect rpc \<noteq> 0" "is_connected rpc" "int_range (auto_reconnect rpc - 1)" "net_ok env rpc"
    and "\<forall>p \<in> set (waiting rpc) \<union> set_option (cur_pdu rpc). can_rewind p"
    and "\<forall>p \<in> set (List.tl (outqueue rpc)). num_done (out p) = 0"
  shows "\<exists>rpc' ofs' evs. rpc_reconnect_requeue env ofs rpc = Some (rpc', ofs', 0) \<and>
    mset (map request (outqueue rpc')) = mset (map request (all_pdus rpc)) \<and>
    (\<forall>p \<in> set (outqueue rpc'). num_done (out p) = 0) \<and> waiting rpc' = [] \<and> wait_ok rpc' \<and> cur_pdu rpc' = None \<and>
    istate rpc' = READ_RM \<and> inpos rpc' = 0 \<and> evlog rpc' = evlog rpc @ evs \<and> (\<forall>e \<in> set evs. \<exists>n. e = Closed n) \<and>
    conf rpc' = conf rpc \<and> fragments rpc' = [] \<and> inbuf rpc' = inbuf rpc"
proof -
  obtain q st where q: "requeue_all rpc = Some (requeued rpc q st)"
    "mset (map request q) = mset (map request (all_pdus rpc))" "\<forall>p \<in> set q. num_done (out p) = 0"
    using requeue_all_alt [OF assms(6,7)] by blast
  let ?r = "(requeued rpc q st)\<lparr>num_retries := auto_reconnect rpc - 1, connect_cb := Reconnect_Cb\<rparr>"
  have "net_ok env ?r" using assms(5) by (simp add: net_ok_def requeued_def)
  then obtain n nb ofs' evs where c: "rpc_connect_sockaddr_async env ofs ?r =
      (?r\<lparr>fd := n, is_nonblocking := nb, evlog := evlog ?r @ evs\<rparr>, ofs', 0)" "\<forall>e \<in> set evs. \<exists>n. e = Closed n"
    using connect_ok by blast
  let ?r' = "inc_reconnects (?r\<lparr>fd := n, is_nonblocking := nb, evlog := evlog ?r @ evs\<rparr>)"
  have a: "auto_reconnect (requeued rpc q st) = auto_reconnect rpc" "num_retries (requeued rpc q st) = auto_reconnect rpc"
    using assms(3) by (simp_all add: requeued_def)
  have "auto_reconnect rpc < 0 \<or> auto_reconnect rpc > 0" using assms(2) by linarith
  then have "rpc_reconnect_requeue env ofs rpc = Some (?r', ofs', 0)"
    using assms(2,4) q(1) a c(1) by (auto simp: rpc_reconnect_requeue_def)
  moreover have "waiting ?r' = []" by (simp add: inc_reconnects_def requeued_def waiting_def)
  moreover have "wait_ok ?r'"
    using assms(1) by (simp add: wait_ok_def buckets_ok_def len_ok_def waiting_def inc_reconnects_def requeued_def)
  moreover have "outqueue ?r' = q" "cur_pdu ?r' = None" "istate ?r' = READ_RM" "inpos ?r' = 0" "evlog ?r' = evlog rpc @ evs"
    "conf ?r' = conf rpc" "fragments ?r' = []" "inbuf ?r' = inbuf rpc"
    by (simp_all add: inc_reconnects_def requeued_def conf_def)
  ultimately show ?thesis
    using q(2,3) c(2) by (intro exI [of _ ?r'] exI [of _ ofs'] exI [of _ evs] conjI) simp_all
qed

text \<open>
  C10. Reconnecting loses no request and completes none: when the new connection can be
  made, every request (to be sent, waiting, or half read) is in the output queue exactly once, with
  the bytes it had, to be sent from its first byte; nothing waits, the reader expects a new record,
  and no callback was called.
\<close>

theorem rpc_reconnect_keeps_requests:
  assumes "wait_ok rpc" "auto_reconnect rpc \<noteq> 0" "is_connected rpc" "int_range (auto_reconnect rpc - 1)" "net_ok env rpc"
    and "\<forall>p \<in> set (waiting rpc) \<union> set_option (cur_pdu rpc). can_rewind p"
    and "\<forall>p \<in> set (List.tl (outqueue rpc)). num_done (out p) = 0"
  shows "\<exists>rpc' ofs' evs. rpc_reconnect_requeue env ofs rpc = Some (rpc', ofs', 0) \<and>
    mset (map request (outqueue rpc')) = mset (map request (all_pdus rpc)) \<and>
    (\<forall>p \<in> set (outqueue rpc'). num_done (out p) = 0) \<and> waiting rpc' = [] \<and> wait_ok rpc' \<and> cur_pdu rpc' = None \<and>
    istate rpc' = READ_RM \<and> inpos rpc' = 0 \<and> evlog rpc' = evlog rpc @ evs \<and> (\<forall>e \<in> set evs. \<exists>n. e = Closed n)"
  using reconnect_keeps [OF assms, of ofs] by metis

definition up_rpc :: "unit rpc" where
  "up_rpc = (sample_rpc 0)\<lparr>auto_reconnect := -1, is_connected := True, fd := 7, cur_pdu := Some (sample_pdu 11 2),
     peer := \<lparr>sa_family = AF_INET, sa_port = 2049, sa_addr = [127, 0, 0, 1]\<rparr>\<rparr>"

definition up_env :: net_env where
  "up_env = \<lparr>n_socket = 8, n_device = True, n_dup2 = True, n_service = (\<lambda>_. False), n_bind = (\<lambda>_. Bind_Eacces),
     n_nonblocking = True, n_keepalive = True, n_connect = True, n_time = 0\<rparr>"

lemma up_rpc_wait_ok: "wait_ok up_rpc"
  using sample_wait_ok [of 0] wait_ok_cong [of up_rpc "sample_rpc 0"] by (simp add: up_rpc_def)

theorem rpc_reconnect_keeps_requests_witness:
  "\<exists>rpc' ofs'. rpc_reconnect_requeue up_env 1 up_rpc = Some (rpc', ofs', 0) \<and>
     mset (map request (outqueue rpc')) = {#request (sample_pdu 10 1), request (sample_pdu 11 2)#} \<and> waiting rpc' = []"
proof -
  have "auto_reconnect up_rpc \<noteq> 0" "is_connected up_rpc" "int_range (auto_reconnect up_rpc - 1)" "net_ok up_env up_rpc"
    "\<forall>p \<in> set (waiting up_rpc) \<union> set_option (cur_pdu up_rpc). can_rewind p" "outqueue up_rpc = []"
    by (simp_all add: up_rpc_def up_env_def net_ok_def int_range_def waiting_def sample_rpc_def zero_rpc_def can_rewind_def
        sample_pdu_def zero_pdu_def no_cursor_def)
  moreover have "all_pdus up_rpc = [sample_pdu 10 1, sample_pdu 11 2]"
    by (simp add: all_pdus_def up_rpc_def waiting_def sample_rpc_def zero_rpc_def)
  ultimately show ?thesis
    using rpc_reconnect_keeps_requests [OF up_rpc_wait_ok, of up_env 1] by auto
qed

text \<open>
  C34. A request whose reply was half read when the connection breaks, with automatic
  reconnection switched off: all other requests are failed, but this one is not completed, neither
  then nor when the context is destroyed.
\<close>

theorem rpc_reconnect_forgets_half_read:
  assumes "auto_reconnect rpc = 0" "cur_pdu rpc = Some p" "\<forall>q \<in> set (outqueue rpc @ waiting rpc). pid q \<noteq> pid p"
  shows "\<exists>rpc'. rpc_reconnect_requeue env ofs rpc = Some (rpc', ofs, -1) \<and> cur_pdu rpc' = Some p \<and>
    (\<forall>e \<in> set (drop (length (evlog rpc)) (evlog (rpc_destroy_context rpc'))). \<forall>st v. e \<noteq> Cb (pid p) st v \<and> e \<noteq> Freed (pid p))"
proof -
  let ?r = "rpc_error_all_pdus rpc"
  have r: "rpc_reconnect_requeue env ofs rpc = Some (?r, ofs, -1)" "cur_pdu ?r = Some p"
    using assms(1,2) by (simp_all add: rpc_reconnect_requeue_def rpc_error_all_pdus_def purge_all_alt)
  have q: "outqueue ?r = []" "waiting ?r = []"
    by (simp_all add: rpc_error_all_pdus_def purge_all_alt waiting_def)
  have "evlog (rpc_destroy_context ?r) =
      evlog rpc @ concat (map (purge_events RPC_STATUS_ERROR) (outqueue rpc @ waiting rpc)) @
      (if fd rpc \<noteq> -1 then [Closed (fd rpc)] else [])"
    by (simp add: rpc_destroy_context_def rpc_error_all_pdus_def purge_all_alt rpc_free_all_fragments_def Let_def waiting_def)
  moreover have "\<forall>e \<in> set (purge_events RPC_STATUS_ERROR q'). \<forall>st v. e \<noteq> Cb (pid p) st v \<and> e \<noteq> Freed (pid p)"
    if "q' \<in> set (outqueue rpc @ waiting rpc)" for q'
    using assms(3) that by (auto simp: purge_events_def)
  ultimately show ?thesis using r by (intro exI [of _ ?r]) auto
qed

theorem rpc_reconnect_forgets_half_read_witness:
  "\<exists>rpc'. rpc_reconnect_requeue up_env 1 (up_rpc\<lparr>auto_reconnect := 0\<rparr>) = Some (rpc', 1, -1) \<and>
     cur_pdu rpc' = Some (sample_pdu 11 2)"
proof -
  let ?r = "up_rpc\<lparr>auto_reconnect := 0\<rparr>"
  have "auto_reconnect ?r = 0" "cur_pdu ?r = Some (sample_pdu 11 2)"
    "\<forall>q \<in> set (outqueue ?r @ waiting ?r). pid q \<noteq> pid (sample_pdu 11 2)"
    by (simp_all add: up_rpc_def waiting_def sample_rpc_def zero_rpc_def sample_pdu_def zero_pdu_def)
  from rpc_reconnect_forgets_half_read [OF this, of up_env 1] show ?thesis by blast
qed

end
