(* ===== verification/Rpc_System.thy ===== *)
theory Rpc_System
  imports Socket_Ctl
begin

text \<open>
  The life of a context: the operations of the other theories composed into a step relation. A
  client connects, queues requests, writes to and reads from its socket, scans for timeouts and
  reconnects, in any order, and is disconnected or destroyed in the end; which requests and which
  records take part is said with \<open>rpc_step\<close>. The state carries, besides the context, the
  requests that were accepted so far; \<open>sys_ok\<close> is the invariant under which every operation
  is defined, and the ledger of callbacks is what the main theorem is about.
\<close>

section \<open>Partly sent requests\<close>

text \<open>Only the first request of the output queue can be partly sent.\<close>

definition fresh_tail :: "'r pdu list \<Rightarrow> bool" where
  "fresh_tail q \<longleftrightarrow> (\<forall>p \<in> set (List.tl q). num_done (out p) = 0)"

lemma fresh_tail_snoc: "fresh_tail q \<Longrightarrow> num_done (out p) = 0 \<Longrightarrow> fresh_tail (q @ [p])"
  by (cases q) (auto simp: fresh_tail_def)

lemma complete_pdus_tail:
  "complete_pdus rpc n = Some (r, b) \<Longrightarrow> fresh_tail (outqueue rpc) \<Longrightarrow> fresh_tail (outqueue r)"
proof (induction rpc n rule: complete_pdus.induct)
  case (1 rpc n)
  show ?case
  proof (cases "n = 0 \<or> outqueue rpc = []")
    case True
    then have "complete_pdus rpc n = Some (rpc, False)" by (subst complete_pdus.simps) (auto split: list.splits)
    then show ?thesis using "1.prems" by simp
  next
    case False
    then obtain p ps where q: "outqueue rpc = p # ps" by (cases "outqueue rpc") auto
    have t: "fresh_tail ps" using "1.prems"(2) by (cases ps) (auto simp: q fresh_tail_def)
    let ?rem = "sub64 (total_size (out p)) (num_done (out p))"
    let ?p = "p\<lparr>out := (out p)\<lparr>num_done := total_size (out p)\<rparr>\<rparr>"
    let ?r1 = "inc_req_sent (rpc\<lparr>outqueue := ps\<rparr>)"
    consider (part) "\<not> ?rem \<le> n" | (discard) "?rem \<le> n" "discard_after_sending p"
      | (wait) "?rem \<le> n" "\<not> discard_after_sending p" "\<not> length (waitpdu ?r1) \<le> bucket ?r1 (pxid ?p)"
      | (bad) "?rem \<le> n" "\<not> discard_after_sending p" "length (waitpdu ?r1) \<le> bucket ?r1 (pxid ?p)" by blast
    then show ?thesis
    proof cases
      case part
      then show ?thesis
        using "1.prems" False q by (subst (asm) complete_pdus.simps) (auto simp: Let_def fresh_tail_def)
    next
      case discard
      then show ?thesis
        using "1.prems"(1) False q t by (subst (asm) complete_pdus.simps) (auto simp: Let_def rpc_free_pdu_def)
    next
      case wait
      then have "complete_pdus rpc n = complete_pdus (add_waiting ?r1 ?p) (n - ?rem)"
        using False q by (subst complete_pdus.simps) (simp add: Let_def)
      then show ?thesis
        using "1.IH" [of p ps ?rem ?p ?r1] "1.prems"(1) False q wait t by simp
    next
      case bad
      then show ?thesis
        using "1.prems"(1) False q by (subst (asm) complete_pdus.simps) (simp add: Let_def)
    qed
  qed
qed

lemma write_loop_tail:
  "write_loop ws cap rpc = Some (bs, r, ret) \<Longrightarrow> fresh_tail (outqueue rpc) \<Longrightarrow> fresh_tail (outqueue r)"
proof (induction ws arbitrary: cap rpc bs)
  case Nil
  then show ?case by (subst (asm) write_loop.simps) (auto split: if_splits list.splits option.splits)
next
  case (Cons w ws)
  note w = Cons.prems(1)
  show ?case
    using w [unfolded write_loop.simps [of "w # ws"]] Cons.prems(2) Cons.IH
    by (auto split: if_splits list.splits option.splits wres.splits bool.splits simp: Let_def
         dest: complete_pdus_tail) (metis complete_pdus_tail)+
qed

lemma write_to_socket_tail:
  "rpc_write_to_socket ws rpc = Some (bs, r, ret) \<Longrightarrow> fresh_tail (outqueue rpc) \<Longrightarrow> fresh_tail (outqueue r)"
  by (auto simp: rpc_write_to_socket_def split: if_splits dest: write_loop_tail)

lemma queue_pdu_tail:
  assumes "rpc_queue_pdu now ws u rpc p = Some (bs, r, 0)" "fresh_tail (outqueue rpc)" "\<not> is_udp rpc"
  shows "fresh_tail (outqueue r)"
  using assms
  by (auto simp: rpc_queue_pdu_def Let_def split: if_splits option.splits prod.splits bind_splits
      dest!: write_to_socket_tail intro!: fresh_tail_snoc) (simp add: fresh_tail_def)

text \<open>What the scan does to the output queue: nothing in it becomes partly sent.\<close>

definition no_new_part :: "'r pdu list \<Rightarrow> 'r pdu list \<Rightarrow> bool" where
  "no_new_part q q' \<longleftrightarrow> (\<forall>p \<in> set q'. num_done (out p) = 0 \<or> (\<exists>p0 \<in> set q. out p = out p0)) \<and>
     (fresh_tail q \<longrightarrow> fresh_tail q')"

lemma no_new_part_refl [simp]: "no_new_part q q"
  by (auto simp: no_new_part_def)

lemma no_new_part_trans: "no_new_part q1 q2 \<Longrightarrow> no_new_part q2 q3 \<Longrightarrow> no_new_part q1 q3"
  unfolding no_new_part_def by metis

lemma no_new_part_after_head:
  "num_done (out p) = 0 \<Longrightarrow> no_new_part q (after_head p q)"
  by (cases q) (auto simp: no_new_part_def fresh_tail_def)

lemma scan_outqueue_outs:
  "scan_outqueue t rpc ps = Some (r, qs) \<Longrightarrow> \<forall>q \<in> set qs. \<exists>p \<in> set ps. out q = out p"
  by (induction t rpc ps arbitrary: r qs rule: scan_outqueue.induct)
     (fastforce simp: Let_def split: if_splits bind_splits dest: set_timeout_frame(2))+

lemma scan_outqueue_parts:
  assumes "scan_outqueue t rpc ps = Some (r, qs)"
  shows "no_new_part ps qs"
proof -
  have "fresh_tail qs" if f: "fresh_tail ps"
  proof (cases ps)
    case Nil
    then show ?thesis using assms by (simp add: fresh_tail_def)
  next
    case (Cons p ps')
    then have z: "\<forall>p \<in> set ps'. num_done (out p) = 0" using f by (simp add: fresh_tail_def)
    have zs: "\<forall>q \<in> set qs'. num_done (out q) = 0" if "scan_outqueue t rpc' ps' = Some (r', qs')" for rpc' r' qs'
      using scan_outqueue_outs [OF that] z by metis
    obtain rpc' r' qs' where "scan_outqueue t rpc' ps' = Some (r', qs')" "qs = qs' \<or> (\<exists>q. qs = q # qs')"
      using assms unfolding Cons scan_outqueue.simps Let_def by (auto split: if_splits bind_splits)
    then show ?thesis using zs list.set_sel(2) [of qs'] by (cases qs') (auto simp: fresh_tail_def)
  qed
  then show ?thesis using scan_outqueue_outs [OF assms] by (auto simp: no_new_part_def)
qed

lemma return_parts:
  "rpc_return_to_outqueue rpc p = Some r \<Longrightarrow> no_new_part (outqueue rpc) (outqueue r)"
  by (auto simp: rpc_return_to_outqueue_def rewind_pdu_def intro!: no_new_part_after_head)

lemma scan_bucket_parts:
  "scan_bucket t l rpc need ps = Some (r, need', qs) \<Longrightarrow> no_new_part (outqueue rpc) (outqueue r)"
proof (induction ps arbitrary: rpc need r need' qs)
  case (Cons p ps)
  let ?rpc0 = "if t \<ge> ptimeout p then inc_timedout rpc else rpc"
  let ?rpc1 = "?rpc0\<lparr>waitpdu_len := waitpdu_len ?rpc0 - 1\<rparr>"
  let ?rpc2 = "if t \<ge> major_timeout p then inc_major_timedout ?rpc1 else ?rpc1"
  have o: "outqueue (time_out ?rpc1 p) = outqueue rpc" "outqueue ?rpc2 = outqueue rpc"
    by (simp_all add: time_out_alt)
  consider (keep) "ptimeout p = 0 \<or> (t < ptimeout p \<and> t < major_timeout p)"
    | (retry) "\<not> (ptimeout p = 0 \<or> (t < ptimeout p \<and> t < major_timeout p))" "may_retry ?rpc1 p"
    | (out) "\<not> (ptimeout p = 0 \<or> (t < ptimeout p \<and> t < major_timeout p))" "\<not> may_retry ?rpc1 p" by blast
  then show ?case
  proof cases
    case keep
    then show ?thesis using Cons by auto
  next
    case retry
    obtain p2 r3 n3 where r3: "rpc_return_to_outqueue ?rpc2 p2 = Some r3" "scan_bucket t l r3 n3 ps = Some (r, need', qs)"
      using Cons.prems retry unfolding scan_bucket.simps Let_def by (auto split: bind_splits)
    show ?thesis
      by (rule no_new_part_trans [OF return_parts [OF r3(1), unfolded o(2)] Cons.IH [OF r3(2)]])
  next
    case out
    then have "scan_bucket t l (time_out ?rpc1 p) need ps = Some (r, need', qs)"
      using Cons.prems unfolding scan_bucket.simps Let_def by auto
    then show ?thesis using Cons.IH unfolding o(1) [symmetric] by blast
  qed
qed simp

lemma scan_buckets_parts:
  "scan_buckets t l rpc need i n = Some (r, need') \<Longrightarrow> no_new_part (outqueue rpc) (outqueue r)"
proof (induction n arbitrary: rpc need i)
  case (Suc n)
  then obtain r1 need1 qs where r1: "scan_bucket t l rpc need (waitpdu rpc ! i) = Some (r1, need1, qs)"
    "scan_buckets t l (r1\<lparr>waitpdu := (waitpdu r1)[i := qs]\<rparr>) need1 (i + 1) n = Some (r, need')"
    by (auto split: bind_splits)
  from Suc.IH [OF r1(2)] have "no_new_part (outqueue r1) (outqueue r)" by simp
  then show ?case by (rule no_new_part_trans [OF scan_bucket_parts [OF r1(1)]])
qed simp

lemma timeout_scan_parts:
  "rpc_timeout_scan t rpc = Some (r, ret) \<Longrightarrow> no_new_part (outqueue rpc) (outqueue r)"
  by (auto simp: rpc_timeout_scan_def Let_def split: if_splits bind_splits
      dest!: scan_outqueue_parts scan_buckets_parts) (erule (1) no_new_part_trans)+

section \<open>The invariant\<close>

text \<open>
  A request as the library makes it, with a callback and without zero-copy buffers; and a
  client on a stream between two records, whose requests have distinct xids.
\<close>

definition req_ok :: "'r pdu \<Rightarrow> bool" where
  "req_ok q \<longleftrightarrow> pdu_sendable q \<and> \<not> zc q \<and> has_cb q \<and> \<not> free_pdu q"

definition base_ok :: "'r rpc \<Rightarrow> bool" where
  "base_ok rpc \<longleftrightarrow> \<not> is_server_context rpc \<and> \<not> is_udp rpc \<and> \<not> socket_disabled rpc \<and>
     int_range (timeout rpc * retrans rpc)"

definition between_records :: "'r rpc \<Rightarrow> bool" where
  "between_records rpc \<longleftrightarrow> istate rpc = READ_RM \<and> inpos rpc = 0 \<and> fragments rpc = [] \<and>
     length (inbuf rpc) < 2 ^ 32 \<and> cur_pdu rpc = None"

definition xids_distinct :: "'r rpc \<Rightarrow> bool" where
  "xids_distinct rpc \<longleftrightarrow> (\<forall>x. count (image_mset pxid (queued rpc)) x \<le> 1)"

definition sys_ok :: "'r rpc \<Rightarrow> bool" where
  "sys_ok rpc \<longleftrightarrow> wait_ok rpc \<and> (\<forall>q \<in># queued rpc. req_ok q) \<and>
     (\<forall>p \<in> set (outqueue rpc). num_done (out p) < total_size (out p)) \<and> fresh_tail (outqueue rpc) \<and>
     xids_distinct rpc \<and> between_records rpc \<and> base_ok rpc"

lemma conf_base: "conf r = conf rpc \<Longrightarrow> base_ok r = base_ok rpc"
  by (simp add: conf_def base_ok_def)

lemma inp_between: "inp r = inp rpc \<Longrightarrow> between_records r = between_records rpc"
  by (simp add: inp_def between_records_def)

lemma in_queued: "p \<in> set (outqueue rpc) \<union> set (waiting rpc) \<Longrightarrow> request p \<in># queued rpc"
  by (auto simp: queued_def)

lemma zc_request [simp]: "zc (request p) = zc p"
  by (simp add: zc_def)

lemma sendable_request: "pdu_sendable (request p) \<Longrightarrow> num_done (out p) < total_size (out p) \<Longrightarrow> pdu_sendable p"
  by (simp add: pdu_sendable_def wire_def request_def)

lemma total_request [simp]: "total_size (out (request p)) = total_size (out p)" "num_done (out (request p)) = 0"
  by (simp_all add: request_def)

lemma sys_ok_requests:
  assumes "sys_ok rpc" "p \<in> set (outqueue rpc) \<union> set (waiting rpc)"
  shows "req_ok (request p)" "\<not> zc p" "has_cb p" "\<not> free_pdu p" "can_rewind p"
  using assms in_queued [OF assms(2)] by (auto simp: sys_ok_def req_ok_def can_rewind_def zc_def)

lemma sys_ok_sendq: "sys_ok rpc \<Longrightarrow> sendq_ok rpc"
  using sys_ok_requests(1) sendable_request unfolding sendq_ok_def sys_ok_def req_ok_def by (metis UnCI)

lemma sys_ok_idle: "sys_ok rpc \<Longrightarrow> idle rpc"
  using sys_ok_requests(2) [of rpc]
  by (auto simp: idle_def no_zc_def sys_ok_def between_records_def base_ok_def)

lemma sub_xids: "queued r \<subseteq># queued rpc \<Longrightarrow> xids_distinct rpc \<Longrightarrow> xids_distinct r"
  unfolding xids_distinct_def by (meson image_mset_subseteq_mono le_trans mset_subset_eq_count)

text \<open>What remains to be shown of a step that adds no request.\<close>

lemma sys_ok_step:
  assumes "sys_ok rpc" "wait_ok r" "queued r \<subseteq># queued rpc" "no_new_part (outqueue rpc) (outqueue r)"
    "between_records r" "conf r = conf rpc"
  shows "sys_ok r"
proof -
  have q: "\<forall>q \<in># queued r. req_ok q" using assms(1,3) by (auto simp: sys_ok_def dest: mset_subset_eqD)
  have "num_done (out p) < total_size (out p)" if p: "p \<in> set (outqueue r)" for p
  proof (cases "num_done (out p) = 0")
    case True
    have "req_ok (request p)" using q in_queued [of p r] p by auto
    then show ?thesis using True by (auto simp: req_ok_def pdu_sendable_def)
  next
    case False
    then obtain p0 where "p0 \<in> set (outqueue rpc)" "out p = out p0"
      using assms(4) p by (auto simp: no_new_part_def)
    then show ?thesis using assms(1) by (auto simp: sys_ok_def)
  qed
  then show ?thesis
    using assms q sub_xids [OF assms(3)] conf_base [OF assms(6)] by (auto simp: sys_ok_def no_new_part_def)
qed

section \<open>The ledger of callbacks\<close>

fun cb_of :: "'r event \<Rightarrow> nat option" where
  "cb_of (Cb i st v) = Some i"
| "cb_of _ = None"

definition callbacks :: "'r event list \<Rightarrow> nat multiset" where
  "callbacks es = mset (List.map_filter cb_of es)"

lemma callbacks_simps [simp]:
  "callbacks [] = {#}" "callbacks (es @ es') = callbacks es + callbacks es'"
  "callbacks (Cb i st v # es) = add_mset i (callbacks es)" "callbacks (Freed i # es) = callbacks es"
  "callbacks (Closed n # es) = callbacks es" "callbacks (Connect_Cb st # es) = callbacks es"
  by (simp_all add: callbacks_def map_filter_def)

lemma callbacks_closed: "\<forall>e \<in> set es. \<exists>n. e = Closed n \<Longrightarrow> callbacks es = {#}"
  by (induction es) (auto simp: callbacks_def map_filter_def)

lemma callbacks_reply [simp]: "callbacks [reply_event p msg, Freed (pid p)] = {#pid p#}"
  by (simp add: reply_event_def)

lemma callbacks_purge:
  "\<forall>p \<in> set ps. has_cb p \<Longrightarrow> callbacks (concat (map (purge_events st) ps)) = mset (map pid ps)"
  by (induction ps) (auto simp: purge_events_def)

text \<open>The requests that are completed or still queued.\<close>

definition ledger :: "'r rpc \<Rightarrow> nat multiset" where
  "ledger rpc = callbacks (evlog rpc) + image_mset pid (queued rpc)"

section \<open>Steps\<close>

lemma queue_step:
  assumes "sys_ok rpc" "fresh_pdu p" "has_cb p" "\<not> free_pdu p" "\<not> zc p" "pxid p \<notin># image_mset pxid (queued rpc)"
    and r: "rpc_queue_pdu now ws u rpc p = Some (bs, rpc', ret)"
  shows "sys_ok rpc' \<and> ledger rpc' = add_mset (pid p) (ledger rpc)"
proof -
  have b: "wait_ok rpc" "\<not> is_udp rpc" "int_range (timeout rpc * retrans rpc)" "fresh_tail (outqueue rpc)"
    using assms(1) by (auto simp: sys_ok_def base_ok_def)
  have t: "pdu_set_timeout now rpc p 0 \<noteq> None" by (rule set_timeout_defined [OF b(3)])
  obtain q where q: "ret = 0" "wait_ok rpc'" "sendq_ok rpc'" "queued rpc' = add_mset (request q) (queued rpc)"
    "pdu_sendable q" "num_done (out q) = 0" "reply_side q = reply_side p"
    "evlog rpc' = evlog rpc" "conf rpc' = conf rpc" "inp rpc' = inp rpc"
    using queue_pdu_frames [OF b(1) sys_ok_sendq [OF assms(1)] b(2) assms(2) t, of ws u] r by auto
  have f: "pid q = pid p" "pxid q = pxid p" "has_cb q" "\<not> free_pdu q" "\<not> zc q"
    using q(7) assms(3-5) by (simp_all add: reply_side_def zc_def)
  have "req_ok (request q)"
    using q(5,6) f by (auto simp: req_ok_def pdu_sendable_def wire_def request_def zc_def readv_cursor_def)
  moreover have "count (image_mset pxid (queued rpc)) (pxid p) = 0" using assms(6) by (simp only: not_in_iff)
  then have "xids_distinct rpc'"
    using assms(1) f(2) q(4) by (auto simp: sys_ok_def xids_distinct_def)
  moreover have "fresh_tail (outqueue rpc')"
    using queue_pdu_tail [of now ws u rpc p bs rpc'] r q(1) b(2,4) by simp
  ultimately have "sys_ok rpc'"
    using q assms(1) conf_base [OF q(9)] inp_between [OF q(10)]
    by (auto simp: sys_ok_def sendq_ok_def pdu_sendable_def)
  then show ?thesis using q(4,8) f(1) by (simp add: ledger_def)
qed

lemma write_step:
  assumes "sys_ok rpc"
  shows "\<exists>bs rpc' ret. rpc_write_to_socket ws rpc = Some (bs, rpc', ret) \<and> sys_ok rpc' \<and> ledger rpc' = ledger rpc"
proof -
  have w: "wait_ok rpc" "fresh_tail (outqueue rpc)" using assms by (auto simp: sys_ok_def)
  obtain bs rpc' ret where r: "rpc_write_to_socket ws rpc = Some (bs, rpc', ret)" "wait_ok rpc'" "sendq_ok rpc'"
    "kept rpc rpc'"
    using write_to_socket_stream [OF w(1) sys_ok_sendq [OF assms], of ws] by blast
  have "sys_ok rpc'"
    using r assms write_to_socket_tail [OF r(1) w(2)] conf_base [of rpc' rpc] inp_between [of rpc' rpc]
    by (auto simp: sys_ok_def kept_def xids_distinct_def sendq_ok_def pdu_sendable_def)
  then show ?thesis using r(1,4) by (auto simp: ledger_def kept_def)
qed

lemma scan_step:
  assumes "sys_ok rpc"
  shows "\<exists>rpc' ret. rpc_timeout_scan t rpc = Some (rpc', ret) \<and> sys_ok rpc' \<and> ledger rpc' = ledger rpc"
proof -
  have w: "wait_ok rpc" "int_range (timeout rpc * retrans rpc)" "\<forall>p \<in> set (waiting rpc). can_rewind p"
    using assms sys_ok_requests(5) [OF assms] by (auto simp: sys_ok_def base_ok_def)
  obtain rpc' ret tos where r: "rpc_timeout_scan t rpc = Some (rpc', ret)" "wait_ok rpc'"
    "queued rpc = queued rpc' + mset (map request tos)"
    "evlog rpc' = evlog rpc @ concat (map (purge_events RPC_STATUS_TIMEOUT) tos)" "conf rpc' = conf rpc" "inp rpc' = inp rpc"
    using timeout_scan_accounts [OF w, of t] by blast
  have "has_cb p" if "p \<in> set tos" for p
  proof -
    have "request p \<in># queued rpc" using r(3) that by simp
    then show ?thesis using assms by (auto simp: sys_ok_def req_ok_def)
  qed
  then have "ledger rpc' = ledger rpc"
    using r(3,4) by (simp add: ledger_def callbacks_purge multiset.map_comp comp_def)
  moreover have "sys_ok rpc'"
    using assms r timeout_scan_parts [OF r(1)] inp_between [OF r(6)]
    by (intro sys_ok_step [OF assms]) (auto simp: sys_ok_def)
  ultimately show ?thesis using r(1) by blast
qed

text \<open>A step that touches neither the queues nor the reader.\<close>

lemma sys_ok_same:
  assumes "sys_ok rpc" "waitpdu r = waitpdu rpc" "waitpdu_len r = waitpdu_len rpc" "outqueue r = outqueue rpc"
    "inp r = inp rpc" "base_ok r"
  shows "sys_ok r" "queued r = queued rpc"
proof -
  show q: "queued r = queued rpc" using assms(2,4) by (simp add: queued_def waiting_def)
  show "sys_ok r"
    using assms(1,4,6) q wait_ok_cong [OF assms(2,3)] inp_between [OF assms(5)]
    by (simp add: sys_ok_def xids_distinct_def)
qed

lemma connect_step:
  assumes "sys_ok rpc" and r: "rpc_connect_async env ofs ai rpc port cb = (rpc', ofs', ret)"
  shows "sys_ok rpc' \<and> ledger rpc' = ledger rpc"
proof -
  have b: "base_ok rpc" using assms(1) by (simp add: sys_ok_def)
  have "\<exists>evs. (\<forall>e \<in> set evs. \<exists>n. e = Closed n) \<and> evlog rpc' = evlog rpc @ evs \<and> waitpdu rpc' = waitpdu rpc \<and>
      waitpdu_len rpc' = waitpdu_len rpc \<and> outqueue rpc' = outqueue rpc \<and> inp rpc' = inp rpc \<and> base_ok rpc'"
  proof (cases "rpc' = rpc")
    case True
    then show ?thesis using b by (intro exI [of _ "[]"]) simp
  next
    case False
    obtain rpc1 ret1 where s: "rpc_set_sockaddr ai (rpc\<lparr>auto_reconnect := 0\<rparr>) port = (rpc1, ret1)" by force
    then have rpc1: "rpc1 = rpc\<lparr>auto_reconnect := 0, peer := peer rpc1\<rparr>"
      by (auto simp: rpc_set_sockaddr_def split: option.splits prod.splits if_splits)
    have k: "evlog rpc1 = evlog rpc" "waitpdu rpc1 = waitpdu rpc" "waitpdu_len rpc1 = waitpdu_len rpc"
      "outqueue rpc1 = outqueue rpc" "inp rpc1 = inp rpc" "base_ok rpc1 = base_ok rpc"
      by (subst rpc1, simp add: inp_def base_ok_def)+
    obtain n nb o2 evs ret2 where c: "rpc_connect_sockaddr_async env ofs (rpc1\<lparr>connect_cb := cb\<rparr>) =
        ((rpc1\<lparr>connect_cb := cb\<rparr>)\<lparr>fd := n, is_nonblocking := nb, evlog := evlog (rpc1\<lparr>connect_cb := cb\<rparr>) @ evs\<rparr>, o2, ret2)"
      "\<forall>e \<in> set evs. \<exists>n. e = Closed n"
      using connect_frame by blast
    have "rpc' = rpc1 \<or> rpc' = (rpc1\<lparr>connect_cb := cb\<rparr>)\<lparr>fd := n, is_nonblocking := nb, evlog := evlog rpc @ evs\<rparr>"
      using r False s c(1) k(1) by (auto simp: rpc_connect_async_def split: if_splits)
    then show ?thesis
    proof
      assume "rpc' = rpc1"
      then show ?thesis using b k by (intro exI [of _ "[]"]) simp
    next
      assume "rpc' = (rpc1\<lparr>connect_cb := cb\<rparr>)\<lparr>fd := n, is_nonblocking := nb, evlog := evlog rpc @ evs\<rparr>"
      then show ?thesis using b c(2) k by (intro exI [of _ evs]) (simp add: inp_def base_ok_def)
    qed
  qed
  then obtain evs where "\<forall>e \<in> set evs. \<exists>n. e = Closed n" "evlog rpc' = evlog rpc @ evs" "waitpdu rpc' = waitpdu rpc"
    "waitpdu_len rpc' = waitpdu_len rpc" "outqueue rpc' = outqueue rpc" "inp rpc' = inp rpc" "base_ok rpc'" by blast
  then show ?thesis
    using sys_ok_same [OF assms(1), of rpc'] callbacks_closed [of evs] by (simp add: ledger_def)
qed

lemma connected_step:
  assumes "sys_ok rpc" and r: "maybe_call_connect_cb env ofs (rpc\<lparr>is_connected := True\<rparr>) RPC_STATUS_SUCCESS = Some (rpc', ofs')"
  shows "sys_ok rpc' \<and> ledger rpc' = ledger rpc"
proof -
  have b: "base_ok rpc" using assms(1) by (simp add: sys_ok_def)
  have "waitpdu rpc' = waitpdu rpc \<and> waitpdu_len rpc' = waitpdu_len rpc \<and> outqueue rpc' = outqueue rpc \<and>
      inp rpc' = inp rpc \<and> base_ok rpc' \<and> callbacks (evlog rpc') = callbacks (evlog rpc)"
    using r b by (auto simp: maybe_call_connect_cb_def reconnect_cb_def log_event_def inp_def base_ok_def
        split: connect_cb.splits)
  then show ?thesis using sys_ok_same [OF assms(1), of rpc'] by (simp add: ledger_def)
qed

lemma resiliency_step:
  assumes "sys_ok rpc" "int_range (msecs * n)"
  shows "sys_ok (rpc_set_resiliency rpc k msecs n) \<and> ledger (rpc_set_resiliency rpc k msecs n) = ledger rpc"
proof -
  let ?r = "rpc_set_resiliency rpc k msecs n"
  have "waitpdu ?r = waitpdu rpc" "waitpdu_len ?r = waitpdu_len rpc" "outqueue ?r = outqueue rpc" "inp ?r = inp rpc"
    "base_ok ?r" "evlog ?r = evlog rpc"
    using assms by (simp_all add: rpc_set_resiliency_def inp_def sys_ok_def base_ok_def)
  then show ?thesis using sys_ok_same [OF assms(1), of ?r] by (simp add: ledger_def)
qed

text \<open>All requests are failed.\<close>

lemma purge_callbacks:
  assumes "sys_ok rpc"
  shows "callbacks (evlog (rpc_purge_all_pdus st rpc)) = ledger rpc"
proof -
  have "\<forall>p \<in> set (outqueue rpc @ waiting rpc). has_cb p" using sys_ok_requests(3) [OF assms] by auto
  from callbacks_purge [OF this, of st] show ?thesis
    by (simp add: purge_all_alt ledger_def queued_def multiset.map_comp comp_def)
qed

lemma purged_queues:
  "outqueue (rpc_purge_all_pdus st rpc) = []" "waiting (rpc_purge_all_pdus st rpc) = []"
  "inp (rpc_purge_all_pdus st rpc) = inp rpc" "conf (rpc_purge_all_pdus st rpc) = conf rpc"
  by (simp_all add: purge_all_alt waiting_def inp_def conf_def)

lemma reconnect_step:
  assumes "sys_ok rpc" "auto_reconnect rpc \<noteq> 0 \<or> waiting rpc = []"
    and r: "rpc_reconnect_requeue env ofs rpc = Some (rpc', ofs', ret)"
  shows "sys_ok rpc' \<and> ledger rpc' = ledger rpc"
proof (cases "auto_reconnect rpc = 0")
  case True
  then have e: "rpc' = rpc_purge_all_pdus RPC_STATUS_ERROR rpc"
    using r by (simp add: rpc_reconnect_requeue_def rpc_error_all_pdus_def)
  have w: "waiting rpc = []" using assms(2) True by simp
  have "waitpdu_len rpc = 0" using assms(1) w by (simp add: sys_ok_def wait_ok_def len_ok_def)
  then have "wait_ok rpc'"
    using assms(1) by (simp add: e purge_all_alt sys_ok_def wait_ok_def buckets_ok_def len_ok_def waiting_def)
  then have "sys_ok rpc'"
    using assms(1) purged_queues [of RPC_STATUS_ERROR rpc] inp_between [of rpc' rpc] unfolding e [symmetric]
    by (intro sys_ok_step [OF assms(1)]) (auto simp: queued_def no_new_part_def fresh_tail_def sys_ok_def)
  then show ?thesis
    using purge_callbacks [OF assms(1), of RPC_STATUS_ERROR] purged_queues(1,2) [of RPC_STATUS_ERROR rpc]
    unfolding e by (simp add: ledger_def queued_def)
next
  case False
  have w: "wait_ok rpc" "\<forall>p \<in> set (waiting rpc) \<union> set_option (cur_pdu rpc). can_rewind p"
    "\<forall>p \<in> set (List.tl (outqueue rpc)). num_done (out p) = 0" "all_pdus rpc = outqueue rpc @ waiting rpc"
    using assms(1) sys_ok_requests(5) [OF assms(1)]
    by (auto simp: sys_ok_def between_records_def fresh_tail_def all_pdus_def)
  obtain q evs where q: "mset (map request q) = queued rpc" "\<forall>p \<in> set q. num_done (out p) = 0"
    "\<forall>e \<in> set evs. \<exists>n. e = Closed n" "waiting rpc' = []" "wait_ok rpc'" "conf rpc' = conf rpc"
    "inp rpc' = (READ_RM, 0, [], inbuf rpc, None)"
    "outqueue rpc' = q \<and> evlog rpc' = evlog rpc @ evs \<or>
     outqueue rpc' = [] \<and> evlog rpc' = evlog rpc @ evs @ concat (map (purge_events RPC_STATUS_ERROR) q)"
    using reconnect_outcomes [OF w(1) False w(2,3) r] unfolding w(4) queued_def by blast
  have b: "between_records rpc'" using q(7) assms(1) by (simp add: inp_def between_records_def sys_ok_def)
  have n: "outqueue rpc' = q \<Longrightarrow> no_new_part (outqueue rpc) (outqueue rpc')" "no_new_part (outqueue rpc) []"
    using q(2) list.set_sel(2) [of q] by (auto simp: no_new_part_def fresh_tail_def) (metis list.set_sel(2) empty_iff list.set(1) tl_Nil)
  have cb: "has_cb p" if "p \<in> set q" for p
  proof -
    have "request p \<in># queued rpc" using that q(1) by (metis image_eqI list.set_map set_mset_mset)
    then show ?thesis using assms(1) by (auto simp: sys_ok_def req_ok_def)
  qed
  have p: "image_mset pid (queued rpc) = mset (map pid q)"
    unfolding q(1) [symmetric] by (simp add: multiset.map_comp comp_def)
  from q(8) show ?thesis
  proof
    assume o: "outqueue rpc' = q \<and> evlog rpc' = evlog rpc @ evs"
    then have s: "queued rpc' = queued rpc" using q(1,4) by (simp add: queued_def)
    then show ?thesis
      using sys_ok_step [OF assms(1) q(5) _ n(1) b q(6)] o callbacks_closed [OF q(3)] by (simp add: ledger_def)
  next
    assume o: "outqueue rpc' = [] \<and> evlog rpc' = evlog rpc @ evs @ concat (map (purge_events RPC_STATUS_ERROR) q)"
    then have s: "queued rpc' = {#}" using q(4) by (simp add: queued_def)
    have "sys_ok rpc'" using sys_ok_step [OF assms(1) q(5) _ _ b q(6)] n(2) o s by simp
    then show ?thesis
      using s o callbacks_closed [OF q(3)] callbacks_purge [of q RPC_STATUS_ERROR] cb p by (simp add: ledger_def)
  qed
qed

lemma xids_unique:
  assumes "xids_distinct rpc" "p \<in> set (waiting rpc)"
  shows "\<forall>q \<in> set (outqueue rpc). pxid q \<noteq> pxid p" "\<forall>q \<in> set (waiting rpc). pxid q = pxid p \<longrightarrow> q = p"
proof -
  have "image_mset pxid (queued rpc) = mset (map pxid (outqueue rpc @ waiting rpc))"
    by (simp add: queued_def multiset.map_comp comp_def)
  then have "count (mset (map pxid (outqueue rpc @ waiting rpc))) x \<le> 1" for x
    using assms(1) unfolding xids_distinct_def by metis
  then have d: "distinct (map pxid (outqueue rpc @ waiting rpc))"
    unfolding distinct_count_atmost_1
    by (metis count_eq_zero_iff le_antisym less_one not_le set_mset_mset)
  then show "\<forall>q \<in> set (outqueue rpc). pxid q \<noteq> pxid p" using assms(2) by (auto simp: distinct_map)
  show "\<forall>q \<in> set (waiting rpc). pxid q = pxid p \<longrightarrow> q = p"
    using d assms(2) by (auto simp: distinct_map inj_on_def)
qed

text \<open>The record of a well-formed reply to a waiting request, which the pieces make up.\<close>

definition reply_record :: "'r pdu \<Rightarrow> 'r rpc_msg \<Rightarrow> ('r \<Rightarrow> byte list) \<Rightarrow> ('r \<Rightarrow> bool) \<Rightarrow> ('r \<Rightarrow> bool) \<Rightarrow> byte list list \<Rightarrow> bool" where
  "reply_record p msg enc ok blank cs \<longleftrightarrow>
     (\<exists>f. zdr_decode_fn p = Some f \<and> blank (zdr_decode_buf p) \<and> zdr_codec f enc ok blank \<and> msg_sendable f ok msg) \<and>
     direction msg = REPLY \<and> msg_xid msg = pxid p \<and> length (msg_enc enc msg) \<le> 4 * 1024 * 1024 + 4096 \<and>
     concat cs = be32 (recordmarker (int (length (msg_enc enc msg)))) @ msg_enc enc msg \<and> [] \<notin> set cs"

lemma deliver_step:
  assumes "sys_ok rpc" "p \<in> set (waiting rpc)" "reply_record p msg enc ok blank cs" "2 ^ 31 \<le> heap"
  shows "\<exists>rpc'. outcome (rpc_read_from_socket heap now call rs old rpc m (map Bytes cs)) = Some (0, rpc', m, 0) \<and>
    sys_ok rpc' \<and> ledger rpc' = ledger rpc \<and> evlog rpc' = evlog rpc @ [reply_event p msg, Freed (pid p)]"
proof -
  note u = xids_unique [OF _ assms(2)]
  have w: "wait_ok rpc" "xids_distinct rpc" using assms(1) by (auto simp: sys_ok_def)
  obtain f where f: "zdr_decode_fn p = Some f" "blank (zdr_decode_buf p)" "zdr_codec f enc ok blank" "msg_sendable f ok msg"
    "direction msg = REPLY" "msg_xid msg = pxid p" "length (msg_enc enc msg) \<le> 4 * 1024 * 1024 + 4096"
    "concat cs = be32 (recordmarker (int (length (msg_enc enc msg)))) @ msg_enc enc msg" "[] \<notin> set cs"
    using assms(3) by (auto simp: reply_record_def)
  have p: "has_cb p" "\<not> free_pdu p" using sys_ok_requests(3,4) [OF assms(1), of p] assms(2) by auto
  obtain rpc' where q: "evlog rpc' = evlog rpc @ [reply_event p msg, Freed (pid p)]"
    "mset (waiting rpc) = add_mset p (mset (waiting rpc'))"
    "wait_ok rpc'" "outqueue rpc' = outqueue rpc" "conf rpc' = conf rpc" "idle rpc'" "cur_pdu rpc' = None"
    "outcome (rpc_read_from_socket heap now call rs old rpc m (map Bytes cs)) = Some (0, rpc', m, 0)"
    using read_delivers [OF sys_ok_idle [OF assms(1)] w(1) assms(2) u(1) [OF w(2)] u(2) [OF w(2)] f(1,2) p f(3-7) assms(4) f(8,9),
        of now call rs old m] by blast
  have s: "queued rpc = add_mset (request p) (queued rpc')"
    using arg_cong [OF q(2), of "image_mset request"] q(4) by (simp add: queued_def)
  then have "sys_ok rpc'"
    using assms(1) q by (intro sys_ok_step [OF assms(1)]) (auto simp: idle_def between_records_def)
  then show ?thesis using q(1,8) s by (auto simp: ledger_def)
qed

text \<open>A record whose xid no request has.\<close>

definition pxid_free :: "'r rpc \<Rightarrow> u32 \<Rightarrow> bool" where
  "pxid_free rpc x \<longleftrightarrow> (\<forall>q \<in> set (outqueue rpc) \<union> set (waiting rpc). pxid q \<noteq> x)"

definition stray_record :: "'r rpc \<Rightarrow> byte list list \<Rightarrow> bool" where
  "stray_record rpc cs \<longleftrightarrow> (\<exists>x bs. pxid_free rpc x \<and> 4 \<le> length bs \<and> length bs \<le> 4 * 1024 * 1024 + 4092 \<and>
     concat cs = be32 (recordmarker (int (4 + length bs))) @ be32 x @ bs) \<and> [] \<notin> set cs"

lemma stray_step:
  assumes "sys_ok rpc" "stray_record rpc cs"
    and r: "outcome (rpc_read_from_socket heap now call rs old rpc m (map Bytes cs)) = Some (ret, rpc', m', left)"
  shows "sys_ok rpc' \<and> ledger rpc' = ledger rpc"
proof -
  obtain x bs where x: "\<forall>q \<in> set (outqueue rpc) \<union> set (waiting rpc). pxid q \<noteq> x" "4 \<le> length bs"
    "length bs \<le> 4 * 1024 * 1024 + 4092" "concat cs = be32 (recordmarker (int (4 + length bs))) @ be32 x @ bs" "[] \<notin> set cs"
    using assms(2) by (auto simp: stray_record_def pxid_free_def)
  have i: "idle rpc" "wait_ok rpc" using assms(1) sys_ok_idle [OF assms(1)] by (auto simp: sys_ok_def)
  obtain rpc2 where q: "read_loop heap now call rs rpc m [Bytes (be32 (recordmarker (int (4 + length bs))) @ be32 x @ bs)] =
      Some (0, rpc2, m, [])" "evlog rpc2 = evlog rpc" "waiting rpc2 = waiting rpc" "wait_ok rpc2" "outqueue rpc2 = outqueue rpc"
    "conf rpc2 = conf rpc" "idle rpc2" "cur_pdu rpc2 = None"
    using read_stray [OF i x(1-3), of heap now call rs m] by blast
  have "cs \<noteq> []" using x(4) by (auto simp: be32_def)
  from chunks_concat [OF idle_plain [OF i(1)] x(5) this, of heap now call rs m] have "rpc' = rpc2"
    using r q(1) i(1) unfolding x(4) by (auto simp: rpc_read_from_socket_def idle_def outcome_def)
  moreover have s: "queued rpc2 = queued rpc" using q(3,5) by (simp add: queued_def)
  moreover have "sys_ok rpc2"
    using q s by (intro sys_ok_step [OF assms(1)]) (auto simp: idle_def between_records_def)
  ultimately show ?thesis using q(2) by (simp add: ledger_def)
qed

section \<open>Runs\<close>

text \<open>
  One operation of a client of a stream socket. The second component collects the requests it has
  accepted. The arguments of the operations are what the world contributes: clocks, how much the
  socket takes or delivers, whether a connection can be made. The restrictions are these. A request
  has a callback, no buffer for a zero-copy READ, an xid of its own and only the vectors that
  \<open>rpc_allocate_pdu\<close> gives it (a WRITE has more). A call of \<open>rpc_read_from_socket\<close>
  reads one whole record, cut in any way, that is a well-formed reply to a waiting request or has
  an xid that no request has; no record stays half read between two operations, and a malformed
  reply is not among the steps. A lost connection with requests waiting and reconnection switched
  off leaves the count of waiting requests wrong (\<open>rpc_purge_all_pdus\<close>); it is one of the
  ends of a run and not a step. The timeout and the number of retransmissions are set to values
  whose product is an \<open>int\<close>.
\<close>

inductive rpc_step :: "'r rpc \<times> nat multiset \<Rightarrow> 'r rpc \<times> nat multiset \<Rightarrow> bool" where
  step_queue: "fresh_pdu p \<Longrightarrow> has_cb p \<Longrightarrow> \<not> free_pdu p \<Longrightarrow> \<not> zc p \<Longrightarrow> pxid p \<notin># image_mset pxid (queued rpc) \<Longrightarrow>
    rpc_queue_pdu now ws u rpc p = Some (bs, rpc', ret) \<Longrightarrow> rpc_step (rpc, A) (rpc', add_mset (pid p) A)"
| step_write: "rpc_write_to_socket ws rpc = Some (bs, rpc', ret) \<Longrightarrow> rpc_step (rpc, A) (rpc', A)"
| step_scan: "rpc_timeout_scan t rpc = Some (rpc', ret) \<Longrightarrow> rpc_step (rpc, A) (rpc', A)"
| step_connect: "rpc_connect_async env ofs ai rpc port cb = (rpc', ofs', ret) \<Longrightarrow> rpc_step (rpc, A) (rpc', A)"
| step_connected: "maybe_call_connect_cb env ofs (rpc\<lparr>is_connected := True\<rparr>) RPC_STATUS_SUCCESS = Some (rpc', ofs') \<Longrightarrow>
    rpc_step (rpc, A) (rpc', A)"
| step_reconnect: "auto_reconnect rpc \<noteq> 0 \<or> waiting rpc = [] \<Longrightarrow>
    rpc_reconnect_requeue env ofs rpc = Some (rpc', ofs', ret) \<Longrightarrow> rpc_step (rpc, A) (rpc', A)"
| step_reply: "p \<in> set (waiting rpc) \<Longrightarrow> reply_record p msg enc ok blank cs \<Longrightarrow> 2 ^ 31 \<le> heap \<Longrightarrow>
    outcome (rpc_read_from_socket heap now call rs old rpc m (map Bytes cs)) = Some (ret, rpc', m', left) \<Longrightarrow>
    rpc_step (rpc, A) (rpc', A)"
| step_stray: "stray_record rpc cs \<Longrightarrow>
    outcome (rpc_read_from_socket heap now call rs old rpc m (map Bytes cs)) = Some (ret, rpc', m', left) \<Longrightarrow>
    rpc_step (rpc, A) (rpc', A)"
| step_resiliency: "int_range (msecs * n) \<Longrightarrow> rpc_step (rpc, A) (rpc_set_resiliency rpc k msecs n, A)"

inductive_cases rpc_stepE: "rpc_step s s'"

lemma rpc_step_ok:
  assumes "rpc_step s s'" "sys_ok (fst s)" "ledger (fst s) = snd s"
  shows "sys_ok (fst s') \<and> ledger (fst s') = snd s'"
  using assms
proof (induction rule: rpc_step.induct)
  case (step_queue p rpc now ws u bs rpc' ret A)
  then show ?case using queue_step [of rpc p now ws u bs rpc' ret] by simp
next
  case (step_write ws rpc bs rpc' ret A)
  then show ?case using write_step [of rpc ws] by auto
next
  case (step_scan t rpc rpc' ret A)
  then show ?case using scan_step [of rpc t] by auto
next
  case (step_connect env ofs ai rpc port cb rpc' ofs' ret A)
  then show ?case using connect_step [of rpc env ofs ai port cb rpc' ofs' ret] by simp
next
  case (step_connected env ofs rpc rpc' ofs' A)
  then show ?case using connected_step [of rpc env ofs rpc' ofs'] by simp
next
  case (step_reconnect rpc env ofs rpc' ofs' ret A)
  then show ?case using reconnect_step [of rpc env ofs rpc' ofs' ret] by simp
next
  case (step_reply p rpc msg enc ok blank cs heap now call rs old m ret rpc' m' left A)
  then show ?case using deliver_step [of rpc p msg enc ok blank cs heap now call rs old m] by auto
next
  case (step_stray rpc cs heap now call rs old m ret rpc' m' left A)
  then show ?case using stray_step [of rpc cs heap now call rs old m ret rpc' m' left] by simp
next
  case (step_resiliency msecs n rpc A k)
  then show ?case using resiliency_step [of rpc msecs n k] by simp
qed

lemma run_ok:
  assumes "rpc_step\<^sup>*\<^sup>* (rpc0, A0) (rpc, A)" "sys_ok rpc0" "ledger rpc0 = A0"
  shows "sys_ok rpc \<and> ledger rpc = A"
proof -
  have "sys_ok (fst s) \<and> ledger (fst s) = snd s" if "rpc_step\<^sup>*\<^sup>* (rpc0, A0) s" for s
    using that assms(2,3) by (induction rule: rtranclp_induct) (auto dest: rpc_step_ok)
  from this [OF assms(1)] show ?thesis by simp
qed

lemma init_ok:
  assumes "rpc_init_context salt now pidn u g = Some (Some (rpc, s))"
  shows "sys_ok rpc" "queued rpc = {#}" "evlog rpc = []"
proof -
  obtain a where r: "rpc = (rpc_set_hash_size zero_rpc DEFAULT_HASHES)
      \<lparr>inpos := 0, istate := READ_RM, auth := a, xid := salt + ucast now + push_bit 16 pidn,
       fd := -1, tcp_syncnt := RPC_PARAM_UNDEFINED, uid := sint u, gid := sint g, outqueue := [], max_waitpdu_len := 0,
       timeout := 60 * 1000, retrans := 0, poll_timeout := 100\<rparr>"
    using assms by (auto simp: rpc_init_context_def split: bind_splits option.splits)
  have w: "waitpdu rpc = replicate 4 []" "waitpdu_len rpc = 0" "outqueue rpc = []"
    by (simp_all add: r rpc_set_hash_size_def DEFAULT_HASHES_def zero_rpc_def)
  then show q: "queued rpc = {#}" by (simp add: queued_def waiting_def)
  show "evlog rpc = []" by (simp add: r rpc_set_hash_size_def zero_rpc_def)
  have "wait_ok rpc" by (auto simp: wait_ok_def buckets_ok_def len_ok_def waiting_def w)
  moreover have "between_records rpc" "base_ok rpc"
    by (simp_all add: between_records_def base_ok_def r rpc_set_hash_size_def zero_rpc_def int_range_def)
  ultimately show "sys_ok rpc" using q w(3) by (simp add: sys_ok_def xids_distinct_def fresh_tail_def)
qed

lemma init_defined: "\<exists>rpc s. rpc_init_context salt now pidn u g = Some (Some (rpc, s))"
  using authunix_create_ok [of "[108, 105, 98, 110, 102, 115]" 0 "[]" "ucast now" u g]
  by (simp add: rpc_init_context_def libnfs_authunix_create_default_def)

lemma destroy_callbacks:
  assumes "sys_ok rpc"
  shows "callbacks (evlog (rpc_destroy_context rpc)) = ledger rpc"
  using purge_callbacks [OF assms, of RPC_STATUS_CANCEL]
  by (simp add: rpc_destroy_context_def rpc_free_all_fragments_def Let_def)

text \<open>
  The other ends of a run: nothing is queued any more, each request of the ledger was called back
  once, and destroying the context calls nothing.
\<close>

definition over :: "'r rpc \<Rightarrow> nat multiset \<Rightarrow> bool" where
  "over rpc A \<longleftrightarrow> outqueue rpc = [] \<and> waiting rpc = [] \<and> callbacks (evlog rpc) = A \<and>
     callbacks (evlog (rpc_destroy_context rpc)) = A"

lemma over_iff: "over rpc A \<longleftrightarrow> outqueue rpc = [] \<and> waiting rpc = [] \<and> callbacks (evlog rpc) = A"
  by (auto simp: over_def rpc_destroy_context_def rpc_free_all_fragments_def Let_def purge_all_alt)

lemma purge_over: "over rpc A \<Longrightarrow> over (rpc_purge_all_pdus st rpc) A"
  using purged_queues [of st rpc] by (auto simp: over_iff purge_all_alt)

lemma lost_over:
  assumes "sys_ok rpc" "auto_reconnect rpc = 0"
  shows "\<exists>rpc'. rpc_reconnect_requeue env ofs rpc = Some (rpc', ofs, -1) \<and> over rpc' (ledger rpc)"
  using assms(2) purge_callbacks [OF assms(1)]
  by (simp add: purged_queues rpc_reconnect_requeue_def rpc_error_all_pdus_def over_iff)

lemma disconnect_over:
  assumes "sys_ok rpc" "is_connected rpc"
  shows "\<exists>rpc' ofs'. rpc_disconnect env ofs rpc = Some (rpc', ofs') \<and> over rpc' (ledger rpc)"
proof -
  define r1 where "r1 = (if fd rpc \<noteq> -1 then (log_event rpc (Closed (fd rpc)))\<lparr>fd := -1\<rparr> else rpc)"
  define r2 where "r2 = (rpc_set_resiliency r1 0 (timeout r1) 0)\<lparr>is_connected := False\<rparr>"
  define r3 where "r3 = rpc_purge_all_pdus RPC_STATUS_ERROR r2"
  have c: "\<not> is_server_context rpc" using assms(1) by (simp add: sys_ok_def base_ok_def)
  have r: "is_connected r1" "\<not> is_server_context r2" "auto_reconnect r2 = 0" "outqueue r2 = outqueue rpc"
    "waiting r2 = waiting rpc" "callbacks (evlog r2) = callbacks (evlog rpc)"
    using assms(2) c by (simp_all add: r1_def r2_def rpc_set_resiliency_def log_event_def waiting_def)
  have "\<forall>p \<in> set (outqueue rpc @ waiting rpc). has_cb p" using sys_ok_requests(3) [OF assms(1)] by auto
  from callbacks_purge [OF this, of RPC_STATUS_ERROR] have o: "over r3 (ledger rpc)"
    using r(4-6) purged_queues [of RPC_STATUS_ERROR r2]
    by (simp add: over_iff r3_def) (simp add: purge_all_alt ledger_def queued_def multiset.map_comp comp_def)
  have a: "auto_reconnect r3 = 0" using r(3) by (simp add: r3_def purge_all_alt)
  have d: "rpc_disconnect env ofs rpc = maybe_call_connect_cb env ofs r3 RPC_STATUS_CANCEL"
    using r(1,2) by (simp add: rpc_disconnect_def Let_def r1_def [symmetric] r2_def [symmetric] r3_def rpc_error_all_pdus_def)
  show ?thesis
  proof (cases "connect_cb r3")
    case No_Cb
    then show ?thesis using o by (simp add: d maybe_call_connect_cb_def)
  next
    case User_Cb
    then show ?thesis using o by (simp add: d maybe_call_connect_cb_def over_iff log_event_def waiting_def)
  next
    case Reconnect_Cb
    have "over (r3\<lparr>connect_cb := No_Cb\<rparr>) (ledger rpc)" using o by (simp add: over_iff waiting_def)
    from purge_over [OF this, of RPC_STATUS_ERROR] show ?thesis
      using Reconnect_Cb a
      by (simp add: d maybe_call_connect_cb_def reconnect_cb_def rpc_reconnect_requeue_def rpc_error_all_pdus_def)
  qed
qed

section \<open>Properties\<close>

text \<open>
  C1. Exactly once, for a client of a stream socket. In a run that begins with the creation of the
  context and takes any steps of \<open>rpc_step\<close> in any order (connecting, queueing requests,
  writing as much as the socket takes, receiving whole well-formed replies and records nobody
  waits for in any pieces, scanning for timeouts, reconnecting with success or failure, changing
  the resiliency parameters), at every moment each accepted request is either still queued or had
  its callback called once. When then the context is destroyed, or is disconnected, or loses its
  connection with reconnection switched off, every accepted request has had its callback called
  exactly once. The runs have no zero-copy READ, no WRITE with vectors of its own, no malformed
  reply, no two queued requests with one xid, and no operation between two parts of one record.
\<close>

theorem rpc_run_completes_once:
  assumes "rpc_init_context salt now pidn u g = Some (Some (rpc0, s))" "rpc_step\<^sup>*\<^sup>* (rpc0, {#}) (rpc, A)"
  shows "callbacks (evlog rpc) + image_mset pid (queued rpc) = A \<and> callbacks (evlog (rpc_destroy_context rpc)) = A \<and>
    (is_connected rpc \<longrightarrow> (\<exists>rpc' ofs'. rpc_disconnect env ofs rpc = Some (rpc', ofs') \<and> over rpc' A)) \<and>
    (auto_reconnect rpc = 0 \<longrightarrow> (\<exists>rpc'. rpc_reconnect_requeue env ofs rpc = Some (rpc', ofs, -1) \<and> over rpc' A))"
proof -
  have "ledger rpc0 = {#}" using init_ok [OF assms(1)] by (simp add: ledger_def)
  with run_ok [OF assms(2) init_ok(1) [OF assms(1)]] have "sys_ok rpc" "ledger rpc = A" by simp_all
  then show ?thesis
    using destroy_callbacks [of rpc] disconnect_over [of rpc env ofs] lost_over [of rpc env ofs] by (simp add: ledger_def)
qed

text \<open>
  A run with two requests: the client connects, the first request is written, answered and called
  back, the second is cancelled when the context is destroyed.
\<close>

definition run_pdu :: "nat \<Rightarrow> u32 \<Rightarrow> u32 pdu" where
  "run_pdu i x = (zero_pdu i 0)\<lparr>pxid := x, has_cb := True, zdr_decode_fn := Some libnfs_zdr_u_int,
     pzdr := \<lparr>x_op = ZDR_ENCODE, zbuf = replicate 8 0, zsize = 8, zpos = 8, zmem = [], zheap = 0\<rparr>,
     out := \<lparr>num_done = 0, total_size = 0, iov_capacity = 4,
       vecs = [\<lparr>ov_addr = 0, ov_data = replicate 4 0, ov_free = False\<rparr>,
               \<lparr>ov_addr = 4, ov_data = replicate 8 0, ov_free = False\<rparr>], dyn = False\<rparr>\<rparr>"

lemma run_pdu_fresh: "fresh_pdu (run_pdu i x)" "has_cb (run_pdu i x)" "\<not> free_pdu (run_pdu i x)" "\<not> zc (run_pdu i x)"
  "pid (run_pdu i x) = i" "pxid (run_pdu i x) = x"
proof -
  show "fresh_pdu (run_pdu i x)"
    unfolding fresh_pdu_def
    by (intro conjI exI [of _ "\<lparr>ov_addr = 0, ov_data = replicate 4 0, ov_free = False\<rparr>"]
        exI [of _ "\<lparr>ov_addr = 4, ov_data = replicate 8 0, ov_free = False\<rparr>"] exI [of _ 8])
       (simp_all add: run_pdu_def zero_pdu_def RPC_MAX_VECTORS_def)
qed (simp_all add: run_pdu_def zero_pdu_def zc_def no_cursor_def)

lemma queue_defined:
  assumes "sys_ok rpc" "fresh_pdu p"
  shows "\<exists>bs rpc' ret. rpc_queue_pdu now ws u rpc p = Some (bs, rpc', ret) \<and> evlog rpc' = evlog rpc"
proof -
  have b: "wait_ok rpc" "\<not> is_udp rpc" "int_range (timeout rpc * retrans rpc)"
    using assms(1) by (auto simp: sys_ok_def base_ok_def)
  show ?thesis
    using queue_pdu_frames [OF b(1) sys_ok_sendq [OF assms(1)] b(2) assms(2) set_timeout_defined [OF b(3)], of now ws u] by blast
qed

lemma init_fields:
  assumes "rpc_init_context salt now pidn u g = Some (Some (rpc, s))"
  shows "\<not> is_server_context rpc" "\<not> is_udp rpc" "fd rpc = -1" "old_fd rpc = 0" "ifname rpc = []" "connect_cb rpc = No_Cb"
    "outqueue rpc = []" "waitpdu rpc = replicate 4 []" "max_waitpdu_len rpc = 0" "timeout rpc = 60000" "retrans rpc = 0"
    "\<not> socket_disabled rpc"
  using assms by (auto simp: rpc_init_context_def rpc_set_hash_size_def zero_rpc_def DEFAULT_HASHES_def
      split: bind_splits option.splits)

lemma run_connects:
  assumes "rpc_init_context 0 0 0 0 0 = Some (Some (rpc0 :: u32 rpc, s))"
  shows "\<exists>rpc. rpc_step\<^sup>*\<^sup>* (rpc0, {#}) (rpc, {#}) \<and> fd rpc = 8 \<and> outqueue rpc = [] \<and> waitpdu rpc = replicate 4 [] \<and>
    max_waitpdu_len rpc = 0 \<and> timeout rpc = 60000 \<and> retrans rpc = 0 \<and> \<not> is_udp rpc \<and> \<not> socket_disabled rpc \<and>
    is_connected rpc"
proof -
  note i = init_fields [OF assms]
  let ?a = "\<lparr>sa_family = AF_INET, sa_port = 2049, sa_addr = [127, 0, 0, 1]\<rparr>"
  let ?r1 = "rpc0\<lparr>auto_reconnect := 0, peer := ?a, connect_cb := User_Cb, fd := 8, is_nonblocking := True\<rparr>"
  let ?r2 = "log_event (?r1\<lparr>is_connected := True, connect_cb := No_Cb\<rparr>) (Connect_Cb RPC_STATUS_SUCCESS)"
  obtain ofs where "rpc_connect_async up_env 1 (Some (AF_INET, [127, 0, 0, 1])) rpc0 2049 User_Cb = (?r1, ofs, 0)"
    using i by (simp add: rpc_connect_async_def rpc_connect_sockaddr_async_def rpc_set_sockaddr_def up_env_def Let_def)
  from step_connect [OF this] have "rpc_step (rpc0, {#}) (?r1, {#})" .
  moreover have "maybe_call_connect_cb up_env 1 (?r1\<lparr>is_connected := True\<rparr>) RPC_STATUS_SUCCESS = Some (?r2, 1)"
    by (simp add: maybe_call_connect_cb_def)
  from step_connected [OF this] have "rpc_step (?r1, {#}) (?r2, {#})" .
  ultimately have "rpc_step\<^sup>*\<^sup>* (rpc0, {#}) (?r2, {#})" by (meson converse_rtranclp_into_rtranclp r_into_rtranclp)
  then show ?thesis using i by (intro exI [of _ ?r2]) (simp add: log_event_def)
qed

text \<open>The first request in the output queue, and when all of it was sent.\<close>

definition run_out :: "nat \<Rightarrow> u32 pdu" where
  "run_out n = (run_pdu 10 5)\<lparr>ptimeout := 60001, major_timeout := 60001,
     out := \<lparr>num_done = n, total_size = 12, iov_capacity = 4,
       vecs = [\<lparr>ov_addr = 0, ov_data = be32 (recordmarker 8), ov_free = False\<rparr>,
               \<lparr>ov_addr = 4, ov_data = replicate 8 0, ov_free = False\<rparr>], dyn = False\<rparr>\<rparr>"

lemma run_finish:
  assumes "timeout rpc = 60000" "retrans rpc = 0"
  shows "\<exists>p. finish_pdu 1 rpc (run_pdu 10 5) = Some (Some (p, 8)) \<and> put_marker 8 p = run_out 0 \<and> vecs (out p) \<noteq> [] \<and>
    num_done (out p) = 0"
proof -
  let ?p = "(run_pdu 10 5)\<lparr>ptimeout := 60001, major_timeout := 60001\<rparr>"
  let ?q = "?p\<lparr>out := (out ?p)\<lparr>total_size := 12\<rparr>\<rparr>"
  have "pdu_set_timeout 1 rpc (run_pdu 10 5) 0 = Some ?p"
    using assms by (simp add: pdu_set_timeout_def Let_def run_pdu_def zero_pdu_def int_range_def)
  moreover have "sint (libnfs_zdr_getpos (pzdr ?p)) = 8" "List.tl (vecs (out ?p)) = [\<lparr>ov_addr = 4, ov_data = replicate 8 0, ov_free = False\<rparr>]"
    by (simp_all add: run_pdu_def libnfs_zdr_getpos_def)
  ultimately have "finish_pdu 1 rpc (run_pdu 10 5) = Some (Some (?q, 8))"
    by (simp add: finish_pdu_def Let_def s32_nonneg)
  moreover have "put_marker 8 ?q = run_out 0" "vecs (out ?q) \<noteq> []" "num_done (out ?q) = 0"
    by (simp_all add: put_marker_def run_out_def run_pdu_def)
  ultimately show ?thesis by blast
qed

lemma run_writes:
  assumes "fd rpc = 8" "outqueue rpc = []" "waitpdu rpc = replicate 4 []" "max_waitpdu_len rpc = 0" "timeout rpc = 60000"
    "retrans rpc = 0" "\<not> is_udp rpc" "\<not> socket_disabled rpc"
  shows "\<exists>bs rpc'. rpc_queue_pdu 1 [WCount 12] True rpc (run_pdu 10 5) = Some (bs, rpc', 0) \<and> run_out 12 \<in> set (waiting rpc')"
proof -
  obtain p where p: "finish_pdu 1 rpc (run_pdu 10 5) = Some (Some (p, 8))" "put_marker 8 p = run_out 0" "vecs (out p) \<noteq> []"
    "num_done (out p) = 0"
    using run_finish [OF assms(5,6)] by blast
  let ?r = "rpc\<lparr>outqueue := [run_out 0]\<rparr>" and ?w = "inc_req_sent (rpc\<lparr>outqueue := []\<rparr>)"
  let ?r2 = "add_waiting ?w (run_out 12)"
  have o: "out (run_out 0) = \<lparr>num_done = 0, total_size = 12, iov_capacity = 4,
      vecs = [\<lparr>ov_addr = 0, ov_data = be32 (recordmarker 8), ov_free = False\<rparr>,
              \<lparr>ov_addr = 4, ov_data = replicate 8 0, ov_free = False\<rparr>], dyn = False\<rparr>"
    "\<not> discard_after_sending (run_out 0)" "(run_out 0)\<lparr>out := (out (run_out 0))\<lparr>num_done := 12\<rparr>\<rparr> = run_out 12"
    "pxid (run_out 12) = 5"
    by (simp_all add: run_out_def run_pdu_def zero_pdu_def)
  obtain vio where v: "gather_pdus ?r RPC_FAST_VECTORS [run_out 0] [] None 0 = Some vio" "vio \<noteq> []"
      "length (concat (map snd vio)) = 12"
    by (simp add: o(1) RPC_FAST_VECTORS_def extend_last_def)
  have b: "bucket ?w 5 < length (waitpdu ?w)"
    using assms(3) bucket_less [of ?w 5] by (simp add: inc_req_sent_def)
  have "complete_pdus ?r2 0 = Some (?r2, False)" by (subst complete_pdus.simps) simp
  then have c: "complete_pdus ?r 12 = Some (?r2, False)"
    using b o(2-4) by (subst complete_pdus.simps) (simp add: Let_def o(1) sub64_def)
  have e: "write_loop [] RPC_FAST_VECTORS ?r2 = Some ([], ?r2, 0)"
    by (subst write_loop.simps) (simp add: add_waiting_def inc_req_sent_def)
  have cap: "write_cap RPC_FAST_VECTORS (run_out 0) = RPC_FAST_VECTORS" by (simp add: write_cap_def o(1) RPC_FAST_VECTORS_def)
  have "rpc_write_to_socket [WCount 12] ?r = Some (concat (map snd vio), ?r2, 0)"
    using assms(1,4,8) v c e unfolding rpc_write_to_socket_def
    by (subst write_loop.simps) (simp add: may_send_def cap o(1) RPC_MAX_VECTORS_def)
  then have "rpc_queue_pdu 1 [WCount 12] True rpc (run_pdu 10 5) = Some (concat (map snd vio), ?r2, 0)"
    using p assms(2,7) o(1) by (simp add: rpc_queue_pdu_def Let_def)
  moreover have "run_out 12 \<in> set (waiting ?r2)"
    using b o(4) by (auto simp: add_waiting_def waiting_def inc_req_sent_def bucket_def rpc_hash_xid_def num_hashes_def
        intro!: bexI [OF _ set_update_memI])
  ultimately show ?thesis by blast
qed

lemma run_reply:
  "reply_record (run_out 12) (success_reply 5 libnfs_zdr_u_int 7) be32 (\<lambda>_. True) (\<lambda>_. True)
     [be32 0x8000001c, msg_enc be32 (success_reply 5 libnfs_zdr_u_int 7)]"
proof -
  let ?m = "success_reply 5 libnfs_zdr_u_int 7"
  have m: "msg_sendable libnfs_zdr_u_int (\<lambda>_. True) ?m" "direction ?m = REPLY" "msg_xid ?m = 5"
    by (simp_all add: success_reply_def msg_sendable_def reply_sendable_def accepted_sendable_def auth_sendable_def
        bytes_sendable_def oa_body_def auth_none_def)
  have l: "length (msg_enc be32 ?m) = 28"
    by (simp add: success_reply_def msg_enc_def reply_body_enc_def accepted_enc_def auth_enc_def oa_body_def auth_none_def)
  have "recordmarker 28 = 0x8000001c" by (simp add: recordmarker_def)
  moreover have "msg_enc be32 ?m \<noteq> []" "be32 0x8000001c \<noteq> []" using l by (auto simp: be32_def)
  moreover have "zdr_decode_fn (run_out 12) = Some libnfs_zdr_u_int" "pxid (run_out 12) = 5"
    by (simp_all add: run_out_def run_pdu_def)
  ultimately show ?thesis using m l u_int.zdr_codec_axioms by (auto simp: reply_record_def)
qed

lemma sample_run:
  assumes "rpc_init_context 0 0 0 0 0 = Some (Some (rpc0 :: u32 rpc, s))"
  shows "\<exists>rpc. rpc_step\<^sup>*\<^sup>* (rpc0, {#}) (rpc, {#10, 11#}) \<and> callbacks (evlog rpc) = {#10#}"
proof -
  let ?m = "success_reply 5 libnfs_zdr_u_int 7"
  obtain r1 where r1: "rpc_step\<^sup>*\<^sup>* (rpc0, {#}) (r1, {#})" "fd r1 = 8" "outqueue r1 = []" "waitpdu r1 = replicate 4 []"
    "max_waitpdu_len r1 = 0" "timeout r1 = 60000" "retrans r1 = 0" "\<not> is_udp r1" "\<not> socket_disabled r1"
    using run_connects [OF assms] by blast
  obtain bs r2 where r2: "rpc_queue_pdu 1 [WCount 12] True r1 (run_pdu 10 5) = Some (bs, r2, 0)" "run_out 12 \<in> set (waiting r2)"
    using run_writes [OF r1(2-9)] by blast
  have "pxid (run_pdu 10 5) \<notin># image_mset pxid (queued r1)" using r1(3,4) by (simp add: queued_def waiting_def)
  from step_queue [OF run_pdu_fresh(1-4) this r2(1), of "{#}"] r1(1) have s2: "rpc_step\<^sup>*\<^sup>* (rpc0, {#}) (r2, {#10#})"
    by (simp add: run_pdu_fresh(5))
  have ok: "sys_ok rpc0" "ledger rpc0 = {#}" using init_ok [OF assms] by (simp_all add: ledger_def)
  note o2 = run_ok [OF s2 ok]
  note rec = run_reply
  obtain r3 where r3: "outcome (rpc_read_from_socket (2 ^ 31) 0 (\<lambda>r z. None) (\<lambda>v. v) [] r2 (\<lambda>_. 0)
      (map Bytes [be32 0x8000001c, msg_enc be32 ?m])) = Some (0, r3, (\<lambda>_. 0), 0)" "sys_ok r3" "ledger r3 = ledger r2"
      "evlog r3 = evlog r2 @ [reply_event (run_out 12) ?m, Freed (pid (run_out 12))]"
    using deliver_step [OF _ r2(2) rec order_refl, of 0 "\<lambda>r z. None" "\<lambda>v. v" "[]" "\<lambda>_. 0"] o2 by auto
  have "pid (run_out 12) = 10" by (simp add: run_out_def run_pdu_fresh(5))
  then have c3: "callbacks (evlog r3) = callbacks (evlog r2) + {#10#}" unfolding r3(4) callbacks_simps(2) callbacks_reply by simp
  have s3: "rpc_step\<^sup>*\<^sup>* (rpc0, {#}) (r3, {#10#})"
    using s2 step_reply [OF r2(2) rec order_refl r3(1), of "{#10#}"] by (rule rtranclp.rtrancl_into_rtrancl)
  have "callbacks (evlog r2) + {#10#} + image_mset pid (queued r3) = {#10#}"
    using run_ok [OF s3 ok] by (simp only: ledger_def c3 simp_thms)
  then have x: "callbacks (evlog r3) = {#10#}" "queued r3 = {#}"
    using c3 by simp_all
  obtain bs4 r4 ret where r4: "rpc_queue_pdu 2 [] True r3 (run_pdu 11 6) = Some (bs4, r4, ret)" "evlog r4 = evlog r3"
    using queue_defined [OF r3(2) run_pdu_fresh(1)] by blast
  have "pxid (run_pdu 11 6) \<notin># image_mset pxid (queued r3)" using x(2) by simp
  from step_queue [OF run_pdu_fresh(1-4) this r4(1), of "{#10#}"] s3 have "rpc_step\<^sup>*\<^sup>* (rpc0, {#}) (r4, {#10, 11#})"
    by (simp add: run_pdu_fresh(5) add_mset_commute)
  then show ?thesis using x(1) r4(2) by auto
qed

theorem rpc_run_completes_once_witness:
  "\<exists>(rpc0 :: u32 rpc) s rpc. rpc_init_context 0 0 0 0 0 = Some (Some (rpc0, s)) \<and>
     rpc_step\<^sup>*\<^sup>* (rpc0, {#}) (rpc, {#10, 11#}) \<and> callbacks (evlog rpc) = {#10#} \<and>
     image_mset pid (queued rpc) = {#11#} \<and> callbacks (evlog (rpc_destroy_context rpc)) = {#10, 11#}"
proof -
  obtain rpc0 :: "u32 rpc" and s where i: "rpc_init_context 0 0 0 0 0 = Some (Some (rpc0, s))"
    using init_defined by blast
  obtain rpc where r: "rpc_step\<^sup>*\<^sup>* (rpc0, {#}) (rpc, {#10, 11#})" "callbacks (evlog rpc) = {#10#}"
    using sample_run [OF i] by blast
  from rpc_run_completes_once [OF i r(1)] r(2) have "image_mset pid (queued rpc) = {#11#}"
    "callbacks (evlog (rpc_destroy_context rpc)) = {#10, 11#}" by simp_all
  then show ?thesis using i r by blast
qed

text \<open>
  C13. No undefined behaviour in the runs of \<open>rpc_step\<close>: in every state such a run reaches,
  writing to the socket whatever it takes, scanning for timeouts at any time, queueing a new request
  of the kind \<open>rpc_allocate_pdu\<close> makes, and reading a whole well-formed reply to a waiting
  request return. No assertion fails, no signed sum overflows and no access leaves a buffer. The
  steps suppose that the resiliency parameters are set to values whose product, which
  \<open>pdu_set_timeout\<close> computes, is an \<open>int\<close>, and have the other restrictions stated
  with \<open>rpc_step\<close> (no zero-copy READ, no WRITE with vectors of its own, no half-read
  record, no malformed reply).
\<close>

theorem rpc_run_defined:
  assumes "rpc_init_context salt now pidn u g = Some (Some (rpc0, s))" "rpc_step\<^sup>*\<^sup>* (rpc0, {#}) (rpc, A)"
    and "fresh_pdu p"
  shows "rpc_write_to_socket ws rpc \<noteq> None \<and> rpc_timeout_scan t rpc \<noteq> None \<and> rpc_queue_pdu t ws b rpc p \<noteq> None \<and>
    (\<forall>q \<in> set (waiting rpc). reply_record q msg enc ok blank cs \<longrightarrow> 2 ^ 31 \<le> heap \<longrightarrow>
       rpc_read_from_socket heap t call rs old rpc m (map Bytes cs) \<noteq> None)"
proof -
  have "ledger rpc0 = {#}" using init_ok [OF assms(1)] by (simp add: ledger_def)
  with run_ok [OF assms(2) init_ok(1) [OF assms(1)]] have ok: "sys_ok rpc" by simp
  have "rpc_read_from_socket heap t call rs old rpc m (map Bytes cs) \<noteq> None"
    if "q \<in> set (waiting rpc)" "reply_record q msg enc ok blank cs" "2 ^ 31 \<le> heap" for q
    using deliver_step [OF ok that, of t call rs old m] by (auto simp: outcome_def)
  then show ?thesis
    using ok write_step [of rpc ws] scan_step [of rpc t] queue_defined [of rpc p t ws b] assms(3) by auto
qed

theorem rpc_run_defined_witness:
  "\<exists>(rpc0 :: u32 rpc) s rpc. rpc_init_context 0 0 0 0 0 = Some (Some (rpc0, s)) \<and>
     rpc_step\<^sup>*\<^sup>* (rpc0, {#}) (rpc, {#10, 11#}) \<and> rpc_timeout_scan 5000 rpc \<noteq> None"
proof -
  obtain rpc0 :: "u32 rpc" and s where i: "rpc_init_context 0 0 0 0 0 = Some (Some (rpc0, s))"
    using init_defined by blast
  obtain rpc where r: "rpc_step\<^sup>*\<^sup>* (rpc0, {#}) (rpc, {#10, 11#})" using sample_run [OF i] by blast
  from rpc_run_defined [OF i r run_pdu_fresh(1)] have "rpc_timeout_scan 5000 rpc \<noteq> None" by blast
  then show ?thesis using i r by blast
qed






end
