(* ===== verification/Path.thy ===== *)
theory Path
  imports Prelude "HOL-Library.Sublist"
begin

text \<open>
  Path normalisation of \<open>lib/libnfs.c\<close>: \<open>nfs_normalize_path\<close> rewrites a C string in
  place with a sequence of \<open>strstr\<close> loops. A C string is the list of its characters
  without the terminating NUL; the in-place copies \<open>*str = *(str + n)\<close> become \<open>take\<close> and
  \<open>drop\<close>. The backward scans for a slash answer \<open>None\<close> when they leave the string at its
  front, which is undefined behaviour in C.

  The lemmas relate the loops to lists of path components, and \<open>normal_path\<close> resolves the
  components with a stack; the main theorem says that the string loops compute exactly that.
\<close>

section \<open>The code\<close>

text \<open>\<open>strstr\<close>: the index of the first occurrence of the needle.\<close>

fun strstr :: "string \<Rightarrow> string \<Rightarrow> nat option" where
  "strstr [] n = (if n = [] then Some 0 else None)"
| "strstr (c # cs) n = (if prefix n (c # cs) then Some 0 else map_option Suc (strstr cs n))"

lemma strstr_length: "strstr p n = Some k \<Longrightarrow> k + length n \<le> length p"
  by (induction p n arbitrary: k rule: strstr.induct)
     (auto split: if_splits dest: prefix_length_le)

text \<open>
  The two loops that replace \<open>//\<close> and \<open>/./\<close> by \<open>/\<close>: while the pattern occurs, the text from
  its last slash on is moved over its first one.
\<close>

function squeeze :: "string \<Rightarrow> string \<Rightarrow> string" where
  "squeeze x p =
     (case strstr p (''/'' @ x @ ''/'') of
        None \<Rightarrow> p
      | Some k \<Rightarrow> squeeze x (take k p @ drop (k + 1 + length x) p))"
  by pat_completeness auto
termination
  by (relation "measure (\<lambda>(x, p). length p)") (auto dest!: strstr_length)

declare squeeze.simps [simp del]

text \<open>
  \<open>while (*tmp != '/') tmp--\<close> from index \<open>n\<close> of the string, i.e. on the first \<open>n + 1\<close>
  characters; the argument holds them in reverse.
\<close>

fun back_to_slash :: "string \<Rightarrow> nat option" where
  "back_to_slash [] = None"
| "back_to_slash (c # cs) = (if c = CHR ''/'' then Some (length cs) else back_to_slash cs)"

lemma back_to_slash_less: "back_to_slash r = Some k \<Longrightarrow> k < length r"
  by (induction r) (auto split: if_splits)

datatype norm_error = Starts_with_dotdot | Not_absolute | Became_empty | Is_dotdot

text \<open>The loop \<open>/string/../ -> /\<close>.\<close>

function dotdot_loop :: "string \<Rightarrow> (norm_error + string) option" where
  "dotdot_loop p =
     (case strstr p ''/../'' of
        None \<Rightarrow> Some (Inr p)
      | Some k \<Rightarrow>
          if prefix ''/../'' p then Some (Inl Starts_with_dotdot)
          else case back_to_slash (rev (take k p)) of
                 None \<Rightarrow> None
               | Some t \<Rightarrow> dotdot_loop (take t p @ drop (k + 3) p))"
  by pat_completeness auto
termination
  by (relation "measure length") (auto dest!: strstr_length back_to_slash_less)

declare dotdot_loop.simps [simp del]

text \<open>What follows the loops: the string is cut at its end.\<close>

definition cut_dot :: "string \<Rightarrow> string" where
  "cut_dot p =
     (if 2 \<le> length p \<and> drop (length p - 2) p = ''/.'' then take (length p - 2) p else p)"

definition cut_dotdot :: "string \<Rightarrow> (norm_error + string) option" where
  "cut_dotdot p =
     (if p = ''/..'' then Some (Inl Is_dotdot)
      else if 3 \<le> length p \<and> drop (length p - 3) p = ''/..'' then
        (case back_to_slash (rev (take (length p - 3) p)) of
           None \<Rightarrow> None
         | Some t \<Rightarrow> Some (Inr (take t p)))
      else Some (Inr p))"

definition norm_tail :: "string \<Rightarrow> (norm_error + string) option" where
  "norm_tail p =
     (let p1 = (if 1 < length p \<and> p ! (length p - 1) = CHR ''/'' then butlast p else p) in
      if p1 = [] then Some (Inl Became_empty) else cut_dotdot (cut_dot p1))"

definition nfs_normalize_path :: "string \<Rightarrow> (norm_error + string) option" where
  "nfs_normalize_path path =
     (let p1 = squeeze '''' path;
          p2 = squeeze ''.'' p1 in
      if prefix ''/../'' p2 then Some (Inl Starts_with_dotdot)
      else if p2 = [] \<or> p2 ! 0 \<noteq> CHR ''/'' then Some (Inl Not_absolute)
      else case dotdot_loop p2 of
             None \<Rightarrow> None
           | Some (Inl e) \<Rightarrow> Some (Inl e)
           | Some (Inr p3) \<Rightarrow> norm_tail p3)"

section \<open>The specification\<close>

text \<open>
  An absolute path is a slash before each of its components. Empty components and \<open>.\<close> mean
  nothing, \<open>..\<close> removes the component before it and is an error where there is none.
\<close>

fun comps :: "string \<Rightarrow> string list" where
  "comps [] = [[]]"
| "comps (c # cs) =
     (if c = CHR ''/'' then [] # comps cs
      else case comps cs of [] \<Rightarrow> [[c]] | s # ss \<Rightarrow> (c # s) # ss)"

definition join :: "string list \<Rightarrow> string" where
  "join ss = concat (map (\<lambda>s. CHR ''/'' # s) ss)"

fun resolve :: "string list \<Rightarrow> string list \<Rightarrow> string list option" where
  "resolve st [] = Some (rev st)"
| "resolve st (s # ss) =
     (if s = [] \<or> s = ''.'' then resolve st ss
      else if s = ''..'' then (case st of [] \<Rightarrow> None | _ # st' \<Rightarrow> resolve st' ss)
      else resolve (s # st) ss)"

text \<open>
  The root itself is written \<open>/\<close> when the given path ends in a slash and as the empty string
  otherwise.
\<close>

definition normal_path :: "string \<Rightarrow> string option" where
  "normal_path p =
     (if p = [] \<or> hd p \<noteq> CHR ''/'' then None
      else case resolve [] (comps (tl p)) of
             None \<Rightarrow> None
           | Some [] \<Rightarrow> Some (if last p = CHR ''/'' then ''/'' else '''')
           | Some cs \<Rightarrow> Some (join cs))"

section \<open>Paths as lists of components\<close>

definition noslash :: "string \<Rightarrow> bool" where
  "noslash s \<longleftrightarrow> CHR ''/'' \<notin> set s"

lemma join_simps [simp]:
  "join [] = []" "join (s # ss) = CHR ''/'' # s @ join ss" "join (us @ vs) = join us @ join vs"
  by (simp_all add: join_def)

lemma noslash_lits [simp]: "noslash ''''" "noslash ''.''" "noslash ''..''"
  by (simp_all add: noslash_def)

lemma noslash_Cons [simp]: "noslash (c # s) \<longleftrightarrow> c \<noteq> CHR ''/'' \<and> noslash s"
  by (auto simp: noslash_def)

lemma comps_not_Nil [simp]: "comps p \<noteq> []"
  by (induction p) (auto split: list.splits)

lemma comps_noslash: "\<forall>s\<in>set (comps p). noslash s"
  by (induction p) (auto split: list.splits)

lemma join_comps: "join (comps p) = CHR ''/'' # p"
proof (induction p)
  case (Cons c p)
  then show ?case by (cases "comps p") auto
qed simp

lemma comps_last: "last (comps p) = [] \<longleftrightarrow> p = [] \<or> last p = CHR ''/''"
proof (induction p)
  case (Cons c p)
  then show ?case
    by (cases "comps p"; cases "tl (comps p)"; cases p)
       (auto split: list.splits if_splits)
qed simp

lemma noslash_prefix_slash:
  assumes "noslash s" "noslash x"
  shows "prefix (x @ CHR ''/'' # y) (s @ join ss) \<longleftrightarrow>
         s = x \<and> ss \<noteq> [] \<and> prefix y (hd ss @ join (tl ss))"
  using assms
proof (induction s arbitrary: x)
  case Nil
  then show ?case by (cases x; cases ss) auto
next
  case (Cons c s)
  then show ?case by (cases x) auto
qed

lemma strstr_skip: "noslash s \<Longrightarrow> strstr (s @ p) (CHR ''/'' # n) = map_option ((+) (length s)) (strstr p (CHR ''/'' # n))"
  by (induction s) (cases "strstr p (CHR ''/'' # n)"; auto)+

lemma strstr_join_None:
  "\<forall>s\<in>set ss. noslash s \<Longrightarrow> noslash x \<Longrightarrow> x \<notin> set (butlast ss) \<Longrightarrow>
   strstr (join ss) (''/'' @ x @ ''/'') = None"
proof (induction ss)
  case (Cons s ss)
  have "\<not> prefix (x @ ''/'') (s @ join ss)"
    using Cons.prems by (auto simp: noslash_prefix_slash split: if_splits)
  moreover have "strstr (join ss) (''/'' @ x @ ''/'') = None"
    using Cons by (auto split: if_splits)
  ultimately show ?case using Cons.prems by (simp add: strstr_skip)
qed simp

lemma strstr_join_Some:
  "\<forall>s\<in>set us. noslash s \<Longrightarrow> noslash x \<Longrightarrow> x \<notin> set us \<Longrightarrow> vs \<noteq> [] \<Longrightarrow>
   strstr (join (us @ x # vs)) (''/'' @ x @ ''/'') = Some (length (join us))"
proof (induction us)
  case Nil
  then show ?case by (cases vs) auto
next
  case (Cons s us)
  have "\<not> prefix (x @ ''/'') (s @ join (us @ x # vs))"
    using Cons.prems by (auto simp: noslash_prefix_slash simp del: join_simps(3))
  then show ?case using Cons by (simp add: strstr_skip)
qed

lemma back_to_slash_join:
  "noslash s \<Longrightarrow> back_to_slash (rev s @ CHR ''/'' # r) = Some (length r)"
  by (induction s rule: rev_induct) (auto simp: noslash_def)

lemma back_to_slash_snoc:
  "noslash s \<Longrightarrow> back_to_slash (rev (join (us @ [s]))) = Some (length (join us))"
  using back_to_slash_join [of s "rev (join us)"] by simp

section \<open>The loops on components\<close>

lemma squeeze_join:
  "ss \<noteq> [] \<Longrightarrow> \<forall>s\<in>set ss. noslash s \<Longrightarrow> noslash x \<Longrightarrow>
   squeeze x (join ss) = join (filter (\<lambda>s. s \<noteq> x) (butlast ss) @ [last ss])"
proof (induction "length ss" arbitrary: ss rule: less_induct)
  case less
  show ?case
  proof (cases "x \<in> set (butlast ss)")
    case False
    then have "strstr (join ss) (''/'' @ x @ ''/'') = None"
      using less.prems by (intro strstr_join_None) auto
    moreover have "filter (\<lambda>s. s \<noteq> x) (butlast ss) = butlast ss"
      using False by (auto simp: filter_id_conv)
    ultimately show ?thesis using less.prems by (simp add: squeeze.simps [of x "join ss"])
  next
    case True
    then obtain us vs where bl: "butlast ss = us @ x # vs" "x \<notin> set us"
      by (meson split_list_first)
    obtain s where s: "s = last ss" by simp
    define ws where "ws = vs @ [s]"
    have ss: "ss = us @ x # ws"
      using bl less.prems append_butlast_last_id [of ss] by (simp add: ws_def s)
    have "strstr (join ss) (''/'' @ x @ ''/'') = Some (length (join us))"
      unfolding ss by (rule strstr_join_Some) (use less.prems ss bl in \<open>auto simp: ws_def\<close>)
    then have "squeeze x (join ss) = squeeze x (join (us @ ws))"
      by (simp add: squeeze.simps [of x "join ss"]) (simp add: ss)
    also have "\<dots> = join (filter (\<lambda>s. s \<noteq> x) (butlast (us @ ws)) @ [last (us @ ws)])"
      by (rule less.hyps) (use less.prems ss in \<open>auto simp: ws_def\<close>)
    also have "\<dots> = join (filter (\<lambda>s. s \<noteq> x) (butlast ss) @ [last ss])"
      by (simp add: ss ws_def butlast_append)
    finally show ?thesis .
  qed
qed

definition normal_comp :: "string \<Rightarrow> bool" where
  "normal_comp s \<longleftrightarrow> noslash s \<and> s \<noteq> [] \<and> s \<noteq> ''.'' \<and> s \<noteq> ''..''"

lemma resolve_normal:
  "\<forall>s\<in>set us. normal_comp s \<Longrightarrow> resolve st (us @ vs) = resolve (rev us @ st) vs"
  by (induction us arbitrary: st) (auto simp: normal_comp_def)

lemma resolve_filter:
  "resolve st (filter (\<lambda>s. s \<noteq> ''.'') (filter (\<lambda>s. s \<noteq> []) ss)) = resolve st ss"
  by (induction st ss rule: resolve.induct) (auto split: list.splits)

lemma resolve_normal_comps:
  "resolve st ss = Some cs \<Longrightarrow> \<forall>s\<in>set ss. noslash s \<Longrightarrow> \<forall>s\<in>set st. normal_comp s \<Longrightarrow>
   \<forall>s\<in>set cs. normal_comp s"
proof (induction st ss rule: resolve.induct)
  case (2 st s ss)
  consider "s = [] \<or> s = ''.''" | "s = ''..''" | "normal_comp s"
    using "2.prems"(2) by (auto simp: normal_comp_def)
  then show ?case
  proof cases
    case 1
    then show ?thesis using 2 by simp
  next
    case 2
    then show ?thesis using "2.IH"(2) "2.prems" by (cases st) simp_all
  next
    case 3
    then have "\<not> (s = [] \<or> s = ''.'')" "s \<noteq> ''..''" by (auto simp: normal_comp_def)
    then show ?thesis using "2.IH"(3) "2.prems" 3 by simp
  qed
qed auto

lemma resolve_snoc:
  "resolve st (ss @ [s]) = Option.bind (resolve st ss) (\<lambda>cs. resolve (rev cs) [s])"
  by (induction st ss rule: resolve.induct) (auto split: list.splits)

text \<open>One turn of the loop removes a component and the \<open>..\<close> after it.\<close>

lemma dotdot_loop_step:
  assumes us: "\<forall>u\<in>set (us @ [u]). normal_comp u" and ws: "ws \<noteq> []"
  shows "dotdot_loop (join (us @ u # ''..'' # ws)) = dotdot_loop (join (us @ ws))"
proof -
  define p where "p = join (us @ u # ''..'' # ws)"
  have u: "noslash u" using us by (simp add: normal_comp_def)
  have p: "p = join ((us @ [u]) @ ''..'' # ws)" by (simp add: p_def)
  have str: "strstr p (''/'' @ ''..'' @ ''/'') = Some (length (join (us @ [u])))"
    unfolding p by (rule strstr_join_Some) (use us ws in \<open>auto simp: normal_comp_def\<close>)
  have "\<not> prefix (''..'' @ ''/'') (hd (us @ [u]) @ join (tl (us @ [u]) @ ''..'' # ws))"
    by (subst noslash_prefix_slash) (use us in \<open>auto simp: normal_comp_def hd_append\<close>)
  then have "\<not> prefix ''/../'' p" by (cases us) (simp_all add: p_def)
  moreover have "take (length (join (us @ [u]))) p = join (us @ [u])"
    by (simp add: p)
  then have "back_to_slash (rev (take (length (join (us @ [u]))) p)) = Some (length (join us))"
    using back_to_slash_snoc [OF u, of us] by simp
  moreover have "take (length (join us)) p = join us"
    by (simp add: p_def)
  moreover have "drop (length (join (us @ [u])) + 3) p = join ws"
  proof -
    have "p = (join (us @ [u]) @ ''/..'') @ join ws" by (simp add: p_def)
    moreover have "length (join (us @ [u])) + 3 = length (join (us @ [u]) @ ''/..'')" by simp
    ultimately show ?thesis by (metis append_eq_conv_conj)
  qed
  ultimately show ?thesis
    using str unfolding p_def [symmetric]
    by (simp add: dotdot_loop.simps [of p] del: join_simps(3)) (simp only: join_simps(3))
qed

lemma dotdot_loop_error:
  "ws \<noteq> [] \<Longrightarrow> dotdot_loop (join (''..'' # ws)) = Some (Inl Starts_with_dotdot)"
  using strstr_join_Some [of "[]" "''..''" ws]
  by (cases ws) (simp_all add: dotdot_loop.simps)

lemma dotdot_loop_done:
  assumes "\<forall>s\<in>set (butlast ss). normal_comp s" "ss \<noteq> []" "noslash (last ss)"
  shows "dotdot_loop (join ss) = Some (Inr (join ss))"
proof -
  have "\<forall>s\<in>set ss. noslash s"
    using assms append_butlast_last_id [OF assms(2)]
    by (metis UnE in_set_conv_decomp normal_comp_def set_append empty_iff empty_set set_ConsD)
  then have "strstr (join ss) (''/'' @ ''..'' @ ''/'') = None"
    using assms by (intro strstr_join_None) (auto simp: normal_comp_def)
  then show ?thesis by (simp add: dotdot_loop.simps [of "join ss"])
qed

lemma dotdot_loop_join:
  assumes "\<forall>s\<in>set ss. noslash s \<and> s \<noteq> [] \<and> s \<noteq> ''.''" "noslash s"
  shows "dotdot_loop (join (ss @ [s])) =
    Some (case resolve [] ss of
            None \<Rightarrow> Inl Starts_with_dotdot | Some cs \<Rightarrow> Inr (join (cs @ [s])))"
  using assms(1)
proof (induction "length ss" arbitrary: ss rule: less_induct)
  case less
  show ?case
  proof (cases "''..'' \<in> set ss")
    case False
    then have n: "\<forall>s\<in>set ss. normal_comp s" using less.prems by (auto simp: normal_comp_def)
    then show ?thesis
      using dotdot_loop_done [of "ss @ [s]"] resolve_normal [OF n, of "[]" "[]"] assms(2)
      by simp
  next
    case True
    then obtain us vs where ss: "ss = us @ ''..'' # vs" and "''..'' \<notin> set us"
      by (meson split_list_first)
    then have us: "\<forall>u\<in>set us. normal_comp u"
      using less.prems by (auto simp: normal_comp_def)
    show ?thesis
    proof (cases us rule: rev_cases)
      case Nil
      then show ?thesis using dotdot_loop_error [of "vs @ [s]"] by (simp add: ss)
    next
      case (snoc us' u)
      have "dotdot_loop (join (ss @ [s])) = dotdot_loop (join ((us' @ vs) @ [s]))"
        using dotdot_loop_step [of us' u "vs @ [s]"] us by (simp add: ss snoc)
      moreover have "resolve [] (us' @ vs) = resolve [] ss"
        using resolve_normal [of us' "[]" vs] resolve_normal [of us' "[]" "u # ''..'' # vs"] us
        by (simp add: ss snoc normal_comp_def)
      ultimately show ?thesis
        using less.hyps [of "us' @ vs"] less.prems by (auto simp: ss snoc)
    qed
  qed
qed

section \<open>The end of the path\<close>

lemma suffix_slash:
  assumes "noslash t" "noslash x"
  shows "suffix (CHR ''/'' # x) (p @ CHR ''/'' # t) \<longleftrightarrow> t = x"
proof
  assume "suffix (CHR ''/'' # x) (p @ CHR ''/'' # t)"
  then obtain q where "p @ CHR ''/'' # t = q @ CHR ''/'' # x" by (auto simp: suffix_def)
  then have "rev t @ CHR ''/'' # rev p = rev x @ CHR ''/'' # rev q"
    by (metis append.assoc append_Cons append_Nil rev.simps(2) rev_append)
  moreover have "takeWhile (\<lambda>c. c \<noteq> CHR ''/'') (rev y @ CHR ''/'' # z) = rev y" if "noslash y" for y z
    using that by (subst takeWhile_append2) (auto simp: noslash_def)
  ultimately have "rev t = rev x" using assms by metis
  then show "t = x" by simp
qed (simp add: suffix_def)

lemma suffix_drop: "n = length y \<Longrightarrow> n \<le> length p \<and> drop (length p - n) p = y \<longleftrightarrow> suffix y p"
  by (auto simp: suffix_def suffix_length_le) (metis append_take_drop_id)

lemma suffix_join:
  "noslash t \<Longrightarrow> noslash x \<Longrightarrow> suffix (CHR ''/'' # x) (join (cs @ [t])) \<longleftrightarrow> t = x"
  using suffix_slash [of t x "join cs"] by simp

lemma cut_dot_join:
  "noslash t \<Longrightarrow> cut_dot (join (cs @ [t])) = (if t = ''.'' then join cs else join (cs @ [t]))"
  using suffix_drop [of 2 "''/.''" "join (cs @ [t])"] suffix_join [of t "''.''" cs]
  by (simp add: cut_dot_def)

lemma cut_dotdot_join:
  assumes "noslash t" "\<forall>c\<in>set cs. noslash c"
  shows "cut_dotdot (join (cs @ [t])) =
    Some (if t = ''..'' then (if cs = [] then Inl Is_dotdot else Inr (join (butlast cs)))
          else Inr (join (cs @ [t])))"
proof -
  have suf: "3 \<le> length (join (cs @ [t])) \<and> drop (length (join (cs @ [t])) - 3) (join (cs @ [t])) = ''/..''
      \<longleftrightarrow> t = ''..''"
    using suffix_drop [of 3 "''/..''" "join (cs @ [t])"] suffix_join [of t "''..''" cs] assms by simp
  have "back_to_slash (rev (join cs)) = Some (length (join (butlast cs)))" if "cs \<noteq> []"
    using back_to_slash_snoc [of "last cs" "butlast cs"] that assms by simp
  moreover have "take (length (join (butlast cs))) (join (cs @ [t])) = join (butlast cs)"
    by (cases cs rule: rev_cases) simp_all
  moreover have "join (cs @ [t]) = ''/..'' \<longleftrightarrow> cs = [] \<and> t = ''..''"
    using assms by (cases cs) (auto simp: noslash_def Cons_eq_append_conv append_eq_Cons_conv)
  ultimately show ?thesis
    unfolding cut_dotdot_def suf by (auto simp del: join_simps(3)) simp
qed

lemma cuts_join:
  "noslash t \<Longrightarrow> \<forall>c\<in>set cs. normal_comp c \<Longrightarrow>
   cut_dotdot (cut_dot (join (cs @ [t]))) =
     (if t = ''.'' then Some (Inr (join cs)) else cut_dotdot (join (cs @ [t])))"
proof -
  assume a: "noslash t" "\<forall>c\<in>set cs. normal_comp c"
  have "cut_dotdot (join cs) = Some (Inr (join cs))"
  proof (cases cs rule: rev_cases)
    case Nil
    then show ?thesis by (simp add: cut_dotdot_def)
  next
    case (snoc ds d)
    then show ?thesis
      using cut_dotdot_join [of d ds] a by (simp add: normal_comp_def)
  qed
  then show ?thesis using a by (simp add: cut_dot_join del: join_simps(3))
qed

lemma norm_tail_slash:
  assumes cs: "\<forall>c\<in>set cs. normal_comp c"
  shows "norm_tail (join (cs @ [[]])) = Some (Inr (if cs = [] then ''/'' else join cs))"
proof (cases cs rule: rev_cases)
  case Nil
  then show ?thesis by (simp add: norm_tail_def cut_dot_def cut_dotdot_def)
next
  case (snoc ds d)
  then have d: "normal_comp d" "\<forall>c\<in>set ds. normal_comp c" using cs by auto
  then have "cut_dotdot (cut_dot (join (ds @ [d]))) = Some (Inr (join (ds @ [d])))"
    by (subst cuts_join) (auto simp: normal_comp_def cut_dotdot_join simp del: join_simps(3))
  then show ?thesis
    by (simp add: norm_tail_def snoc nth_append butlast_append)
qed

lemma norm_tail_join:
  assumes cs: "\<forall>c\<in>set cs. normal_comp c" and s: "noslash s"
  shows "norm_tail (join (cs @ [s])) =
    Some (case resolve (rev cs) [s] of
            None \<Rightarrow> Inl Is_dotdot
          | Some [] \<Rightarrow> Inr (if s = [] then ''/'' else [])
          | Some ds \<Rightarrow> Inr (join ds))"
proof (cases "s = []")
  case True
  then show ?thesis using norm_tail_slash [OF cs] by (auto split: list.splits)
next
  case False
  have ns: "\<forall>c\<in>set cs. noslash c" using cs by (simp add: normal_comp_def)
  have "last s \<noteq> CHR ''/''" using False s by (auto simp: noslash_def dest: last_in_set)
  then have nt: "norm_tail (join (cs @ [s])) = cut_dotdot (cut_dot (join (cs @ [s])))"
    using False last_conv_nth [of "join (cs @ [s])"] by (simp add: norm_tail_def)
  consider "s = ''.''" | "s = ''..''" | "s \<noteq> ''.''" "s \<noteq> ''..''" by blast
  then show ?thesis
  proof cases
    case 1
    then show ?thesis
      using cuts_join [OF s cs] nt by (cases cs) (simp_all split: list.splits)
  next
    case 2
    then show ?thesis
      using cuts_join [OF s cs] cut_dotdot_join [OF s ns] nt
      by (cases cs rule: rev_cases) (auto split: list.splits)
  next
    case 3
    then show ?thesis
      using cuts_join [OF s cs] cut_dotdot_join [OF s ns] False nt
      by (cases cs) (auto split: list.splits)
  qed
qed

section \<open>Correctness\<close>

lemma squeeze_relative:
  "p = [] \<or> hd p \<noteq> CHR ''/'' \<Longrightarrow> squeeze x p = [] \<or> hd (squeeze x p) \<noteq> CHR ''/''"
proof (induction x p rule: squeeze.induct)
  case (1 x p)
  show ?case
  proof (cases "strstr p (''/'' @ x @ ''/'')")
    case None
    then show ?thesis using 1 by (simp add: squeeze.simps [of x p])
  next
    case (Some k)
    then have "p \<noteq> []" "k \<noteq> 0" using "1.prems" by (cases p; auto split: if_splits)+
    then have "hd (take k p @ drop (k + 1 + length x) p) = hd p" by (cases p; cases k) auto
    then show ?thesis
      using 1 Some \<open>p \<noteq> []\<close> by (simp add: squeeze.simps [of x p])
  qed
qed

lemma normalize_relative:
  assumes "p = [] \<or> hd p \<noteq> CHR ''/''"
  shows "nfs_normalize_path p = Some (Inl Not_absolute)"
proof -
  have "squeeze ''.'' (squeeze '''' p) = [] \<or> hd (squeeze ''.'' (squeeze '''' p)) \<noteq> CHR ''/''"
    by (intro squeeze_relative assms)
  then show ?thesis
    by (cases "squeeze ''.'' (squeeze '''' p)") (auto simp: nfs_normalize_path_def)
qed

lemma squeezed:
  assumes "p = CHR ''/'' # r"
  shows "squeeze ''.'' (squeeze '''' p) =
    join (filter (\<lambda>s. s \<noteq> ''.'') (filter (\<lambda>s. s \<noteq> []) (butlast (comps r))) @ [last (comps r)])"
proof -
  let ?f = "filter (\<lambda>s. s \<noteq> []) (butlast (comps r)) @ [last (comps r)]"
  have "squeeze '''' p = join ?f"
    using squeeze_join [of "comps r" "''''"] comps_noslash [of r] by (simp add: assms join_comps)
  moreover have "\<forall>s\<in>set ?f. noslash s"
    using comps_noslash [of r] last_in_set [of "comps r"] by (auto dest: in_set_butlastD)
  ultimately show ?thesis using squeeze_join [of ?f "''.''"] by simp
qed

lemma normalize_absolute:
  assumes "p = CHR ''/'' # r"
  shows "\<exists>r. nfs_normalize_path p = Some r \<and>
           (case r of Inl e \<Rightarrow> normal_path p = None | Inr q \<Rightarrow> normal_path p = Some q)"
proof -
  define ss where "ss = filter (\<lambda>s. s \<noteq> ''.'') (filter (\<lambda>s. s \<noteq> []) (butlast (comps r)))"
  define s where "s = last (comps r)"
  have cr: "comps r = butlast (comps r) @ [s]" by (simp add: s_def)
  have res: "resolve [] (comps r) = Option.bind (resolve [] ss) (\<lambda>cs. resolve (rev cs) [s])"
    by (subst cr) (simp only: resolve_snoc ss_def resolve_filter)
  have ns: "\<forall>s\<in>set ss. noslash s \<and> s \<noteq> [] \<and> s \<noteq> ''.''" "noslash s"
    using comps_noslash [of r] last_in_set [of "comps r"]
    by (auto simp: ss_def s_def dest: in_set_butlastD)
  have sq: "squeeze ''.'' (squeeze '''' p) = join (ss @ [s])"
    by (simp add: squeezed [OF assms] ss_def s_def)
  have abs: "join (ss @ [s]) \<noteq> []" "join (ss @ [s]) ! 0 = CHR ''/''" by (cases ss; simp)+
  have slash: "s = [] \<longleftrightarrow> last p = CHR ''/''"
    using comps_last [of r] assms by (auto simp: s_def)
  have early: "dotdot_loop (join (ss @ [s])) = Some (Inl Starts_with_dotdot)"
    if "prefix ''/../'' (join (ss @ [s]))"
    using that by (cases "join (ss @ [s])") (auto simp: dotdot_loop.simps simp del: join_simps)
  show ?thesis
  proof (cases "resolve [] ss")
    case None
    then have "nfs_normalize_path p = Some (Inl Starts_with_dotdot)"
      using dotdot_loop_join [OF ns] abs by (simp add: nfs_normalize_path_def sq Let_def del: join_simps)
    then show ?thesis using res None assms by (simp add: normal_path_def)
  next
    case (Some cs)
    have cs: "\<forall>c\<in>set cs. normal_comp c"
      by (rule resolve_normal_comps [OF Some]) (use ns in auto)
    then have "nfs_normalize_path p = norm_tail (join (cs @ [s]))"
      using dotdot_loop_join [OF ns] abs Some early
      by (auto simp: nfs_normalize_path_def sq Let_def simp del: join_simps)
    then show ?thesis
      using norm_tail_join [OF cs ns(2)] res Some slash assms
      by (cases "resolve (rev cs) [s]") (auto simp: normal_path_def split: list.splits simp del: resolve.simps)
  qed
qed

text \<open>
  C17. For every string \<open>nfs_normalize_path\<close> ends without leaving the buffer, and its in-place
  rewriting computes what resolving the path's components with a stack gives: it fails exactly
  for a path that is not absolute or climbs above the root, and otherwise leaves the resolved
  path in the buffer.
\<close>

theorem nfs_normalize_path_resolves:
  "\<exists>r. nfs_normalize_path p = Some r \<and>
       (case r of Inl e \<Rightarrow> normal_path p = None | Inr q \<Rightarrow> normal_path p = Some q)"
proof (cases "p = [] \<or> hd p \<noteq> CHR ''/''")
  case True
  then show ?thesis using normalize_relative [OF True] by (simp add: normal_path_def)
next
  case False
  then obtain r where "p = CHR ''/'' # r" by (cases p) auto
  then show ?thesis by (rule normalize_absolute)
qed

text \<open>
  The comment above the last two rewrites says that they leave a slash; where they consume the
  only component the buffer is left empty.
\<close>

lemma normalize_examples:
  "nfs_normalize_path ''/a/..'' = Some (Inr [])" "nfs_normalize_path ''/.'' = Some (Inr [])"
  "nfs_normalize_path ''/a/../'' = Some (Inr ''/'')"
  "nfs_normalize_path ''/a//b/./../c/'' = Some (Inr ''/a/c'')"
  "nfs_normalize_path ''/a/../../b'' = Some (Inl Starts_with_dotdot)"
  by code_simp+

end
