(* ===== verification/Nfs_Context.thy ===== *)
theory Nfs_Context
  imports Rpc_Context
begin

text \<open>
  The NFS context of \<open>src/lib/libnfs.c\<close>: the parameters a mount is configured with, their
  setters and getters, the cache of directory listings and the reading position inside one
  (\<open>nfs_readdir\<close>, \<open>nfs_telldir\<close>, \<open>nfs_seekdir\<close>, \<open>nfs_rewinddir\<close>, \<open>nfs_closedir\<close>).

  \<^item> A file handle is the list of its bytes. A listing has an address \<open>dir_id\<close>, its attributes, its entries and
    the position \<open>dcurrent\<close> of the next entry, \<open>None\<close> for NULL.
  \<^item> The cache is the list of listings the pointer \<open>dircache\<close> heads. The operations that free
    listings return the ones they free.
  \<^item> A \<open>size_t\<close> is a natural number; the callers that pass an \<open>int\<close> convert it modulo \<open>2^64\<close>.
\<close>

section \<open>Data\<close>

type_synonym nfs_fh = "byte list"

text \<open>A \<open>specdata\<close> and a time are pairs: the two device numbers, the seconds and nanoseconds.\<close>

record nfs_attr =
  at_type :: u32
  at_mode :: u32
  at_uid :: u32
  at_gid :: u32
  at_nlink :: u32
  at_size :: u64
  at_used :: u64
  at_fsid :: u64
  at_rdev :: "u32 \<times> u32"
  at_atime :: "u32 \<times> u32"
  at_mtime :: "u32 \<times> u32"
  at_ctime :: "u32 \<times> u32"

text \<open>A \<open>struct timeval\<close> is the pair of its seconds and microseconds.\<close>

record nfsdirent =
  dname :: string
  dinode :: u64
  dtype :: u32
  dmode :: u32
  dsize :: u64
  datime :: "u64 \<times> u64"
  dmtime :: "u64 \<times> u64"
  dctime :: "u64 \<times> u64"
  duid :: u32
  dgid :: u32
  dnlink :: u32
  ddev :: u64
  drdev :: u64
  dblksize :: u64
  dblocks :: u64
  dused :: u64
  datime_nsec :: u32
  dmtime_nsec :: u32
  dctime_nsec :: u32

record nfsdir =
  dir_id :: nat
  dfh :: nfs_fh
  dattr :: nfs_attr
  dentries :: "nfsdirent list"
  dcurrent :: "nat option"

record nested_mounts =
  nm_path :: string
  nm_fh :: nfs_fh
  nm_attr :: nfs_attr

text \<open>What \<open>calloc\<close> and \<open>memset\<close> leave.\<close>

definition zero_attr :: nfs_attr where
  "zero_attr = \<lparr>at_type = 0, at_mode = 0, at_uid = 0, at_gid = 0, at_nlink = 0, at_size = 0,
     at_used = 0, at_fsid = 0, at_rdev = (0, 0), at_atime = (0, 0), at_mtime = (0, 0), at_ctime = (0, 0)\<rparr>"

definition zero_dirent :: nfsdirent where
  "zero_dirent = \<lparr>dname = [], dinode = 0, dtype = 0, dmode = 0, dsize = 0, datime = (0, 0),
     dmtime = (0, 0), dctime = (0, 0), duid = 0, dgid = 0, dnlink = 0, ddev = 0, drdev = 0,
     dblksize = 0, dblocks = 0, dused = 0, datime_nsec = 0, dmtime_nsec = 0, dctime_nsec = 0\<rparr>"

record nfs_context_internal =
  nfsi_server :: "string option"
  nfsi_export :: "string option"
  nfsi_cwd :: string
  nfsi_rootfh :: nfs_fh
  nfsi_readmax :: nat
  nfsi_writemax :: nat
  nfsi_auto_reconnect :: int
  nfsi_timeout :: int
  nfsi_retrans :: int
  nfsi_dircache_enabled :: int
  nfsi_dircache :: "nfsdir list"
  nfsi_mask :: "16 word"
  nfsi_auto_traverse_mounts :: int
  nfsi_nested_mounts :: "nested_mounts list"
  nfsi_default_version :: int
  nfsi_version :: int
  nfsi_nfsport :: int
  nfsi_mountport :: int
  nfsi_readdir_dircount :: u32
  nfsi_readdir_maxcount :: u32
  nfsi_verifier :: "byte list"
  nfsi_client_name :: string
  nfsi_readonly :: int

record 'r nfs_context =
  nrpc :: "'r rpc"
  nfsi :: nfs_context_internal

definition NFS_V3 :: int where "NFS_V3 = 3"
definition NFS_V4 :: int where "NFS_V4 = 4"
definition NFS_MIN_XFER_SIZE :: nat where "NFS_MIN_XFER_SIZE = 8192"
definition NFS_MAX_XFER_SIZE :: nat where "NFS_MAX_XFER_SIZE = 4 * 1024 * 1024"
definition NFS_DEF_XFER_SIZE :: nat where "NFS_DEF_XFER_SIZE = 1 * 1024 * 1024"
definition MAX_DIR_CACHE :: nat where "MAX_DIR_CACHE = 128"

section \<open>Creation\<close>

text \<open>\<open>printf\<close> of a number with \<open>%d\<close>.\<close>

fun dec_nat :: "nat \<Rightarrow> string" where
  "dec_nat n = (if n < 10 then [char_of (48 + n)] else dec_nat (n div 10) @ [char_of (48 + n mod 10)])"

declare dec_nat.simps [simp del]

definition dec_int :: "int \<Rightarrow> string" where
  "dec_int i = (if i < 0 then CHR ''-'' # dec_nat (nat (- i)) else dec_nat (nat i))"

text \<open>The loop that stores the eight bytes of \<open>v\<close>, least significant first.\<close>

fun verifier_bytes :: "nat \<Rightarrow> u64 \<Rightarrow> byte list" where
  "verifier_bytes 0 v = []"
| "verifier_bytes (Suc n) v = ucast (v AND 0xff) # verifier_bytes n (drop_bit 8 v)"

definition nfs4_set_verifier :: "'r nfs_context \<Rightarrow> byte list \<Rightarrow> 'r nfs_context" where
  "nfs4_set_verifier nfs v = nfs\<lparr>nfsi := (nfsi nfs)\<lparr>nfsi_verifier := v\<rparr>\<rparr>"

definition nfs4_set_client_name :: "'r nfs_context \<Rightarrow> string \<Rightarrow> 'r nfs_context" where
  "nfs4_set_client_name nfs s = nfs\<lparr>nfsi := (nfsi nfs)\<lparr>nfsi_client_name := s\<rparr>\<rparr>"

definition zero_nfsi :: nfs_context_internal where
  "zero_nfsi = \<lparr>nfsi_server = None, nfsi_export = None, nfsi_cwd = [], nfsi_rootfh = [],
     nfsi_readmax = 0, nfsi_writemax = 0, nfsi_auto_reconnect = 0, nfsi_timeout = 0, nfsi_retrans = 0,
     nfsi_dircache_enabled = 0, nfsi_dircache = [], nfsi_mask = 0, nfsi_auto_traverse_mounts = 0,
     nfsi_nested_mounts = [], nfsi_default_version = 0, nfsi_version = 0, nfsi_nfsport = 0, nfsi_mountport = 0,
     nfsi_readdir_dircount = 0, nfsi_readdir_maxcount = 0, nfsi_verifier = replicate 8 0,
     nfsi_client_name = [], nfsi_readonly = 0\<rparr>"

text \<open>
  \<open>now\<close> is the millisecond clock, \<open>secs\<close> the value of \<open>time(NULL)\<close>, \<open>pidn\<close> the process id. The
  result is the context and the new salt of the transaction ids; the inner \<open>None\<close> is a failed
  creation.
\<close>

definition nfs_init_context ::
    "u32 \<Rightarrow> u64 \<Rightarrow> int \<Rightarrow> u32 \<Rightarrow> u32 \<Rightarrow> u32 \<Rightarrow> ('r nfs_context \<times> u32) option option" where
  "nfs_init_context salt now secs pidn myuid mygid =
     map_option (map_option (\<lambda>(rpc, s).
       let nfs = \<lparr>nrpc = rpc, nfsi = zero_nfsi
             \<lparr>nfsi_cwd := ''/'', nfsi_mask := 18, nfsi_auto_traverse_mounts := 1,
              nfsi_dircache_enabled := 1, nfsi_auto_reconnect := -1, nfsi_timeout := 60 * 1000,
              nfsi_retrans := 2, nfsi_default_version := NFS_V3, nfsi_version := NFS_V3,
              nfsi_readmax := NFS_DEF_XFER_SIZE, nfsi_writemax := NFS_DEF_XFER_SIZE,
              nfsi_readdir_dircount := 8192, nfsi_readdir_maxcount := 8192\<rparr>\<rparr>;
           v = push_bit 32 now OR ucast pidn;
           nfs1 = nfs4_set_verifier nfs (verifier_bytes 8 v)
       in (nfs4_set_client_name nfs1
             (take 63 (''Libnfs pid:'' @ dec_int (sint pidn) @ '' '' @ dec_int (s32 secs))), s)))
       (rpc_init_context salt now pidn myuid mygid)"

section \<open>Parameters\<close>

text \<open>The clamping the size setters share: at most 4 MiB, at least 8 KiB, whole pages.\<close>

definition adjust_xfer :: "nat \<Rightarrow> nat" where
  "adjust_xfer n = max (min n NFS_MAX_XFER_SIZE) NFS_MIN_XFER_SIZE div 4096 * 4096"

definition nfs_get_readmax :: "'r nfs_context \<Rightarrow> nat" where
  "nfs_get_readmax nfs = nfsi_readmax (nfsi nfs)"

definition nfs_set_readmax :: "'r nfs_context \<Rightarrow> nat \<Rightarrow> 'r nfs_context" where
  "nfs_set_readmax nfs readmax = nfs\<lparr>nfsi := (nfsi nfs)\<lparr>nfsi_readmax := adjust_xfer readmax\<rparr>\<rparr>"

definition nfs_get_writemax :: "'r nfs_context \<Rightarrow> nat" where
  "nfs_get_writemax nfs = nfsi_writemax (nfsi nfs)"

definition nfs_set_writemax :: "'r nfs_context \<Rightarrow> nat \<Rightarrow> 'r nfs_context" where
  "nfs_set_writemax nfs writemax = nfs\<lparr>nfsi := (nfsi nfs)\<lparr>nfsi_writemax := adjust_xfer writemax\<rparr>\<rparr>"

definition nfs_set_tcp_syncnt :: "'r nfs_context \<Rightarrow> int \<Rightarrow> 'r nfs_context" where
  "nfs_set_tcp_syncnt nfs v = nfs\<lparr>nrpc := rpc_set_tcp_syncnt (nrpc nfs) v\<rparr>"

definition nfs_set_uid :: "u32 \<Rightarrow> 'r nfs_context \<Rightarrow> int \<Rightarrow> 'r nfs_context option" where
  "nfs_set_uid now nfs u = map_option (\<lambda>r. nfs\<lparr>nrpc := r\<rparr>) (rpc_set_uid now (nrpc nfs) u)"

definition nfs_set_gid :: "u32 \<Rightarrow> 'r nfs_context \<Rightarrow> int \<Rightarrow> 'r nfs_context option" where
  "nfs_set_gid now nfs g = map_option (\<lambda>r. nfs\<lparr>nrpc := r\<rparr>) (rpc_set_gid now (nrpc nfs) g)"

definition nfs_set_auxiliary_gids ::
    "u32 \<Rightarrow> 'r nfs_context \<Rightarrow> u32 \<Rightarrow> u32 list \<Rightarrow> 'r nfs_context option" where
  "nfs_set_auxiliary_gids now nfs len gids =
     map_option (\<lambda>r. nfs\<lparr>nrpc := r\<rparr>) (rpc_set_auxiliary_gids now (nrpc nfs) len gids)"

definition nfs_set_debug :: "'r nfs_context \<Rightarrow> int \<Rightarrow> 'r nfs_context" where
  "nfs_set_debug nfs level = nfs\<lparr>nrpc := rpc_set_debug (nrpc nfs) level\<rparr>"

definition nfs_set_interface :: "'r nfs_context \<Rightarrow> string \<Rightarrow> 'r nfs_context" where
  "nfs_set_interface nfs s = nfs\<lparr>nrpc := rpc_set_interface (nrpc nfs) (Some (map of_char s))\<rparr>"

definition nfs_set_auto_traverse_mounts :: "'r nfs_context \<Rightarrow> int \<Rightarrow> 'r nfs_context" where
  "nfs_set_auto_traverse_mounts nfs e = nfs\<lparr>nfsi := (nfsi nfs)\<lparr>nfsi_auto_traverse_mounts := e\<rparr>\<rparr>"

definition nfs_set_readonly :: "'r nfs_context \<Rightarrow> int \<Rightarrow> 'r nfs_context" where
  "nfs_set_readonly nfs e = nfs\<lparr>nfsi := (nfsi nfs)\<lparr>nfsi_readonly := e\<rparr>\<rparr>"

definition nfs_set_dircache :: "'r nfs_context \<Rightarrow> int \<Rightarrow> 'r nfs_context" where
  "nfs_set_dircache nfs e = nfs\<lparr>nfsi := (nfsi nfs)\<lparr>nfsi_dircache_enabled := e\<rparr>\<rparr>"

definition nfs_set_autoreconnect :: "'r nfs_context \<Rightarrow> int \<Rightarrow> 'r nfs_context" where
  "nfs_set_autoreconnect nfs n = nfs\<lparr>nfsi := (nfsi nfs)\<lparr>nfsi_auto_reconnect := n\<rparr>\<rparr>"

text \<open>A failing \<open>assert\<close> is \<open>None\<close>.\<close>

definition nfs_set_retrans :: "'r nfs_context \<Rightarrow> int \<Rightarrow> 'r nfs_context option" where
  "nfs_set_retrans nfs n =
     (if 0 \<le> n then Some (nfs\<lparr>nfsi := (nfsi nfs)\<lparr>nfsi_retrans := n\<rparr>\<rparr>) else None)"

definition nfs_set_version :: "'r nfs_context \<Rightarrow> int \<Rightarrow> 'r nfs_context \<times> int" where
  "nfs_set_version nfs v =
     (if v = NFS_V3 \<or> v = NFS_V4
      then (nfs\<lparr>nfsi := (nfsi nfs)\<lparr>nfsi_version := v, nfsi_default_version := 0\<rparr>\<rparr>, 0)
      else (nfs, -1))"

definition nfs_get_version :: "'r nfs_context \<Rightarrow> int" where
  "nfs_get_version nfs = nfsi_version (nfsi nfs)"

definition nfs_set_nfsport :: "'r nfs_context \<Rightarrow> int \<Rightarrow> 'r nfs_context" where
  "nfs_set_nfsport nfs p = nfs\<lparr>nfsi := (nfsi nfs)\<lparr>nfsi_nfsport := p\<rparr>\<rparr>"

definition nfs_set_mountport :: "'r nfs_context \<Rightarrow> int \<Rightarrow> 'r nfs_context" where
  "nfs_set_mountport nfs p =
     nfs\<lparr>nfsi := (nfsi nfs)\<lparr>nfsi_mountport := p\<rparr>, nrpc := rpc_set_mountport (nrpc nfs) p\<rparr>"

definition nfs_get_readdir_maxcount :: "'r nfs_context \<Rightarrow> nat" where
  "nfs_get_readdir_maxcount nfs = unat (nfsi_readdir_maxcount (nfsi nfs))"

definition nfs_set_readdir_max_buffer_size :: "'r nfs_context \<Rightarrow> u32 \<Rightarrow> u32 \<Rightarrow> 'r nfs_context" where
  "nfs_set_readdir_max_buffer_size nfs dircount maxcount =
     nfs\<lparr>nfsi := (nfsi nfs)\<lparr>nfsi_readdir_dircount := word_of_nat (adjust_xfer (unat dircount)),
                           nfsi_readdir_maxcount := word_of_nat (adjust_xfer (unat maxcount))\<rparr>\<rparr>"

definition nfs_umask :: "'r nfs_context \<Rightarrow> 16 word \<Rightarrow> 'r nfs_context \<times> 16 word" where
  "nfs_umask nfs m = (nfs\<lparr>nfsi := (nfsi nfs)\<lparr>nfsi_mask := m\<rparr>\<rparr>, nfsi_mask (nfsi nfs))"

definition nfs_set_poll_timeout :: "'r nfs_context \<Rightarrow> int \<Rightarrow> 'r nfs_context" where
  "nfs_set_poll_timeout nfs t = nfs\<lparr>nrpc := rpc_set_poll_timeout (nrpc nfs) t\<rparr>"

definition nfs_get_poll_timeout :: "'r nfs_context \<Rightarrow> int" where
  "nfs_get_poll_timeout nfs = rpc_get_poll_timeout (nrpc nfs)"

definition nfs_set_timeout :: "'r nfs_context \<Rightarrow> int \<Rightarrow> 'r nfs_context" where
  "nfs_set_timeout nfs t =
     nfs\<lparr>nfsi := (nfsi nfs)\<lparr>nfsi_timeout := t\<rparr>, nrpc := rpc_set_timeout (nrpc nfs) t\<rparr>"

definition nfs_get_timeout :: "'r nfs_context \<Rightarrow> int" where
  "nfs_get_timeout nfs = rpc_get_timeout (nrpc nfs)"

section \<open>The directory cache\<close>

text \<open>The loop that looks for a listing beyond position \<open>MAX_DIR_CACHE\<close> and removes it.\<close>

fun evict :: "nat \<Rightarrow> nfsdir list \<Rightarrow> nfsdir list \<times> nfsdir list" where
  "evict i [] = ([], [])"
| "evict i (d # ds) =
     (if i > MAX_DIR_CACHE then (ds, [d])
      else case evict (i + 1) ds of (ds', freed) \<Rightarrow> (d # ds', freed))"

definition nfs_dircache_add :: "'r nfs_context \<Rightarrow> nfsdir \<Rightarrow> 'r nfs_context \<times> nfsdir list" where
  "nfs_dircache_add nfs d =
     (case evict 0 (d # nfsi_dircache (nfsi nfs)) of
        (ds, freed) \<Rightarrow> (nfs\<lparr>nfsi := (nfsi nfs)\<lparr>nfsi_dircache := ds\<rparr>\<rparr>, freed))"

fun take_fh :: "nfs_fh \<Rightarrow> nfsdir list \<Rightarrow> nfsdir list \<times> nfsdir option" where
  "take_fh fh [] = ([], None)"
| "take_fh fh (d # ds) =
     (if length (dfh d) = length fh \<and> take (length fh) (dfh d) = fh then (ds, Some d)
      else case take_fh fh ds of (ds', r) \<Rightarrow> (d # ds', r))"

definition nfs_dircache_find :: "'r nfs_context \<Rightarrow> nfs_fh \<Rightarrow> 'r nfs_context \<times> nfsdir option" where
  "nfs_dircache_find nfs fh =
     (case take_fh fh (nfsi_dircache (nfsi nfs)) of
        (ds, r) \<Rightarrow> (nfs\<lparr>nfsi := (nfsi nfs)\<lparr>nfsi_dircache := ds\<rparr>\<rparr>, r))"

definition nfs_dircache_drop :: "'r nfs_context \<Rightarrow> nfs_fh \<Rightarrow> 'r nfs_context \<times> nfsdir list" where
  "nfs_dircache_drop nfs fh =
     (case nfs_dircache_find nfs fh of
        (nfs', None) \<Rightarrow> (nfs', [])
      | (nfs', Some d) \<Rightarrow> (nfs', [d]))"

definition nfs_closedir :: "'r nfs_context option \<Rightarrow> nfsdir \<Rightarrow> 'r nfs_context option \<times> nfsdir list" where
  "nfs_closedir nfs d =
     (case nfs of
        None \<Rightarrow> (None, [d])
      | Some n \<Rightarrow>
          if nfsi_dircache_enabled (nfsi n) \<noteq> 0
          then (case nfs_dircache_add n d of (n', freed) \<Rightarrow> (Some n', freed))
          else (nfs, [d]))"

section \<open>Reading a directory\<close>

definition at_entry :: "nfsdir \<Rightarrow> nat \<Rightarrow> nat option" where
  "at_entry d i = (if i < length (dentries d) then Some i else None)"

definition nfs_readdir :: "nfsdir \<Rightarrow> nfsdir \<times> nfsdirent option" where
  "nfs_readdir d =
     (case dcurrent d of
        None \<Rightarrow> (d, None)
      | Some i \<Rightarrow> (d\<lparr>dcurrent := at_entry d (i + 1)\<rparr>, Some (dentries d ! i)))"

definition nfs_telldir :: "nfsdir \<Rightarrow> int" where
  "nfs_telldir d = (case find (\<lambda>i. dcurrent d = Some i) [0 ..< length (dentries d)] of
                      None \<Rightarrow> -1 | Some i \<Rightarrow> int i)"

text \<open>The loop of \<open>nfs_seekdir\<close>: \<open>n\<close> entries remain from the current one on.\<close>

fun seek_loop :: "nat \<Rightarrow> nat \<Rightarrow> nat \<Rightarrow> nat option" where
  "seek_loop i 0 loc = None"
| "seek_loop i (Suc n) 0 = Some i"
| "seek_loop i (Suc n) (Suc loc) = seek_loop (i + 1) n loc"

definition nfs_seekdir :: "nfsdir \<Rightarrow> int \<Rightarrow> nfsdir" where
  "nfs_seekdir d loc =
     (if loc < 0 then d else d\<lparr>dcurrent := seek_loop 0 (length (dentries d)) (nat loc)\<rparr>)"

definition nfs_rewinddir :: "nfsdir \<Rightarrow> nfsdir" where
  "nfs_rewinddir d = d\<lparr>dcurrent := at_entry d 0\<rparr>"

section \<open>Sizes\<close>

definition xfer_ok :: "nat \<Rightarrow> bool" where
  "xfer_ok n \<longleftrightarrow> 4096 dvd n \<and> NFS_MIN_XFER_SIZE \<le> n \<and> n \<le> NFS_MAX_XFER_SIZE"

lemma adjust_xfer_ok [simp]: "xfer_ok (adjust_xfer n)"
proof -
  define m where "m = max (min n NFS_MAX_XFER_SIZE) NFS_MIN_XFER_SIZE"
  have m: "8192 \<le> m" "m \<le> 4194304"
    by (simp_all add: m_def NFS_MAX_XFER_SIZE_def NFS_MIN_XFER_SIZE_def)
  have "8192 div 4096 \<le> m div 4096" "m div 4096 \<le> 4194304 div 4096"
    by (rule div_le_mono, rule m)+
  moreover have "adjust_xfer n = m div 4096 * 4096" by (simp add: adjust_xfer_def m_def)
  ultimately show ?thesis
    by (simp add: xfer_ok_def NFS_MAX_XFER_SIZE_def NFS_MIN_XFER_SIZE_def)
qed

lemma adjust_xfer_id: "xfer_ok n \<Longrightarrow> adjust_xfer n = n"
  by (auto simp: xfer_ok_def adjust_xfer_def)

lemma unat_adjust_xfer [simp]: "unat (word_of_nat (adjust_xfer n) :: u32) = adjust_xfer n"
  using adjust_xfer_ok [of n]
  by (simp add: xfer_ok_def NFS_MAX_XFER_SIZE_def unat_of_nat take_bit_nat_eq_self)

text \<open>What holds of the parameters of every context, however it was configured.\<close>

definition nfsi_wf :: "nfs_context_internal \<Rightarrow> bool" where
  "nfsi_wf n \<longleftrightarrow> xfer_ok (nfsi_readmax n) \<and> xfer_ok (nfsi_writemax n)
     \<and> xfer_ok (unat (nfsi_readdir_dircount n)) \<and> xfer_ok (unat (nfsi_readdir_maxcount n))
     \<and> 0 \<le> nfsi_retrans n \<and> nfsi_version n \<in> {NFS_V3, NFS_V4}
     \<and> length (nfsi_dircache n) \<le> MAX_DIR_CACHE + 1"

abbreviation nfs_wf :: "'r nfs_context \<Rightarrow> bool" where
  "nfs_wf nfs \<equiv> nfsi_wf (nfsi nfs)"

named_theorems nfs_setters \<open>the definitions of the parameter setters\<close>

lemmas [nfs_setters] =
  nfs_set_readmax_def nfs_set_writemax_def nfs_set_tcp_syncnt_def nfs_set_uid_def nfs_set_gid_def
  nfs_set_auxiliary_gids_def nfs_set_debug_def nfs_set_interface_def nfs_set_auto_traverse_mounts_def
  nfs_set_readonly_def nfs_set_dircache_def nfs_set_autoreconnect_def nfs_set_retrans_def
  nfs_set_version_def nfs_set_nfsport_def nfs_set_mountport_def nfs_set_readdir_max_buffer_size_def
  nfs_umask_def nfs_set_poll_timeout_def nfs_set_timeout_def nfs4_set_verifier_def
  nfs4_set_client_name_def

lemma nfs_init_context_wf:
  assumes "nfs_init_context salt now secs pidn u g = Some (Some (nfs, s))"
  shows "nfs_wf nfs"
proof -
  have "xfer_ok NFS_DEF_XFER_SIZE" "xfer_ok 8192"
    by (simp_all add: xfer_ok_def NFS_MAX_XFER_SIZE_def NFS_MIN_XFER_SIZE_def NFS_DEF_XFER_SIZE_def)
  then show ?thesis
    using assms
    by (auto simp: nfs_init_context_def nfs_setters Let_def nfsi_wf_def zero_nfsi_def)
qed

section \<open>Who owns a listing\<close>

text \<open>
  The cache as its clients see it: a store of listings. Storing a listing keeps it or frees
  another, looking one up hands it over to the caller, and neither loses or duplicates one.
\<close>

locale listing_store =
  fixes content :: "'s \<Rightarrow> nat multiset"
    and put_dir :: "'s \<Rightarrow> nfsdir \<Rightarrow> 's \<times> nfsdir list"
    and get_dir :: "'s \<Rightarrow> nfs_fh \<Rightarrow> 's \<times> nfsdir option"
  assumes put_content: "put_dir s d = (s', fs) \<Longrightarrow> content s' + mset (map dir_id fs) = add_mset (dir_id d) (content s)"
    and get_Some: "get_dir s fh = (s', Some d) \<Longrightarrow> add_mset (dir_id d) (content s') = content s \<and> dfh d = fh"
    and get_None: "get_dir s fh = (s', None) \<Longrightarrow> content s' = content s"
begin

lemma put_subset: "put_dir s d = (s', fs) \<Longrightarrow> content s' \<subseteq># add_mset (dir_id d) (content s)"
  by (metis mset_subset_eq_add_left put_content)

lemma get_subset: "get_dir s fh = (s', r) \<Longrightarrow> content s' \<subseteq># content s"
  by (cases r) (auto dest: get_None get_Some simp flip: get_Some)

text \<open>Storing a listing and asking for its handle gives a listing of that directory or nothing.\<close>

lemma get_content:
  "get_dir s fh = (s', r) \<Longrightarrow> content s = content s' + (case r of None \<Rightarrow> {#} | Some d \<Rightarrow> {#dir_id d#})"
  by (cases r) (auto dest: get_None get_Some)

end

lemma evict_mset: "evict i ds = (ds', fs) \<Longrightarrow> mset ds' + mset fs = mset ds"
  by (induction i ds arbitrary: ds' fs rule: evict.induct) (auto split: if_splits prod.splits)

lemma evict_length:
  "evict i ds = (ds', fs) \<Longrightarrow> length ds \<le> MAX_DIR_CACHE + 2 - i \<Longrightarrow> i \<le> MAX_DIR_CACHE + 1 \<Longrightarrow>
   length ds' \<le> MAX_DIR_CACHE + 1 - i"
proof (induction i ds arbitrary: ds' fs rule: evict.induct)
  case (2 i d ds)
  obtain ds1 fs1 where e: "evict (i + 1) ds = (ds1, fs1)" by force
  show ?case
  proof (cases "i > MAX_DIR_CACHE")
    case True
    then have "i = Suc MAX_DIR_CACHE" using "2.prems" by simp
    then show ?thesis using "2.prems" by auto
  next
    case False
    then have "length ds1 \<le> MAX_DIR_CACHE + 1 - (i + 1)" using "2.IH" [OF False e] "2.prems" by simp
    then show ?thesis using "2.prems"(1) False e by auto
  qed
qed simp

lemma take_fh_mset:
  "take_fh fh ds = (ds', r) \<Longrightarrow>
   mset ds = mset ds' + (case r of None \<Rightarrow> {#} | Some d \<Rightarrow> {#d#}) \<and> (\<forall>d. r = Some d \<longrightarrow> dfh d = fh)"
proof (induction fh ds arbitrary: ds' r rule: take_fh.induct)
  case (2 fh d ds)
  obtain ds1 r1 where e: "take_fh fh ds = (ds1, r1)" by force
  show ?case
  proof (cases "length (dfh d) = length fh \<and> take (length fh) (dfh d) = fh")
    case True
    then have "dfh d = fh" by (metis order_refl take_all)
    then show ?thesis using "2.prems" by auto
  next
    case False
    then have "d # ds1 = ds'" "r1 = r"
      using "2.prems" unfolding take_fh.simps if_not_P [OF False] e by simp_all
    then show ?thesis using "2.IH" [OF False e] by (cases r) auto
  qed
qed simp

lemma take_fh_length: "take_fh fh ds = (ds', r) \<Longrightarrow> length ds' \<le> length ds"
  by (induction fh ds arbitrary: ds' r rule: take_fh.induct) (auto split: if_splits prod.splits)

definition cached_ids :: "'r nfs_context \<Rightarrow> nat multiset" where
  "cached_ids nfs = mset (map dir_id (nfsi_dircache (nfsi nfs)))"

interpretation dc: listing_store cached_ids nfs_dircache_add nfs_dircache_find
proof
  fix s s' :: "'a nfs_context" and d fs
  assume "nfs_dircache_add s d = (s', fs)"
  then have "mset (nfsi_dircache (nfsi s')) + mset fs = mset (d # nfsi_dircache (nfsi s))"
    by (auto simp: nfs_dircache_add_def evict_mset simp del: evict.simps mset.simps split: prod.splits)
  then show "cached_ids s' + mset (map dir_id fs) = add_mset (dir_id d) (cached_ids s)"
    by (metis cached_ids_def image_mset_union mset.simps(2) mset_map image_mset_add_mset)
next
  fix s s' :: "'a nfs_context" and d fh
  assume "nfs_dircache_find s fh = (s', Some d)"
  then show "add_mset (dir_id d) (cached_ids s') = cached_ids s \<and> dfh d = fh"
    by (auto simp: nfs_dircache_find_def cached_ids_def split: prod.splits dest!: take_fh_mset)
next
  fix s s' :: "'a nfs_context" and fh
  assume "nfs_dircache_find s fh = (s', None)"
  then show "cached_ids s' = cached_ids s"
    by (auto simp: nfs_dircache_find_def cached_ids_def split: prod.splits dest!: take_fh_mset)
qed

lemma dircache_add_bound:
  "nfs_wf nfs \<Longrightarrow> nfs_dircache_add nfs d = (nfs', fs) \<Longrightarrow> nfs_wf nfs'"
  by (auto simp: nfs_dircache_add_def nfsi_wf_def simp del: evict.simps split: prod.splits
      dest!: evict_length)

lemma dircache_find_bound:
  "nfs_wf nfs \<Longrightarrow> nfs_dircache_find nfs fh = (nfs', r) \<Longrightarrow> nfs_wf nfs'"
  by (auto simp: nfs_dircache_find_def nfsi_wf_def split: prod.splits dest!: take_fh_length)

section \<open>Directory handles over time\<close>

text \<open>
  The context with its cache, the application's listings, what was freed and, as a history, what
  was ever opened. \<open>dir_id\<close> numbers the allocations.
  A step is one call: a listing read from the server is handed out, a cached one is found
  again, a listing is closed, dropped from the cache, read from or positioned, or caching is
  switched.
\<close>

type_synonym 'r dir_world = "'r nfs_context \<times> nfsdir multiset \<times> nat multiset \<times> nat list"

fun all_ids :: "'r dir_world \<Rightarrow> nat multiset" where
  "all_ids (n, held, freed, ever) = cached_ids n + image_mset dir_id held + freed"

fun ever_opened :: "'r dir_world \<Rightarrow> nat list" where
  "ever_opened (n, held, freed, ever) = ever"

inductive dir_step :: "'r dir_world \<Rightarrow> 'r dir_world \<Rightarrow> bool" where
  opened: "dir_id d \<notin> set e \<Longrightarrow> dir_step (n, h, f, e) (n, add_mset d h, f, dir_id d # e)"
| found: "nfs_dircache_find n fh = (n', Some d) \<Longrightarrow> dir_step (n, h, f, e) (n', add_mset d h, f, e)"
| missed: "nfs_dircache_find n fh = (n', None) \<Longrightarrow> dir_step (n, h, f, e) (n', h, f, e)"
| closed: "nfs_closedir (Some n) d = (Some n', fs) \<Longrightarrow>
    dir_step (n, add_mset d h, f, e) (n', h, f + mset (map dir_id fs), e)"
| dropped: "nfs_dircache_drop n fh = (n', fs) \<Longrightarrow> dir_step (n, h, f, e) (n', h, f + mset (map dir_id fs), e)"
| read_entry: "dir_step (n, add_mset d h, f, e) (n, add_mset (fst (nfs_readdir d)) h, f, e)"
| seeked: "dir_step (n, add_mset d h, f, e) (n, add_mset (nfs_seekdir d loc) h, f, e)"
| rewound: "dir_step (n, add_mset d h, f, e) (n, add_mset (nfs_rewinddir d) h, f, e)"
| switched: "dir_step (n, h, f, e) (nfs_set_dircache n on, h, f, e)"

lemma dir_id_keeps [simp]:
  "dir_id (fst (nfs_readdir d)) = dir_id d" "dir_id (nfs_seekdir d loc) = dir_id d"
  "dir_id (nfs_rewinddir d) = dir_id d"
  by (simp_all add: nfs_readdir_def nfs_seekdir_def nfs_rewinddir_def split: option.splits)

lemma set_dircache_keeps [simp]:
  "cached_ids (nfs_set_dircache n e) = cached_ids n" "nfs_wf (nfs_set_dircache n e) = nfs_wf n"
  by (simp_all add: nfs_setters cached_ids_def nfsi_wf_def)

lemma closedir_content:
  "nfs_closedir (Some n) d = (Some n', fs) \<Longrightarrow>
   cached_ids n' + mset (map dir_id fs) = add_mset (dir_id d) (cached_ids n)"
  using dc.put_content [of n d n' fs] by (auto simp: nfs_closedir_def split: if_splits prod.splits)

lemma closedir_wf: "nfs_wf n \<Longrightarrow> nfs_closedir (Some n) d = (Some n', fs) \<Longrightarrow> nfs_wf n'"
  by (auto simp: nfs_closedir_def split: if_splits prod.splits dest: dircache_add_bound)

lemma drop_content:
  "nfs_dircache_drop n fh = (n', fs) \<Longrightarrow> cached_ids n = cached_ids n' + mset (map dir_id fs)"
  by (auto simp: nfs_dircache_drop_def split: prod.splits option.splits dest!: dc.get_content)

lemma drop_wf: "nfs_wf n \<Longrightarrow> nfs_dircache_drop n fh = (n', fs) \<Longrightarrow> nfs_wf n'"
  by (auto simp: nfs_dircache_drop_def split: prod.splits option.splits dest: dircache_find_bound)

definition owned_once :: "'r dir_world \<Rightarrow> bool" where
  "owned_once w \<longleftrightarrow> nfs_wf (fst w) \<and> all_ids w = mset (ever_opened w) \<and> distinct (ever_opened w)"

lemma dir_step_ids:
  "dir_step w w' \<Longrightarrow> ever_opened w' = ever_opened w \<and> all_ids w' = all_ids w
     \<or> (\<exists>i. i \<notin> set (ever_opened w) \<and> ever_opened w' = i # ever_opened w \<and> all_ids w' = add_mset i (all_ids w))"
proof (induction rule: dir_step.induct)
  case (closed n d n' fs h f e)
  then show ?case using closedir_content [OF closed] by (auto simp: algebra_simps)
next
  case (dropped n fh n' fs h f e)
  then show ?case using drop_content [OF dropped] by (auto simp: algebra_simps)
qed (auto dest: dc.get_content)

lemma dir_step_owned: "dir_step w w' \<Longrightarrow> owned_once w \<Longrightarrow> owned_once w'"
proof -
  assume s: "dir_step w w'" and o: "owned_once w"
  have "nfs_wf (fst w')"
    using s o by cases
      (auto simp: owned_once_def dest: closedir_wf drop_wf dircache_find_bound)
  then show ?thesis using dir_step_ids [OF s] o by (auto simp: owned_once_def)
qed

text \<open>
  C20. In every sequence of directory calls of an application that starts with an empty cache,
  each listing that was ever opened is at any moment in exactly one place, the application's
  hands, the cache or the freed ones: none is freed twice, used after it was freed, or lost
  without being freed. No listing comes from elsewhere, and the cache never holds more than
  \<open>MAX_DIR_CACHE + 1\<close> listings.
\<close>

theorem nfs_dircache_owned_once:
  assumes "nfs_wf n0" "nfsi_dircache (nfsi n0) = []"
    and "dir_step\<^sup>*\<^sup>* (n0, {#}, {#}, []) w"
  shows "length (nfsi_dircache (nfsi (fst w))) \<le> MAX_DIR_CACHE + 1
    \<and> (\<forall>i. count (all_ids w) i = (if i \<in> set (ever_opened w) then 1 else 0))"
proof -
  have "owned_once (n0, {#}, {#}, [])"
    using assms(1,2) by (simp add: owned_once_def cached_ids_def)
  with assms(3) have "owned_once w"
    by (induction rule: rtranclp_induct) (auto intro: dir_step_owned)
  then show ?thesis by (auto simp: owned_once_def nfsi_wf_def distinct_count_atmost_1 count_mset_0_iff)
qed

definition sample_nfs :: "unit nfs_context" where
  "sample_nfs = \<lparr>nrpc = zero_rpc, nfsi = zero_nfsi
     \<lparr>nfsi_readmax := 8192, nfsi_writemax := 8192, nfsi_readdir_dircount := 8192,
      nfsi_readdir_maxcount := 8192, nfsi_version := NFS_V3, nfsi_dircache_enabled := 1\<rparr>\<rparr>"

lemma sample_nfs_wf: "nfs_wf sample_nfs"
  by (simp add: sample_nfs_def nfsi_wf_def zero_nfsi_def xfer_ok_def NFS_MIN_XFER_SIZE_def NFS_MAX_XFER_SIZE_def)

definition sample_dir :: nfsdir where
  "sample_dir = \<lparr>dir_id = 7, dfh = [1, 2], dattr = zero_attr,
     dentries = [zero_dirent\<lparr>dname := ''a'', dinode := 1\<rparr>, zero_dirent\<lparr>dname := ''b'', dinode := 2\<rparr>],
     dcurrent = Some 1\<rparr>"

text \<open>A listing is opened and closed, and with that in the cache and nowhere else.\<close>

lemma sample_closed:
  "dir_step\<^sup>*\<^sup>* (sample_nfs, {#}, {#}, [])
     (sample_nfs\<lparr>nfsi := (nfsi sample_nfs)\<lparr>nfsi_dircache := [sample_dir]\<rparr>\<rparr>, {#}, {#}, [7])"
proof -
  have "dir_step (sample_nfs, {#}, {#}, []) (sample_nfs, {#sample_dir#}, {#}, [7])"
    using dir_step.opened [of sample_dir "[]" sample_nfs "{#}" "{#}"] by (simp add: sample_dir_def)
  moreover have "dir_step (sample_nfs, add_mset sample_dir {#}, {#}, [7])
     (sample_nfs\<lparr>nfsi := (nfsi sample_nfs)\<lparr>nfsi_dircache := [sample_dir]\<rparr>\<rparr>, {#}, {#} + mset (map dir_id ([] :: nfsdir list)), [7])"
    by (rule dir_step.closed) (simp add: nfs_closedir_def nfs_dircache_add_def sample_nfs_def zero_nfsi_def)
  ultimately show ?thesis by (simp add: converse_rtranclp_into_rtranclp)
qed

theorem nfs_dircache_owned_once_witness:
  "count (all_ids (sample_nfs\<lparr>nfsi := (nfsi sample_nfs)\<lparr>nfsi_dircache := [sample_dir]\<rparr>\<rparr>, {#}, {#}, [7])) 7 = 1"
  using nfs_dircache_owned_once [OF sample_nfs_wf _ sample_closed] by (simp add: sample_nfs_def zero_nfsi_def)

text \<open>The bound is reached: the cache really holds one listing more than \<open>MAX_DIR_CACHE\<close>.\<close>

lemma evict_keeps_129: "length ds = MAX_DIR_CACHE + 1 \<Longrightarrow> evict 0 ds = (ds, [])"
proof -
  have "length ds + i \<le> MAX_DIR_CACHE + 1 \<Longrightarrow> evict i ds = (ds, [])" for i
    by (induction ds arbitrary: i) auto
  then show "length ds = MAX_DIR_CACHE + 1 \<Longrightarrow> evict 0 ds = (ds, [])" by simp
qed

section \<open>Positions in a directory\<close>

definition dir_wf :: "nfsdir \<Rightarrow> bool" where
  "dir_wf d \<longleftrightarrow> (\<forall>i. dcurrent d = Some i \<longrightarrow> i < length (dentries d))"

lemma seek_loop_alt: "seek_loop i n loc = (if loc < n then Some (i + loc) else None)"
  by (induction i n loc rule: seek_loop.induct) auto

lemma telldir_alt:
  "dir_wf d \<Longrightarrow> nfs_telldir d = (case dcurrent d of None \<Rightarrow> -1 | Some i \<Rightarrow> int i)"
proof (cases "dcurrent d")
  case None
  then have "find (\<lambda>i. dcurrent d = Some i) [0..<length (dentries d)] = None"
    by (simp add: find_None_iff)
  then show ?thesis using None by (simp add: nfs_telldir_def)
next
  case (Some i)
  assume "dir_wf d"
  then have "i < length (dentries d)" using Some by (simp add: dir_wf_def)
  then have "find (\<lambda>j. dcurrent d = Some j) [0..<length (dentries d)] = Some i"
    unfolding find_Some_iff using Some by (intro exI [of _ i]) simp
  then show ?thesis using Some by (simp add: nfs_telldir_def)
qed

text \<open>The entries that up to \<open>n\<close> calls of \<open>nfs_readdir\<close> return.\<close>

fun read_entries :: "nat \<Rightarrow> nfsdir \<Rightarrow> nfsdirent list" where
  "read_entries 0 d = []"
| "read_entries (Suc n) d = (case nfs_readdir d of (d', None) \<Rightarrow> [] | (d', Some e) \<Rightarrow> e # read_entries n d')"

lemma read_entries_from:
  "i < length (dentries d) \<Longrightarrow> dcurrent d = Some i \<Longrightarrow> read_entries n d = take n (drop i (dentries d))"
proof (induction n arbitrary: d i)
  case (Suc n)
  let ?d = "d\<lparr>dcurrent := at_entry d (i + 1)\<rparr>"
  have "read_entries n ?d = take n (drop (i + 1) (dentries d))"
  proof (cases "i + 1 < length (dentries d)")
    case True
    then show ?thesis using Suc.IH [of "i + 1" ?d] by (simp add: at_entry_def)
  next
    case False
    then show ?thesis using Suc.prems by (cases n) (simp_all add: at_entry_def nfs_readdir_def)
  qed
  then show ?case
    using Suc.prems by (simp add: nfs_readdir_def Cons_nth_drop_Suc [symmetric])
qed simp

lemma read_entries_end: "dcurrent d = None \<Longrightarrow> read_entries n d = []"
  by (cases n) (simp_all add: nfs_readdir_def)

text \<open>
  A position taken with \<open>nfs_telldir\<close> before the end of a directory and restored with
  \<open>nfs_seekdir\<close>, however far the listing was read or moved in between, continues with the same
  entries; and reading after \<open>nfs_rewinddir\<close> returns all entries in order.
\<close>

theorem nfs_seekdir_telldir:
  assumes "dir_wf d" "dcurrent d \<noteq> None" "dentries d' = dentries d"
  shows "read_entries n (nfs_seekdir d' (nfs_telldir d)) = read_entries n d
    \<and> read_entries n (nfs_rewinddir d') = take n (dentries d)"
proof -
  obtain i where i: "dcurrent d = Some i" "i < length (dentries d)"
    using assms by (auto simp: dir_wf_def)
  have "dcurrent (nfs_seekdir d' (nfs_telldir d)) = Some i" "dentries (nfs_seekdir d' (nfs_telldir d)) = dentries d"
    using i assms by (simp_all add: telldir_alt nfs_seekdir_def seek_loop_alt)
  moreover have "dcurrent (nfs_rewinddir d') = Some 0" "dentries (nfs_rewinddir d') = dentries d"
    using i assms by (auto simp: nfs_rewinddir_def at_entry_def)
  ultimately show ?thesis
    using read_entries_from i by (metis drop0 gr_implies_not0 not_gr_zero)
qed

theorem nfs_seekdir_telldir_witness:
  "read_entries 5 (nfs_seekdir (fst (nfs_readdir sample_dir)) (nfs_telldir sample_dir)) = [zero_dirent\<lparr>dname := ''b'', dinode := 2\<rparr>]"
proof -
  have "read_entries 5 (nfs_seekdir (fst (nfs_readdir sample_dir)) (nfs_telldir sample_dir)) = read_entries 5 sample_dir"
    using nfs_seekdir_telldir [of sample_dir "fst (nfs_readdir sample_dir)" 5]
    by (simp add: sample_dir_def dir_wf_def nfs_readdir_def)
  also have "\<dots> = [zero_dirent\<lparr>dname := ''b'', dinode := 2\<rparr>]"
    by (subst read_entries_from [of 1]) (simp_all add: sample_dir_def)
  finally show ?thesis .
qed

end
