(* ===== verification/Url.thy ===== *)
theory Url
  imports Nfs_Context
begin

text \<open>
  URLs of \<open>src/lib/libnfs.c\<close>: \<open>nfs_parse_url\<close> takes a URL apart, applies its arguments to the
  context and fills a \<open>struct nfs_url\<close>. A C string is the list of its characters without the
  terminating NUL, a pointer into one is the rest of the string; cutting a string at a pointer
  is \<open>take\<close>.

  \<open>atoi\<close> and \<open>strtol\<close> are those of a 64-bit C library: the value saturates at the range of
  \<open>long\<close> and its low 32 bits are the \<open>int\<close>. \<open>timeo\<close> multiplies an \<open>int\<close> by 100: the overflow is
  undefined behaviour and the outcome \<open>None\<close>. Errors are values of \<open>url_error\<close>; the changes made
  to the context before the error stay. The build is the one without TLS and Kerberos, where
  \<open>rpc_set_username\<close> does nothing.
\<close>

section \<open>Numbers\<close>

definition is_digit :: "char \<Rightarrow> bool" where
  "is_digit c \<longleftrightarrow> 48 \<le> (of_char c :: nat) \<and> (of_char c :: nat) \<le> 57"

definition is_space :: "char \<Rightarrow> bool" where
  "is_space c \<longleftrightarrow> (of_char c :: nat) = 32 \<or> (9 \<le> (of_char c :: nat) \<and> (of_char c :: nat) \<le> 13)"

fun digits_val :: "nat \<Rightarrow> string \<Rightarrow> nat" where
  "digits_val acc [] = acc"
| "digits_val acc (c # cs) = digits_val (10 * acc + (of_char c - 48)) cs"

definition clamp_long :: "int \<Rightarrow> int" where
  "clamp_long i = max (- (2 ^ 63)) (min i (2 ^ 63 - 1))"

text \<open>\<open>strtol(s, &end, 10)\<close>: the value, and whether \<open>end\<close> moved.\<close>

definition strtol10 :: "string \<Rightarrow> int \<times> bool" where
  "strtol10 s =
     (let t = dropWhile is_space s;
          neg = (t \<noteq> [] \<and> hd t = CHR ''-'');
          u = (if t \<noteq> [] \<and> (hd t = CHR ''-'' \<or> hd t = CHR ''+'') then tl t else t);
          ds = takeWhile is_digit u;
          v = int (digits_val 0 ds)
      in if ds = [] then (0, False) else (clamp_long (if neg then - v else v), True))"

definition atoi :: "string \<Rightarrow> int" where
  "atoi s = s32 (fst (strtol10 s))"

section \<open>Arguments\<close>

datatype url_error =
    Invalid_URL | Invalid_server | Invalid_port | Incomplete_URL
  | Unknown_argument | Bad_timeo | Bad_retrans | Bad_version

text \<open>The conversions \<open>int\<close> to \<open>size_t\<close> and to \<open>uint32_t\<close>.\<close>

definition to_size :: "int \<Rightarrow> nat" where
  "to_size i = nat (i mod 2 ^ 64)"

definition strchr :: "string \<Rightarrow> char \<Rightarrow> string option" where
  "strchr s c = (case dropWhile (\<lambda>x. x \<noteq> c) s of [] \<Rightarrow> None | r \<Rightarrow> Some r)"

definition nfs_set_context_args_no_val ::
    "'r nfs_context \<Rightarrow> string \<Rightarrow> 'r nfs_context \<times> url_error option" where
  "nfs_set_context_args_no_val nfs arg =
     (if arg = ''readonly'' then (nfs_set_readonly nfs 1, None) else (nfs, Some Unknown_argument))"

text \<open>\<open>now\<close> is the time stamp of the credentials that \<open>uid\<close> and \<open>gid\<close> create.\<close>

definition nfs_set_context_args ::
    "u32 \<Rightarrow> 'r nfs_context \<Rightarrow> string \<Rightarrow> string \<Rightarrow> ('r nfs_context \<times> url_error option) option" where
  "nfs_set_context_args now nfs arg val =
     (if arg = ''tcp-syncnt'' then Some (nfs_set_tcp_syncnt nfs (atoi val), None)
      else if arg = ''uid'' then map_option (\<lambda>n. (n, None)) (nfs_set_uid now nfs (atoi val))
      else if arg = ''gid'' then map_option (\<lambda>n. (n, None)) (nfs_set_gid now nfs (atoi val))
      else if arg = ''timeo'' then
        (let t = atoi val * 100 in
         if \<not> int_range t then None
         else if t < 10 * 1000 then Some (nfs, Some Bad_timeo)
         else Some (nfs_set_timeout nfs t, None))
      else if arg = ''retrans'' then
        (if atoi val < 0 then Some (nfs, Some Bad_retrans)
         else map_option (\<lambda>n. (n, None)) (nfs_set_retrans nfs (atoi val)))
      else if arg = ''debug'' then Some (nfs_set_debug nfs (atoi val), None)
      else if arg = ''auto-traverse-mounts'' then Some (nfs_set_auto_traverse_mounts nfs (atoi val), None)
      else if arg = ''dircache'' then Some (nfs_set_dircache nfs (atoi val), None)
      else if arg = ''autoreconnect'' then Some (nfs_set_autoreconnect nfs (atoi val), None)
      else if arg = ''if'' then Some (nfs_set_interface nfs val, None)
      else if arg = ''version'' then
        (case nfs_set_version nfs (atoi val) of
           (n, r) \<Rightarrow> Some (n, if r < 0 then Some Bad_version else None))
      else if arg = ''nfsport'' then Some (nfs_set_nfsport nfs (atoi val), None)
      else if arg = ''mountport'' then Some (nfs_set_mountport nfs (atoi val), None)
      else if arg = ''rsize'' then Some (nfs_set_readmax nfs (to_size (atoi val)), None)
      else if arg = ''wsize'' then Some (nfs_set_writemax nfs (to_size (atoi val)), None)
      else if arg = ''readdir-buffer'' then
        (case strchr val (CHR '','') of
           Some strp \<Rightarrow> Some (nfs_set_readdir_max_buffer_size nfs
                           (word_of_int (atoi val)) (word_of_int (atoi (tl strp))), None)
         | None \<Rightarrow> Some (nfs_set_readdir_max_buffer_size nfs
                           (word_of_int (atoi val)) (word_of_int (atoi val)), None))
      else Some (nfs, Some Unknown_argument))"

text \<open>One argument, with or without a value.\<close>

definition url_arg :: "u32 \<Rightarrow> 'r nfs_context \<Rightarrow> string \<Rightarrow> ('r nfs_context \<times> url_error option) option" where
  "url_arg now nfs arg =
     (case strchr arg (CHR ''='') of
        Some strp2 \<Rightarrow> nfs_set_context_args now nfs (takeWhile (\<lambda>c. c \<noteq> CHR ''='') arg) (tl strp2)
      | None \<Rightarrow> Some (nfs_set_context_args_no_val nfs arg))"

text \<open>
  The loop over the arguments; \<open>s\<close> is what follows the question mark or the last ampersand.
\<close>

function flags_loop ::
    "u32 \<Rightarrow> 'r nfs_context \<Rightarrow> string \<Rightarrow> ('r nfs_context \<times> url_error option) option" where
  "flags_loop now nfs s =
     (if s = [] then Some (nfs, None)
      else
        let arg = takeWhile (\<lambda>c. c \<noteq> CHR ''&'') s;
            rest = dropWhile (\<lambda>c. c \<noteq> CHR ''&'') s
        in case url_arg now nfs arg of
             None \<Rightarrow> None
           | Some (nfs', Some e) \<Rightarrow> Some (nfs', Some e)
           | Some (nfs', None) \<Rightarrow>
               if rest = [] then Some (nfs', None) else flags_loop now nfs' (tl rest))"
  by pat_completeness auto
termination
proof (relation "measure (\<lambda>(now, nfs, s). length s)", goal_cases)
  case (2 now nfs s arg rest)
  have "length rest \<le> length s" using length_dropWhile_le [of "\<lambda>c. c \<noteq> CHR ''&''" s] 2(3) by simp
  moreover have "0 < length s" using 2(1) by simp
  ultimately have "length (tl rest) < length s" unfolding length_tl by linarith
  then show ?case by simp
qed simp

declare flags_loop.simps [simp del]

section \<open>Unescaping\<close>

definition tohex :: "char \<Rightarrow> int" where
  "tohex ch =
     (let n = (of_char ch :: nat) in
      if 48 \<le> n \<and> n \<le> 57 then int n - 48
      else let m = (n AND 0xDF) in
        if 65 \<le> m \<and> m \<le> 70 then int m - 65 + 10 else -1)"

text \<open>
  \<open>strp[1]\<close> and \<open>strp[2]\<close> may be the terminating NUL, which is no digit. A decoded character is
  not looked at again. The code \<open>%00\<close> puts a NUL in the string, which ends it.
\<close>

fun unescape :: "string \<Rightarrow> string" where
  "unescape [] = []"
| "unescape (c # s) =
     (if c = CHR ''%'' then
        (case s of
           a # b # r \<Rightarrow>
             if tohex a < 0 \<or> tohex b < 0 then c # unescape s
             else char_of (nat (16 * tohex a + tohex b)) # unescape r
         | _ \<Rightarrow> c # unescape s)
      else c # unescape s)"

definition c_string :: "string \<Rightarrow> string" where
  "c_string s = takeWhile (\<lambda>c. of_char c \<noteq> (0 :: nat)) s"

section \<open>Parsing\<close>

record nfs_url =
  url_server :: "string option"
  url_port :: int
  url_path :: "string option"
  url_file :: "string option"

text \<open>
  What follows the label \<open>flags\<close>: the arguments are cut off the string they stand in, which
  the caller has done, \<open>flags\<close> being the rest after the question mark.
\<close>

definition url_flags ::
    "u32 \<Rightarrow> 'r nfs_context \<Rightarrow> bool \<Rightarrow> string \<Rightarrow> string option \<Rightarrow> string option \<Rightarrow> string \<Rightarrow>
     ('r nfs_context \<times> (url_error + nfs_url)) option" where
  "url_flags now nfs incomplete server path file flags =
     (if file = Some [] \<and> \<not> incomplete then Some (nfs, Inl Incomplete_URL)
      else
        let file' = (if file = Some [] then None else file) in
        case flags_loop now nfs flags of
          None \<Rightarrow> None
        | Some (nfs', Some e) \<Rightarrow> Some (nfs', Inl e)
        | Some (nfs', None) \<Rightarrow>
            let server' = (case strchr server (CHR ''@'') of None \<Rightarrow> server | Some s \<Rightarrow> tl s)
            in Some (nfs', Inr \<lparr>url_server = (if length server' \<le> 1 then None else Some server'),
                 url_port = (if nfsi_mountport (nfsi nfs') \<noteq> 0 then nfsi_mountport (nfsi nfs')
                             else nfsi_nfsport (nfsi nfs')),
                 url_path = path, url_file = file'\<rparr>))"

abbreviation before_q :: "string \<Rightarrow> string" where
  "before_q s \<equiv> takeWhile (\<lambda>c. c \<noteq> CHR ''?'') s"

definition after_q :: "string \<Rightarrow> string" where
  "after_q s = (case strchr s (CHR ''?'') of None \<Rightarrow> [] | Some r \<Rightarrow> tl r)"

text \<open>
  The port: from the first colon of the whole string to the slash after it. Without a slash
  the string is cut after the colon.
\<close>

definition url_take_port :: "'r nfs_context \<Rightarrow> string \<Rightarrow> 'r nfs_context \<times> string option" where
  "url_take_port nfs server =
     (case strchr server (CHR '':'') of
        None \<Rightarrow> (nfs, Some server)
      | Some r \<Rightarrow>
          let strp = tl r;
              before = takeWhile (\<lambda>c. c \<noteq> CHR '':'') server;
              port_str = takeWhile (\<lambda>c. c \<noteq> CHR ''/'') strp;
              port_num = s32 (fst (strtol10 port_str))
          in if \<not> snd (strtol10 port_str) \<or> port_num < 0 \<or> port_num > 65535 then (nfs, None)
             else (nfs_set_nfsport nfs port_num,
                   Some (case strchr strp (CHR ''/'') of
                           None \<Rightarrow> before @ '':''
                         | Some slash_pos \<Rightarrow> before @ slash_pos)))"

definition nfs_parse_url ::
    "u32 \<Rightarrow> 'r nfs_context \<Rightarrow> string \<Rightarrow> bool \<Rightarrow> bool \<Rightarrow>
     ('r nfs_context \<times> (url_error + nfs_url)) option" where
  "nfs_parse_url now nfs url dir incomplete =
     (if take 6 url \<noteq> ''nfs://'' then Some (nfs, Inl Invalid_URL)
      else
        let server = c_string (unescape (drop 6 url)) in
        if server = [] \<or> hd server = CHR ''/'' \<or> hd server = CHR ''?'' then
          (if incomplete
           then url_flags now nfs incomplete (before_q server) None None (after_q server)
           else Some (nfs, Inl Invalid_server))
        else case url_take_port nfs server of
          (nfs1, None) \<Rightarrow> Some (nfs1, Inl Invalid_port)
        | (nfs1, Some server1) \<Rightarrow>
            (case strchr server1 (CHR ''/'') of
               None \<Rightarrow>
                 if incomplete
                 then url_flags now nfs1 incomplete (before_q server1) None None (after_q server1)
                 else Some (nfs1, Inl Incomplete_URL)
             | Some path \<Rightarrow>
                 let host = takeWhile (\<lambda>c. c \<noteq> CHR ''/'') server1 in
                 if dir
                 then url_flags now nfs1 incomplete host (Some (before_q path)) None (after_q path)
                 else
                   let file = CHR ''/'' # rev (takeWhile (\<lambda>c. c \<noteq> CHR ''/'') (rev path));
                       dirp = take (length path - length file) path
                   in url_flags now nfs1 incomplete host (Some dirp) (Some (before_q file)) (after_q file)))"

definition nfs_parse_url_full ::
    "u32 \<Rightarrow> 'r nfs_context \<Rightarrow> string \<Rightarrow> ('r nfs_context \<times> (url_error + nfs_url)) option" where
  "nfs_parse_url_full now nfs url = nfs_parse_url now nfs url False False"

definition nfs_parse_url_dir ::
    "u32 \<Rightarrow> 'r nfs_context \<Rightarrow> string \<Rightarrow> ('r nfs_context \<times> (url_error + nfs_url)) option" where
  "nfs_parse_url_dir now nfs url = nfs_parse_url now nfs url True False"

definition nfs_parse_url_incomplete ::
    "u32 \<Rightarrow> 'r nfs_context \<Rightarrow> string \<Rightarrow> ('r nfs_context \<times> (url_error + nfs_url)) option" where
  "nfs_parse_url_incomplete now nfs url = nfs_parse_url now nfs url False True"

section \<open>Lemmas about numbers and strings\<close>

lemma of_char_char_of_small: "n < 256 \<Longrightarrow> of_char (char_of n) = (n :: nat)"
  by (simp add: take_bit_nat_eq_self)

lemma digits_val_append: "digits_val acc (s @ t) = digits_val (digits_val acc s) t"
  by (induction acc s rule: digits_val.induct) simp_all

lemma dec_nat_digits: "\<forall>c\<in>set (dec_nat n). is_digit c"
proof (induction n rule: dec_nat.induct)
  case (1 n)
  have "is_digit (char_of (48 + k))" if "k < 10" for k :: nat
    using that by (simp add: is_digit_def of_char_char_of_small)
  then show ?case
    using 1 by (simp add: dec_nat.simps [of n])
qed

lemma dec_nat_not_Nil [simp]: "dec_nat n \<noteq> []"
  by (simp add: dec_nat.simps [of n])

lemma digits_val_dec_nat: "digits_val 0 (dec_nat n) = n"
proof (induction n rule: dec_nat.induct)
  case (1 n)
  then show ?case
    by (simp add: dec_nat.simps [of n] digits_val_append of_char_char_of_small)
qed

lemma digit_other:
  "is_digit c \<Longrightarrow> \<not> is_space c \<and> c \<noteq> CHR ''-'' \<and> c \<noteq> CHR ''+'' \<and> c \<noteq> CHR ''/'' \<and> c \<noteq> CHR ''%''
     \<and> of_char c \<noteq> (0 :: nat) \<and> c \<noteq> CHR '':''"
  by (auto simp: is_digit_def is_space_def)

lemma strtol10_dec_nat:
  assumes "n < 2 ^ 63"
  shows "strtol10 (dec_nat n) = (int n, True)"
proof -
  obtain c cs where c: "dec_nat n = c # cs" by (cases "dec_nat n") simp_all
  then have "is_digit c" using dec_nat_digits [of n] by simp
  then have "dropWhile is_space (dec_nat n) = dec_nat n" "hd (dec_nat n) \<noteq> CHR ''-''" "hd (dec_nat n) \<noteq> CHR ''+''"
    using digit_other [of c] by (simp_all add: c)
  moreover have tw: "takeWhile is_digit (dec_nat n) = dec_nat n"
    using dec_nat_digits [of n] by (simp add: takeWhile_eq_all_conv)
  moreover have "clamp_long (int n) = int n"
    using assms by (simp add: clamp_long_def)
  ultimately show ?thesis
    unfolding strtol10_def Let_def by (simp add: digits_val_dec_nat tw)
qed

lemma strchr_skip [simp]: "c \<notin> set s \<Longrightarrow> strchr (s @ c # r) c = Some (c # r)"
  unfolding strchr_def by (subst dropWhile_append2) auto

lemma strchr_None [simp]: "c \<notin> set s \<Longrightarrow> strchr s c = None"
  unfolding strchr_def by (subst dropWhile_eq_Nil_conv [THEN iffD2]) auto

lemma takeWhile_skip [simp]: "c \<notin> set s \<Longrightarrow> takeWhile (\<lambda>x. x \<noteq> c) (s @ c # r) = s"
  by (subst takeWhile_append2) auto

lemma takeWhile_none [simp]: "c \<notin> set s \<Longrightarrow> takeWhile (\<lambda>x. x \<noteq> c) s = s"
  by (subst takeWhile_eq_all_conv) auto

lemma c_string_id: "\<forall>c\<in>set s. of_char c \<noteq> (0 :: nat) \<Longrightarrow> c_string s = s"
  by (simp add: c_string_def takeWhile_eq_all_conv)

section \<open>Escaping\<close>

text \<open>
  How an application writes a string into a URL: the characters that \<open>P\<close> asks for, and at
  least the percent sign, as their code.
\<close>

definition hexdigit :: "nat \<Rightarrow> char" where
  "hexdigit k = (if k < 10 then char_of (48 + k) else char_of (55 + k))"

definition esc_char :: "(char \<Rightarrow> bool) \<Rightarrow> char \<Rightarrow> string" where
  "esc_char P c = (if P c \<or> c = CHR ''%''
     then [CHR ''%'', hexdigit (of_char c div 16), hexdigit (of_char c mod 16)] else [c])"

definition url_escape :: "(char \<Rightarrow> bool) \<Rightarrow> string \<Rightarrow> string" where
  "url_escape P s = concat (map (esc_char P) s)"

lemma tohex_hexdigit: "k < 16 \<Longrightarrow> tohex (hexdigit k) = int k"
proof -
  assume "k < 16"
  then consider "k < 10" | "k = 10 \<or> k = 11 \<or> k = 12 \<or> k = 13 \<or> k = 14 \<or> k = 15" by linarith
  then show ?thesis
    by cases (auto simp: tohex_def hexdigit_def Let_def)
qed

lemma unescape_plain: "c \<noteq> CHR ''%'' \<Longrightarrow> unescape (c # s) = c # unescape s"
  by simp

lemma unescape_esc_char: "unescape (esc_char P c @ s) = c # unescape s"
proof (cases "P c \<or> c = CHR ''%''")
  case True
  have n: "(of_char c :: nat) div 16 < 16" "(of_char c :: nat) mod 16 < 16"
    using nat_of_char_less_256 [of c] by (simp_all add: less_mult_imp_div_less del: nat_of_char_less_256)
  have "nat (16 * int (of_char c div 16) + int (of_char c mod 16)) = of_char c"
  proof -
    have "16 * int (of_char c div 16) + int (of_char c mod 16) = int (16 * (of_char c div 16) + of_char c mod 16)"
      unfolding of_nat_add of_nat_mult by simp
    then show ?thesis by (simp only: nat_int mult_div_mod_eq)
  qed
  then show ?thesis using True n by (simp add: esc_char_def tohex_hexdigit)
next
  case False
  then show ?thesis by (simp add: esc_char_def unescape_plain)
qed

lemma unescape_escape [simp]: "unescape (url_escape P s) = s"
  by (induction s) (simp_all add: url_escape_def unescape_esc_char)

section \<open>Taking a URL apart\<close>

lemma flags_loop_Nil [simp]: "flags_loop now nfs [] = Some (nfs, None)"
  by (simp add: flags_loop.simps)

lemma url_take_port_with:
  assumes "CHR '':'' \<notin> set host" "p \<le> 65535"
  shows "url_take_port nfs (host @ CHR '':'' # dec_nat p @ CHR ''/'' # r)
       = (nfs_set_nfsport nfs (int p), Some (host @ CHR ''/'' # r))"
proof -
  have "CHR ''/'' \<notin> set (dec_nat p)"
    using dec_nat_digits [of p] digit_other by blast
  moreover have "s32 (int p) = int p" using assms(2) by (intro s32_nonneg) simp_all
  ultimately show ?thesis
    using assms by (simp add: url_take_port_def strtol10_dec_nat)
qed

lemma url_no_flags:
  "CHR ''@'' \<notin> set host \<Longrightarrow> 2 \<le> length host \<Longrightarrow> file \<noteq> Some [] \<Longrightarrow>
   url_flags now nfs inc host path file [] =
     Some (nfs, Inr \<lparr>url_server = Some host,
       url_port = (if nfsi_mountport (nfsi nfs) \<noteq> 0 then nfsi_mountport (nfsi nfs) else nfsi_nfsport (nfsi nfs)),
       url_path = path, url_file = file\<rparr>)"
  by (simp add: url_flags_def)

lemma split_file:
  assumes "CHR ''/'' \<notin> set name"
  shows "CHR ''/'' # rev (takeWhile (\<lambda>c. c \<noteq> CHR ''/'') (rev (d @ CHR ''/'' # name))) = CHR ''/'' # name"
  using assms by simp

text \<open>What the text of a URL has to satisfy to be taken apart at its own delimiters.\<close>

definition url_parts_ok :: "string \<Rightarrow> string \<Rightarrow> string \<Rightarrow> bool" where
  "url_parts_ok host d name \<longleftrightarrow>
     2 \<le> length host \<and> set host \<inter> set '':/@'' = {} \<and> hd host \<noteq> CHR ''?''
     \<and> (d = [] \<or> hd d = CHR ''/'') \<and> set name \<inter> set ''/?'' = {}
     \<and> (\<forall>c\<in>set (host @ d @ name). of_char c \<noteq> (0 :: nat))"

lemma url_host_first:
  "url_parts_ok host d name \<Longrightarrow> host @ r \<noteq> [] \<and> hd (host @ r) \<noteq> CHR ''/'' \<and> hd (host @ r) \<noteq> CHR ''?''"
  by (cases host) (auto simp: url_parts_ok_def)

text \<open>The way through \<open>nfs_parse_url\<close> when there is a server.\<close>

lemma nfs_parse_url_text:
  assumes "c_string (unescape u) = s" "s \<noteq> []" "hd s \<noteq> CHR ''/''" "hd s \<noteq> CHR ''?''"
    and "url_take_port nfs s = (nfs1, Some (host @ CHR ''/'' # r))" "CHR ''/'' \<notin> set host"
  shows "nfs_parse_url now nfs (''nfs://'' @ u) dir inc =
    (if dir then url_flags now nfs1 inc host (Some (before_q (CHR ''/'' # r))) None (after_q (CHR ''/'' # r))
     else
       let file = CHR ''/'' # rev (takeWhile (\<lambda>c. c \<noteq> CHR ''/'') (rev (CHR ''/'' # r)))
       in url_flags now nfs1 inc host (Some (take (length (CHR ''/'' # r) - length file) (CHR ''/'' # r)))
            (Some (before_q file)) (after_q file))"
  using assms by (simp add: nfs_parse_url_def Let_def)

text \<open>
  C19. A URL written by escaping the percent sign and any other characters of host, port,
  directory and file name is parsed back into these parts, with the port stored in the context
  and nothing else of it changed, for every host of at least two characters without delimiters and
  every file name without slash and question mark.
\<close>

theorem nfs_parse_url_full_parts:
  assumes ok: "url_parts_ok host d name" and p: "p \<le> 65535"
  shows "nfs_parse_url_full now nfs
      (''nfs://'' @ url_escape P (host @ '':'' @ dec_nat p @ d @ ''/'' @ name)) =
    Some (nfs_set_nfsport nfs (int p), Inr
      \<lparr>url_server = Some host,
       url_port = (if nfsi_mountport (nfsi nfs) \<noteq> 0 then nfsi_mountport (nfsi nfs) else int p),
       url_path = Some d, url_file = Some (CHR ''/'' # name)\<rparr>)"
proof -
  define s where "s = host @ '':'' @ dec_nat p @ d @ ''/'' @ name"
  obtain r where r: "d @ CHR ''/'' # name = CHR ''/'' # r"
    using ok by (cases d) (auto simp: url_parts_ok_def)
  have "\<forall>c\<in>set s. of_char c \<noteq> (0 :: nat)"
    using ok dec_nat_digits [of p] digit_other by (auto simp: url_parts_ok_def s_def)
  then have cs: "c_string s = s" by (simp add: c_string_id)
  have tp: "url_take_port nfs s = (nfs_set_nfsport nfs (int p), Some (host @ CHR ''/'' # r))"
    using url_take_port_with [of host p nfs r] ok p r by (simp add: url_parts_ok_def s_def)
  have s0: "s \<noteq> []" "hd s \<noteq> CHR ''/''" "hd s \<noteq> CHR ''?''"
    using url_host_first [OF ok] by (auto simp: s_def)
  have h: "CHR ''/'' \<notin> set host" "CHR ''@'' \<notin> set host" "2 \<le> length host"
    and n: "CHR ''/'' \<notin> set name" "CHR ''?'' \<notin> set (CHR ''/'' # name)"
    using ok by (auto simp: url_parts_ok_def)
  have fil: "CHR ''/'' # rev (takeWhile (\<lambda>c. c \<noteq> CHR ''/'') (rev (CHR ''/'' # r))) = CHR ''/'' # name"
    unfolding r [symmetric] by (rule split_file [OF n(1)])
  have dirp: "take (length (CHR ''/'' # r) - length (CHR ''/'' # name)) (CHR ''/'' # r) = d"
    unfolding r [symmetric] by simp
  have q: "after_q (CHR ''/'' # name) = []" "before_q (CHR ''/'' # name) = CHR ''/'' # name"
    using n(2) by (simp_all add: after_q_def del: takeWhile.simps)
  have "nfs_parse_url now nfs (''nfs://'' @ url_escape P s) False False =
    url_flags now (nfs_set_nfsport nfs (int p)) False host (Some d) (Some (CHR ''/'' # name)) []"
    unfolding nfs_parse_url_text [OF _ s0 tp h(1), of "url_escape P s", unfolded unescape_escape, OF cs]
      Let_def fil dirp q by simp
  then show ?thesis
    unfolding nfs_parse_url_full_def s_def
    using h by (simp add: url_no_flags nfs_set_nfsport_def)
qed

theorem nfs_parse_url_full_parts_witness:
  "nfs_parse_url_full 0 sample_nfs
      (''nfs://'' @ url_escape (\<lambda>c. c = CHR '' '') (''host'' @ '':'' @ dec_nat 2049 @ ''/exports/my dir'' @ ''/'' @ ''100%'')) =
    Some (nfs_set_nfsport sample_nfs 2049, Inr
      \<lparr>url_server = Some ''host'', url_port = 2049, url_path = Some ''/exports/my dir'', url_file = Some ''/100%''\<rparr>)"
  using nfs_parse_url_full_parts [of "''host''" "''/exports/my dir''" "''100%''" 2049 0 sample_nfs "\<lambda>c. c = CHR '' ''"]
  by (simp add: url_parts_ok_def sample_nfs_def zero_nfsi_def)

text \<open>
  The port is looked for at the first colon of the whole URL. A URL without a port whose
  path has a component that ends in a colon and a number loses that colon and number from its
  path, and the number becomes the port of the NFS service.
\<close>

theorem nfs_parse_url_colon_in_path:
  assumes "2 \<le> length host" "set host \<inter> set '':/@'' = {}" "hd host \<noteq> CHR ''?''" "p \<le> 65535"
    and "set a \<inter> set '':?'' = {}" "CHR ''?'' \<notin> set b"
    and "\<forall>c\<in>set (host @ a @ b). of_char c \<noteq> (0 :: nat)"
  shows "nfs_parse_url_dir now nfs
      (''nfs://'' @ url_escape P (host @ ''/'' @ a @ '':'' @ dec_nat p @ ''/'' @ b)) =
    Some (nfs_set_nfsport nfs (int p), Inr
      \<lparr>url_server = Some host,
       url_port = (if nfsi_mountport (nfsi nfs) \<noteq> 0 then nfsi_mountport (nfsi nfs) else int p),
       url_path = Some (''/'' @ a @ ''/'' @ b), url_file = None\<rparr>)"
proof -
  define s where "s = host @ ''/'' @ a @ '':'' @ dec_nat p @ ''/'' @ b"
  have "\<forall>c\<in>set s. of_char c \<noteq> (0 :: nat)"
    using assms(7) dec_nat_digits [of p] digit_other by (auto simp: s_def)
  then have cs: "c_string s = s" by (simp add: c_string_id)
  have s0: "s \<noteq> []" "hd s \<noteq> CHR ''/''" "hd s \<noteq> CHR ''?''"
    using assms(1-3) by (cases host; auto simp: s_def)+
  have h: "CHR ''/'' \<notin> set host" "CHR ''@'' \<notin> set host" using assms(2) by auto
  have tp: "url_take_port nfs s = (nfs_set_nfsport nfs (int p), Some (host @ CHR ''/'' # (a @ CHR ''/'' # b)))"
    using url_take_port_with [of "host @ ''/'' @ a" p nfs b] assms by (simp add: s_def)
  have "CHR ''?'' \<notin> set (CHR ''/'' # a @ CHR ''/'' # b)" using assms(5,6) by simp
  then have q: "after_q (CHR ''/'' # a @ CHR ''/'' # b) = []"
    "before_q (CHR ''/'' # a @ CHR ''/'' # b) = CHR ''/'' # a @ CHR ''/'' # b"
    by (simp_all add: after_q_def del: takeWhile.simps)
  have "nfs_parse_url now nfs (''nfs://'' @ url_escape P s) True False =
    url_flags now (nfs_set_nfsport nfs (int p)) False host (Some (CHR ''/'' # a @ CHR ''/'' # b)) None []"
    unfolding nfs_parse_url_text [OF _ s0 tp h(1), of "url_escape P s", unfolded unescape_escape, OF cs] q
    by simp
  then show ?thesis
    unfolding nfs_parse_url_dir_def s_def
    using h assms(1) by (simp add: url_no_flags nfs_set_nfsport_def)
qed

theorem nfs_parse_url_colon_in_path_witness:
  "nfs_parse_url_dir 0 sample_nfs (''nfs://'' @ url_escape (\<lambda>_. False) (''host'' @ ''/'' @ ''vol'' @ '':'' @ dec_nat 7 @ ''/'' @ ''x'')) =
    Some (nfs_set_nfsport sample_nfs 7, Inr
      \<lparr>url_server = Some ''host'', url_port = 7, url_path = Some ''/vol/x'', url_file = None\<rparr>)"
  using nfs_parse_url_colon_in_path [of "''host''" 7 "''vol''" "''x''" 0 sample_nfs "\<lambda>_. False"]
  by (simp add: sample_nfs_def zero_nfsi_def)

section \<open>What a URL can do to the context\<close>

text \<open>
  The parameters are well-formed, and the RPC timeout is the one of the mount and at least ten
  seconds.
\<close>

definition cfg_ok :: "'r nfs_context \<Rightarrow> bool" where
  "cfg_ok nfs \<longleftrightarrow> nfs_wf nfs \<and> 10000 \<le> nfsi_timeout (nfsi nfs) \<and> timeout (nrpc nfs) = nfsi_timeout (nfsi nfs)"

lemma rpc_set_uid_gid_timeout: "rpc_set_uid_gid now rpc u g = Some rpc' \<Longrightarrow> timeout rpc' = timeout rpc"
  by (auto simp: rpc_set_uid_gid_def rpc_set_auth_def Option.bind_eq_Some_conv split: if_splits option.splits)

lemma cfg_ok_rpc: "cfg_ok nfs \<Longrightarrow> timeout r = timeout (nrpc nfs) \<Longrightarrow> cfg_ok (nfs\<lparr>nrpc := r\<rparr>)"
  by (simp add: cfg_ok_def)

lemma cfg_ok_setters [simp]:
  "cfg_ok nfs \<Longrightarrow> cfg_ok (nfs_set_tcp_syncnt nfs i)" "cfg_ok nfs \<Longrightarrow> cfg_ok (nfs_set_debug nfs i)"
  "cfg_ok nfs \<Longrightarrow> cfg_ok (nfs_set_interface nfs s)" "cfg_ok nfs \<Longrightarrow> cfg_ok (nfs_set_nfsport nfs i)"
  "cfg_ok nfs \<Longrightarrow> cfg_ok (nfs_set_mountport nfs i)" "cfg_ok nfs \<Longrightarrow> cfg_ok (nfs_set_readmax nfs n)"
  "cfg_ok nfs \<Longrightarrow> cfg_ok (nfs_set_writemax nfs n)" "cfg_ok nfs \<Longrightarrow> cfg_ok (nfs_set_readonly nfs i)"
  "cfg_ok nfs \<Longrightarrow> cfg_ok (nfs_set_dircache nfs i)" "cfg_ok nfs \<Longrightarrow> cfg_ok (nfs_set_autoreconnect nfs i)"
  "cfg_ok nfs \<Longrightarrow> cfg_ok (nfs_set_auto_traverse_mounts nfs i)"
  "cfg_ok nfs \<Longrightarrow> cfg_ok (nfs_set_readdir_max_buffer_size nfs a b)"
  "cfg_ok nfs \<Longrightarrow> 10000 \<le> i \<Longrightarrow> cfg_ok (nfs_set_timeout nfs i)"
  "cfg_ok nfs \<Longrightarrow> cfg_ok (fst (nfs_set_version nfs i))"
  by (auto simp: cfg_ok_def nfsi_wf_def nfs_setters rpc_set_tcp_syncnt_def rpc_set_debug_def
      rpc_set_interface_def rpc_set_mountport_def rpc_set_timeout_def)

lemma cfg_ok_fallible:
  "cfg_ok nfs \<Longrightarrow> nfs_set_uid now nfs i = Some nfs' \<Longrightarrow> cfg_ok nfs'"
  "cfg_ok nfs \<Longrightarrow> nfs_set_gid now nfs i = Some nfs' \<Longrightarrow> cfg_ok nfs'"
  "cfg_ok nfs \<Longrightarrow> nfs_set_retrans nfs i = Some nfs' \<Longrightarrow> cfg_ok nfs'"
  by (auto simp: nfs_setters rpc_set_uid_def rpc_set_gid_def cfg_ok_def nfsi_wf_def
      dest!: rpc_set_uid_gid_timeout split: if_splits)

lemma cfg_ok_version: "cfg_ok nfs \<Longrightarrow> nfs_set_version nfs i = (nfs', r) \<Longrightarrow> cfg_ok nfs'"
  using cfg_ok_setters(14) [of nfs i] by simp

lemma set_context_args_cfg:
  "nfs_set_context_args now nfs arg val = Some (nfs', e) \<Longrightarrow> cfg_ok nfs \<Longrightarrow> cfg_ok nfs'"
  by (auto simp: nfs_set_context_args_def Let_def dest: cfg_ok_fallible cfg_ok_version
      split: if_splits option.splits prod.splits)

lemma url_arg_cfg: "url_arg now nfs arg = Some (nfs', e) \<Longrightarrow> cfg_ok nfs \<Longrightarrow> cfg_ok nfs'"
  by (auto simp: url_arg_def nfs_set_context_args_no_val_def dest: set_context_args_cfg
      split: if_splits option.splits)

lemma flags_loop_cfg:
  "flags_loop now nfs s = Some (nfs', e) \<Longrightarrow> cfg_ok nfs \<Longrightarrow> cfg_ok nfs'"
proof (induction now nfs s arbitrary: nfs' rule: flags_loop.induct)
  case (1 now nfs s)
  let ?arg = "takeWhile (\<lambda>c. c \<noteq> CHR ''&'') s" and ?rest = "dropWhile (\<lambda>c. c \<noteq> CHR ''&'') s"
  show ?case
  proof (cases "s = []")
    case False
    obtain n1 r where u: "url_arg now nfs ?arg = Some (n1, r)"
      using "1.prems"(1) False
      by (cases "url_arg now nfs ?arg") (auto simp: flags_loop.simps [of now nfs s] Let_def)
    have "cfg_ok n1" using url_arg_cfg [OF u "1.prems"(2)] .
    moreover have fl: "flags_loop now nfs s = (case r of Some e \<Rightarrow> Some (n1, Some e)
        | None \<Rightarrow> if ?rest = [] then Some (n1, None) else flags_loop now n1 (tl ?rest))"
      unfolding flags_loop.simps [of now nfs s] Let_def u if_not_P [OF False]
      by (cases r) (simp_all only: option.case prod.case)
    ultimately show ?thesis
    proof (cases "r = None \<and> ?rest \<noteq> []")
      case True
      then have "flags_loop now n1 (tl ?rest) = Some (nfs', e)" using fl "1.prems"(1) by auto
      then show ?thesis using "1.IH" [OF False refl refl u] True \<open>cfg_ok n1\<close> by simp
    qed (use fl "1.prems"(1) in \<open>auto split: option.splits if_splits\<close>)
  qed (use 1 in simp)
qed

lemma url_flags_cfg:
  "url_flags now nfs inc server path file flags = Some (nfs', r) \<Longrightarrow> cfg_ok nfs \<Longrightarrow> cfg_ok nfs'"
  by (auto simp: url_flags_def Let_def dest: flags_loop_cfg split: if_splits option.splits prod.splits)

lemma url_take_port_cfg: "url_take_port nfs s = (nfs', r) \<Longrightarrow> cfg_ok nfs \<Longrightarrow> cfg_ok nfs'"
  by (auto simp: url_take_port_def Let_def split: if_splits option.splits)

text \<open>
  Whatever URL is parsed, and whether parsing succeeds or fails halfway, a well-configured
  context stays well-configured: the transfer sizes are whole pages between 8 KiB and 4 MiB, the
  number of retransmissions is not negative, the version is 3 or 4, and the timeout is at least
  ten seconds and the same in the RPC context.
\<close>

theorem nfs_parse_url_keeps_config:
  assumes "nfs_parse_url now nfs url dir incomplete = Some (nfs', r)" "cfg_ok nfs"
  shows "cfg_ok nfs'"
  using assms
  by (auto simp: nfs_parse_url_def Let_def dest!: url_take_port_cfg dest: url_flags_cfg
      split: if_splits option.splits prod.splits)

theorem nfs_parse_url_keeps_config_witness:
  "\<exists>nfs' r. nfs_parse_url 0 (nfs_set_timeout sample_nfs 60000) ''nfs://host/d/f?rsize=5'' False False = Some (nfs', r)
     \<and> cfg_ok nfs' \<and> nfs_get_readmax nfs' = 8192"
proof -
  let ?n = "nfs_set_timeout sample_nfs 60000"
  have "cfg_ok ?n"
    using sample_nfs_wf by (simp add: cfg_ok_def nfs_set_timeout_def rpc_set_timeout_def nfsi_wf_def)
  moreover have "c_string (unescape ''host/d/f?rsize=5'') = ''host/d/f?rsize=5''"
    by code_simp
  moreover have "flags_loop 0 ?n ''rsize=5'' = Some (nfs_set_readmax ?n 5, None)"
    by (simp add: flags_loop.simps url_arg_def strchr_def nfs_set_context_args_def atoi_def strtol10_def
        is_space_def is_digit_def clamp_long_def to_size_def s32_nonneg)
  ultimately show ?thesis
    using nfs_parse_url_keeps_config [of 0 ?n "''nfs://host/d/f?rsize=5''" False False]
    by (simp add: nfs_parse_url_def url_take_port_def url_flags_def strchr_def after_q_def
        nfs_get_readmax_def nfs_set_readmax_def adjust_xfer_def NFS_MIN_XFER_SIZE_def NFS_MAX_XFER_SIZE_def)
qed

end
