(* ===== verification/Nfs3_Base.thy ===== *)
theory Nfs3_Base
  imports Nfs_Context Path
begin

text \<open>
  What the operations of the NFSv3 client \<open>src/lib/nfs_v3.c\<close> share: the procedures of the
  protocol with their arguments, the attributes of a file, the translation of a server's status
  to an error number (\<open>src/nfs/nfs.c\<close>), and the record \<open>nfs_cb_data\<close> an operation keeps while its
  calls are under way.

  A function of the client either sends a call and waits for its reply, calls the user back, or
  goes on to the continuation that follows a path lookup. These are the three actions \<open>Task\<close>,
  \<open>Done\<close> and \<open>Go_on\<close>. The bool argument \<open>q\<close> of a function says whether the call it makes could be
  queued (\<open>rpc_nfs3_*_task\<close> does not return NULL).

  The callback and its private data, and the continuation with its data, are parameters of
  \<open>nfs_cb_data\<close>: the lookup code only hands them on.
\<close>

section \<open>Error numbers\<close>

abbreviation (input) EPERM :: int where "EPERM \<equiv> 1"
abbreviation (input) ENOENT :: int where "ENOENT \<equiv> 2"
abbreviation (input) EINTR :: int where "EINTR \<equiv> 4"
abbreviation (input) EIO :: int where "EIO \<equiv> 5"
abbreviation (input) ENXIO :: int where "ENXIO \<equiv> 6"
abbreviation (input) E2BIG :: int where "E2BIG \<equiv> 7"
abbreviation (input) EAGAIN :: int where "EAGAIN \<equiv> 11"
abbreviation (input) ENOMEM :: int where "ENOMEM \<equiv> 12"
abbreviation (input) EACCES :: int where "EACCES \<equiv> 13"
abbreviation (input) EFAULT :: int where "EFAULT \<equiv> 14"
abbreviation (input) EEXIST :: int where "EEXIST \<equiv> 17"
abbreviation (input) EXDEV :: int where "EXDEV \<equiv> 18"
abbreviation (input) ENODEV :: int where "ENODEV \<equiv> 19"
abbreviation (input) ENOTDIR :: int where "ENOTDIR \<equiv> 20"
abbreviation (input) EISDIR :: int where "EISDIR \<equiv> 21"
abbreviation (input) EINVAL :: int where "EINVAL \<equiv> 22"
abbreviation (input) EFBIG :: int where "EFBIG \<equiv> 27"
abbreviation (input) ENOSPC :: int where "ENOSPC \<equiv> 28"
abbreviation (input) EROFS :: int where "EROFS \<equiv> 30"
abbreviation (input) EMLINK :: int where "EMLINK \<equiv> 31"
abbreviation (input) ERANGE :: int where "ERANGE \<equiv> 34"
abbreviation (input) ENAMETOOLONG :: int where "ENAMETOOLONG \<equiv> 36"
abbreviation (input) ENOTEMPTY :: int where "ENOTEMPTY \<equiv> 39"
abbreviation (input) ELOOP :: int where "ELOOP \<equiv> 40"
abbreviation (input) ESTALE :: int where "ESTALE \<equiv> 116"

text \<open>The values of \<open>nfsstat3\<close> the client names.\<close>

definition NFS3_OK :: int where "NFS3_OK = 0"
definition NFS3ERR_NOENT :: int where "NFS3ERR_NOENT = 2"
definition NFS3ERR_NOTDIR :: int where "NFS3ERR_NOTDIR = 20"
definition NFS3ERR_NOTSUPP :: int where "NFS3ERR_NOTSUPP = 10004"

definition nfsstat3_to_errno :: "int \<Rightarrow> int" where
  "nfsstat3_to_errno e =
     (if e = 0 then 0 else if e = 1 then - EPERM else if e = 2 then - ENOENT
      else if e = 5 then - EIO else if e = 6 then - ENXIO else if e = 13 then - EACCES
      else if e = 17 then - EEXIST else if e = 18 then - EXDEV else if e = 19 then - ENODEV
      else if e = 20 then - ENOTDIR else if e = 21 then - EISDIR else if e = 22 then - EINVAL
      else if e = 27 then - EFBIG else if e = 28 then - ENOSPC else if e = 30 then - EROFS
      else if e = 31 then - EMLINK else if e = 63 then - ENAMETOOLONG
      else if e = 66 then - ENOTEMPTY else if e = 69 then - ERANGE else if e = 70 then - ESTALE
      else if e = 71 then - EIO else if e = 10001 then - EIO else if e = 10002 then - EIO
      else if e = 10003 then - EIO else if e = 10004 then - EINVAL else if e = 10005 then - EIO
      else if e = 10006 then - EIO else if e = 10007 then - EINVAL else if e = 10008 then - EAGAIN
      else - ERANGE)"

text \<open>A status that is not \<open>NFS3_OK\<close> never becomes a successful return value.\<close>

lemma nfsstat3_to_errno_neg: "e \<noteq> NFS3_OK \<Longrightarrow> nfsstat3_to_errno e < 0"
  by (simp add: nfsstat3_to_errno_def NFS3_OK_def)

lemma nfsstat3_to_errno_minus: "e < 0 \<Longrightarrow> nfsstat3_to_errno e = - ERANGE"
  by (simp add: nfsstat3_to_errno_def)

lemma nfsstat3_to_errno_noent [simp]: "nfsstat3_to_errno NFS3ERR_NOENT = - ENOENT"
  by (simp add: nfsstat3_to_errno_def NFS3ERR_NOENT_def)

lemma nfsstat3_to_errno_notdir [simp]: "nfsstat3_to_errno NFS3ERR_NOTDIR = - ENOTDIR"
  by (simp add: nfsstat3_to_errno_def NFS3ERR_NOTDIR_def)

section \<open>Files\<close>

definition NF3REG :: u32 where "NF3REG = 1"
definition NF3DIR :: u32 where "NF3DIR = 2"
definition NF3BLK :: u32 where "NF3BLK = 3"
definition NF3CHR :: u32 where "NF3CHR = 4"
definition NF3LNK :: u32 where "NF3LNK = 5"
definition NF3SOCK :: u32 where "NF3SOCK = 6"
definition NF3FIFO :: u32 where "NF3FIFO = 7"

lemmas nf3_defs = NF3REG_def NF3DIR_def NF3BLK_def NF3CHR_def NF3LNK_def NF3SOCK_def NF3FIFO_def

record fattr3 =
  fa_type :: u32
  fa_mode :: u32
  fa_nlink :: u32
  fa_uid :: u32
  fa_gid :: u32
  fa_size :: u64
  fa_used :: u64
  fa_rdev :: "u32 \<times> u32"
  fa_fsid :: u64
  fa_fileid :: u64
  fa_atime :: "u32 \<times> u32"
  fa_mtime :: "u32 \<times> u32"
  fa_ctime :: "u32 \<times> u32"

definition zero_fattr :: fattr3 where
  "zero_fattr = \<lparr>fa_type = 0, fa_mode = 0, fa_nlink = 0, fa_uid = 0, fa_gid = 0, fa_size = 0,
     fa_used = 0, fa_rdev = (0, 0), fa_fsid = 0, fa_fileid = 0, fa_atime = (0, 0), fa_mtime = (0, 0),
     fa_ctime = (0, 0)\<rparr>"

definition specdata3_to_rdev :: "u32 \<times> u32 \<Rightarrow> u64" where
  "specdata3_to_rdev sd = push_bit 32 (ucast (fst sd)) OR ucast (snd sd)"

definition fattr3_to_nfs_attr :: "fattr3 \<Rightarrow> nfs_attr" where
  "fattr3_to_nfs_attr fa = \<lparr>at_type = fa_type fa, at_mode = fa_mode fa, at_uid = fa_uid fa,
     at_gid = fa_gid fa, at_nlink = fa_nlink fa, at_size = fa_size fa, at_used = fa_used fa,
     at_fsid = fa_fsid fa, at_rdev = fa_rdev fa, at_atime = fa_atime fa, at_mtime = fa_mtime fa,
     at_ctime = fa_ctime fa\<rparr>"

section \<open>Calls and replies\<close>

datatype time_how = DONT_CHANGE | SET_TO_SERVER_TIME | SET_TO_CLIENT_TIME "u32 \<times> u32"

text \<open>The fields a SETATTR may set; \<open>None\<close> is \<open>set_it == 0\<close>.\<close>

record sattr3 =
  sa_mode :: "u32 option"
  sa_uid :: "u32 option"
  sa_gid :: "u32 option"
  sa_size :: "u64 option"
  sa_atime :: time_how
  sa_mtime :: time_how

definition zero_sattr :: sattr3 where
  "zero_sattr = \<lparr>sa_mode = None, sa_uid = None, sa_gid = None, sa_size = None,
     sa_atime = DONT_CHANGE, sa_mtime = DONT_CHANGE\<rparr>"

datatype createmode3 = UNCHECKED | GUARDED
datatype stable_how = UNSTABLE | FILE_SYNC

text \<open>What a MKNOD creates: the attributes and, for a device, its numbers.\<close>

datatype mknoddata3 =
  Mk_CHR sattr3 "u32 \<times> u32" | Mk_BLK sattr3 "u32 \<times> u32" | Mk_SOCK sattr3 | Mk_FIFO sattr3

datatype nfs3_call =
    GETATTR3args nfs_fh
  | SETATTR3args nfs_fh sattr3
  | LOOKUP3args nfs_fh string
  | ACCESS3args nfs_fh u32
  | READLINK3args nfs_fh
  | READ3args nfs_fh u64 u32
  | WRITE3args nfs_fh u64 u32 stable_how "byte list"
  | CREATE3args nfs_fh string createmode3 sattr3
  | MKDIR3args nfs_fh string sattr3
  | SYMLINK3args nfs_fh string sattr3 string
  | MKNOD3args nfs_fh string mknoddata3
  | REMOVE3args nfs_fh string
  | RMDIR3args nfs_fh string
  | RENAME3args nfs_fh string nfs_fh string
  | LINK3args nfs_fh nfs_fh string
  | READDIR3args nfs_fh u64 "byte list" u32
  | READDIRPLUS3args nfs_fh u64 "byte list" u32 u32
  | FSSTAT3args nfs_fh
  | FSINFO3args nfs_fh
  | COMMIT3args nfs_fh u64 u32
  | GETACL3args nfs_fh u32

text \<open>
  The result of a call that the server answered: \<open>Ok3\<close> with the \<open>resok\<close> arm of the union, or a
  status that is not \<open>NFS3_OK\<close>.
\<close>

datatype 'a res3 = Ok3 'a | Err3 int

type_synonym LOOKUP3res = "(nfs_fh \<times> fattr3 option) res3"
type_synonym READLINK3res = "string res3"
type_synonym GETATTR3res = "fattr3 res3"

section \<open>Operations under way\<close>

text \<open>The functions of the client that a reply is handed to.\<close>

datatype nfs3_cb =
    nfs3_lookup_path_1 | nfs3_lookup_path_2 | nfs3_lookup_path_getattr
  | nfs3_link | nfs3_rename | nfs3_symlink | nfs3_access2 | nfs3_access
  | nfs3_utimes | nfs3_chown | nfs3_chmod | nfs3_readlink_1 | nfs3_statvfs_1
  | nfs3_mknod | nfs3_unlink | nfs3_rmdir | nfs3_mkdir | nfs3_ftruncate | nfs3_fsync
  | nfs3_getacl | nfs3_stat_1 | nfs3_stat64_1 | nfs3_open_trunc | nfs3_open | nfs3_create_1
  | nfs3_opendir_readdir | nfs3_opendir_readdirplus | nfs3_lseek_1 | nfs3_write_append

text \<open>
  \<open>path_at\<close> is the pointer \<open>path\<close> as an index into \<open>saved_path\<close>. \<open>cb\<close> is the callback with its
  private data, \<open>cont\<close> the continuation with its data.
\<close>

record ('c, 'k) nfs_cb_data =
  saved_path :: string
  path_at :: nat
  link_count :: nat
  no_follow :: bool
  cb :: 'c
  cont :: 'k
  continue_int :: u64
  data_fh :: nfs_fh

record nfs_stat_64 =
  nfs_dev :: u64
  nfs_ino :: u64
  nfs_mode :: u64
  nfs_nlink :: u64
  nfs_uid :: u64
  nfs_gid :: u64
  nfs_rdev :: u64
  nfs_size :: u64
  nfs_blksize :: u64
  nfs_blocks :: u64
  nfs_atime :: u64
  nfs_mtime :: u64
  nfs_ctime :: u64
  nfs_atime_nsec :: u64
  nfs_mtime_nsec :: u64
  nfs_ctime_nsec :: u64
  nfs_used :: u64

text \<open>The \<open>struct stat\<close> of a 64-bit Linux; a time is its seconds and nanoseconds.\<close>

record stat_buf =
  st_dev :: u64
  st_ino :: u64
  st_mode :: u32
  st_nlink :: u64
  st_uid :: u32
  st_gid :: u32
  st_rdev :: u64
  st_size :: u64
  st_blksize :: u64
  st_blocks :: u64
  st_atim :: "u64 \<times> u64"
  st_mtim :: "u64 \<times> u64"
  st_ctim :: "u64 \<times> u64"

record nfs_statvfs_64 =
  f_bsize :: u64
  f_frsize :: u64
  f_blocks :: u64
  f_bfree :: u64
  f_bavail :: u64
  f_files :: u64
  f_ffree :: u64
  f_favail :: u64
  f_fsid :: u64
  f_flag :: u64
  f_namemax :: u64

text \<open>An entry of an access control list: its type, id and permissions.\<close>

type_synonym nfsacl_ace = "u32 \<times> u32 \<times> u32"

text \<open>An open file.\<close>

record nfsfh =
  nfh :: nfs_fh
  is_sync :: bool
  is_append :: bool
  is_readonly :: bool
  is_dirty :: bool
  foffset :: u64

definition zero_nfsfh :: nfsfh where
  "zero_nfsfh = \<lparr>nfh = [], is_sync = False, is_append = False, is_readonly = False, is_dirty = False, foffset = 0\<rparr>"

text \<open>
  What a callback gets besides the error number. \<open>Message\<close> is a text about an error, which is not
  modelled further.
\<close>

datatype nfs3_ret =
    Null | Message | Str string | Offset u64 | Opened nfsfh | Listing nfsdir
  | Stat stat_buf | Stat64 nfs_stat_64 | Statvfs nfs_statvfs_64 | Acl "nfsacl_ace list" "nfsacl_ace list"

datatype ('c, 'k) act =
    Task nfs3_cb nfs3_call "('c, 'k) nfs_cb_data"
  | Done 'c int nfs3_ret
  | Go_on "('c, 'k) nfs_cb_data" "nfs_attr option"

definition MAX_LINK_COUNT :: nat where "MAX_LINK_COUNT = 40"
definition O_NOFOLLOW :: u64 where "O_NOFOLLOW = 0x20000"

definition check_nfs3_error :: "rpc_status \<Rightarrow> int option" where
  "check_nfs3_error status =
     (case status of
        RPC_STATUS_ERROR \<Rightarrow> Some (- EFAULT)
      | RPC_STATUS_CANCEL \<Rightarrow> Some (- EINTR)
      | RPC_STATUS_TIMEOUT \<Rightarrow> Some (- EINTR)
      | RPC_STATUS_SUCCESS \<Rightarrow> None)"

lemma check_nfs3_error_simps [simp]:
  "check_nfs3_error RPC_STATUS_SUCCESS = None"
  "check_nfs3_error status = Some e \<Longrightarrow> e < 0"
  by (auto simp: check_nfs3_error_def split: rpc_status.splits)

end
