(* ===== verification/Nfs3_Lookup.thy ===== *)
theory Nfs3_Lookup
  imports Nfs3_Base
begin

text \<open>
  The path lookup of \<open>src/lib/nfs_v3.c\<close>: a path is made absolute and normalised, the export nested
  deepest on it is chosen, and its components are looked up one call at a time; a symbolic link
  is read and the lookup starts again on the path with the link replaced. When the last
  component is found the continuation of the operation takes over.

  In the code the component that is looked up is cut out of the path by a NUL that is written
  over the slash behind it and taken back before the function returns; here it is the text up
  to the next slash. \<open>None\<close> as the result of a function is undefined behaviour: an access in front
  of the path string, or an export that was never set.
\<close>

section \<open>The code\<close>

text \<open>\<open>while (*data->path == '/') data->path++\<close>.\<close>

fun skip_slashes :: "string \<Rightarrow> nat" where
  "skip_slashes (c # cs) = (if c = CHR ''/'' then Suc (skip_slashes cs) else 0)"
| "skip_slashes [] = 0"

abbreviation rest_path :: "('c, 'k) nfs_cb_data \<Rightarrow> string" where
  "rest_path data \<equiv> drop (path_at data) (saved_path data)"

text \<open>The part of \<open>nfs3_lookup_path_async_internal\<close> behind the treatment of symbolic links.\<close>

definition lookup_component ::
    "bool \<Rightarrow> nfs_attr option \<Rightarrow> ('c, 'k) nfs_cb_data \<Rightarrow> nfs_fh \<Rightarrow> ('c, 'k) act" where
  "lookup_component q attr data fh =
     (let path = rest_path data;
          name = takeWhile (\<lambda>c. c \<noteq> CHR ''/'') path;
          slash = length name < length path;
          data' = data\<lparr>path_at := (if slash then path_at data + length name + 1
                                  else length (saved_path data))\<rparr>
      in if path = [] then Go_on (data'\<lparr>data_fh := fh\<rparr>) attr
         else if q then Task nfs3_lookup_path_1 (LOOKUP3args fh name) data'
         else Done (cb data) (- ENOMEM) Message)"

definition nfs3_lookup_path_async_internal ::
    "bool \<Rightarrow> nfs_attr option \<Rightarrow> ('c, 'k) nfs_cb_data \<Rightarrow> nfs_fh \<Rightarrow> ('c, 'k) act" where
  "nfs3_lookup_path_async_internal q attr data0 fh =
     (let data = data0\<lparr>path_at := path_at data0 + skip_slashes (rest_path data0)\<rparr>
      in if (case attr of None \<Rightarrow> False | Some a \<Rightarrow> at_type a = NF3LNK) then
           if continue_int data AND O_NOFOLLOW \<noteq> 0 then Done (cb data) (- ELOOP) Message
           else if \<not> no_follow data \<or> rest_path data \<noteq> [] then
             if link_count data \<ge> MAX_LINK_COUNT then Done (cb data) (- ELOOP) Message
             else if q then Task nfs3_lookup_path_2 (READLINK3args fh)
                              (data\<lparr>link_count := link_count data + 1\<rparr>)
             else Done (cb data) (- ENOMEM) Message
           else lookup_component q attr data fh
         else lookup_component q attr data fh)"

text \<open>
  The text a link is replaced with. The path is cut in front of the next component by
  \<open>data->path[-1] = 0\<close>.
\<close>

datatype link_path = Outside | New_path string

definition follow_link :: "string \<Rightarrow> ('c, 'k) nfs_cb_data \<Rightarrow> string \<Rightarrow> link_path option" where
  "follow_link export data path =
     (if path \<noteq> [] \<and> hd path = CHR ''/'' then
        if prefix export path then
          let ptr = drop (length export) path
          in if ptr = [] then Some (New_path ''/'')
             else if hd ptr = CHR ''/'' then Some (New_path ptr)
             else Some Outside
        else Some Outside
      else if rest_path data \<noteq> [] then
        if path_at data = 0 then None
        else Some (New_path (take (path_at data - 1) (saved_path data) @ ''/../'' @ path
                             @ ''/'' @ rest_path data))
      else Some (New_path (saved_path data @ ''/../'' @ path)))"

text \<open>The lookup starts again at the root, on the path that replaces the old one.\<close>

definition restart_lookup ::
    "'r nfs_context \<Rightarrow> bool \<Rightarrow> ('c, 'k) nfs_cb_data \<Rightarrow> string \<Rightarrow> ('c, 'k) act option" where
  "restart_lookup nfs q data newpath =
     (case nfs_normalize_path newpath of
        None \<Rightarrow> None
      | Some (Inl _) \<Rightarrow> Some (Done (cb data) (- ENOENT) Message)
      | Some (Inr p) \<Rightarrow> Some (nfs3_lookup_path_async_internal q None
                               (data\<lparr>saved_path := p, path_at := 0\<rparr>) (nfsi_rootfh (nfsi nfs))))"

definition nfs3_lookup_path_2_cb ::
    "'r nfs_context \<Rightarrow> bool \<Rightarrow> rpc_status \<Rightarrow> READLINK3res \<Rightarrow> ('c, 'k) nfs_cb_data \<Rightarrow> ('c, 'k) act option" where
  "nfs3_lookup_path_2_cb nfs q status res data =
     (case check_nfs3_error status of
        Some e \<Rightarrow> Some (Done (cb data) e Message)
      | None \<Rightarrow>
          (case res of
             Err3 st \<Rightarrow> Some (Done (cb data) (nfsstat3_to_errno st) Message)
           | Ok3 path \<Rightarrow>
               (case nfsi_export (nfsi nfs) of
                  None \<Rightarrow> None
                | Some export \<Rightarrow>
                    (case follow_link export data path of
                       None \<Rightarrow> None
                     | Some Outside \<Rightarrow> Some (Done (cb data) (- ENOENT) Message)
                     | Some (New_path newpath) \<Rightarrow> restart_lookup nfs q data newpath))))"

definition nfs3_lookup_path_1_cb ::
    "bool \<Rightarrow> rpc_status \<Rightarrow> LOOKUP3res \<Rightarrow> ('c, 'k) nfs_cb_data \<Rightarrow> ('c, 'k) act" where
  "nfs3_lookup_path_1_cb q status res data =
     (case check_nfs3_error status of
        Some e \<Rightarrow> Done (cb data) e Message
      | None \<Rightarrow>
          (case res of
             Err3 st \<Rightarrow> Done (cb data) (nfsstat3_to_errno st) Message
           | Ok3 (fh, obj_attributes) \<Rightarrow>
               nfs3_lookup_path_async_internal q
                 (Some (case obj_attributes of None \<Rightarrow> zero_attr | Some fa \<Rightarrow> fattr3_to_nfs_attr fa))
                 data fh))"

definition nfs3_lookup_path_getattr_cb ::
    "'r nfs_context \<Rightarrow> bool \<Rightarrow> rpc_status \<Rightarrow> GETATTR3res \<Rightarrow> ('c, 'k) nfs_cb_data \<Rightarrow> ('c, 'k) act" where
  "nfs3_lookup_path_getattr_cb nfs q status res data =
     (case check_nfs3_error status of
        Some e \<Rightarrow> Done (cb data) e Message
      | None \<Rightarrow>
          (case res of
             Err3 st \<Rightarrow> Done (cb data) (nfsstat3_to_errno st) Message
           | Ok3 fa \<Rightarrow> nfs3_lookup_path_async_internal q (Some (fattr3_to_nfs_attr fa)) data
                         (nfsi_rootfh (nfsi nfs))))"

text \<open>
  The loop that chooses a nested export. \<open>sp\<close> is the path, which every match shortens.
\<close>

fun match_nested :: "nested_mounts list \<Rightarrow> nat \<Rightarrow> string \<Rightarrow> nfs_fh \<Rightarrow> string \<times> nfs_fh" where
  "match_nested [] max_match_len sp fh = (sp, fh)"
| "match_nested (mnt # mnts) max_match_len sp fh =
     (let n = length (nm_path mnt) in
      if n < max_match_len then match_nested mnts max_match_len sp fh
      else if \<not> prefix (nm_path mnt) sp then match_nested mnts max_match_len sp fh
      else if n < length sp \<and> sp ! n \<noteq> CHR ''/'' then match_nested mnts max_match_len sp fh
      else match_nested mnts n (drop n sp) (nm_fh mnt))"

text \<open>
  The path is \<open>None\<close> for NULL. \<open>Some None\<close> is the return value \<open>-1\<close>, which comes without a
  callback.
\<close>

definition nfs3_lookuppath_async ::
    "'r nfs_context \<Rightarrow> bool \<Rightarrow> string option \<Rightarrow> bool \<Rightarrow> 'c \<Rightarrow> 'k \<Rightarrow> u64 \<Rightarrow> ('c, 'k) act option option" where
  "nfs3_lookuppath_async nfs q path nofollow c k cint =
     (let p = (case path of None \<Rightarrow> ''.'' | Some s \<Rightarrow> if s = [] then ''.'' else s);
          sp = (if hd p = CHR ''/'' then p else nfsi_cwd (nfsi nfs) @ ''/'' @ p)
      in case nfs_normalize_path sp of
           None \<Rightarrow> None
         | Some (Inl _) \<Rightarrow> Some None
         | Some (Inr np) \<Rightarrow>
             let data = \<lparr>saved_path = np, path_at = 0, link_count = 0, no_follow = nofollow,
                         cb = c, cont = k, continue_int = cint, data_fh = []\<rparr>;
                 fh = nfsi_rootfh (nfsi nfs)
             in if np \<noteq> [] then
                  case match_nested (nfsi_nested_mounts (nfsi nfs)) 0 np fh of
                    (np', fh') \<Rightarrow>
                      Some (Some (nfs3_lookup_path_async_internal q None (data\<lparr>saved_path := np'\<rparr>) fh'))
                else if q then Some (Some (Task nfs3_lookup_path_getattr (GETATTR3args fh) data))
                else Some None)"

section \<open>The lookup ends\<close>

text \<open>A union with the status \<open>NFS3_OK\<close> has the other arm.\<close>

definition status_ok :: "'a res3 \<Rightarrow> bool" where
  "status_ok res \<longleftrightarrow> res \<noteq> Err3 NFS3_OK"

lemma status_ok_errno [simp]: "status_ok (Err3 st) \<Longrightarrow> nfsstat3_to_errno st < 0"
  by (auto simp: status_ok_def intro!: nfsstat3_to_errno_neg)

text \<open>
  The steps of a lookup: the server answers the call under way in any way, or the call fails
  (\<open>status\<close>), and the next call can or cannot be queued.
\<close>

inductive walk_step :: "'r nfs_context \<Rightarrow> ('c, 'k) act \<Rightarrow> ('c, 'k) act \<Rightarrow> bool" for nfs where
  looked_up: "status_ok res \<Longrightarrow> walk_step nfs (Task nfs3_lookup_path_1 call d) (nfs3_lookup_path_1_cb q status res d)"
| link_read: "status_ok lres \<Longrightarrow> nfs3_lookup_path_2_cb nfs q status lres d = Some a \<Longrightarrow>
              walk_step nfs (Task nfs3_lookup_path_2 call d) a"
| root_attr: "status_ok ares \<Longrightarrow> walk_step nfs (Task nfs3_lookup_path_getattr call d)
                (nfs3_lookup_path_getattr_cb nfs q status ares d)"

inductive_cases walk_stepE: "walk_step nfs a b"

text \<open>
  The rank of an action: the links that may still be followed, then whether a link is being
  read, then what is left of the path.
\<close>

definition act_rank :: "('c, 'k) act \<Rightarrow> nat \<times> nat \<times> nat" where
  "act_rank a = (case a of
     Task f _ d \<Rightarrow> (Suc MAX_LINK_COUNT - link_count d, if f = nfs3_lookup_path_1 then 0 else 1,
                    Suc (length (rest_path d)))
   | _ \<Rightarrow> (0, 0, 0))"

definition rank_less :: "((nat \<times> nat \<times> nat) \<times> nat \<times> nat \<times> nat) set" where
  "rank_less = less_than <*lex*> less_than <*lex*> less_than"

lemma wf_rank_less: "wf rank_less"
  by (simp add: rank_less_def wf_lex_prod)

lemma link_count_internal:
  "nfs3_lookup_path_async_internal q attr d fh = Task f c d' \<Longrightarrow>
   f = nfs3_lookup_path_1 \<and> link_count d' = link_count d \<and> length (rest_path d') < length (rest_path d)
   \<or> f = nfs3_lookup_path_2 \<and> link_count d' = Suc (link_count d) \<and> link_count d < MAX_LINK_COUNT \<and> attr \<noteq> None"
  by (auto simp: nfs3_lookup_path_async_internal_def lookup_component_def Let_def
           split: if_splits option.splits)

lemma rank_done [simp]:
  "(act_rank (Done c' e r), act_rank (Task f c d)) \<in> rank_less"
  "(act_rank (Go_on d' attr), act_rank (Task f c d)) \<in> rank_less"
  by (auto simp: act_rank_def rank_less_def)

lemma rank_internal:
  assumes "length (rest_path d') \<le> length (rest_path d) \<or> f \<noteq> nfs3_lookup_path_1"
    and "link_count d' = link_count d"
  shows "(act_rank (nfs3_lookup_path_async_internal q attr d' fh), act_rank (Task f c d)) \<in> rank_less"
proof (cases "nfs3_lookup_path_async_internal q attr d' fh")
  case (Task g c' d'')
  from link_count_internal [OF Task] show ?thesis
    unfolding Task using assms by (auto simp: act_rank_def rank_less_def)
qed simp_all

lemma rank_lookup_path_1:
  "(act_rank (nfs3_lookup_path_1_cb q status res d), act_rank (Task nfs3_lookup_path_1 call d)) \<in> rank_less"
  by (auto simp: nfs3_lookup_path_1_cb_def intro!: rank_internal split: option.splits res3.splits)

lemma rank_lookup_path_2:
  "nfs3_lookup_path_2_cb nfs q status res d = Some a \<Longrightarrow>
   (act_rank a, act_rank (Task nfs3_lookup_path_2 call d)) \<in> rank_less"
  by (auto simp: nfs3_lookup_path_2_cb_def restart_lookup_def intro!: rank_internal
           split: option.splits res3.splits link_path.splits sum.splits)

lemma rank_lookup_path_getattr:
  "(act_rank (nfs3_lookup_path_getattr_cb nfs q status res d), act_rank (Task nfs3_lookup_path_getattr call d)) \<in> rank_less"
  by (auto simp: nfs3_lookup_path_getattr_cb_def intro!: rank_internal split: option.splits res3.splits)

lemma walk_step_rank: "walk_step nfs a b \<Longrightarrow> (act_rank b, act_rank a) \<in> rank_less"
  by (induction rule: walk_step.induct)
     (auto intro: rank_lookup_path_1 rank_lookup_path_2 rank_lookup_path_getattr)

text \<open>What holds of the path of every lookup under way.\<close>

definition slashed :: "string \<Rightarrow> bool" where
  "slashed p \<longleftrightarrow> p = [] \<or> hd p = CHR ''/''"

definition data_ok :: "('c, 'k) nfs_cb_data \<Rightarrow> bool" where
  "data_ok d \<longleftrightarrow> slashed (saved_path d) \<and> path_at d \<le> length (saved_path d)
     \<and> (rest_path d \<noteq> [] \<longrightarrow> 0 < path_at d) \<and> link_count d \<le> MAX_LINK_COUNT"

fun act_ok :: "('c, 'k) act \<Rightarrow> bool" where
  "act_ok (Task f _ d) \<longleftrightarrow> data_ok d"
| "act_ok _ \<longleftrightarrow> True"

lemma skip_slashes_le: "skip_slashes p \<le> length p"
  by (induction p rule: skip_slashes.induct) auto

lemma skip_slashes_slashed: "slashed p \<Longrightarrow> p \<noteq> [] \<Longrightarrow> 0 < skip_slashes p"
  by (cases p) (auto simp: slashed_def)

lemma normalize_slashed: "nfs_normalize_path p = Some (Inr q) \<Longrightarrow> slashed q"
proof (cases "p = [] \<or> hd p \<noteq> CHR ''/''")
  case True
  moreover assume "nfs_normalize_path p = Some (Inr q)"
  ultimately show ?thesis using normalize_relative [of p] by simp
next
  case False
  then obtain r where p: "p = CHR ''/'' # r" by (cases p) auto
  assume "nfs_normalize_path p = Some (Inr q)"
  with normalize_absolute [OF p] have "normal_path p = Some q" by auto
  then show ?thesis
    by (auto simp: normal_path_def slashed_def join_def split: if_splits option.splits list.splits)
qed

lemma data_ok_internal:
  assumes "slashed (saved_path d)" "path_at d \<le> length (saved_path d)" "link_count d \<le> MAX_LINK_COUNT"
  shows "act_ok (nfs3_lookup_path_async_internal q attr d fh)"
proof -
  define d1 where "d1 = d\<lparr>path_at := path_at d + skip_slashes (rest_path d)\<rparr>"
  have le: "path_at d1 \<le> length (saved_path d)"
    using skip_slashes_le [of "rest_path d"] assms(2) by (simp add: d1_def)
  have pos: "rest_path d1 \<noteq> [] \<Longrightarrow> 0 < path_at d1"
    using skip_slashes_slashed [of "rest_path d"] assms(1) by (cases "path_at d"; cases "saved_path d = []") (auto simp: d1_def)
  have "length (takeWhile (\<lambda>c. c \<noteq> CHR ''/'') (rest_path d1)) \<le> length (rest_path d1)"
    by (rule length_takeWhile_le)
  then have comp: "act_ok (lookup_component q attr d1 fh)"
    using assms le pos by (auto simp: lookup_component_def data_ok_def Let_def d1_def)
  have "act_ok (Task nfs3_lookup_path_2 c (d1\<lparr>link_count := link_count d1 + 1\<rparr>))"
    if "link_count d1 < MAX_LINK_COUNT" for c
    using assms le pos that by (auto simp: data_ok_def d1_def)
  with comp show ?thesis
    unfolding nfs3_lookup_path_async_internal_def Let_def d1_def [symmetric]
    by (auto split: option.splits)
qed

lemma follow_link_defined:
  "data_ok d \<Longrightarrow> \<exists>l. follow_link e d p = Some l"
  by (auto simp: follow_link_def data_ok_def Let_def)

lemma normalize_defined: "\<exists>r. nfs_normalize_path p = Some r"
proof (cases "p = [] \<or> hd p \<noteq> CHR ''/''")
  case True
  then show ?thesis using normalize_relative [of p] by blast
next
  case False
  then obtain r where "p = CHR ''/'' # r" by (cases p) auto
  from normalize_absolute [OF this] show ?thesis by blast
qed

lemma restart_defined: "\<exists>a. restart_lookup nfs q d p = Some a"
  using normalize_defined [of p] by (auto simp: restart_lookup_def split: sum.splits)

lemma lookup_path_2_defined:
  assumes "data_ok d" "nfsi_export (nfsi nfs) = Some e"
  shows "\<exists>a. nfs3_lookup_path_2_cb nfs q status res d = Some a"
proof (cases res)
  case (Ok3 p)
  obtain l where "follow_link e d p = Some l" using follow_link_defined [OF assms(1)] by blast
  then show ?thesis
    using assms restart_defined [of nfs q d] Ok3
    by (cases l) (auto simp: nfs3_lookup_path_2_cb_def split: option.splits)
qed (auto simp: nfs3_lookup_path_2_cb_def split: option.splits)

lemma lookup_path_2_result:
  "nfs3_lookup_path_2_cb nfs q status res d = Some a \<Longrightarrow>
   (\<exists>e. a = Done (cb d) e Message) \<or> (\<exists>np. restart_lookup nfs q d np = Some a)"
  by (auto simp: nfs3_lookup_path_2_cb_def split: option.splits res3.splits link_path.splits)

lemma restart_ok: "data_ok d \<Longrightarrow> restart_lookup nfs q d p = Some a \<Longrightarrow> act_ok a"
  by (auto simp: restart_lookup_def data_ok_def intro!: data_ok_internal dest: normalize_slashed
           split: option.splits sum.splits)

lemma internal_ok: "data_ok d \<Longrightarrow> act_ok (nfs3_lookup_path_async_internal q attr d fh)"
  by (auto simp: data_ok_def intro: data_ok_internal)

lemma walk_step_ok: "walk_step nfs a b \<Longrightarrow> act_ok a \<Longrightarrow> act_ok b"
proof (induction rule: walk_step.induct)
  case (link_read lres q status d a call)
  then show ?case
    using lookup_path_2_result [OF link_read(2)] restart_ok [of d nfs q _ a] by auto
qed (auto simp: nfs3_lookup_path_1_cb_def nfs3_lookup_path_getattr_cb_def intro!: internal_ok
       split: option.splits res3.splits)

lemma match_nested_slashed: "slashed sp \<Longrightarrow> slashed (fst (match_nested ms n sp fh))"
proof (induction ms n sp fh rule: match_nested.induct)
  case (2 mnt mnts n sp fh)
  have "slashed (drop (length (nm_path mnt)) sp)"
    if "\<not> (length (nm_path mnt) < length sp \<and> sp ! length (nm_path mnt) \<noteq> CHR ''/'')"
    using that by (cases "length (nm_path mnt) < length sp") (auto simp: slashed_def hd_drop_conv_nth)
  with 2 show ?case by (auto simp: Let_def)
qed simp

lemma lookuppath_cases:
  assumes "nfs3_lookuppath_async nfs q path nofollow c k cint = Some (Some a)"
  obtains (walk) d fh where "a = nfs3_lookup_path_async_internal q None d fh"
      "slashed (saved_path d)" "path_at d = 0" "link_count d = 0"
    | (root) d fh where "a = Task nfs3_lookup_path_getattr (GETATTR3args fh) d" "saved_path d = []"
      "path_at d = 0" "link_count d = 0"
proof -
  obtain sp np where n: "nfs_normalize_path sp = Some (Inr np)"
    and a: "Some a = (let data = \<lparr>saved_path = np, path_at = 0, link_count = 0, no_follow = nofollow,
                         cb = c, cont = k, continue_int = cint, data_fh = []\<rparr>;
                 fh = nfsi_rootfh (nfsi nfs)
             in if np \<noteq> [] then
                  case match_nested (nfsi_nested_mounts (nfsi nfs)) 0 np fh of
                    (np', fh') \<Rightarrow>
                      Some (nfs3_lookup_path_async_internal q None (data\<lparr>saved_path := np'\<rparr>) fh')
                else if q then Some (Task nfs3_lookup_path_getattr (GETATTR3args fh) data)
                else None)"
    using assms unfolding nfs3_lookuppath_async_def Let_def
    by (auto split: option.splits sum.splits if_splits prod.splits)
  obtain np' fh' where m: "match_nested (nfsi_nested_mounts (nfsi nfs)) 0 np (nfsi_rootfh (nfsi nfs)) = (np', fh')"
    by (cases "match_nested (nfsi_nested_mounts (nfsi nfs)) 0 np (nfsi_rootfh (nfsi nfs))")
  then have "slashed np'" using match_nested_slashed [OF normalize_slashed [OF n]] by (metis fst_conv)
  show ?thesis
  proof (cases "np = []")
    case True
    show ?thesis by (rule root) (use a True in \<open>auto simp: Let_def split: if_splits\<close>)
  next
    case False
    show ?thesis by (rule walk) (use a False m \<open>slashed np'\<close> in \<open>auto simp: Let_def\<close>)
  qed
qed

lemma lookuppath_ok:
  assumes "nfs3_lookuppath_async nfs q path nofollow c k cint = Some (Some a)"
  shows "act_ok a"
  using assms
proof (cases rule: lookuppath_cases)
  case (walk d fh)
  then show ?thesis using data_ok_internal [of d] by simp
qed (simp add: data_ok_def slashed_def)

text \<open>The lookup keeps whose it is: the callback and the continuation it was started with.\<close>

fun act_of :: "'c \<Rightarrow> 'k \<Rightarrow> ('c, 'k) act \<Rightarrow> bool" where
  "act_of c k (Task f call d) \<longleftrightarrow> cb d = c \<and> cont d = k
     \<and> f \<in> {nfs3_lookup_path_1, nfs3_lookup_path_2, nfs3_lookup_path_getattr}"
| "act_of c k (Done c' e r) \<longleftrightarrow> c' = c \<and> e < 0"
| "act_of c k (Go_on d attr) \<longleftrightarrow> cb d = c \<and> cont d = k"

lemma act_of_internal:
  "cb d = c \<Longrightarrow> cont d = k \<Longrightarrow> act_of c k (nfs3_lookup_path_async_internal q attr d fh)"
  by (auto simp: nfs3_lookup_path_async_internal_def lookup_component_def Let_def split: option.splits)

lemma act_of_restart:
  "cb d = c \<Longrightarrow> cont d = k \<Longrightarrow> restart_lookup nfs q d p = Some a \<Longrightarrow> act_of c k a"
  by (auto simp: restart_lookup_def intro!: act_of_internal split: option.splits sum.splits)

lemma act_of_step: "walk_step nfs a b \<Longrightarrow> act_of c k a \<Longrightarrow> act_of c k b"
proof (induction rule: walk_step.induct)
  case (link_read lres q status d a call)
  then show ?case
    by (auto simp: nfs3_lookup_path_2_cb_def intro: act_of_restart
             split: option.splits res3.splits link_path.splits)
qed (auto simp: nfs3_lookup_path_1_cb_def nfs3_lookup_path_getattr_cb_def intro!: act_of_internal
       split: option.splits res3.splits)

lemma act_of_lookuppath:
  assumes "nfs3_lookuppath_async nfs q path nofollow c k cint = Some (Some a)"
  shows "act_of c k a"
  using assms unfolding nfs3_lookuppath_async_def Let_def
  by (auto split: option.splits sum.splits if_splits prod.splits intro!: act_of_internal)

lemma walk_reach:
  assumes "(walk_step nfs)\<^sup>*\<^sup>* a b" "act_ok a" "act_of c k a"
  shows "act_ok b \<and> act_of c k b"
  using assms by (induction rule: rtranclp_induct) (auto dest: walk_step_ok act_of_step)

lemma walk_finite: "\<exists>i. \<not> walk_step nfs (s i) (s (Suc i))"
proof (rule ccontr)
  assume "\<not> ?thesis"
  then have "(act_rank (s (Suc i)), act_rank (s i)) \<in> rank_less" for i by (auto intro: walk_step_rank)
  then have "\<exists>f. \<forall>i. (f (Suc i), f i) \<in> rank_less"
    by (intro exI [of _ "\<lambda>i. act_rank (s i)"]) simp
  then show False
    using wf_rank_less by (simp add: wf_iff_no_infinite_down_chain)
qed

lemma lookuppath_defined: "\<exists>r. nfs3_lookuppath_async nfs q path nofollow c k cint = Some r"
proof -
  define p where "p = (case path of None \<Rightarrow> ''.'' | Some s \<Rightarrow> if s = [] then ''.'' else s)"
  obtain r where "nfs_normalize_path (if hd p = CHR ''/'' then p else nfsi_cwd (nfsi nfs) @ ''/'' @ p) = Some r"
    using normalize_defined by blast
  then show ?thesis
    unfolding nfs3_lookuppath_async_def p_def [symmetric] Let_def by (simp split: sum.split prod.split)
qed

end
