(* ===== verification/Nfs3_Resolve.thy ===== *)
theory Nfs3_Resolve
  imports Nfs3_Lookup
begin

text \<open>
  What a path lookup of the NFSv3 client finds. The server is a tree of directories, links and
  other files; \<open>serve\<close> answers the calls of a lookup from the tree until the lookup calls back or
  goes on. The specification \<open>resolve_in\<close> walks the list of components, and the theorem says that
  the pointer and string operations of the client compute it.
\<close>

section \<open>A server\<close>

datatype node = Dir "string \<Rightarrow> nfs_fh option" | Symlink string | Plain

record server =
  nodes :: "nfs_fh \<Rightarrow> node option"
  attrs :: "nfs_fh \<Rightarrow> fattr3"

fun node_type :: "node \<Rightarrow> u32" where
  "node_type (Dir _) = NF3DIR"
| "node_type (Symlink _) = NF3LNK"
| "node_type Plain = NF3REG"

definition NFS3ERR_STALE :: int where "NFS3ERR_STALE = 70"
definition NFS3ERR_INVAL :: int where "NFS3ERR_INVAL = 22"

definition srv_getattr :: "server \<Rightarrow> nfs_fh \<Rightarrow> GETATTR3res" where
  "srv_getattr srv fh = (case nodes srv fh of
     None \<Rightarrow> Err3 NFS3ERR_STALE
   | Some n \<Rightarrow> Ok3 ((attrs srv fh)\<lparr>fa_type := node_type n\<rparr>))"

definition srv_lookup :: "server \<Rightarrow> nfs_fh \<Rightarrow> string \<Rightarrow> LOOKUP3res" where
  "srv_lookup srv fh name = (case nodes srv fh of
     None \<Rightarrow> Err3 NFS3ERR_STALE
   | Some (Dir m) \<Rightarrow>
       (case m name of
          None \<Rightarrow> Err3 NFS3ERR_NOENT
        | Some h \<Rightarrow> (case srv_getattr srv h of Ok3 fa \<Rightarrow> Ok3 (h, Some fa) | Err3 st \<Rightarrow> Err3 st))
   | Some _ \<Rightarrow> Err3 NFS3ERR_NOTDIR)"

definition srv_readlink :: "server \<Rightarrow> nfs_fh \<Rightarrow> READLINK3res" where
  "srv_readlink srv fh = (case nodes srv fh of
     None \<Rightarrow> Err3 NFS3ERR_STALE | Some (Symlink s) \<Rightarrow> Ok3 s | Some _ \<Rightarrow> Err3 NFS3ERR_INVAL)"

text \<open>The lookup with its calls answered, \<open>None\<close> for undefined behaviour.\<close>

function serve :: "'r nfs_context \<Rightarrow> server \<Rightarrow> ('c, 'k) act \<Rightarrow> ('c, 'k) act option" where
  "serve nfs srv (Task f call d) =
     (case f of
        nfs3_lookup_path_1 \<Rightarrow>
          (case call of
             LOOKUP3args fh name \<Rightarrow>
               serve nfs srv (nfs3_lookup_path_1_cb True RPC_STATUS_SUCCESS (srv_lookup srv fh name) d)
           | _ \<Rightarrow> None)
      | nfs3_lookup_path_2 \<Rightarrow>
          (case call of
             READLINK3args fh \<Rightarrow>
               (case nfs3_lookup_path_2_cb nfs True RPC_STATUS_SUCCESS (srv_readlink srv fh) d of
                  None \<Rightarrow> None | Some a \<Rightarrow> serve nfs srv a)
           | _ \<Rightarrow> None)
      | nfs3_lookup_path_getattr \<Rightarrow>
          (case call of
             GETATTR3args fh \<Rightarrow>
               serve nfs srv (nfs3_lookup_path_getattr_cb nfs True RPC_STATUS_SUCCESS (srv_getattr srv fh) d)
           | _ \<Rightarrow> None)
      | _ \<Rightarrow> None)"
| "serve nfs srv (Done c e r) = Some (Done c e r)"
| "serve nfs srv (Go_on d attr) = Some (Go_on d attr)"
  by pat_completeness auto
termination
  by (relation "inv_image rank_less (\<lambda>(nfs, srv, a). act_rank a)")
     (auto simp: wf_inv_image wf_rank_less intro: rank_lookup_path_1 rank_lookup_path_2 rank_lookup_path_getattr)

declare serve.simps(1) [simp del]

section \<open>The specification\<close>

text \<open>
  \<open>resolve_in k done cur cs\<close>: from the file \<open>cur\<close>, which the components \<open>done\<close> led to, along the
  components \<open>cs\<close>, following at most \<open>k\<close> links. The result is an error number or a file handle.
\<close>

function resolve_in ::
    "server \<Rightarrow> nfs_fh \<Rightarrow> bool \<Rightarrow> nat \<Rightarrow> string list \<Rightarrow> nfs_fh \<Rightarrow> string list \<Rightarrow> int + nfs_fh" where
  "resolve_in srv root nofollow k ds cur [] = Inr cur"
| "resolve_in srv root nofollow k ds cur (c # cs) =
     (case nodes srv cur of
        None \<Rightarrow> Inl (- ESTALE)
      | Some (Symlink _) \<Rightarrow> Inl (- ENOTDIR)
      | Some Plain \<Rightarrow> Inl (- ENOTDIR)
      | Some (Dir m) \<Rightarrow>
          (case m c of
             None \<Rightarrow> Inl (- ENOENT)
           | Some h \<Rightarrow>
               (case nodes srv h of
                  None \<Rightarrow> Inl (- ESTALE)
                | Some (Symlink s) \<Rightarrow>
                    if nofollow \<and> cs = [] then Inr h
                    else if k = 0 then Inl (- ELOOP)
                    else (case resolve [] (ds @ comps s @ cs) of
                            None \<Rightarrow> Inl (- ENOENT)
                          | Some cs' \<Rightarrow> resolve_in srv root nofollow (k - 1) [] root cs')
                | Some _ \<Rightarrow> resolve_in srv root nofollow k (ds @ [c]) h cs)))"
  by pat_completeness auto
termination
  by (relation "measures [\<lambda>(srv, root, nofollow, k, ds, cur, cs). k,
                          \<lambda>(srv, root, nofollow, k, ds, cur, cs). length cs]") auto

declare resolve_in.simps(2) [simp del]

section \<open>Paths and components\<close>

lemma comps_slash: "comps (x @ CHR ''/'' # y) = comps x @ comps y"
proof (induction x)
  case (Cons c x)
  then show ?case by (cases "comps x") (auto split: list.splits)
qed simp

lemma comps_one: "noslash s \<Longrightarrow> comps s = [s]"
  by (induction s) auto

lemma comps_join: "\<forall>c\<in>set cs. noslash c \<Longrightarrow> comps (x @ join cs) = comps x @ cs"
proof (induction cs arbitrary: x)
  case (Cons c cs)
  have "comps (x @ join (c # cs)) = comps x @ comps (c @ join cs)" by (simp add: comps_slash)
  then show ?case using Cons comps_one [of c] by simp
qed simp

lemma normal_comp_noslash: "normal_comp s \<Longrightarrow> noslash s"
  by (simp add: normal_comp_def)

text \<open>A normalised path for a list of components: the root may be written in two ways.\<close>

definition lands :: "string \<Rightarrow> string list \<Rightarrow> bool" where
  "lands np cs \<longleftrightarrow> (if cs = [] then np = [] \<or> np = ''/'' else np = join cs)"

lemma normalize_resolve:
  assumes "p = CHR ''/'' # r"
  shows "case resolve [] (comps r) of
           None \<Rightarrow> \<exists>e. nfs_normalize_path p = Some (Inl e)
         | Some cs \<Rightarrow> \<exists>np. nfs_normalize_path p = Some (Inr np) \<and> lands np cs"
proof -
  obtain n where n: "nfs_normalize_path p = Some n"
    "case n of Inl e \<Rightarrow> normal_path p = None | Inr q \<Rightarrow> normal_path p = Some q"
    using normalize_absolute [OF assms] by blast
  then show ?thesis
    by (cases n)
       (auto simp: normal_path_def assms lands_def split: option.splits list.splits if_splits)
qed

lemma resolve_link:
  assumes "\<forall>d\<in>set (ds @ c # cs). normal_comp d"
  shows "resolve [] (comps (tl (join (ds @ [c]) @ ''/../'' @ s @ join cs))) = resolve [] (ds @ comps s @ cs)"
proof -
  have ns: "\<forall>d\<in>set (ds @ c # cs). noslash d" using assms by (auto simp: normal_comp_noslash)
  have "CHR ''/'' # tl (join (ds @ [c]) @ ''/../'' @ s @ join cs) = join (ds @ [c]) @ ''/../'' @ s @ join cs"
    by (cases ds) simp_all
  then have "comps ([] @ CHR ''/'' # tl (join (ds @ [c]) @ ''/../'' @ s @ join cs))
      = comps ([] @ join (ds @ [c]) @ CHR ''/'' # ''..'' @ CHR ''/'' # s @ join cs)" by simp
  also have "\<dots> = comps ([] @ join (ds @ [c])) @ comps (''..'' @ CHR ''/'' # s @ join cs)"
    using comps_slash [of "[] @ join (ds @ [c])" "''..'' @ CHR ''/'' # s @ join cs"] by simp
  also have "\<dots> = [] # ds @ c # ''..'' # comps s @ cs"
    using ns comps_join [of "ds @ [c]" "[]"] comps_join [of cs s] comps_slash [of "''..''" "s @ join cs"]
    by (simp add: comps_one)
  finally have "comps (tl (join (ds @ [c]) @ ''/../'' @ s @ join cs)) = ds @ c # ''..'' # comps s @ cs"
    by simp
  then show ?thesis
    using assms resolve_normal [of ds "[]"] resolve_normal [of "ds @ [c]" "[]" "''..'' # comps s @ cs"] by simp
qed

section \<open>The lookup computes the specification\<close>

text \<open>The pointer of a lookup between the components \<open>ds\<close> and \<open>cs\<close>, slashes skipped.\<close>

definition skipped :: "('c, 'k) nfs_cb_data \<Rightarrow> ('c, 'k) nfs_cb_data" where
  "skipped d = d\<lparr>path_at := path_at d + skip_slashes (rest_path d)\<rparr>"

definition at_comps :: "('c, 'k) nfs_cb_data \<Rightarrow> string list \<Rightarrow> string list \<Rightarrow> bool" where
  "at_comps d ds cs \<longleftrightarrow> rest_path (skipped d) = tl (join cs) \<and> path_at (skipped d) \<le> length (saved_path d)
     \<and> (ds @ cs \<noteq> [] \<longrightarrow> saved_path d = join (ds @ cs)) \<and> (\<forall>c\<in>set (ds @ cs). normal_comp c)"

lemma skipped_fields [simp]:
  "saved_path (skipped d) = saved_path d" "link_count (skipped d) = link_count d"
  "no_follow (skipped d) = no_follow d" "cb (skipped d) = cb d" "cont (skipped d) = cont d"
  "continue_int (skipped d) = continue_int d"
  by (simp_all add: skipped_def)

lemma internal_skipped:
  "nfs3_lookup_path_async_internal q attr d fh =
     (if (case attr of None \<Rightarrow> False | Some a \<Rightarrow> at_type a = NF3LNK) then
           if continue_int d AND O_NOFOLLOW \<noteq> 0 then Done (cb d) (- ELOOP) Message
           else if \<not> no_follow d \<or> rest_path (skipped d) \<noteq> [] then
             if link_count d \<ge> MAX_LINK_COUNT then Done (cb d) (- ELOOP) Message
             else if q then Task nfs3_lookup_path_2 (READLINK3args fh)
                              ((skipped d)\<lparr>link_count := link_count d + 1\<rparr>)
             else Done (cb d) (- ENOMEM) Message
           else lookup_component q attr (skipped d) fh
         else lookup_component q attr (skipped d) fh)"
  by (simp add: nfs3_lookup_path_async_internal_def Let_def skipped_def)

lemma at_compsD:
  assumes "at_comps d ds (c # cs)"
  shows "rest_path (skipped d) = c @ join cs" "saved_path d = join (ds @ c # cs)"
    "path_at (skipped d) \<le> length (saved_path d)" "noslash c" "c \<noteq> []"
proof -
  from assms have 1: "rest_path (skipped d) = tl (join (c # cs))"
    and 2: "path_at (skipped d) \<le> length (saved_path d)"
    and 3: "ds @ c # cs \<noteq> [] \<longrightarrow> saved_path d = join (ds @ c # cs)"
    and 4: "\<forall>x\<in>set (ds @ c # cs). normal_comp x"
    unfolding at_comps_def by blast+
  show "rest_path (skipped d) = c @ join cs" unfolding 1 by simp
  show "saved_path d = join (ds @ c # cs)" using 3 by blast
  show "path_at (skipped d) \<le> length (saved_path d)" by (rule 2)
  show "noslash c" "c \<noteq> []" using 4 by (auto simp: normal_comp_def)
qed

lemma at_comps_position:
  assumes "at_comps d ds (c # cs)"
  shows "path_at (skipped d) = Suc (length (join ds))"
proof -
  have "length (saved_path d) - path_at (skipped d) = length (c @ join cs)"
    using arg_cong [OF at_compsD(1) [OF assms], of length] by simp
  moreover have "length (saved_path d) = length (join ds) + 1 + length (c @ join cs)"
    using at_compsD(2) [OF assms] by (simp add: join_def)
  ultimately show ?thesis using at_compsD(3) [OF assms] by simp
qed

text \<open>After the call for \<open>c\<close> the pointer stands behind it.\<close>

definition behind :: "('c, 'k) nfs_cb_data \<Rightarrow> string \<Rightarrow> string list \<Rightarrow> ('c, 'k) nfs_cb_data" where
  "behind d c cs = (skipped d)\<lparr>path_at := (if cs \<noteq> [] then path_at (skipped d) + length c + 1
                                          else length (saved_path d))\<rparr>"

lemma takeWhile_comp: "noslash c \<Longrightarrow> takeWhile (\<lambda>c. c \<noteq> CHR ''/'') (c @ join cs) = c"
proof (induction c)
  case Nil
  then show ?case by (cases cs) simp_all
qed simp

lemma lookup_component_Cons:
  assumes "at_comps d ds (c # cs)"
  shows "lookup_component True attr (skipped d) fh = Task nfs3_lookup_path_1 (LOOKUP3args fh c) (behind d c cs)"
proof -
  note D = at_compsD [OF assms]
  have "c @ join cs \<noteq> []" using D by simp
  moreover have "length c < length (c @ join cs) \<longleftrightarrow> cs \<noteq> []" by (cases cs) simp_all
  ultimately show ?thesis
    unfolding lookup_component_def D(1) takeWhile_comp [OF D(4)] Let_def behind_def
    by (simp del: length_append append_is_Nil_conv)
qed

lemma at_comps_behind:
  assumes "at_comps d ds (c # cs)"
  shows "at_comps (behind d c cs) (ds @ [c]) cs \<and> skipped (behind d c cs) = behind d c cs"
proof (cases cs)
  case Nil
  then show ?thesis using assms by (auto simp: at_comps_def behind_def skipped_def)
next
  case (Cons c' cs')
  have c': "noslash c'" "c' \<noteq> []" using assms Cons by (auto simp: at_comps_def normal_comp_def)
  have sp: "saved_path d = join ds @ CHR ''/'' # c @ CHR ''/'' # c' @ join cs'"
    using at_compsD(2) [OF assms] Cons by (simp add: join_def)
  have r: "rest_path (behind d c cs) = c' @ join cs'"
    using at_comps_position [OF assms] Cons by (simp add: behind_def sp)
  have s: "skip_slashes (rest_path (behind d c cs)) = 0"
    using c' unfolding r by (cases c') auto
  then have sk: "skipped (behind d c cs) = behind d c cs"
    unfolding skipped_def by simp
  have "path_at (behind d c cs) \<le> length (saved_path (behind d c cs))"
    using at_comps_position [OF assms] Cons by (simp add: behind_def sp)
  moreover have "saved_path (behind d c cs) = join ((ds @ [c]) @ cs)" "\<forall>x\<in>set ((ds @ [c]) @ cs). normal_comp x"
    using assms by (auto simp: at_comps_def behind_def)
  ultimately show ?thesis
    using Cons r unfolding at_comps_def sk by simp
qed

lemma at_comps_start:
  assumes "lands np cs" "\<forall>c\<in>set cs. normal_comp c"
  shows "at_comps (d\<lparr>saved_path := np, path_at := 0\<rparr>) [] cs"
proof (cases cs)
  case Nil
  then have "np = [] \<or> np = ''/''" using assms by (simp add: lands_def)
  then show ?thesis using Nil by (auto simp: at_comps_def skipped_def)
next
  case (Cons c cs')
  then have np: "np = CHR ''/'' # c @ join cs'" and c: "noslash c" "c \<noteq> []"
    using assms by (auto simp: lands_def normal_comp_def)
  have "skip_slashes np = 1" using c unfolding np by (cases c) auto
  then show ?thesis using assms Cons np by (simp add: at_comps_def skipped_def)
qed

lemma follow_link_relative:
  assumes "at_comps d ds (c # cs)" "s = [] \<or> hd s \<noteq> CHR ''/''"
  shows "follow_link e ((behind d c cs)\<lparr>link_count := n\<rparr>) s
    = Some (New_path (join (ds @ [c]) @ ''/../'' @ s @ join cs))"
proof (cases cs)
  case Nil
  then show ?thesis
    using assms at_compsD(2) [OF assms(1)] by (auto simp: follow_link_def behind_def)
next
  case (Cons c' cs')
  have sp: "saved_path d = join (ds @ [c]) @ CHR ''/'' # c' @ join cs'"
    using at_compsD(2) [OF assms(1)] Cons by (simp add: join_def)
  have pos: "path_at (behind d c cs) = Suc (length (join (ds @ [c])))"
    using at_comps_position [OF assms(1)] Cons by (simp add: behind_def join_def)
  have c': "c' \<noteq> []" using assms(1) Cons by (auto simp: at_comps_def normal_comp_def)
  have r: "rest_path (behind d c cs) = c' @ join cs'"
    unfolding pos by (simp add: behind_def sp)
  have tk: "take (length (join (ds @ [c]))) (saved_path (behind d c cs)) = join (ds @ [c])"
    by (simp add: behind_def sp)
  show ?thesis
    using assms(2) c' Cons r tk pos by (auto simp: follow_link_def)
qed

definition relative_links :: "server \<Rightarrow> bool" where
  "relative_links srv \<longleftrightarrow> (\<forall>fh s. nodes srv fh = Some (Symlink s) \<longrightarrow> s = [] \<or> hd s \<noteq> CHR ''/'')"

text \<open>The attributes that are handed on with a file are its own.\<close>

definition own_attr :: "server \<Rightarrow> nfs_fh \<Rightarrow> nfs_attr option \<Rightarrow> bool" where
  "own_attr srv fh attr \<longleftrightarrow>
     (\<forall>a. attr = Some a \<longrightarrow> (\<exists>fa. srv_getattr srv fh = Ok3 fa \<and> a = fattr3_to_nfs_attr fa))"

fun leads :: "server \<Rightarrow> 'c \<Rightarrow> 'k \<Rightarrow> int + nfs_fh \<Rightarrow> ('c, 'k) act option \<Rightarrow> bool" where
  "leads srv c k (Inl e) r \<longleftrightarrow> r = Some (Done c e Message)"
| "leads srv c k (Inr h) r \<longleftrightarrow> (\<exists>d attr. r = Some (Go_on d attr) \<and> data_fh d = h \<and> cb d = c \<and> cont d = k
     \<and> own_attr srv h attr)"

lemma lookup_component_Nil:
  assumes "rest_path (skipped d) = []" "own_attr srv fh attr"
  shows "leads srv (cb d) (cont d) (Inr fh) (serve nfs srv (lookup_component q attr (skipped d) fh))"
  using assms by (auto simp: lookup_component_def Let_def)

lemma serve_lookup:
  "serve nfs srv (Task nfs3_lookup_path_1 (LOOKUP3args fh c) d) =
     (case srv_lookup srv fh c of
        Err3 st \<Rightarrow> Some (Done (cb d) (nfsstat3_to_errno st) Message)
      | Ok3 (h, fa) \<Rightarrow> serve nfs srv (nfs3_lookup_path_async_internal True
          (Some (case fa of None \<Rightarrow> zero_attr | Some f \<Rightarrow> fattr3_to_nfs_attr f)) d h))"
  by (auto simp: serve.simps(1) nfs3_lookup_path_1_cb_def split: res3.splits)

text \<open>A link is read and its target put in its place.\<close>

lemma serve_link:
  assumes "at_comps d ds (c # cs)" "nodes srv h = Some (Symlink s)" "relative_links srv"
    and "nfsi_export (nfsi nfs) = Some e"
  shows "serve nfs srv (Task nfs3_lookup_path_2 (READLINK3args h) ((behind d c cs)\<lparr>link_count := n\<rparr>)) =
     Option.bind (restart_lookup nfs True ((behind d c cs)\<lparr>link_count := n\<rparr>)
       (join (ds @ [c]) @ ''/../'' @ s @ join cs)) (serve nfs srv)"
proof -
  have "s = [] \<or> hd s \<noteq> CHR ''/''" using assms by (auto simp: relative_links_def)
  from follow_link_relative [OF assms(1) this, of e n]
  have "nfs3_lookup_path_2_cb nfs True RPC_STATUS_SUCCESS (srv_readlink srv h) ((behind d c cs)\<lparr>link_count := n\<rparr>)
    = restart_lookup nfs True ((behind d c cs)\<lparr>link_count := n\<rparr>) (join (ds @ [c]) @ ''/../'' @ s @ join cs)"
    using assms by (simp add: nfs3_lookup_path_2_cb_def srv_readlink_def)
  then show ?thesis
    by (simp add: serve.simps(1) Option.bind_eq_Some_conv split: option.splits)
qed

lemma behind_fields [simp]:
  "link_count (behind d c cs) = link_count d" "no_follow (behind d c cs) = no_follow d"
  "cb (behind d c cs) = cb d" "cont (behind d c cs) = cont d" "continue_int (behind d c cs) = continue_int d"
  by (simp_all add: behind_def)

lemma link_attr:
  "srv_getattr srv h = Ok3 fa \<Longrightarrow> nodes srv h = Some n \<Longrightarrow> at_type (fattr3_to_nfs_attr fa) = node_type n"
  by (auto simp: srv_getattr_def fattr3_to_nfs_attr_def split: option.splits)

lemma node_type_link: "node_type n = NF3LNK \<longleftrightarrow> (\<exists>s. n = Symlink s)"
  by (cases n) (auto simp: nf3_defs)

lemma comps_target_normal:
  assumes "resolve [] (ds @ comps s @ cs) = Some cs'" "\<forall>c\<in>set (ds @ cs). normal_comp c"
  shows "\<forall>c\<in>set cs'. normal_comp c"
  by (rule resolve_normal_comps [OF assms(1)]) (use assms(2) comps_noslash in \<open>auto simp: normal_comp_noslash\<close>)

lemma restart_leads:
  assumes "resolve [] (ds @ comps s @ cs) = Some cs'" "\<forall>x\<in>set (ds @ c # cs). normal_comp x"
  obtains np where "restart_lookup nfs True d (join (ds @ [c]) @ ''/../'' @ s @ join cs)
      = Some (nfs3_lookup_path_async_internal True None (d\<lparr>saved_path := np, path_at := 0\<rparr>) (nfsi_rootfh (nfsi nfs)))"
    and "at_comps (d\<lparr>saved_path := np, path_at := 0\<rparr>) [] cs'"
proof -
  define r where "r = tl (join (ds @ [c]) @ ''/../'' @ s @ join cs)"
  have p: "join (ds @ [c]) @ ''/../'' @ s @ join cs = CHR ''/'' # r"
    unfolding r_def by (cases ds) simp_all
  have "resolve [] (comps r) = Some cs'" using resolve_link [OF assms(2), of s] assms(1) by (simp add: r_def)
  then obtain np where np: "nfs_normalize_path (CHR ''/'' # r) = Some (Inr np)" "lands np cs'"
    using normalize_resolve [OF refl, of r] by auto
  show ?thesis
    by (rule that [of np])
       (use np p at_comps_start comps_target_normal [OF assms(1)] assms(2) in \<open>auto simp: restart_lookup_def\<close>)
qed

lemma restart_fails:
  assumes "resolve [] (ds @ comps s @ cs) = None" "\<forall>x\<in>set (ds @ c # cs). normal_comp x"
  shows "restart_lookup nfs True d (join (ds @ [c]) @ ''/../'' @ s @ join cs) = Some (Done (cb d) (- ENOENT) Message)"
proof -
  define r where "r = tl (join (ds @ [c]) @ ''/../'' @ s @ join cs)"
  have p: "join (ds @ [c]) @ ''/../'' @ s @ join cs = CHR ''/'' # r"
    unfolding r_def by (cases ds) simp_all
  have "resolve [] (comps r) = None" using resolve_link [OF assms(2), of s] assms(1) by (simp add: r_def)
  then obtain e where "nfs_normalize_path (CHR ''/'' # r) = Some (Inl e)"
    using normalize_resolve [OF refl, of r] by auto
  then show ?thesis unfolding restart_lookup_def p by simp
qed

text \<open>What a call for a component answers, as the specification sees it.\<close>

lemma srv_lookup_cases:
  "(\<exists>e. srv_lookup srv cur c = Err3 e
      \<and> (\<forall>root nf k ds cs. resolve_in srv root nf k ds cur (c # cs) = Inl (nfsstat3_to_errno e)))
   \<or> (\<exists>m h n fa. nodes srv cur = Some (Dir m) \<and> m c = Some h \<and> nodes srv h = Some n
        \<and> srv_getattr srv h = Ok3 fa \<and> srv_lookup srv cur c = Ok3 (h, Some fa))"
proof -
  have st: "nfsstat3_to_errno NFS3ERR_STALE = - ESTALE"
    by (simp add: nfsstat3_to_errno_def NFS3ERR_STALE_def)
  consider "nodes srv cur = None" | "nodes srv cur = Some Plain" | s where "nodes srv cur = Some (Symlink s)"
    | m where "nodes srv cur = Some (Dir m)" "m c = None"
    | m h where "nodes srv cur = Some (Dir m)" "m c = Some h" "nodes srv h = None"
    | m h n where "nodes srv cur = Some (Dir m)" "m c = Some h" "nodes srv h = Some n"
    by (metis node.exhaust option.exhaust)
  then show ?thesis
    by cases (simp_all add: st srv_lookup_def srv_getattr_def resolve_in.simps(2))
qed

text \<open>The two turns of the specification, for a link and for any other file.\<close>

lemma serve_past:
  assumes "nodes srv cur = Some (Dir m)" "m c = Some h" "nodes srv h = Some n" "\<forall>s. n \<noteq> Symlink s"
  shows "resolve_in srv root nf k ds cur (c # cs) = resolve_in srv root nf k (ds @ [c]) h cs"
  using assms by (cases n) (simp_all add: resolve_in.simps(2))

lemma link_acts:
  assumes at: "at_comps d ds (c # cs)" and ty: "at_type a = NF3LNK" and nofl: "continue_int d AND O_NOFOLLOW = 0"
  shows "nfs3_lookup_path_async_internal True (Some a) (behind d c cs) h =
    (if no_follow d \<and> cs = [] then lookup_component True (Some a) (skipped (behind d c cs)) h
     else if link_count d \<ge> MAX_LINK_COUNT then Done (cb d) (- ELOOP) Message
     else Task nfs3_lookup_path_2 (READLINK3args h) ((behind d c cs)\<lparr>link_count := link_count d + 1\<rparr>))"
    and "cs = [] \<Longrightarrow> rest_path (skipped (behind d c cs)) = []"
proof -
  have at': "at_comps (behind d c cs) (ds @ [c]) cs" and sk: "skipped (behind d c cs) = behind d c cs"
    using at_comps_behind [OF at] by simp_all
  have r: "rest_path (behind d c cs) = tl (join cs)" using at' unfolding at_comps_def sk by blast
  have rest: "rest_path (behind d c cs) = [] \<longleftrightarrow> cs = []"
    unfolding r using at' by (cases cs) (auto simp: at_comps_def normal_comp_def)
  then show "cs = [] \<Longrightarrow> rest_path (skipped (behind d c cs)) = []" unfolding sk by blast
  show "nfs3_lookup_path_async_internal True (Some a) (behind d c cs) h =
    (if no_follow d \<and> cs = [] then lookup_component True (Some a) (skipped (behind d c cs)) h
     else if link_count d \<ge> MAX_LINK_COUNT then Done (cb d) (- ELOOP) Message
     else Task nfs3_lookup_path_2 (READLINK3args h) ((behind d c cs)\<lparr>link_count := link_count d + 1\<rparr>))"
    unfolding internal_skipped sk rest using ty nofl by simp
qed

lemma serve_through_link:
  fixes d :: "('c, 'k) nfs_cb_data"
  assumes at: "at_comps d ds (c # cs)" and h: "nodes srv h = Some (Symlink s)"
    and cur: "nodes srv cur = Some (Dir m)" "m c = Some h" "srv_getattr srv h = Ok3 fa"
    and srv: "relative_links srv" "nfsi_export (nfsi nfs) = Some e" "nfsi_rootfh (nfsi nfs) = root"
    and k: "link_count d + k = MAX_LINK_COUNT" and nofl: "continue_int d AND O_NOFOLLOW = 0"
    and IH: "\<And>(d' :: ('c, 'k) nfs_cb_data) cs'. 0 < k \<Longrightarrow> at_comps d' [] cs' \<Longrightarrow> link_count d' + (k - 1) = MAX_LINK_COUNT \<Longrightarrow>
      continue_int d' AND O_NOFOLLOW = 0 \<Longrightarrow>
      leads srv (cb d') (cont d') (resolve_in srv root (no_follow d') (k - 1) [] root cs')
        (serve nfs srv (nfs3_lookup_path_async_internal True None d' root))"
  shows "leads srv (cb d) (cont d) (resolve_in srv root (no_follow d) k ds cur (c # cs))
      (serve nfs srv (nfs3_lookup_path_async_internal True (Some (fattr3_to_nfs_attr fa)) (behind d c cs) h))"
proof -
  define d' where "d' = (behind d c cs)\<lparr>link_count := link_count d + 1\<rparr>"
  have nc: "\<forall>x\<in>set (ds @ c # cs). normal_comp x" using at by (simp add: at_comps_def)
  have ty: "at_type (fattr3_to_nfs_attr fa) = NF3LNK" using link_attr [OF cur(3) h] by simp
  note acts = link_acts(1) [OF at ty nofl, of h] link_acts(2) [OF at ty nofl]
  have spec: "resolve_in srv root (no_follow d) k ds cur (c # cs) =
      (if no_follow d \<and> cs = [] then Inr h
       else if k = 0 then Inl (- ELOOP)
       else case resolve [] (ds @ comps s @ cs) of
              None \<Rightarrow> Inl (- ENOENT)
            | Some cs' \<Rightarrow> resolve_in srv root (no_follow d) (k - 1) [] root cs')"
    using cur(1,2) h by (simp add: resolve_in.simps(2))
  have link: "serve nfs srv (Task nfs3_lookup_path_2 (READLINK3args h) d') =
       Option.bind (restart_lookup nfs True d' (join (ds @ [c]) @ ''/../'' @ s @ join cs)) (serve nfs srv)"
    unfolding d'_def by (rule serve_link [OF at h srv(1,2)])
  have d': "cb d' = cb d" "cont d' = cont d" "no_follow d' = no_follow d"
    "continue_int d' = continue_int d" "link_count d' = Suc (link_count d)" by (simp_all add: d'_def)
  have task: "nfs3_lookup_path_async_internal True (Some (fattr3_to_nfs_attr fa)) (behind d c cs) h
      = Task nfs3_lookup_path_2 (READLINK3args h) d'" if "\<not> (no_follow d \<and> cs = [])" "0 < k"
    unfolding acts(1) if_not_P [OF that(1)] d'_def using that(2) k by simp
  consider "no_follow d \<and> cs = []" | "\<not> (no_follow d \<and> cs = [])" "k = 0"
    | "\<not> (no_follow d \<and> cs = [])" "0 < k" "resolve [] (ds @ comps s @ cs) = None"
    | cs' where "\<not> (no_follow d \<and> cs = [])" "0 < k" "resolve [] (ds @ comps s @ cs) = Some cs'" by blast
  then show ?thesis
  proof cases
    case 1
    then show ?thesis
      using lookup_component_Nil [OF acts(2), of srv h "Some (fattr3_to_nfs_attr fa)" nfs True] cur(3)
      unfolding spec acts(1) by (simp add: own_attr_def)
  next
    case 3
    then show ?thesis
      unfolding spec if_not_P [OF 3(1)] task [OF 3(1,2)] link restart_fails [OF 3(3) nc, of nfs d']
      by (simp add: d')
  next
    case (4 cs')
    obtain np where np: "restart_lookup nfs True d' (join (ds @ [c]) @ ''/../'' @ s @ join cs)
          = Some (nfs3_lookup_path_async_internal True None (d'\<lparr>saved_path := np, path_at := 0\<rparr>) (nfsi_rootfh (nfsi nfs)))"
        "at_comps (d'\<lparr>saved_path := np, path_at := 0\<rparr>) [] cs'"
      by (rule restart_leads [OF 4(3) nc])
    then show ?thesis
      unfolding spec if_not_P [OF 4(1)] task [OF 4(1,2)] link np(1)
      using IH [OF 4(2) np(2)] 4(2,3) d' k nofl srv(3) by simp
  next
    case 2
    then show ?thesis unfolding spec if_not_P [OF 2(1)] acts(1) using k by simp
  qed
qed

lemma serve_resolves:
  fixes d :: "('c, 'k) nfs_cb_data"
  assumes srv: "relative_links srv" "nfsi_export (nfsi nfs) = Some e" "nfsi_rootfh (nfsi nfs) = root"
  shows "at_comps d ds cs \<Longrightarrow> link_count d + k = MAX_LINK_COUNT \<Longrightarrow> continue_int d AND O_NOFOLLOW = 0 \<Longrightarrow>
    own_attr srv cur attr \<Longrightarrow> (\<forall>a. attr = Some a \<longrightarrow> at_type a \<noteq> NF3LNK) \<Longrightarrow>
    leads srv (cb d) (cont d) (resolve_in srv root (no_follow d) k ds cur cs)
      (serve nfs srv (nfs3_lookup_path_async_internal True attr d cur))"
proof (induction k arbitrary: d ds cs cur attr rule: less_induct)
  case (less k)
  from less.prems show ?case
  proof (induction cs arbitrary: d ds cur attr)
    case Nil
    have "rest_path (skipped d) = []" using Nil(1) by (simp add: at_comps_def)
    then show ?case
      using lookup_component_Nil [of d srv cur attr nfs True] Nil by (auto simp: internal_skipped split: option.splits)
  next
    case (Cons c cs)
    have step: "nfs3_lookup_path_async_internal True attr d cur = Task nfs3_lookup_path_1 (LOOKUP3args cur c) (behind d c cs)"
      using lookup_component_Cons [OF Cons.prems(1)] Cons.prems by (auto simp: internal_skipped split: option.splits)
    consider er where "srv_lookup srv cur c = Err3 er"
        "resolve_in srv root (no_follow d) k ds cur (c # cs) = Inl (nfsstat3_to_errno er)"
      | m h n fa where "nodes srv cur = Some (Dir m)" "m c = Some h" "nodes srv h = Some n"
          "srv_getattr srv h = Ok3 fa" "srv_lookup srv cur c = Ok3 (h, Some fa)"
      using srv_lookup_cases [of srv cur c] by blast
    then show ?case
    proof cases
      case 1
      then show ?thesis by (simp add: step serve_lookup)
    next
      case (2 m h n fa)
      have go: "serve nfs srv (nfs3_lookup_path_async_internal True attr d cur) =
          serve nfs srv (nfs3_lookup_path_async_internal True (Some (fattr3_to_nfs_attr fa)) (behind d c cs) h)"
        by (simp add: step serve_lookup 2(5))
      show ?thesis
      proof (cases "\<exists>s. n = Symlink s")
        case True
        then obtain s where s: "nodes srv h = Some (Symlink s)" using 2 by blast
        show ?thesis
          unfolding go
        proof (rule serve_through_link [OF Cons.prems(1) s 2(1,2,4) srv Cons.prems(2,3)])
          show "leads srv (cb d') (cont d') (resolve_in srv root (no_follow d') (k - 1) [] root cs')
              (serve nfs srv (nfs3_lookup_path_async_internal True None d' root))"
            if "0 < k" "at_comps d' [] cs'" "link_count d' + (k - 1) = MAX_LINK_COUNT"
              "continue_int d' AND O_NOFOLLOW = 0" for d' :: "('c, 'k) nfs_cb_data" and cs'
            using less.IH [OF _ that(2,3,4)] that(1) by (simp add: own_attr_def)
        qed
      next
        case False
        have "at_type (fattr3_to_nfs_attr fa) \<noteq> NF3LNK"
          using link_attr [OF 2(4,3)] False by (simp add: node_type_link)
        then show ?thesis
          unfolding go serve_past [OF 2(1-3) False [unfolded not_ex]]
          using Cons.IH [of "behind d c cs" "ds @ [c]" h "Some (fattr3_to_nfs_attr fa)"]
            at_comps_behind [OF Cons.prems(1)] Cons.prems 2 by (simp add: own_attr_def)
      qed
    qed
  qed
qed

text \<open>The path an operation is called with, made absolute.\<close>

definition given_path :: "'r nfs_context \<Rightarrow> string option \<Rightarrow> string" where
  "given_path nfs path =
     (let p = (case path of None \<Rightarrow> ''.'' | Some s \<Rightarrow> if s = [] then ''.'' else s)
      in if hd p = CHR ''/'' then p else nfsi_cwd (nfsi nfs) @ ''/'' @ p)"

lemma lookuppath_given:
  "nfs3_lookuppath_async nfs True path nofollow c k cint =
     (case nfs_normalize_path (given_path nfs path) of
        None \<Rightarrow> None
      | Some (Inl _) \<Rightarrow> Some None
      | Some (Inr np) \<Rightarrow>
          let data = \<lparr>saved_path = np, path_at = 0, link_count = 0, no_follow = nofollow,
                      cb = c, cont = k, continue_int = cint, data_fh = []\<rparr>
          in if np \<noteq> [] then
               case match_nested (nfsi_nested_mounts (nfsi nfs)) 0 np (nfsi_rootfh (nfsi nfs)) of
                 (np', fh') \<Rightarrow> Some (Some (nfs3_lookup_path_async_internal True None (data\<lparr>saved_path := np'\<rparr>) fh'))
             else Some (Some (Task nfs3_lookup_path_getattr (GETATTR3args (nfsi_rootfh (nfsi nfs))) data)))"
  by (simp only: nfs3_lookuppath_async_def given_path_def Let_def if_True)

lemma serve_root:
  assumes "nodes srv root = Some (Dir m)" "nfsi_rootfh (nfsi nfs) = root" "saved_path d = []" "path_at d = 0"
  shows "leads srv (cb d) (cont d) (Inr root) (serve nfs srv (Task nfs3_lookup_path_getattr (GETATTR3args root) d))"
proof -
  define fa where "fa = (attrs srv root)\<lparr>fa_type := NF3DIR\<rparr>"
  have g: "srv_getattr srv root = Ok3 fa" using assms by (simp add: srv_getattr_def fa_def)
  have "at_type (fattr3_to_nfs_attr fa) \<noteq> NF3LNK" by (simp add: fa_def fattr3_to_nfs_attr_def nf3_defs)
  then have "serve nfs srv (Task nfs3_lookup_path_getattr (GETATTR3args root) d)
      = serve nfs srv (lookup_component True (Some (fattr3_to_nfs_attr fa)) (skipped d) root)"
    using assms(2) g by (simp add: serve.simps(1) nfs3_lookup_path_getattr_cb_def internal_skipped)
  then show ?thesis
    using lookup_component_Nil [of d srv root "Some (fattr3_to_nfs_attr fa)" nfs True] assms g
    by (simp add: skipped_def own_attr_def)
qed

lemma lookuppath_leads:
  assumes srv: "relative_links srv" "nfsi_export (nfsi nfs) = Some e" "nfsi_nested_mounts (nfsi nfs) = []"
    and root: "nodes srv (nfsi_rootfh (nfsi nfs)) = Some (Dir m)"
    and abs: "given_path nfs path = CHR ''/'' # r" and nofl: "cint AND O_NOFOLLOW = 0"
    and cs: "resolve [] (comps r) = Some cs"
  shows "\<exists>a. nfs3_lookuppath_async nfs True path nofollow c k cint = Some (Some a)
      \<and> leads srv c k (resolve_in srv (nfsi_rootfh (nfsi nfs)) nofollow MAX_LINK_COUNT [] (nfsi_rootfh (nfsi nfs)) cs)
          (serve nfs srv a)"
proof -
  obtain np where np: "nfs_normalize_path (given_path nfs path) = Some (Inr np)" "lands np cs"
    using normalize_resolve [OF abs] cs by auto
  have nc: "\<forall>x\<in>set cs. normal_comp x"
    by (rule resolve_normal_comps [OF cs]) (use comps_noslash in auto)
  define d where "d = \<lparr>saved_path = np, path_at = 0, link_count = 0, no_follow = nofollow,
                      cb = c, cont = k, continue_int = cint, data_fh = []\<rparr>"
  show ?thesis
  proof (cases "np = []")
    case True
    then have "cs = []" using np(2) by (cases cs) (auto simp: lands_def)
    with True show ?thesis
      using serve_root [OF root refl, of d] by (simp add: lookuppath_given np(1) d_def)
  next
    case False
    have "at_comps d [] cs" using at_comps_start [OF np(2) nc, of d] by (simp add: d_def)
    from serve_resolves [OF srv(1,2) refl this, of MAX_LINK_COUNT "nfsi_rootfh (nfsi nfs)" None] nofl False
    show ?thesis
      by (simp add: lookuppath_given np(1) srv(3) own_attr_def d_def)
  qed
qed

text \<open>
  C3. A lookup finds what resolving the components of the path gives. For every server tree
  whose links are relative, and an export without nested ones: a path that climbs above the
  root is refused at once, without a callback; otherwise the calls the client makes lead to the
  error number or the file handle of \<open>resolve_in\<close>, with links followed at every component (the
  last one only if asked), at most forty of them, and the attributes handed on are those of
  the file found.
\<close>

theorem nfs3_lookup_resolves:
  assumes "relative_links srv" "nfsi_export (nfsi nfs) = Some e" "nfsi_nested_mounts (nfsi nfs) = []"
    and "nodes srv (nfsi_rootfh (nfsi nfs)) = Some (Dir m)"
    and "given_path nfs path = CHR ''/'' # r" and "cint AND O_NOFOLLOW = 0"
  shows "case resolve [] (comps r) of
      None \<Rightarrow> nfs3_lookuppath_async nfs True path nofollow c k cint = Some None
    | Some cs \<Rightarrow> \<exists>a. nfs3_lookuppath_async nfs True path nofollow c k cint = Some (Some a)
        \<and> leads srv c k (resolve_in srv (nfsi_rootfh (nfsi nfs)) nofollow MAX_LINK_COUNT [] (nfsi_rootfh (nfsi nfs)) cs)
            (serve nfs srv a)"
proof (cases "resolve [] (comps r)")
  case None
  then obtain er where "nfs_normalize_path (given_path nfs path) = Some (Inl er)"
    using normalize_resolve [OF assms(5)] by auto
  with None show ?thesis by (simp add: lookuppath_given)
next
  case (Some cs)
  with lookuppath_leads [OF assms Some] show ?thesis by simp
qed

text \<open>A server with a directory \<open>d\<close> that holds \<open>f\<close>, and the links \<open>l\<close> to \<open>d\<close>, \<open>a\<close> to \<open>/x/d\<close>.\<close>

definition sample_tree :: "bool \<Rightarrow> nfs_fh \<Rightarrow> node option" where
  "sample_tree with_abs fh =
     (if fh = [1] then Some (Dir (\<lambda>n. if n = ''d'' then Some [2] else if n = ''l'' then Some [3]
                                      else if n = ''a'' then Some [5] else None))
      else if fh = [2] then Some (Dir (\<lambda>n. if n = ''f'' then Some [4] else None))
      else if fh = [3] then Some (Symlink ''d'')
      else if fh = [4] then Some Plain
      else if fh = [5] \<and> with_abs then Some (Symlink ''/x/d'')
      else None)"

definition sample_server :: "bool \<Rightarrow> server" where
  "sample_server b = \<lparr>nodes = sample_tree b, attrs = \<lambda>_. zero_fattr\<rparr>"

definition mounted_nfs :: "unit nfs_context" where
  "mounted_nfs = sample_nfs\<lparr>nfsi := (nfsi sample_nfs)\<lparr>nfsi_export := Some ''/x'', nfsi_cwd := ''/'',
     nfsi_rootfh := [1]\<rparr>\<rparr>"

lemma mounted_nfs_fields [simp]:
  "nfsi_export (nfsi mounted_nfs) = Some ''/x''" "nfsi_cwd (nfsi mounted_nfs) = ''/''"
  "nfsi_rootfh (nfsi mounted_nfs) = [1]" "nfsi_nested_mounts (nfsi mounted_nfs) = []"
  by (simp_all add: mounted_nfs_def sample_nfs_def zero_nfsi_def)

lemma sample_relative: "relative_links (sample_server False)"
  by (auto simp: relative_links_def sample_server_def sample_tree_def split: if_splits)

theorem nfs3_lookup_resolves_witness:
  "\<exists>a d attr. nfs3_lookuppath_async mounted_nfs True (Some ''l/./f'') False () () 0 = Some (Some a)
     \<and> serve mounted_nfs (sample_server False) a = Some (Go_on d attr) \<and> data_fh d = [4]"
proof -
  have "resolve_in (sample_server False) [1] False MAX_LINK_COUNT [] [1] [''l'', ''f''] = Inr [4]"
    by (simp add: resolve_in.simps(2) sample_server_def sample_tree_def MAX_LINK_COUNT_def)
  moreover have "given_path mounted_nfs (Some ''l/./f'') = CHR ''/'' # ''/l/./f''"
    "resolve [] (comps ''/l/./f'') = Some [''l'', ''f'']"
    by (simp_all add: given_path_def)
  ultimately show ?thesis
    using nfs3_lookup_resolves [OF sample_relative, of mounted_nfs "''/x''" _ "Some ''l/./f''" "''/l/./f''" 0 False "()" "()"]
    by (auto simp: sample_server_def sample_tree_def)
qed

text \<open>
  C38. A symbolic link whose target is absolute takes the place of the whole path. When a READLINK is
  answered with a path inside the export, and the links of the server's tree are relative, the
  lookup goes on to what resolving the target alone gives, its error number or its file handle,
  whatever components follow the link in the path: \<open>/link/file\<close> is looked up as \<open>/link\<close>, and the
  directory is found in place of the file.
\<close>

theorem nfs3_absolute_link_drops_rest:
  assumes "nfsi_export (nfsi nfs) = Some e" "e \<noteq> []" "hd e = CHR ''/''" "relative_links srv"
    and "resolve [] (comps t) = Some cs" "link_count d \<le> MAX_LINK_COUNT" "continue_int d AND O_NOFOLLOW = 0"
  shows "\<exists>a. nfs3_lookup_path_2_cb nfs True RPC_STATUS_SUCCESS (Ok3 (e @ ''/'' @ t)) d = Some a
    \<and> leads srv (cb d) (cont d)
        (resolve_in srv (nfsi_rootfh (nfsi nfs)) (no_follow d) (MAX_LINK_COUNT - link_count d) [] (nfsi_rootfh (nfsi nfs)) cs)
        (serve nfs srv a)"
proof -
  obtain np where np: "nfs_normalize_path (CHR ''/'' # t) = Some (Inr np)" "lands np cs"
    using normalize_resolve [OF refl, of t] assms(5) by auto
  let ?d = "d\<lparr>saved_path := np, path_at := 0\<rparr>"
  have "nfs3_lookup_path_2_cb nfs True RPC_STATUS_SUCCESS (Ok3 (e @ ''/'' @ t)) d =
      Some (nfs3_lookup_path_async_internal True None ?d (nfsi_rootfh (nfsi nfs)))"
    using assms(1-3) np(1) by (simp add: nfs3_lookup_path_2_cb_def follow_link_def restart_lookup_def)
  moreover have "\<forall>c\<in>set cs. normal_comp c"
    using comps_target_normal [of "[]" t "[]" cs] assms(5) by simp
  then have "at_comps ?d [] cs" by (rule at_comps_start [OF np(2)])
  note serve_resolves [OF assms(4,1) refl this, of "MAX_LINK_COUNT - link_count d" "nfsi_rootfh (nfsi nfs)" None]
  then have "leads srv (cb d) (cont d)
      (resolve_in srv (nfsi_rootfh (nfsi nfs)) (no_follow d) (MAX_LINK_COUNT - link_count d) [] (nfsi_rootfh (nfsi nfs)) cs)
      (serve nfs srv (nfs3_lookup_path_async_internal True None ?d (nfsi_rootfh (nfsi nfs))))"
    using assms(6,7) by (simp add: own_attr_def)
  ultimately show ?thesis by blast
qed

definition walk_at :: "string \<Rightarrow> nat \<Rightarrow> (unit, unit) nfs_cb_data" where
  "walk_at p i = \<lparr>saved_path = p, path_at = i, link_count = 1, no_follow = False, cb = (), cont = (),
     continue_int = 0, data_fh = []\<rparr>"

text \<open>The link \<open>a\<close> of \<open>/a/f\<close> points to \<open>/x/d\<close>: the lookup finds the directory \<open>d\<close>, which is \<open>[2]\<close>.\<close>

theorem nfs3_absolute_link_drops_rest_witness:
  "\<exists>a d attr. nfs3_lookup_path_2_cb mounted_nfs True RPC_STATUS_SUCCESS (Ok3 ''/x/d'') (walk_at ''/a/f'' 3) = Some a
     \<and> serve mounted_nfs (sample_server False) a = Some (Go_on d attr) \<and> data_fh d = [2]"
proof -
  have "resolve_in (sample_server False) [1] False (MAX_LINK_COUNT - 1) [] [1] [''d''] = Inr [2]"
    by (simp add: resolve_in.simps(2) sample_server_def sample_tree_def MAX_LINK_COUNT_def)
  then show ?thesis
    using nfs3_absolute_link_drops_rest [of mounted_nfs "''/x''" "sample_server False" "''d''" "[''d'']" "walk_at ''/a/f'' 3"]
      sample_relative
    by (auto simp: walk_at_def MAX_LINK_COUNT_def)
qed

text \<open>The two lookups with the sample server: the path through the absolute link ends at the directory.\<close>

lemma absolute_link_finds_directory:
  "map_option (\<lambda>a. case a of Go_on d _ \<Rightarrow> data_fh d | _ \<Rightarrow> [])
     (serve mounted_nfs (sample_server True) (nfs3_lookup_path_async_internal True None
        ((walk_at ''/a/f'' 0)\<lparr>link_count := 0\<rparr>) [1])) = Some [2]"
  by code_simp

text \<open>
  Two nested exports are mixed up: with exports mounted at \<open>/p1\<close> and \<open>/p2\<close> of the mounted one,
  listed in this order and the second no shorter than the first, the path \<open>/p1/p2/...\<close> is looked
  up in the second export, although it lies in the first. The comment promises the longest
  match; the path is shortened by every match and compared again.
\<close>

theorem nfs3_nested_exports_confused:
  assumes "length (nm_path m1) \<le> length (nm_path m2)"
    and "nm_path m2 \<noteq> [] \<and> hd (nm_path m2) = CHR ''/''" and "slashed rest"
  shows "match_nested [m1, m2] 0 (nm_path m1 @ nm_path m2 @ rest) fh = (rest, nm_fh m2)
    \<and> match_nested [m1] 0 (nm_path m1 @ nm_path m2 @ rest) fh = (nm_path m2 @ rest, nm_fh m1)"
  using assms by (cases rest) (auto simp: Let_def slashed_def nth_append hd_conv_nth)

definition sample_mount :: "string \<Rightarrow> nfs_fh \<Rightarrow> nested_mounts" where
  "sample_mount p fh = \<lparr>nm_path = p, nm_fh = fh, nm_attr = zero_attr\<rparr>"

theorem nfs3_nested_exports_confused_witness:
  "match_nested [sample_mount ''/a'' [7], sample_mount ''/b'' [8]] 0 ''/a/b/f'' [1] = (''/f'', [8])"
  using nfs3_nested_exports_confused [of "sample_mount ''/a'' [7]" "sample_mount ''/b'' [8]" "''/f''" "[1]"]
  by (simp add: sample_mount_def slashed_def)

text \<open>
  An absolute target is refused where the export is \<open>/\<close> itself, unless it is \<open>/\<close>: the text behind
  the export does not start with a slash.
\<close>

lemma root_export_refuses_absolute:
  "nfsi_export (nfsi nfs) = Some ''/'' \<Longrightarrow> t \<noteq> [] \<Longrightarrow> hd t \<noteq> CHR ''/'' \<Longrightarrow>
   nfs3_lookup_path_2_cb nfs q RPC_STATUS_SUCCESS (Ok3 (''/'' @ t)) d = Some (Done (cb d) (- ENOENT) Message)"
  by (simp add: nfs3_lookup_path_2_cb_def follow_link_def)

section \<open>Every lookup ends\<close>

text \<open>
  C15. A lookup always ends, whatever the server answers and however often calls fail: there is
  no endless sequence of replies. No reply leads to an access outside the path string, at most
  forty links are read, and where no call is under way the operation's own callback gets a
  negative error number or its own continuation goes on.
\<close>

theorem nfs3_lookup_ends:
  assumes "nfs3_lookuppath_async nfs q path nofollow c k cint = Some (Some a)"
    and "nfsi_export (nfsi nfs) = Some export"
  shows "(\<exists>i. \<not> walk_step nfs (s i) (s (Suc i)))
    \<and> ((walk_step nfs)\<^sup>*\<^sup>* a b \<longrightarrow>
         (case b of
            Task f call d \<Rightarrow> f \<in> {nfs3_lookup_path_1, nfs3_lookup_path_2, nfs3_lookup_path_getattr}
              \<and> link_count d \<le> MAX_LINK_COUNT \<and> nfs3_lookup_path_2_cb nfs q' status res d \<noteq> None
          | Done c' e r \<Rightarrow> c' = c \<and> e < 0
          | Go_on d attr \<Rightarrow> cb d = c \<and> cont d = k))"
proof (intro conjI impI)
  show "\<exists>i. \<not> walk_step nfs (s i) (s (Suc i))"
    using walk_finite by blast
next
  assume "(walk_step nfs)\<^sup>*\<^sup>* a b"
  then have b: "act_ok b" "act_of c k b"
    using walk_reach [OF _ lookuppath_ok [OF assms(1)] act_of_lookuppath [OF assms(1)], of nfs b] by simp_all
  show "case b of
            Task f call d \<Rightarrow> f \<in> {nfs3_lookup_path_1, nfs3_lookup_path_2, nfs3_lookup_path_getattr}
              \<and> link_count d \<le> MAX_LINK_COUNT \<and> nfs3_lookup_path_2_cb nfs q' status res d \<noteq> None
          | Done c' e r \<Rightarrow> c' = c \<and> e < 0
          | Go_on d attr \<Rightarrow> cb d = c \<and> cont d = k"
  proof (cases b)
    case (Task f call d)
    with b lookup_path_2_defined [of d nfs export q' status res] assms(2)
    show ?thesis by (auto simp: data_ok_def)
  qed (use b in auto)
qed

theorem nfs3_lookup_ends_witness:
  "\<exists>a i. nfs3_lookuppath_async mounted_nfs True (Some ''/a/f'') False () () 0 = Some (Some a)
     \<and> \<not> walk_step mounted_nfs ((\<lambda>_. a) i) ((\<lambda>_. a) (Suc i))
     \<and> nfs3_lookup_path_2_cb mounted_nfs False RPC_STATUS_SUCCESS (Ok3 ''../../d'') (walk_at ''/a/f'' 3) \<noteq> None"
proof -
  have n: "nfs_normalize_path ''/a/f'' = Some (Inr ''/a/f'')" by code_simp
  have s: "nfs3_lookuppath_async mounted_nfs True (Some ''/a/f'') False () () 0
      = Some (Some (Task nfs3_lookup_path_1 (LOOKUP3args [1] ''a'') ((walk_at ''/a/f'' 3)\<lparr>link_count := 0\<rparr>)))"
    by (simp add: nfs3_lookuppath_async_def n nfs3_lookup_path_async_internal_def lookup_component_def walk_at_def)
  define a where "a = Task nfs3_lookup_path_1 (LOOKUP3args [1] ''a'') ((walk_at ''/a/f'' 3)\<lparr>link_count := 0\<rparr>)"
  define b where "b = nfs3_lookup_path_1_cb True RPC_STATUS_SUCCESS (Ok3 ([5], Some (zero_fattr\<lparr>fa_type := NF3LNK\<rparr>)))
      ((walk_at ''/a/f'' 3)\<lparr>link_count := 0\<rparr>)"
  have "walk_step mounted_nfs a b"
    unfolding a_def b_def by (rule walk_step.looked_up) (simp add: status_ok_def)
  then have "(walk_step mounted_nfs)\<^sup>*\<^sup>* a b" by simp
  moreover have "b = Task nfs3_lookup_path_2 (READLINK3args [5]) (walk_at ''/a/f'' 3)"
    by (simp add: b_def nfs3_lookup_path_1_cb_def nfs3_lookup_path_async_internal_def walk_at_def
        fattr3_to_nfs_attr_def O_NOFOLLOW_def MAX_LINK_COUNT_def)
  ultimately show ?thesis
    using nfs3_lookup_ends [OF s, of "''/x''" "\<lambda>_. a" b False RPC_STATUS_SUCCESS "Ok3 ''../../d''"] s
    by (auto simp: a_def)
qed

end
