(* ===== verification/Nfs3_Ops.thy ===== *)
theory Nfs3_Ops
  imports Nfs3_Lookup
begin

text \<open>
  The operations of \<open>src/lib/nfs_v3.c\<close> on names and attributes: link, rename, symlink, access,
  utimes, chown, chmod, readlink, statvfs, mknod, unlink, rmdir, mkdir, truncate, fsync, the
  access control list, stat and chdir. Each has an \<open>_async\<close> function that starts the lookup of a
  path, a continuation that makes the call on the file that was found, and a callback for the
  reply.

  \<^item> The callback and the private data of the user are \<open>User n\<close>; the other callbacks are the ones
    the client passes to itself when it opens and closes a file.
  \<^item> The continuation \<open>cont3\<close> carries its data. Where the code moves the handle of a directory
    from \<open>data->fh\<close> to the data of the continuation, it is read from \<open>data_fh\<close> here.
  \<^item> \<open>Some None\<close> as the result of an \<open>_async\<close> function is the return value \<open>-1\<close> without a callback;
    operations on an open file return their return value and what they did.
\<close>

section \<open>Operations\<close>

text \<open>While a file is created, \<open>op_path\<close> is cut to the path of its directory.\<close>

record open_cb_data =
  op_user :: nat
  op_path :: string
  op_object :: string
  op_flags :: u32
  op_mode :: u32

datatype cb3 = User nat | Initial_open open_cb_data | Open_create open_cb_data | Close_file nat

text \<open>A time is \<open>Some\<close> the seconds and microseconds of \<open>tv_sec\<close> and \<open>tv_usec\<close>.\<close>

datatype cont3 =
    link_continue_1 "string option" string | link_continue_2 nfs_fh string
  | rename_continue_1 string "string option" string | rename_continue_2 nfs_fh string string
  | symlink_continue string string
  | access2_continue | access_continue
  | utimes_continue "((u64 \<times> u64) \<times> (u64 \<times> u64)) option"
  | chown_continue u32 u32 | chmod_continue | readlink_continue | statvfs_continue
  | opendir_continue nat
  | mknod_continue string u32 u32 u32 | unlink_continue string | rmdir_continue string
  | mkdir_continue string | truncate_continue | stat_continue | stat64_continue | chdir_continue
  | open_continue | create_continue open_cb_data

type_synonym data3 = "(cb3, cont3) nfs_cb_data"
type_synonym act3 = "(cb3, cont3) act"

text \<open>A call is sent, or the callback reports that it could not be queued.\<close>

definition send3 :: "bool \<Rightarrow> nfs3_cb \<Rightarrow> nfs3_call \<Rightarrow> data3 \<Rightarrow> act3" where
  "send3 q f call data = (if q then Task f call data else Done (cb data) (- ENOMEM) Message)"

text \<open>
  The beginning that the callbacks share: a call that failed, then a status that is not
  \<open>NFS3_OK\<close>, are reported; otherwise the rest of the function runs on the result.
\<close>

definition on_reply ::
    "rpc_status \<Rightarrow> 'a res3 \<Rightarrow> data3 \<Rightarrow> 'r nfs_context \<Rightarrow> ('a \<Rightarrow> 'r nfs_context \<times> act3) \<Rightarrow> 'r nfs_context \<times> act3" where
  "on_reply status res data nfs f =
     (case check_nfs3_error status of
        Some e \<Rightarrow> (nfs, Done (cb data) e Message)
      | None \<Rightarrow>
          (case res of
             Err3 st \<Rightarrow> (nfs, Done (cb data) (nfsstat3_to_errno st) Message)
           | Ok3 x \<Rightarrow> f x))"

abbreviation drop_dir :: "'r nfs_context \<Rightarrow> nfs_fh \<Rightarrow> 'r nfs_context" where
  "drop_dir nfs fh \<equiv> fst (nfs_dircache_drop nfs fh)"

section \<open>Names\<close>

text \<open>The split at the last slash, \<open>None\<close> for the parent where there is none.\<close>

definition split_parent :: "string \<Rightarrow> string option \<times> string" where
  "split_parent p =
     (case back_to_slash (rev p) of
        None \<Rightarrow> (None, p)
      | Some k \<Rightarrow> (Some (take k p), drop (k + 1) p))"

definition nfs3_link_cb :: "'r nfs_context \<Rightarrow> rpc_status \<Rightarrow> unit res3 \<Rightarrow> data3 \<Rightarrow> 'r nfs_context \<times> act3" where
  "nfs3_link_cb nfs status res data =
     on_reply status res data nfs (\<lambda>_. (drop_dir nfs (data_fh data), Done (cb data) 0 Null))"

definition nfs3_link_continue_2_internal :: "bool \<Rightarrow> nfs_fh \<Rightarrow> string \<Rightarrow> data3 \<Rightarrow> act3" where
  "nfs3_link_continue_2_internal q oldfh newobject data =
     send3 q nfs3_link (LINK3args oldfh (data_fh data) newobject) data"

text \<open>The second lookup of an operation on two names; its failure is reported by the callback.\<close>

definition lookup_again ::
    "'r nfs_context \<Rightarrow> bool \<Rightarrow> string option \<Rightarrow> data3 \<Rightarrow> cont3 \<Rightarrow> act3 option" where
  "lookup_again nfs q path data k =
     (case nfs3_lookuppath_async nfs q path False (cb data) k 0 of
        None \<Rightarrow> None
      | Some None \<Rightarrow> Some (Done (cb data) (- ENOMEM) Message)
      | Some (Some a) \<Rightarrow> Some a)"

definition nfs3_link_continue_1_internal ::
    "'r nfs_context \<Rightarrow> bool \<Rightarrow> string option \<Rightarrow> string \<Rightarrow> data3 \<Rightarrow> act3 option" where
  "nfs3_link_continue_1_internal nfs q newparent newobject data =
     lookup_again nfs q newparent data (link_continue_2 (data_fh data) newobject)"

definition nfs3_link_async :: "'r nfs_context \<Rightarrow> bool \<Rightarrow> string \<Rightarrow> string \<Rightarrow> cb3 \<Rightarrow> act3 option option" where
  "nfs3_link_async nfs q oldpath newpath c =
     (case split_parent newpath of (newparent, newobject) \<Rightarrow>
        nfs3_lookuppath_async nfs q (Some oldpath) False c (link_continue_1 newparent newobject) 0)"

definition nfs3_rename_cb :: "'r nfs_context \<Rightarrow> rpc_status \<Rightarrow> unit res3 \<Rightarrow> data3 \<Rightarrow> 'r nfs_context \<times> act3" where
  "nfs3_rename_cb nfs status res data =
     on_reply status res data nfs (\<lambda>_. (nfs, Done (cb data) 0 Null))"

definition nfs3_rename_continue_2_internal ::
    "'r nfs_context \<Rightarrow> bool \<Rightarrow> nfs_fh \<Rightarrow> string \<Rightarrow> string \<Rightarrow> data3 \<Rightarrow> 'r nfs_context \<times> act3" where
  "nfs3_rename_continue_2_internal nfs q olddir oldobject newobject data =
     (drop_dir nfs (data_fh data),
      send3 q nfs3_rename (RENAME3args olddir oldobject (data_fh data) newobject) data)"

definition nfs3_rename_continue_1_internal ::
    "'r nfs_context \<Rightarrow> bool \<Rightarrow> string \<Rightarrow> string option \<Rightarrow> string \<Rightarrow> data3 \<Rightarrow> ('r nfs_context \<times> act3) option" where
  "nfs3_rename_continue_1_internal nfs q oldobject newparent newobject data =
     (let nfs' = drop_dir nfs (data_fh data)
      in map_option (Pair nfs')
           (lookup_again nfs' q newparent data (rename_continue_2 (data_fh data) oldobject newobject)))"

definition nfs3_rename_async :: "'r nfs_context \<Rightarrow> bool \<Rightarrow> string \<Rightarrow> string \<Rightarrow> cb3 \<Rightarrow> act3 option option" where
  "nfs3_rename_async nfs q oldpath newpath c =
     (case (split_parent oldpath, split_parent newpath) of
        ((oldparent, oldobject), newparent, newobject) \<Rightarrow>
          nfs3_lookuppath_async nfs q oldparent False c (rename_continue_1 oldobject newparent newobject) 0)"

text \<open>The mode bits of a new symbolic link: all nine permissions.\<close>

definition nfs3_symlink_cb :: "'r nfs_context \<Rightarrow> rpc_status \<Rightarrow> unit res3 \<Rightarrow> data3 \<Rightarrow> 'r nfs_context \<times> act3" where
  "nfs3_symlink_cb nfs status res data =
     on_reply status res data nfs (\<lambda>_. (drop_dir nfs (data_fh data), Done (cb data) 0 Null))"

definition nfs3_symlink_continue_internal :: "bool \<Rightarrow> string \<Rightarrow> string \<Rightarrow> data3 \<Rightarrow> act3" where
  "nfs3_symlink_continue_internal q target linkobject data =
     send3 q nfs3_symlink
       (SYMLINK3args (data_fh data) linkobject (zero_sattr\<lparr>sa_mode := Some 0x1FF\<rparr>) target) data"

definition nfs3_symlink_async :: "'r nfs_context \<Rightarrow> bool \<Rightarrow> string \<Rightarrow> string \<Rightarrow> cb3 \<Rightarrow> act3 option option" where
  "nfs3_symlink_async nfs q target linkname c =
     (case split_parent linkname of (linkparent, linkobject) \<Rightarrow>
        nfs3_lookuppath_async nfs q linkparent False c (symlink_continue target linkobject) 0)"

text \<open>
  The operations that make or remove a name keep the path in one buffer, with a NUL over its
  last slash; a path without a slash gets a NUL in front. Either way the parent is a string.
\<close>

definition parent_object :: "string \<Rightarrow> string \<times> string" where
  "parent_object path =
     (case split_parent path of (None, s) \<Rightarrow> ([], s) | (Some p, s) \<Rightarrow> (p, s))"

definition S_IFMT :: u32 where "S_IFMT = 0xF000"
definition S_IFSOCK :: u32 where "S_IFSOCK = 0xC000"
definition S_IFLNK :: u32 where "S_IFLNK = 0xA000"
definition S_IFREG :: u32 where "S_IFREG = 0x8000"
definition S_IFBLK :: u32 where "S_IFBLK = 0x6000"
definition S_IFDIR :: u32 where "S_IFDIR = 0x4000"
definition S_IFCHR :: u32 where "S_IFCHR = 0x2000"
definition S_IFIFO :: u32 where "S_IFIFO = 0x1000"

lemmas s_if_defs = S_IFMT_def S_IFSOCK_def S_IFLNK_def S_IFREG_def S_IFBLK_def S_IFDIR_def S_IFCHR_def S_IFIFO_def

definition nfs3_mknod_cb :: "'r nfs_context \<Rightarrow> rpc_status \<Rightarrow> unit res3 \<Rightarrow> data3 \<Rightarrow> 'r nfs_context \<times> act3" where
  "nfs3_mknod_cb nfs status res data =
     on_reply status res data nfs (\<lambda>_. (drop_dir nfs (data_fh data), Done (cb data) 0 Null))"

definition nfs3_mknod_continue_internal :: "bool \<Rightarrow> string \<Rightarrow> u32 \<Rightarrow> u32 \<Rightarrow> u32 \<Rightarrow> data3 \<Rightarrow> act3" where
  "nfs3_mknod_continue_internal q object mode maj mnr data =
     (let sa = zero_sattr\<lparr>sa_mode := Some (mode AND 0x1FF)\<rparr>;
          mk = (\<lambda>what. send3 q nfs3_mknod (MKNOD3args (data_fh data) object what) data)
      in if mode AND S_IFMT = S_IFCHR then mk (Mk_CHR sa (maj, mnr))
         else if mode AND S_IFMT = S_IFBLK then mk (Mk_BLK sa (maj, mnr))
         else if mode AND S_IFMT = S_IFSOCK then mk (Mk_SOCK sa)
         else if mode AND S_IFMT = S_IFIFO then mk (Mk_FIFO sa)
         else Done (cb data) (- EINVAL) Message)"

text \<open>\<open>major\<close> and \<open>minor\<close> of a device number are macros of the system; they are arguments.\<close>

definition nfs3_mknod_async ::
    "'r nfs_context \<Rightarrow> bool \<Rightarrow> string \<Rightarrow> u32 \<Rightarrow> u32 \<Rightarrow> u32 \<Rightarrow> cb3 \<Rightarrow> act3 option option" where
  "nfs3_mknod_async nfs q path mode maj mnr c =
     (case parent_object path of (parent, object) \<Rightarrow>
        nfs3_lookuppath_async nfs q (Some parent) False c (mknod_continue object mode maj mnr) 0)"

definition nfs3_unlink_cb :: "'r nfs_context \<Rightarrow> rpc_status \<Rightarrow> unit res3 \<Rightarrow> data3 \<Rightarrow> 'r nfs_context \<times> act3" where
  "nfs3_unlink_cb nfs status res data =
     on_reply status res data nfs (\<lambda>_. (drop_dir nfs (data_fh data), Done (cb data) 0 Null))"

definition nfs3_unlink_continue_internal :: "bool \<Rightarrow> string \<Rightarrow> data3 \<Rightarrow> act3" where
  "nfs3_unlink_continue_internal q object data = send3 q nfs3_unlink (REMOVE3args (data_fh data) object) data"

definition nfs3_unlink_async :: "'r nfs_context \<Rightarrow> bool \<Rightarrow> string \<Rightarrow> cb3 \<Rightarrow> act3 option option" where
  "nfs3_unlink_async nfs q path c =
     (case parent_object path of (parent, object) \<Rightarrow>
        nfs3_lookuppath_async nfs q (Some parent) False c (unlink_continue object) 0)"

definition nfs3_rmdir_cb :: "'r nfs_context \<Rightarrow> rpc_status \<Rightarrow> unit res3 \<Rightarrow> data3 \<Rightarrow> 'r nfs_context \<times> act3" where
  "nfs3_rmdir_cb nfs status res data =
     on_reply status res data nfs (\<lambda>_. (drop_dir nfs (data_fh data), Done (cb data) 0 Null))"

definition nfs3_rmdir_continue_internal :: "bool \<Rightarrow> string \<Rightarrow> data3 \<Rightarrow> act3" where
  "nfs3_rmdir_continue_internal q object data = send3 q nfs3_rmdir (RMDIR3args (data_fh data) object) data"

definition nfs3_rmdir_async :: "'r nfs_context \<Rightarrow> bool \<Rightarrow> string \<Rightarrow> cb3 \<Rightarrow> act3 option option" where
  "nfs3_rmdir_async nfs q path c =
     (case parent_object path of (parent, object) \<Rightarrow>
        nfs3_lookuppath_async nfs q (Some parent) False c (rmdir_continue object) 0)"

definition nfs3_mkdir_cb :: "'r nfs_context \<Rightarrow> rpc_status \<Rightarrow> unit res3 \<Rightarrow> data3 \<Rightarrow> 'r nfs_context \<times> act3" where
  "nfs3_mkdir_cb nfs status res data =
     on_reply status res data nfs (\<lambda>_. (drop_dir nfs (data_fh data), Done (cb data) 0 Null))"

definition nfs3_mkdir_continue_internal :: "bool \<Rightarrow> string \<Rightarrow> data3 \<Rightarrow> act3" where
  "nfs3_mkdir_continue_internal q object data =
     send3 q nfs3_mkdir (MKDIR3args (data_fh data) object
       (zero_sattr\<lparr>sa_mode := Some (ucast (continue_int data))\<rparr>)) data"

text \<open>An \<open>int\<close> mode becomes the \<open>uint64_t\<close> \<open>continue_int\<close>.\<close>

definition nfs3_mkdir2_async :: "'r nfs_context \<Rightarrow> bool \<Rightarrow> string \<Rightarrow> int \<Rightarrow> cb3 \<Rightarrow> act3 option option" where
  "nfs3_mkdir2_async nfs q path mode c =
     (case parent_object path of (parent, object) \<Rightarrow>
        nfs3_lookuppath_async nfs q (Some parent) False c (mkdir_continue object) (word_of_int mode))"

section \<open>Attributes\<close>

definition ACCESS3_READ :: u32 where "ACCESS3_READ = 1"
definition ACCESS3_LOOKUP :: u32 where "ACCESS3_LOOKUP = 2"
definition ACCESS3_MODIFY :: u32 where "ACCESS3_MODIFY = 4"
definition ACCESS3_EXTEND :: u32 where "ACCESS3_EXTEND = 8"
definition ACCESS3_DELETE :: u32 where "ACCESS3_DELETE = 16"
definition ACCESS3_EXECUTE :: u32 where "ACCESS3_EXECUTE = 32"

lemmas access3_defs = ACCESS3_READ_def ACCESS3_LOOKUP_def ACCESS3_MODIFY_def ACCESS3_EXTEND_def
  ACCESS3_DELETE_def ACCESS3_EXECUTE_def

definition R_OK :: u32 where "R_OK = 4"
definition W_OK :: u32 where "W_OK = 2"
definition X_OK :: u32 where "X_OK = 1"

lemmas ok_defs = R_OK_def W_OK_def X_OK_def

text \<open>The three tests that \<open>nfs3_access2_cb\<close> and \<open>nfs3_access_cb\<close> make, for what was asked.\<close>

definition granted :: "u32 \<Rightarrow> u32 \<Rightarrow> u32" where
  "granted want acc =
     (if want AND R_OK \<noteq> 0 \<and> acc AND ACCESS3_READ \<noteq> 0 then R_OK else 0)
     OR (if want AND W_OK \<noteq> 0 \<and> acc AND (ACCESS3_MODIFY OR ACCESS3_EXTEND OR ACCESS3_DELETE) \<noteq> 0 then W_OK else 0)
     OR (if want AND X_OK \<noteq> 0 \<and> acc AND (ACCESS3_LOOKUP OR ACCESS3_EXECUTE) \<noteq> 0 then X_OK else 0)"

definition nfs3_access2_cb :: "'r nfs_context \<Rightarrow> rpc_status \<Rightarrow> u32 res3 \<Rightarrow> data3 \<Rightarrow> 'r nfs_context \<times> act3" where
  "nfs3_access2_cb nfs status res data =
     on_reply status res data nfs (\<lambda>acc. (nfs, Done (cb data) (uint (granted (R_OK OR W_OK OR X_OK) acc)) Null))"

definition nfs3_access2_continue_internal :: "bool \<Rightarrow> data3 \<Rightarrow> act3" where
  "nfs3_access2_continue_internal q data =
     send3 q nfs3_access2 (ACCESS3args (data_fh data)
       (ACCESS3_READ OR ACCESS3_LOOKUP OR ACCESS3_MODIFY OR ACCESS3_EXTEND OR ACCESS3_DELETE OR ACCESS3_EXECUTE)) data"

definition nfs3_access2_async :: "'r nfs_context \<Rightarrow> bool \<Rightarrow> string \<Rightarrow> cb3 \<Rightarrow> act3 option option" where
  "nfs3_access2_async nfs q path c = nfs3_lookuppath_async nfs q (Some path) False c access2_continue 0"

definition nfs3_access_cb :: "'r nfs_context \<Rightarrow> rpc_status \<Rightarrow> u32 res3 \<Rightarrow> data3 \<Rightarrow> 'r nfs_context \<times> act3" where
  "nfs3_access_cb nfs status res data =
     on_reply status res data nfs (\<lambda>acc.
       if continue_int data \<noteq> ucast (granted (ucast (continue_int data)) acc)
       then (nfs, Done (cb data) (- EACCES) Message)
       else (nfs, Done (cb data) 0 Null))"

definition nfs3_access_continue_internal :: "bool \<Rightarrow> data3 \<Rightarrow> act3" where
  "nfs3_access_continue_internal q data =
     (let want = (ucast (continue_int data) :: u32);
          nfsmode = (if want AND R_OK \<noteq> 0 then ACCESS3_READ else 0)
            OR (if want AND W_OK \<noteq> 0 then ACCESS3_MODIFY OR ACCESS3_EXTEND OR ACCESS3_DELETE else 0)
            OR (if want AND X_OK \<noteq> 0 then ACCESS3_LOOKUP OR ACCESS3_EXECUTE else 0)
      in send3 q nfs3_access (ACCESS3args (data_fh data) nfsmode) data)"

definition nfs3_access_async :: "'r nfs_context \<Rightarrow> bool \<Rightarrow> string \<Rightarrow> u32 \<Rightarrow> cb3 \<Rightarrow> act3 option option" where
  "nfs3_access_async nfs q path mode c =
     nfs3_lookuppath_async nfs q (Some path) False c access_continue (ucast (mode AND (R_OK OR W_OK OR X_OK)))"

definition nfs3_utimes_cb :: "'r nfs_context \<Rightarrow> rpc_status \<Rightarrow> unit res3 \<Rightarrow> data3 \<Rightarrow> 'r nfs_context \<times> act3" where
  "nfs3_utimes_cb nfs status res data =
     on_reply status res data nfs (\<lambda>_. (drop_dir nfs (data_fh data), Done (cb data) 0 Null))"

definition nfs3_utimes_continue_internal ::
    "bool \<Rightarrow> ((u64 \<times> u64) \<times> (u64 \<times> u64)) option \<Rightarrow> data3 \<Rightarrow> act3" where
  "nfs3_utimes_continue_internal q tms data =
     send3 q nfs3_utimes (SETATTR3args (data_fh data)
       (case tms of
          Some ((asec, ausec), (msec, musec)) \<Rightarrow>
            zero_sattr\<lparr>sa_atime := SET_TO_CLIENT_TIME (ucast asec, ucast (ausec * 1000)),
                       sa_mtime := SET_TO_CLIENT_TIME (ucast msec, ucast (musec * 1000))\<rparr>
        | None \<Rightarrow> zero_sattr\<lparr>sa_atime := SET_TO_SERVER_TIME, sa_mtime := SET_TO_SERVER_TIME\<rparr>)) data"

definition nfs3_utimes_async_internal ::
    "'r nfs_context \<Rightarrow> bool \<Rightarrow> string \<Rightarrow> bool \<Rightarrow> ((u64 \<times> u64) \<times> (u64 \<times> u64)) option \<Rightarrow> cb3 \<Rightarrow> act3 option option" where
  "nfs3_utimes_async_internal nfs q path nofollow tms c =
     nfs3_lookuppath_async nfs q (Some path) nofollow c (utimes_continue tms) 0"

definition nfs3_utime_async ::
    "'r nfs_context \<Rightarrow> bool \<Rightarrow> string \<Rightarrow> (u64 \<times> u64) option \<Rightarrow> cb3 \<Rightarrow> act3 option option" where
  "nfs3_utime_async nfs q path tms c =
     nfs3_lookuppath_async nfs q (Some path) False c
       (utimes_continue (case tms of None \<Rightarrow> None | Some (at, mt) \<Rightarrow> Some ((at, 0), (mt, 0)))) 0"

text \<open>The \<open>nfs_cb_data\<close> of an operation that needs no lookup.\<close>

definition plain_data :: "cb3 \<Rightarrow> cont3 \<Rightarrow> u64 \<Rightarrow> nfs_fh \<Rightarrow> data3" where
  "plain_data c k i fh = \<lparr>saved_path = [], path_at = 0, link_count = 0, no_follow = False, cb = c,
     cont = k, continue_int = i, data_fh = fh\<rparr>"

definition nfs3_chown_cb :: "'r nfs_context \<Rightarrow> rpc_status \<Rightarrow> unit res3 \<Rightarrow> data3 \<Rightarrow> 'r nfs_context \<times> act3" where
  "nfs3_chown_cb nfs status res data =
     on_reply status res data nfs (\<lambda>_. (nfs, Done (cb data) 0 Null))"

definition nfs3_chown_continue_internal :: "bool \<Rightarrow> u32 \<Rightarrow> u32 \<Rightarrow> data3 \<Rightarrow> act3" where
  "nfs3_chown_continue_internal q u g data =
     send3 q nfs3_chown (SETATTR3args (data_fh data)
       (zero_sattr\<lparr>sa_uid := (if u \<noteq> - 1 then Some u else None),
                   sa_gid := (if g \<noteq> - 1 then Some g else None)\<rparr>)) data"

definition nfs3_chown_async_internal ::
    "'r nfs_context \<Rightarrow> bool \<Rightarrow> string \<Rightarrow> bool \<Rightarrow> u32 \<Rightarrow> u32 \<Rightarrow> cb3 \<Rightarrow> act3 option option" where
  "nfs3_chown_async_internal nfs q path nofollow u g c =
     nfs3_lookuppath_async nfs q (Some path) nofollow c (chown_continue u g) 0"

text \<open>
  The functions on an open file return \<open>-1\<close> when the call could not be queued, after the
  callback.
\<close>

definition nfs3_fchown_async :: "bool \<Rightarrow> nfsfh \<Rightarrow> u32 \<Rightarrow> u32 \<Rightarrow> cb3 \<Rightarrow> int \<times> act3" where
  "nfs3_fchown_async q f u g c =
     (if q then 0 else -1,
      nfs3_chown_continue_internal q u g (plain_data c (chown_continue u g) 0 (nfh f)))"

definition nfs3_chmod_cb :: "'r nfs_context \<Rightarrow> rpc_status \<Rightarrow> unit res3 \<Rightarrow> data3 \<Rightarrow> 'r nfs_context \<times> act3" where
  "nfs3_chmod_cb nfs status res data =
     on_reply status res data nfs (\<lambda>_. (drop_dir nfs (data_fh data), Done (cb data) 0 Null))"

definition nfs3_chmod_continue_internal :: "bool \<Rightarrow> data3 \<Rightarrow> act3" where
  "nfs3_chmod_continue_internal q data =
     send3 q nfs3_chmod (SETATTR3args (data_fh data)
       (zero_sattr\<lparr>sa_mode := Some (ucast (continue_int data))\<rparr>)) data"

definition nfs3_chmod_async_internal ::
    "'r nfs_context \<Rightarrow> bool \<Rightarrow> string \<Rightarrow> bool \<Rightarrow> int \<Rightarrow> cb3 \<Rightarrow> act3 option option" where
  "nfs3_chmod_async_internal nfs q path nofollow mode c =
     nfs3_lookuppath_async nfs q (Some path) nofollow c chmod_continue (word_of_int mode)"

definition nfs3_fchmod_async :: "bool \<Rightarrow> nfsfh \<Rightarrow> int \<Rightarrow> cb3 \<Rightarrow> int \<times> act3" where
  "nfs3_fchmod_async q f mode c =
     (if q then 0 else -1,
      nfs3_chmod_continue_internal q (plain_data c chmod_continue (word_of_int mode) (nfh f)))"

definition nfs3_readlink_1_cb :: "'r nfs_context \<Rightarrow> rpc_status \<Rightarrow> READLINK3res \<Rightarrow> data3 \<Rightarrow> 'r nfs_context \<times> act3" where
  "nfs3_readlink_1_cb nfs status res data =
     on_reply status res data nfs (\<lambda>s. (nfs, Done (cb data) 0 (Str s)))"

definition nfs3_readlink_continue_internal :: "bool \<Rightarrow> data3 \<Rightarrow> act3" where
  "nfs3_readlink_continue_internal q data = send3 q nfs3_readlink_1 (READLINK3args (data_fh data)) data"

definition nfs3_readlink_async :: "'r nfs_context \<Rightarrow> bool \<Rightarrow> string \<Rightarrow> cb3 \<Rightarrow> act3 option option" where
  "nfs3_readlink_async nfs q path c = nfs3_lookuppath_async nfs q (Some path) True c readlink_continue 0"

definition NFS_BLKSIZE :: u64 where "NFS_BLKSIZE = 4096"

record FSSTAT3resok =
  fs_tbytes :: u64
  fs_fbytes :: u64
  fs_abytes :: u64
  fs_tfiles :: u64
  fs_ffiles :: u64
  fs_afiles :: u64

text \<open>The file counts are cut to 32 bits for \<open>statvfs\<close> and kept for \<open>statvfs64\<close>.\<close>

definition nfs3_statvfs_1_cb :: "'r nfs_context \<Rightarrow> rpc_status \<Rightarrow> FSSTAT3resok res3 \<Rightarrow> data3 \<Rightarrow> 'r nfs_context \<times> act3" where
  "nfs3_statvfs_1_cb nfs status res data =
     on_reply status res data nfs (\<lambda>r.
       let cut = (if continue_int data = 0 then (\<lambda>x. ucast (ucast x :: u32)) else (\<lambda>x. x))
       in (nfs, Done (cb data) 0 (Statvfs
            \<lparr>f_bsize = NFS_BLKSIZE, f_frsize = NFS_BLKSIZE,
             f_blocks = fs_tbytes r div NFS_BLKSIZE, f_bfree = fs_fbytes r div NFS_BLKSIZE,
             f_bavail = fs_abytes r div NFS_BLKSIZE,
             f_files = cut (fs_tfiles r), f_ffree = cut (fs_ffiles r), f_favail = cut (fs_afiles r),
             f_fsid = 0, f_flag = 0, f_namemax = 256\<rparr>)))"

definition nfs3_statvfs_continue_internal :: "bool \<Rightarrow> data3 \<Rightarrow> act3" where
  "nfs3_statvfs_continue_internal q data = send3 q nfs3_statvfs_1 (FSSTAT3args (data_fh data)) data"

definition nfs3_statvfs_async :: "'r nfs_context \<Rightarrow> bool \<Rightarrow> string \<Rightarrow> cb3 \<Rightarrow> act3 option option" where
  "nfs3_statvfs_async nfs q path c = nfs3_lookuppath_async nfs q (Some path) False c statvfs_continue 0"

definition nfs3_statvfs64_async :: "'r nfs_context \<Rightarrow> bool \<Rightarrow> string \<Rightarrow> cb3 \<Rightarrow> act3 option option" where
  "nfs3_statvfs64_async nfs q path c = nfs3_lookuppath_async nfs q (Some path) False c statvfs_continue 1"

definition nfs3_ftruncate_cb :: "'r nfs_context \<Rightarrow> rpc_status \<Rightarrow> unit res3 \<Rightarrow> data3 \<Rightarrow> 'r nfs_context \<times> act3" where
  "nfs3_ftruncate_cb nfs status res data =
     on_reply status res data nfs (\<lambda>_. (drop_dir nfs (data_fh data), Done (cb data) 0 Null))"

text \<open>The handle in \<open>nfs_cb_data\<close> is not set.\<close>

definition nfs3_ftruncate_async :: "bool \<Rightarrow> nfsfh \<Rightarrow> u64 \<Rightarrow> cb3 \<Rightarrow> int \<times> act3" where
  "nfs3_ftruncate_async q f len c =
     (if q then 0 else -1,
      send3 q nfs3_ftruncate (SETATTR3args (nfh f) (zero_sattr\<lparr>sa_size := Some len\<rparr>))
        (plain_data c truncate_continue 0 []))"

text \<open>
  The continuation of \<open>truncate\<close> calls the callback itself when \<open>ftruncate\<close> returns \<open>-1\<close>: what it
  does is a list.
\<close>

definition nfs3_truncate_continue_internal :: "bool \<Rightarrow> data3 \<Rightarrow> act3 list" where
  "nfs3_truncate_continue_internal q data =
     (case nfs3_ftruncate_async q (zero_nfsfh\<lparr>nfh := data_fh data\<rparr>) (continue_int data) (cb data) of
        (r, a) \<Rightarrow> if r \<noteq> 0 then [a, Done (cb data) (- ENOMEM) Message] else [a])"

definition nfs3_truncate_async :: "'r nfs_context \<Rightarrow> bool \<Rightarrow> string \<Rightarrow> u64 \<Rightarrow> cb3 \<Rightarrow> act3 option option" where
  "nfs3_truncate_async nfs q path len c =
     nfs3_lookuppath_async nfs q (Some path) False c truncate_continue len"

definition nfs3_fsync_cb :: "'r nfs_context \<Rightarrow> rpc_status \<Rightarrow> unit res3 \<Rightarrow> data3 \<Rightarrow> 'r nfs_context \<times> act3" where
  "nfs3_fsync_cb nfs status res data =
     on_reply status res data nfs (\<lambda>_. (nfs, Done (cb data) 0 Null))"

definition nfs3_fsync_async :: "bool \<Rightarrow> nfsfh \<Rightarrow> cb3 \<Rightarrow> int \<times> act3" where
  "nfs3_fsync_async q f c =
     (if q then 0 else -1, send3 q nfs3_fsync (COMMIT3args (nfh f) 0 0) (plain_data c truncate_continue 0 []))"

text \<open>
  The counts of a GETACL reply are sent apart from the arrays. An entry beyond the array is read
  in C; the result is \<open>None\<close> there.
\<close>

record GETACL3resok =
  ace_count :: u32
  ace :: "nfsacl_ace list"
  default_ace_count :: u32
  default_ace :: "nfsacl_ace list"

definition nfs3_getacl_cb ::
    "'r nfs_context \<Rightarrow> rpc_status \<Rightarrow> GETACL3resok res3 \<Rightarrow> data3 \<Rightarrow> ('r nfs_context \<times> act3) option" where
  "nfs3_getacl_cb nfs status res data =
     (if status = RPC_STATUS_SUCCESS
         \<and> (case res of
               Ok3 r \<Rightarrow> length (ace r) < unat (ace_count r) \<or> length (default_ace r) < unat (default_ace_count r)
             | Err3 _ \<Rightarrow> False)
      then None
      else Some (on_reply status res data nfs (\<lambda>r.
        (nfs, Done (cb data) 0 (Acl (take (unat (ace_count r)) (ace r))
                                    (take (unat (default_ace_count r)) (default_ace r)))))))"

definition nfs3_getacl_async :: "bool \<Rightarrow> nfsfh \<Rightarrow> cb3 \<Rightarrow> int \<times> act3" where
  "nfs3_getacl_async q f c =
     (if q then 0 else -1, send3 q nfs3_getacl (GETACL3args (nfh f) 0xF) (plain_data c stat_continue 0 []))"

text \<open>The \<open>switch\<close> over the type of a file that sets the upper bits of its mode.\<close>

definition type_bits :: "u32 \<Rightarrow> u32" where
  "type_bits ty =
     (if ty = NF3REG then S_IFREG else if ty = NF3DIR then S_IFDIR else if ty = NF3BLK then S_IFBLK
      else if ty = NF3CHR then S_IFCHR else if ty = NF3LNK then S_IFLNK else if ty = NF3SOCK then S_IFSOCK
      else if ty = NF3FIFO then S_IFIFO else 0)"

definition nfs3_stat_1_cb :: "'r nfs_context \<Rightarrow> rpc_status \<Rightarrow> GETATTR3res \<Rightarrow> data3 \<Rightarrow> 'r nfs_context \<times> act3" where
  "nfs3_stat_1_cb nfs status res data =
     on_reply status res data nfs (\<lambda>fa.
       (nfs, Done (cb data) 0 (Stat
          \<lparr>st_dev = fa_fsid fa, st_ino = fa_fileid fa, st_mode = fa_mode fa OR type_bits (fa_type fa),
           st_nlink = ucast (fa_nlink fa), st_uid = fa_uid fa, st_gid = fa_gid fa,
           st_rdev = specdata3_to_rdev (fa_rdev fa), st_size = fa_size fa,
           st_blksize = NFS_BLKSIZE, st_blocks = (fa_used fa + 512 - 1) div 512,
           st_atim = (ucast (fst (fa_atime fa)), ucast (snd (fa_atime fa))),
           st_mtim = (ucast (fst (fa_mtime fa)), ucast (snd (fa_mtime fa))),
           st_ctim = (ucast (fst (fa_ctime fa)), ucast (snd (fa_ctime fa)))\<rparr>)))"

definition nfs3_stat64_1_cb :: "'r nfs_context \<Rightarrow> rpc_status \<Rightarrow> GETATTR3res \<Rightarrow> data3 \<Rightarrow> 'r nfs_context \<times> act3" where
  "nfs3_stat64_1_cb nfs status res data =
     on_reply status res data nfs (\<lambda>fa.
       (nfs, Done (cb data) 0 (Stat64
          \<lparr>nfs_dev = fa_fsid fa, nfs_ino = fa_fileid fa, nfs_mode = ucast (fa_mode fa OR type_bits (fa_type fa)),
           nfs_nlink = ucast (fa_nlink fa), nfs_uid = ucast (fa_uid fa), nfs_gid = ucast (fa_gid fa),
           nfs_rdev = specdata3_to_rdev (fa_rdev fa), nfs_size = fa_size fa,
           nfs_blksize = NFS_BLKSIZE, nfs_blocks = (fa_used fa + 512 - 1) div 512,
           nfs_atime = ucast (fst (fa_atime fa)), nfs_mtime = ucast (fst (fa_mtime fa)), nfs_ctime = ucast (fst (fa_ctime fa)),
           nfs_atime_nsec = ucast (snd (fa_atime fa)), nfs_mtime_nsec = ucast (snd (fa_mtime fa)),
           nfs_ctime_nsec = ucast (snd (fa_ctime fa)), nfs_used = fa_used fa\<rparr>)))"

definition nfs3_stat_continue_internal :: "bool \<Rightarrow> data3 \<Rightarrow> act3" where
  "nfs3_stat_continue_internal q data = send3 q nfs3_stat_1 (GETATTR3args (data_fh data)) data"

definition nfs3_stat64_continue_internal :: "bool \<Rightarrow> data3 \<Rightarrow> act3" where
  "nfs3_stat64_continue_internal q data = send3 q nfs3_stat64_1 (GETATTR3args (data_fh data)) data"

definition nfs3_stat_async :: "'r nfs_context \<Rightarrow> bool \<Rightarrow> string \<Rightarrow> cb3 \<Rightarrow> act3 option option" where
  "nfs3_stat_async nfs q path c = nfs3_lookuppath_async nfs q (Some path) False c stat_continue 0"

definition nfs3_stat64_async :: "'r nfs_context \<Rightarrow> bool \<Rightarrow> string \<Rightarrow> bool \<Rightarrow> cb3 \<Rightarrow> act3 option option" where
  "nfs3_stat64_async nfs q path nofollow c =
     nfs3_lookuppath_async nfs q (Some path) nofollow c stat64_continue 0"

definition nfs3_fstat_async :: "bool \<Rightarrow> nfsfh \<Rightarrow> cb3 \<Rightarrow> int \<times> act3" where
  "nfs3_fstat_async q f c =
     (if q then 0 else -1, send3 q nfs3_stat_1 (GETATTR3args (nfh f)) (plain_data c stat_continue 0 []))"

definition nfs3_fstat64_async :: "bool \<Rightarrow> nfsfh \<Rightarrow> cb3 \<Rightarrow> int \<times> act3" where
  "nfs3_fstat64_async q f c =
     (if q then 0 else -1, send3 q nfs3_stat64_1 (GETATTR3args (nfh f)) (plain_data c stat64_continue 0 []))"

definition nfs3_chdir_continue_internal :: "'r nfs_context \<Rightarrow> data3 \<Rightarrow> 'r nfs_context \<times> act3" where
  "nfs3_chdir_continue_internal nfs data =
     (nfs\<lparr>nfsi := (nfsi nfs)\<lparr>nfsi_cwd := saved_path data\<rparr>\<rparr>, Done (cb data) 0 Null)"

definition nfs3_chdir_async :: "'r nfs_context \<Rightarrow> bool \<Rightarrow> string \<Rightarrow> cb3 \<Rightarrow> act3 option option" where
  "nfs3_chdir_async nfs q path c = nfs3_lookuppath_async nfs q (Some path) False c chdir_continue 0"

section \<open>Properties\<close>

lemma back_to_slash_none: "CHR ''/'' \<notin> set p \<Longrightarrow> back_to_slash p = None"
  by (induction p) auto

lemma back_to_slash_first:
  "CHR ''/'' \<notin> set r \<Longrightarrow> back_to_slash (r @ CHR ''/'' # s) = Some (length s)"
  by (induction r) auto

lemma split_parent_simps:
  "CHR ''/'' \<notin> set name \<Longrightarrow> split_parent name = (None, name)"
  "CHR ''/'' \<notin> set name \<Longrightarrow> split_parent (dir @ CHR ''/'' # name) = (Some dir, name)"
  by (simp_all add: split_parent_def back_to_slash_none back_to_slash_first)

lemma parent_object_simps:
  "CHR ''/'' \<notin> set name \<Longrightarrow> parent_object name = ([], name)"
  "CHR ''/'' \<notin> set name \<Longrightarrow> parent_object (dir @ CHR ''/'' # name) = (dir, name)"
  by (simp_all add: parent_object_def split_parent_simps)



lemma lookup_empty: "nfs3_lookuppath_async nfs q (Some []) nf c k i = nfs3_lookuppath_async nfs q None nf c k i"
  by (simp add: nfs3_lookuppath_async_def)

text \<open>
  C39. A name in the root directory is taken for one in the current directory: the path \<open>/name\<close>
  is split into an empty parent and the name, and an empty path is looked up as the current
  directory. So \<open>unlink\<close>, \<open>rmdir\<close>, \<open>mkdir\<close>, \<open>mknod\<close>, \<open>symlink\<close>, and the source of
  \<open>rename\<close> do for \<open>/name\<close> exactly what they do for \<open>name\<close>.
\<close>

theorem nfs3_root_name_in_cwd:
  assumes "CHR ''/'' \<notin> set name"
  shows "nfs3_unlink_async nfs q (CHR ''/'' # name) c = nfs3_unlink_async nfs q name c
    \<and> nfs3_rmdir_async nfs q (CHR ''/'' # name) c = nfs3_rmdir_async nfs q name c
    \<and> nfs3_mkdir2_async nfs q (CHR ''/'' # name) mode c = nfs3_mkdir2_async nfs q name mode c
    \<and> nfs3_mknod_async nfs q (CHR ''/'' # name) devmode maj mnr c = nfs3_mknod_async nfs q name devmode maj mnr c
    \<and> nfs3_symlink_async nfs q target (CHR ''/'' # name) c = nfs3_symlink_async nfs q target name c
    \<and> nfs3_rename_async nfs q (CHR ''/'' # name) newpath c = nfs3_rename_async nfs q name newpath c"
  using parent_object_simps(1) [of name] parent_object_simps(2) [of name "[]"]
    split_parent_simps(1) [of name] split_parent_simps(2) [of name "[]"] assms
  by (simp add: nfs3_unlink_async_def nfs3_rmdir_async_def nfs3_mkdir2_async_def nfs3_mknod_async_def
      nfs3_symlink_async_def nfs3_rename_async_def lookup_empty split: prod.splits)

text \<open>With the current directory \<open>/d\<close>, removing \<open>/f\<close> removes \<open>/d/f\<close>.\<close>

theorem nfs3_root_name_in_cwd_witness:
  "nfs3_unlink_async (sample_nfs\<lparr>nfsi := (nfsi sample_nfs)\<lparr>nfsi_cwd := ''/d''\<rparr>\<rparr>) True ''/f'' (User 1) =
     nfs3_unlink_async (sample_nfs\<lparr>nfsi := (nfsi sample_nfs)\<lparr>nfsi_cwd := ''/d''\<rparr>\<rparr>) True ''f'' (User 1)"
  using nfs3_root_name_in_cwd [of "''f''" "sample_nfs\<lparr>nfsi := (nfsi sample_nfs)\<lparr>nfsi_cwd := ''/d''\<rparr>\<rparr>" True "User 1"]
  by simp

lemma type_bits_mask: "type_bits t AND S_IFMT = type_bits t" "type_bits t AND 0xFFF = 0"
  by (simp_all add: type_bits_def s_if_defs)

lemma mode_low:
  fixes m :: u32
  assumes "m < 0x1000"
  shows "m AND 0xFFF = m" "m AND S_IFMT = 0"
proof -
  have "uint (take_bit 12 m) = uint m"
    using assms by (simp add: unsigned_take_bit_eq take_bit_int_eq_self word_less_def)
  then have "m = take_bit 12 m" using word_uint_eqI [of "take_bit 12 m" m] by argo
  also have "\<dots> = m AND 0xFFF" by (simp add: take_bit_eq_mask mask_eq_exp_minus_1)
  finally show low: "m AND 0xFFF = m" by simp
  have "(m AND 0xFFF) AND S_IFMT = 0" by (simp add: S_IFMT_def and.assoc)
  then show "m AND S_IFMT = 0" by (simp add: low)
qed

text \<open>
  C29. The mode that \<open>stat\<close> and \<open>stat64\<close> report: the permissions are those the server sent, and
  the type bits are those of \<open><sys/stat.h>\<close> for the type of the file, for each of the seven types of
  the protocol (a regular file is \<open>0100000\<close>, a directory \<open>0040000\<close>, a block device \<open>0060000\<close>, a
  character device \<open>0020000\<close>, a symbolic link \<open>0120000\<close>, a socket \<open>0140000\<close> and a pipe \<open>0010000\<close>).
\<close>

theorem nfs3_stat_mode_type:
  fixes fa :: fattr3 and nfs :: "'r nfs_context"
  assumes "fa_mode fa < 0x1000"
    and "(fa_type fa, ifmt) \<in> {(1, 0x8000), (2, 0x4000), (3, 0x6000), (4, 0x2000), (5, 0xA000), (6, 0xC000), (7, 0x1000)}"
  shows "\<exists>sa s64. nfs3_stat_1_cb nfs RPC_STATUS_SUCCESS (Ok3 fa) data = (nfs, Done (cb data) 0 (Stat sa))
    \<and> nfs3_stat64_1_cb nfs RPC_STATUS_SUCCESS (Ok3 fa) data = (nfs, Done (cb data) 0 (Stat64 s64))
    \<and> st_mode sa AND 0xFFF = fa_mode fa \<and> st_mode sa AND 0xF000 = ifmt
    \<and> nfs_mode s64 AND 0xFFF = ucast (fa_mode fa) \<and> nfs_mode s64 AND 0xF000 = ucast ifmt"
proof -
  have ty: "type_bits (fa_type fa) = ifmt" using assms(2) by (auto simp: type_bits_def nf3_defs s_if_defs)
  let ?m = "fa_mode fa OR type_bits (fa_type fa)"
  have m: "?m AND 0xFFF = fa_mode fa" "?m AND S_IFMT = ifmt"
    using mode_low [OF assms(1)] by (simp_all add: bit.conj_disj_distrib2 type_bits_mask ty [symmetric])
  have "ucast ?m AND (0xFFF :: u64) = ucast (?m AND 0xFFF)" "ucast ?m AND (0xF000 :: u64) = ucast (?m AND 0xF000)"
    unfolding unsigned_and_eq by simp_all
  then have "ucast ?m AND (0xFFF :: u64) = ucast (fa_mode fa)" "ucast ?m AND (0xF000 :: u64) = ucast ifmt"
    using m by (simp_all add: S_IFMT_def)
  then show ?thesis
    using m by (simp add: nfs3_stat_1_cb_def nfs3_stat64_1_cb_def on_reply_def S_IFMT_def)
qed

text \<open>A directory.\<close>

theorem nfs3_stat_mode_type_witness:
  "\<exists>sa s64. nfs3_stat_1_cb sample_nfs RPC_STATUS_SUCCESS (Ok3 (zero_fattr\<lparr>fa_type := 2, fa_mode := 0x1ED\<rparr>)) (plain_data (User 1) stat_continue 0 []) =
      (sample_nfs, Done (User 1) 0 (Stat sa))
    \<and> nfs3_stat64_1_cb sample_nfs RPC_STATUS_SUCCESS (Ok3 (zero_fattr\<lparr>fa_type := 2, fa_mode := 0x1ED\<rparr>)) (plain_data (User 1) stat_continue 0 []) =
      (sample_nfs, Done (User 1) 0 (Stat64 s64))
    \<and> st_mode sa AND 0xFFF = 0x1ED \<and> st_mode sa AND 0xF000 = 0x4000 \<and> nfs_mode s64 AND 0xF000 = 0x4000"
  using nfs3_stat_mode_type [of "zero_fattr\<lparr>fa_type := 2, fa_mode := 0x1ED\<rparr>" "0x4000" sample_nfs "plain_data (User 1) stat_continue 0 []"]
  by (auto simp: plain_data_def)

end
