(* ===== verification/Nfs3_File.thy ===== *)
theory Nfs3_File
  imports Nfs3_Ops
begin

text \<open>
  Opening, reading, writing and seeking in \<open>src/lib/nfs_v3.c\<close>, and the reading of more than one
  chunk in \<open>src/lib/libnfs.c\<close> (\<open>_nfs_pread_async\<close>, \<open>r_cb\<close>).

  An open file is the record \<open>nfsfh\<close>; functions that change it through the pointer return the new
  record. A read stores the bytes of the reply in the user's buffer; the buffer is the list of
  its bytes and \<open>rw_buf\<close> the index the next chunk goes to.
\<close>

section \<open>Opening\<close>

definition O_WRONLY :: u64 where "O_WRONLY = 1"
definition O_RDWR :: u64 where "O_RDWR = 2"
definition O_CREAT :: u64 where "O_CREAT = 0x40"
definition O_EXCL :: u64 where "O_EXCL = 0x80"
definition O_TRUNC :: u64 where "O_TRUNC = 0x200"
definition O_APPEND :: u64 where "O_APPEND = 0x400"
definition O_SYNC :: u64 where "O_SYNC = 0x101000"

lemmas o_defs = O_WRONLY_def O_RDWR_def O_CREAT_def O_EXCL_def O_TRUNC_def O_APPEND_def O_SYNC_def

abbreviation has :: "u64 \<Rightarrow> u64 \<Rightarrow> bool" where
  "has flags f \<equiv> flags AND f \<noteq> 0"

definition nfs3_open_trunc_cb :: "'r nfs_context \<Rightarrow> rpc_status \<Rightarrow> unit res3 \<Rightarrow> data3 \<Rightarrow> 'r nfs_context \<times> act3" where
  "nfs3_open_trunc_cb nfs status res data =
     on_reply status res data nfs (\<lambda>_.
       (nfs, Done (cb data) 0 (Opened (zero_nfsfh\<lparr>nfh := data_fh data,
          is_sync := has (continue_int data) O_SYNC, is_append := has (continue_int data) O_APPEND\<rparr>))))"

text \<open>The access that the flags of \<open>open\<close> need; asked for and compared with the answer.\<close>

definition open_access :: "u64 \<Rightarrow> u32" where
  "open_access flags =
     (if has flags O_WRONLY then ACCESS3_MODIFY else 0)
     OR (if has flags O_RDWR then ACCESS3_READ OR ACCESS3_MODIFY else 0)
     OR (if has flags (O_WRONLY OR O_RDWR) then 0 else ACCESS3_READ)"

definition nfs3_open_cb ::
    "'r nfs_context \<Rightarrow> bool \<Rightarrow> rpc_status \<Rightarrow> u32 res3 \<Rightarrow> data3 \<Rightarrow> 'r nfs_context \<times> act3" where
  "nfs3_open_cb nfs q status res data =
     on_reply status res data nfs (\<lambda>acc.
       (nfs,
        if acc \<noteq> open_access (continue_int data) then Done (cb data) (- EACCES) Message
        else if has (continue_int data) O_TRUNC \<and> has (continue_int data) (O_RDWR OR O_WRONLY) then
          send3 q nfs3_open_trunc (SETATTR3args (data_fh data) (zero_sattr\<lparr>sa_size := Some 0\<rparr>)) data
        else Done (cb data) 0 (Opened (zero_nfsfh\<lparr>nfh := data_fh data,
               is_sync := has (continue_int data) O_SYNC, is_append := has (continue_int data) O_APPEND,
               is_readonly := \<not> has (continue_int data) (O_WRONLY OR O_RDWR)\<rparr>))))"

definition nfs3_open_continue_internal :: "bool \<Rightarrow> data3 \<Rightarrow> act3" where
  "nfs3_open_continue_internal q data =
     (if continue_int data AND (O_CREAT OR O_EXCL) = O_CREAT OR O_EXCL
      then Done (cb data) (- EEXIST) Message
      else send3 q nfs3_open (ACCESS3args (data_fh data) (open_access (continue_int data))) data)"

definition nfs3_open_create_cb :: "open_cb_data \<Rightarrow> int \<Rightarrow> nfs3_ret \<Rightarrow> act3" where
  "nfs3_open_create_cb od err ret =
     (if err \<noteq> 0 then Done (User (op_user od)) (nfsstat3_to_errno err) Message
      else Done (User (op_user od)) 0 ret)"

text \<open>The handle of a new file, \<open>None\<close> where the server sent none: its length is then zero.\<close>

definition nfs3_create_1_cb ::
    "'r nfs_context \<Rightarrow> rpc_status \<Rightarrow> nfs_fh option res3 \<Rightarrow> open_cb_data \<Rightarrow> data3 \<Rightarrow> 'r nfs_context \<times> act3" where
  "nfs3_create_1_cb nfs status res od data =
     on_reply status res data nfs (\<lambda>h.
       (drop_dir nfs (data_fh data),
        Done (cb data) 0 (Opened (zero_nfsfh\<lparr>nfh := (case h of None \<Rightarrow> [] | Some fh \<Rightarrow> fh),
          is_sync := has (ucast (op_flags od)) O_SYNC, is_append := has (ucast (op_flags od)) O_APPEND\<rparr>))))"

definition nfs3_create_continue_internal :: "bool \<Rightarrow> open_cb_data \<Rightarrow> data3 \<Rightarrow> act3" where
  "nfs3_create_continue_internal q od data =
     send3 q nfs3_create_1 (CREATE3args (data_fh data) (op_object od)
       (if has (ucast (op_flags od)) O_EXCL then GUARDED else UNCHECKED)
       (zero_sattr\<lparr>sa_mode := Some (op_mode od)\<rparr>)) data"

definition nfs3_initial_open_cb ::
    "'r nfs_context \<Rightarrow> bool \<Rightarrow> open_cb_data \<Rightarrow> int \<Rightarrow> nfs3_ret \<Rightarrow> act3 option" where
  "nfs3_initial_open_cb nfs q od err ret =
     (let flags = (ucast (op_flags od) :: u64); user = User (op_user od) in
      if err = - EEXIST \<and> flags AND (O_CREAT OR O_EXCL) = O_CREAT OR O_EXCL then Some (Done user (- EEXIST) Message)
      else if err = - NFS3ERR_NOENT \<and> has flags O_CREAT then
        (case parent_object (op_path od) of (parent, object) \<Rightarrow>
           let od' = od\<lparr>op_path := parent, op_object := object\<rparr>
           in case nfs3_lookuppath_async nfs q (Some parent) False (Open_create od') (create_continue od') 0 of
                None \<Rightarrow> None
              | Some None \<Rightarrow> Some (Done user (- ENOMEM) Message)
              | Some (Some a) \<Rightarrow> Some a)
      else if err \<noteq> 0 then Some (Done user (nfsstat3_to_errno err) Message)
      else Some (Done user 0 ret))"

definition nfs3_open_async ::
    "'r nfs_context \<Rightarrow> bool \<Rightarrow> string \<Rightarrow> u32 \<Rightarrow> u32 \<Rightarrow> nat \<Rightarrow> act3 option option" where
  "nfs3_open_async nfs q path flags mode user =
     nfs3_lookuppath_async nfs q (Some path) False
       (Initial_open \<lparr>op_user = user, op_path = path, op_object = [], op_flags = flags, op_mode = mode\<rparr>)
       open_continue (scast flags)"

definition nfs3_creat_async :: "'r nfs_context \<Rightarrow> bool \<Rightarrow> string \<Rightarrow> u32 \<Rightarrow> nat \<Rightarrow> act3 option option" where
  "nfs3_creat_async nfs q path mode user =
     nfs3_open_async nfs q path (ucast (O_CREAT OR O_WRONLY OR O_TRUNC)) mode user"

section \<open>Closing and seeking\<close>

definition nfs3_close_cb :: "nat \<Rightarrow> int \<Rightarrow> nfs3_ret \<Rightarrow> act3" where
  "nfs3_close_cb user err ret = Done (User user) err ret"

text \<open>The file is freed at once, or when the COMMIT is answered.\<close>

definition nfs3_close_async :: "bool \<Rightarrow> nfsfh \<Rightarrow> nat \<Rightarrow> int \<times> act3" where
  "nfs3_close_async q f user =
     (if \<not> is_dirty f then (0, Done (User user) 0 Null) else nfs3_fsync_async q f (Close_file user))"

datatype seek_whence = SEEK_SET | SEEK_CUR | SEEK_END

text \<open>
  Seeking from the end: \<open>off\<close> is the offset as \<open>uint64_t\<close>, the size of the file the server's. The
  negation of the smallest \<open>int64_t\<close> is undefined.
\<close>

definition nfs3_lseek_1_cb ::
    "rpc_status \<Rightarrow> GETATTR3res \<Rightarrow> u64 \<Rightarrow> nfsfh \<Rightarrow> nat \<Rightarrow> (nfsfh \<times> act3) option" where
  "nfs3_lseek_1_cb status res off f user =
     (case check_nfs3_error status of
        Some e \<Rightarrow> Some (f, Done (User user) e Message)
      | None \<Rightarrow>
          (case res of
             Err3 st \<Rightarrow> Some (f, Done (User user) (nfsstat3_to_errno st) Message)
           | Ok3 fa \<Rightarrow>
               if sint off = - (2 ^ 63) then None
               else if sint off < 0 \<and> - sint off > sint (fa_size fa)
               then Some (f, Done (User user) (- EINVAL) (Offset (foffset f)))
               else let f' = f\<lparr>foffset := off + fa_size fa\<rparr>
                    in Some (f', Done (User user) 0 (Offset (foffset f')))))"

datatype seek_res = Seek_done nfsfh act3 | Seek_ask nfs3_call u64 | Seek_fails

definition nfs3_lseek_async :: "bool \<Rightarrow> nfsfh \<Rightarrow> u64 \<Rightarrow> seek_whence \<Rightarrow> nat \<Rightarrow> seek_res option" where
  "nfs3_lseek_async q f off whence user =
     (case whence of
        SEEK_SET \<Rightarrow>
          if sint off < 0 then Some (Seek_done f (Done (User user) (- EINVAL) (Offset (foffset f))))
          else Some (Seek_done (f\<lparr>foffset := off\<rparr>) (Done (User user) 0 (Offset off)))
      | SEEK_CUR \<Rightarrow>
          if sint off = - (2 ^ 63) then None
          else if sint off < 0 \<and> foffset f < - off
          then Some (Seek_done f (Done (User user) (- EINVAL) (Offset (foffset f))))
          else Some (Seek_done (f\<lparr>foffset := foffset f + off\<rparr>) (Done (User user) 0 (Offset (foffset f + off))))
      | SEEK_END \<Rightarrow> Some (if q then Seek_ask (GETATTR3args (nfh f)) off else Seek_fails))"

section \<open>Reading\<close>

text \<open>
  Who gets the result of a READ: the user, or the loop \<open>r_cb\<close> that reads chunk after chunk.
\<close>

record rw_data =
  rw_buf :: nat
  rw_count :: nat
  rw_remaining :: nat
  rw_offset :: u64
  rw_user :: nat

datatype read_cb = Read_user nat | Read_loop rw_data

record pread_data =
  pr_cb :: read_cb
  pr_offset :: u64
  pr_count :: u32
  pr_update_pos :: bool

definition nfs3_fill_READ3args :: "nfsfh \<Rightarrow> u64 \<Rightarrow> nat \<Rightarrow> nfs3_call" where
  "nfs3_fill_READ3args f off cnt = READ3args (nfh f) off (word_of_nat cnt)"

text \<open>
  The reply to a READ: the count it states. \<open>requested\<close> is \<open>requested_read_count\<close> of the PDU. The
  result is the file and the status for the callback.
\<close>

definition nfs3_pread_cb :: "rpc_status \<Rightarrow> u32 res3 \<Rightarrow> u32 \<Rightarrow> pread_data \<Rightarrow> nfsfh \<Rightarrow> nfsfh \<times> int" where
  "nfs3_pread_cb status res requested data f =
     (case check_nfs3_error status of
        Some e \<Rightarrow> (f, e)
      | None \<Rightarrow>
          (case res of
             Err3 st \<Rightarrow> (f, nfsstat3_to_errno st)
           | Ok3 cnt \<Rightarrow>
               (if pr_update_pos data then f\<lparr>foffset := pr_offset data + scast cnt\<rparr> else f,
                sint (if cnt > requested then requested else cnt))))"

text \<open>
  \<open>None\<close> is the return value \<open>-1\<close>. A count larger than the limit is cut.
\<close>

definition nfs3_pread_async_internal ::
    "'r nfs_context \<Rightarrow> bool \<Rightarrow> nfsfh \<Rightarrow> nat \<Rightarrow> u64 \<Rightarrow> read_cb \<Rightarrow> bool \<Rightarrow> (nfs3_call \<times> pread_data) option" where
  "nfs3_pread_async_internal nfs q f cnt off c update_pos =
     (let n = (if cnt > nfs_get_readmax nfs then nfs_get_readmax nfs else cnt)
      in if q then Some (nfs3_fill_READ3args f off n,
                         \<lparr>pr_cb = c, pr_offset = off, pr_count = word_of_nat n, pr_update_pos = update_pos\<rparr>)
         else None)"

text \<open>The vectored form adds up the lengths of the buffers.\<close>

definition nfs3_preadv_async_internal ::
    "'r nfs_context \<Rightarrow> bool \<Rightarrow> nfsfh \<Rightarrow> nat list \<Rightarrow> u64 \<Rightarrow> read_cb \<Rightarrow> bool \<Rightarrow> (nfs3_call \<times> pread_data) option" where
  "nfs3_preadv_async_internal nfs q f lens off c update_pos =
     nfs3_pread_async_internal nfs q f (sum_list lens mod 2 ^ 64) off c update_pos"

text \<open>
  The loop that reads a long range, \<open>r_cb\<close>: it calls back with a result or sends the READ for the
  next chunk; one that cannot be queued ends it with an error.
\<close>

datatype r_res = R_done int | R_next "nfs3_call \<times> pread_data"

definition r_cb :: "'r nfs_context \<Rightarrow> bool \<Rightarrow> nfsfh \<Rightarrow> int \<Rightarrow> rw_data \<Rightarrow> r_res" where
  "r_cb nfs q f status rw =
     (if status < 0 then R_done status
      else let n = min (nat status) (rw_remaining rw);
               rw' = rw\<lparr>rw_buf := rw_buf rw + n, rw_offset := rw_offset rw + word_of_nat n,
                        rw_remaining := rw_remaining rw - n\<rparr>
           in if rw_remaining rw' = 0 \<or> n < nfs_get_readmax nfs
              then R_done (s32 (int (rw_count rw' - rw_remaining rw')))
              else let cnt = (if nfs_get_readmax nfs \<noteq> 0 \<and> rw_remaining rw' > nfs_get_readmax nfs
                              then nfs_get_readmax nfs else rw_remaining rw')
                   in case nfs3_pread_async_internal nfs q f cnt (rw_offset rw') (Read_loop rw') False of
                        None \<Rightarrow> R_done (- ENOMEM)
                      | Some x \<Rightarrow> R_next x)"

text \<open>
  The dispatch over the version, here for version 3. A count below the limit is one READ; a
  longer one starts the loop, whose READs do not move the file position.
\<close>

definition nfs_pread_async_internal ::
    "'r nfs_context \<Rightarrow> bool \<Rightarrow> nfsfh \<Rightarrow> nat \<Rightarrow> u64 \<Rightarrow> nat \<Rightarrow> bool \<Rightarrow> (nfs3_call \<times> pread_data) option" where
  "nfs_pread_async_internal nfs q f cnt off user update_pos =
     (if cnt < nfs_get_readmax nfs
      then nfs3_pread_async_internal nfs q f cnt off (Read_user user) update_pos
      else let rw = \<lparr>rw_buf = 0, rw_count = cnt, rw_remaining = cnt, rw_offset = off, rw_user = user\<rparr>;
               n = (if nfs_get_readmax nfs \<noteq> 0 \<and> cnt > nfs_get_readmax nfs then nfs_get_readmax nfs else cnt)
           in nfs3_pread_async_internal nfs q f n off (Read_loop rw) False)"

definition nfs_pread_async ::
    "'r nfs_context \<Rightarrow> bool \<Rightarrow> nfsfh \<Rightarrow> nat \<Rightarrow> u64 \<Rightarrow> nat \<Rightarrow> (nfs3_call \<times> pread_data) option" where
  "nfs_pread_async nfs q f cnt off user = nfs_pread_async_internal nfs q f cnt off user False"

definition nfs_read_async ::
    "'r nfs_context \<Rightarrow> bool \<Rightarrow> nfsfh \<Rightarrow> nat \<Rightarrow> nat \<Rightarrow> (nfs3_call \<times> pread_data) option" where
  "nfs_read_async nfs q f cnt user = nfs_pread_async_internal nfs q f cnt (foffset f) user True"

section \<open>Writing\<close>

definition nfs3_fill_WRITE3args :: "nfsfh \<Rightarrow> u64 \<Rightarrow> nat \<Rightarrow> byte list \<Rightarrow> nfs3_call" where
  "nfs3_fill_WRITE3args f off cnt buf =
     WRITE3args (nfh f) off (word_of_nat cnt) (if is_sync f then FILE_SYNC else UNSTABLE)
       (take (unat (word_of_nat cnt :: u32)) buf)"

text \<open>The fields of \<open>nfs_cb_data\<close> that a write uses, and one WRITE call of it.\<close>

record pwrite_data =
  pw_user :: nat
  pw_usrbuf :: "byte list"
  pw_offset :: u64
  pw_max_offset :: u64
  pw_num_calls :: int
  pw_error :: int
  pw_cancel :: bool
  pw_oom :: bool
  pw_update_pos :: bool

record nfs_mcb_data =
  mc_offset :: u64
  mc_count :: nat

datatype w_res = W_reissue pwrite_data nfs_mcb_data nfs3_call | W_wait pwrite_data | W_done nfsfh int

text \<open>The end of \<open>nfs3_pwrite_mcb\<close>: the callback when no call is left.\<close>

definition pwrite_finish :: "pwrite_data \<Rightarrow> nfsfh \<Rightarrow> w_res" where
  "pwrite_finish data f =
     (if pw_num_calls data > 0 then W_wait data
      else if pw_oom data then W_done f (- ENOMEM)
      else if pw_error data \<noteq> 0 then W_done f (pw_error data)
      else if pw_cancel data then W_done f (- EINTR)
      else W_done (if pw_update_pos data then f\<lparr>foffset := pw_max_offset data\<rparr> else f)
             (s32 (uint (pw_max_offset data - pw_offset data))))"

definition raise_max :: "pwrite_data \<Rightarrow> u64 \<Rightarrow> pwrite_data" where
  "raise_max data e = (if pw_max_offset data < e then data\<lparr>pw_max_offset := e\<rparr> else data)"

definition nfs3_pwrite_mcb ::
    "bool \<Rightarrow> rpc_status \<Rightarrow> u32 res3 \<Rightarrow> nfs_mcb_data \<Rightarrow> pwrite_data \<Rightarrow> nfsfh \<Rightarrow> w_res" where
  "nfs3_pwrite_mcb q status res mdata data0 f =
     (let data = data0\<lparr>pw_num_calls := pw_num_calls data0 - 1\<rparr> in
      case status of
        RPC_STATUS_ERROR \<Rightarrow> pwrite_finish (data\<lparr>pw_error := - EFAULT\<rparr>) f
      | RPC_STATUS_CANCEL \<Rightarrow> pwrite_finish (data\<lparr>pw_cancel := True\<rparr>) f
      | RPC_STATUS_TIMEOUT \<Rightarrow> pwrite_finish (data\<lparr>pw_cancel := True\<rparr>) f
      | RPC_STATUS_SUCCESS \<Rightarrow>
          (case res of
             Err3 st \<Rightarrow> pwrite_finish (data\<lparr>pw_error := nfsstat3_to_errno st\<rparr>) f
           | Ok3 c \<Rightarrow>
               let cnt = unat c in
               if cnt < mc_count mdata then
                 if cnt = 0 then pwrite_finish (data\<lparr>pw_error := - EFAULT\<rparr>) f
                 else let mdata' = \<lparr>mc_offset = mc_offset mdata + ucast c, mc_count = mc_count mdata - cnt\<rparr>;
                          rest = drop (unat (mc_offset mdata' - pw_offset data)) (pw_usrbuf data)
                      in if q then W_reissue (data\<lparr>pw_num_calls := pw_num_calls data + 1\<rparr>) mdata'
                                     (nfs3_fill_WRITE3args f (mc_offset mdata') (mc_count mdata') rest)
                         else pwrite_finish (raise_max (data\<lparr>pw_oom := True\<rparr>) (mc_offset mdata' + ucast c)) f
               else if cnt > 0 then pwrite_finish (raise_max data (mc_offset mdata + ucast c)) f
               else pwrite_finish data f))"

text \<open>
  The loop of \<open>nfs3_pwrite_async_internal\<close>: the calls that are sent, each with its own record, for
  \<open>cnt\<close> bytes from \<open>off\<close> on; \<open>i\<close> counts them and \<open>q i\<close> says whether the \<open>i\<close>th can be queued. The flag
  of the result is \<open>oom\<close>; the outer \<open>None\<close> is a loop that does not end.
\<close>

partial_function (option) pwrite_loop ::
    "(nat \<Rightarrow> bool) \<Rightarrow> nat \<Rightarrow> nfsfh \<Rightarrow> byte list \<Rightarrow> u64 \<Rightarrow> nat \<Rightarrow> u64 \<Rightarrow> nat
      \<Rightarrow> ((nfs_mcb_data \<times> nfs3_call) list \<times> bool) option" where
  "pwrite_loop q wmax f buf off0 i off cnt =
     (let n = (if cnt > wmax then wmax else cnt) in
      if \<not> q i then Some ([], True)
      else let call = (\<lparr>mc_offset = off, mc_count = n\<rparr>,
                       nfs3_fill_WRITE3args f off n (drop (unat (off - off0)) buf))
           in if cnt - n > 0
              then Option.bind (pwrite_loop q wmax f buf off0 (i + 1) (off + word_of_nat n) (cnt - n))
                     (\<lambda>(calls, oom). Some (call # calls, oom))
              else Some ([call], False))"

text \<open>\<open>Some None\<close> is the return value \<open>-1\<close>: the first call could not be queued.\<close>

definition nfs3_pwrite_async_internal ::
    "'r nfs_context \<Rightarrow> (nat \<Rightarrow> bool) \<Rightarrow> nfsfh \<Rightarrow> byte list \<Rightarrow> nat \<Rightarrow> u64 \<Rightarrow> nat \<Rightarrow> bool
      \<Rightarrow> (nfsfh \<times> (pwrite_data \<times> (nfs_mcb_data \<times> nfs3_call) list) option) option" where
  "nfs3_pwrite_async_internal nfs q f0 buf cnt0 off user update_pos =
     (let cnt = (if cnt0 > nfs_get_writemax nfs then nfs_get_writemax nfs else cnt0);
          f = f0\<lparr>is_dirty := True\<rparr>
      in case pwrite_loop q (nfs_get_writemax nfs) f buf off 0 off cnt of
           None \<Rightarrow> None
         | Some (calls, oom) \<Rightarrow>
             Some (f, if calls = [] then None
                      else Some (\<lparr>pw_user = user, pw_usrbuf = buf, pw_offset = off, pw_max_offset = off,
                                  pw_num_calls = int (length calls), pw_error = 0, pw_cancel = False,
                                  pw_oom = oom, pw_update_pos = update_pos\<rparr>, calls)))"

text \<open>An appending write asks for the size of the file first.\<close>

datatype write_res = Write_calls nfsfh pwrite_data "(nfs_mcb_data \<times> nfs3_call) list" | Write_ask nfs3_call
  | Write_fails nfsfh

definition nfs3_write_async ::
    "'r nfs_context \<Rightarrow> (nat \<Rightarrow> bool) \<Rightarrow> nfsfh \<Rightarrow> byte list \<Rightarrow> nat \<Rightarrow> nat \<Rightarrow> write_res option" where
  "nfs3_write_async nfs q f buf cnt user =
     (if is_append f then Some (if q 0 then Write_ask (GETATTR3args (nfh f)) else Write_fails f)
      else map_option (\<lambda>(f', r). case r of None \<Rightarrow> Write_fails f' | Some (d, calls) \<Rightarrow> Write_calls f' d calls)
             (nfs3_pwrite_async_internal nfs q f buf cnt (foffset f) user True))"

text \<open>\<open>Inl\<close> is an error number for the callback.\<close>

definition nfs3_write_append_cb ::
    "'r nfs_context \<Rightarrow> (nat \<Rightarrow> bool) \<Rightarrow> rpc_status \<Rightarrow> GETATTR3res \<Rightarrow> nfsfh \<Rightarrow> byte list \<Rightarrow> nat \<Rightarrow> nat
      \<Rightarrow> (int + write_res) option" where
  "nfs3_write_append_cb nfs q status res f buf cnt user =
     (case check_nfs3_error status of
        Some e \<Rightarrow> Some (Inl e)
      | None \<Rightarrow>
          (case res of
             Err3 st \<Rightarrow> Some (Inl (nfsstat3_to_errno st))
           | Ok3 fa \<Rightarrow>
               map_option (\<lambda>(f', r). case r of None \<Rightarrow> Inl (- ENOMEM) | Some (d, calls) \<Rightarrow> Inr (Write_calls f' d calls))
                 (nfs3_pwrite_async_internal nfs q f buf cnt (fa_size fa) user True)))"

section \<open>Reading a file\<close>

text \<open>
  A read carried out: \<open>srv off n\<close> are the bytes the server sends for a READ, of which at most as
  many as were asked for are stored in the buffer. One unit of fuel is used per call.
\<close>

definition read_at :: "pread_data \<Rightarrow> nat" where
  "read_at d = (case pr_cb d of Read_user _ \<Rightarrow> 0 | Read_loop rw \<Rightarrow> rw_buf rw)"

fun read_run ::
    "nat \<Rightarrow> 'r nfs_context \<Rightarrow> (u64 \<Rightarrow> nat \<Rightarrow> byte list) \<Rightarrow> nfs3_call \<times> pread_data \<Rightarrow> nfsfh \<Rightarrow> byte list
      \<Rightarrow> (nfsfh \<times> byte list \<times> int) option" where
  "read_run 0 nfs srv x f buf = None"
| "read_run (Suc k) nfs srv (call, d) f buf =
     (case call of
        READ3args fh off n \<Rightarrow>
          (let bs = srv off (unat n);
               buf' = splice buf (int (read_at d)) (take (unat n) bs)
           in case nfs3_pread_cb RPC_STATUS_SUCCESS (Ok3 (word_of_nat (length bs))) n d f of
                (f', st) \<Rightarrow>
                  (case pr_cb d of
                     Read_user _ \<Rightarrow> Some (f', buf', st)
                   | Read_loop rw \<Rightarrow>
                       (case r_cb nfs True f' st rw of
                          R_done r \<Rightarrow> Some (f', buf', r)
                        | R_next x \<Rightarrow> read_run k nfs srv x f' buf')))
      | _ \<Rightarrow> None)"

declare read_run.simps(2) [simp del]

text \<open>A server with a file: it may send less than was asked for, but only bytes of the file.\<close>

definition serves :: "byte list \<Rightarrow> (u64 \<Rightarrow> nat \<Rightarrow> byte list) \<Rightarrow> bool" where
  "serves content srv \<longleftrightarrow> (\<forall>off n. \<exists>k\<le>n. srv off n = take k (drop (unat off) content))"

definition serves_fully :: "byte list \<Rightarrow> (u64 \<Rightarrow> nat \<Rightarrow> byte list) \<Rightarrow> bool" where
  "serves_fully content srv \<longleftrightarrow> (\<forall>off n. srv off n = take n (drop (unat off) content))"

lemma serves_length: "serves content srv \<Longrightarrow> length (srv off n) \<le> n"
  unfolding serves_def by (metis length_take min.cobounded2 min.coboundedI2 order_trans)

lemma serves_take: "serves content srv \<Longrightarrow> srv off n = take (length (srv off n)) (drop (unat off) content)"
  unfolding serves_def by (metis length_take min.cobounded1 take_all_iff take_take min_def le_refl)

lemma readmax_bound:
  "nfs_wf nfs \<Longrightarrow> 8192 \<le> nfs_get_readmax nfs \<and> nfs_get_readmax nfs \<le> 4194304"
  by (simp add: nfsi_wf_def xfer_ok_def nfs_get_readmax_def NFS_MIN_XFER_SIZE_def NFS_MAX_XFER_SIZE_def)

lemma sint_small: "n < 2 ^ 31 \<Longrightarrow> sint (word_of_nat n :: u32) = int n"
  by (simp add: signed_of_nat signed_take_bit_int_eq_self_iff)

lemma unat_small: "n < 2 ^ 31 \<Longrightarrow> unat (word_of_nat n :: u32) = n"
  by (simp add: unat_of_nat take_bit_nat_eq_self)

lemma scast_small: "n < 2 ^ 31 \<Longrightarrow> (scast (word_of_nat n :: u32) :: u64) = word_of_nat n"
proof -
  assume "n < 2 ^ 31"
  then have "(word_of_int (sint (word_of_nat n :: u32)) :: u64) = word_of_int (int n)" by (simp add: sint_small)
  then show ?thesis by simp
qed

lemma pread_cb_served:
  assumes "length bs \<le> m" "m < 2 ^ 31"
  shows "nfs3_pread_cb RPC_STATUS_SUCCESS (Ok3 (word_of_nat (length bs))) (word_of_nat m) d f =
    (if pr_update_pos d then f\<lparr>foffset := pr_offset d + word_of_nat (length bs)\<rparr> else f, int (length bs))"
proof -
  have "\<not> (word_of_nat (length bs) :: u32) > word_of_nat m"
    using assms by (simp add: word_less_nat_alt unat_small)
  then show ?thesis
    using assms by (simp add: nfs3_pread_cb_def sint_small scast_small)
qed

text \<open>What one call of the loop does.\<close>

lemma read_run_step:
  assumes wf: "nfs_wf nfs" and srv: "serves content srv" and m: "m \<le> nfs_get_readmax nfs"
  shows "read_run (Suc k) nfs srv (nfs3_fill_READ3args f off m, d) f buf =
     (let bs = srv off m; buf' = splice buf (int (read_at d)) bs;
          f' = (if pr_update_pos d then f\<lparr>foffset := pr_offset d + word_of_nat (length bs)\<rparr> else f)
      in case pr_cb d of
           Read_user _ \<Rightarrow> Some (f', buf', int (length bs))
         | Read_loop rw \<Rightarrow>
             (case r_cb nfs True f' (int (length bs)) rw of
                R_done r \<Rightarrow> Some (f', buf', r)
              | R_next x \<Rightarrow> read_run k nfs srv x f' buf'))"
proof -
  have m31: "m < 2 ^ 31" using m readmax_bound [OF wf] by simp
  have l: "length (srv off m) \<le> m" by (rule serves_length [OF srv])
  then have tk: "take m (srv off m) = srv off m" by simp
  show ?thesis
    unfolding nfs3_fill_READ3args_def read_run.simps(2) nfs3_call.case Let_def unat_small [OF m31]
      pread_cb_served [OF l m31] tk prod.case by simp
qed

lemma splice_extends:
  assumes "take p buf = take p xs" "p \<le> length xs" "bs = take (length bs) (drop p xs)" "p + length bs \<le> length buf"
  shows "take (p + length bs) (splice buf (int p) bs) = take (p + length bs) xs"
    and "length (splice buf (int p) bs) = length buf"
    and "p + length bs \<le> length xs"
proof -
  have "length bs \<le> length (drop p xs)" using arg_cong [OF assms(3), of length] by simp
  then show "p + length bs \<le> length xs" using assms(2) by simp
  have "take (p + length bs) (splice buf (int p) bs) = take p xs @ bs"
    using assms(1,2,4) by (simp add: splice_def)
  also have "\<dots> = take (p + length bs) xs" using assms(3) by (metis take_add)
  finally show "take (p + length bs) (splice buf (int p) bs) = take (p + length bs) xs" .
  show "length (splice buf (int p) bs) = length buf" using assms(4) by (simp add: splice_def)
qed

text \<open>The state of the loop before a call: the bytes up to \<open>rw_buf\<close> have been read.\<close>

definition loop_ok :: "byte list \<Rightarrow> u64 \<Rightarrow> rw_data \<Rightarrow> byte list \<Rightarrow> bool" where
  "loop_ok content off rw buf \<longleftrightarrow> rw_buf rw + rw_remaining rw = rw_count rw \<and> rw_count rw = length buf
     \<and> rw_count rw < 2 ^ 31 \<and> unat off + rw_count rw < 2 ^ 64 \<and> rw_offset rw = off + word_of_nat (rw_buf rw)
     \<and> take (rw_buf rw) buf = take (rw_buf rw) (drop (unat off) content)
     \<and> rw_buf rw \<le> length (drop (unat off) content)"

text \<open>What a read delivers: \<open>r\<close> bytes of the file, all there are if the server always sends all.\<close>

definition delivered ::
    "byte list \<Rightarrow> (u64 \<Rightarrow> nat \<Rightarrow> byte list) \<Rightarrow> u64 \<Rightarrow> byte list \<Rightarrow> byte list \<Rightarrow> int \<Rightarrow> bool" where
  "delivered content srv off buf buf' r \<longleftrightarrow>
     0 \<le> r \<and> nat r \<le> length buf \<and> nat r \<le> length (drop (unat off) content) \<and> length buf' = length buf
     \<and> take (nat r) buf' = take (nat r) (drop (unat off) content)
     \<and> (serves_fully content srv \<longrightarrow> nat r = min (length buf) (length (drop (unat off) content)))"

lemma off_shift: "unat (off :: u64) + c < 2 ^ 64 \<Longrightarrow> p \<le> c \<Longrightarrow> unat (off + word_of_nat p) = unat off + p"
  by (simp add: unat_word_ariths unat_of_nat take_bit_nat_eq_self)

lemma r_cb_served:
  assumes "n \<le> rw_remaining rw" "0 < nfs_get_readmax nfs"
  shows "r_cb nfs True f (int n) rw =
    (let rw' = rw\<lparr>rw_buf := rw_buf rw + n, rw_offset := rw_offset rw + word_of_nat n,
                  rw_remaining := rw_remaining rw - n\<rparr>
     in if rw_remaining rw = n \<or> n < nfs_get_readmax nfs
        then R_done (s32 (int (rw_count rw - (rw_remaining rw - n))))
        else let m = min (nfs_get_readmax nfs) (rw_remaining rw - n)
             in R_next (nfs3_fill_READ3args f (rw_offset rw') m,
                  \<lparr>pr_cb = Read_loop rw', pr_offset = rw_offset rw', pr_count = word_of_nat m, pr_update_pos = False\<rparr>))"
  using assms by (auto simp: r_cb_def nfs3_pread_async_internal_def Let_def min_def)

text \<open>One call of the loop: the bytes of the reply continue what has been read.\<close>

lemma loop_step:
  assumes srv: "serves content srv" and ok: "loop_ok content off rw buf" and m: "m \<le> rw_remaining rw"
    and bs: "bs = srv (rw_offset rw) m" and buf': "buf' = splice buf (int (rw_buf rw)) bs"
  shows "length bs \<le> m" "length buf' = length buf"
    "take (rw_buf rw + length bs) buf' = take (rw_buf rw + length bs) (drop (unat off) content)"
    "rw_buf rw + length bs \<le> length (drop (unat off) content)"
    "serves_fully content srv \<Longrightarrow> length bs = min m (length (drop (unat off) content) - rw_buf rw)"
proof -
  note ok' = ok [unfolded loop_ok_def]
  have "rw_buf rw \<le> rw_count rw" "unat off + rw_count rw < 2 ^ 64" using ok' by simp_all
  then have u: "unat (rw_offset rw) = unat off + rw_buf rw"
    using ok' off_shift [of off "rw_count rw" "rw_buf rw"] by simp
  have b: "bs = take (length bs) (drop (rw_buf rw) (drop (unat off) content))"
    using serves_take [OF srv, of "rw_offset rw" m] by (simp add: bs u add.commute)
  show l: "length bs \<le> m" unfolding bs by (rule serves_length [OF srv])
  have pl: "rw_buf rw + length bs \<le> length buf" using l ok' m by simp
  note ext = splice_extends [OF _ _ b pl]
  show "length buf' = length buf" "rw_buf rw + length bs \<le> length (drop (unat off) content)"
    "take (rw_buf rw + length bs) buf' = take (rw_buf rw + length bs) (drop (unat off) content)"
    using ext ok' unfolding buf' by blast+
  show "serves_fully content srv \<Longrightarrow> length bs = min m (length (drop (unat off) content) - rw_buf rw)"
    by (simp add: bs serves_fully_def u)
qed

lemma loop_stops:
  assumes srv: "serves content srv" and ok: "loop_ok content off rw buf" and m: "m = min readmax (rw_remaining rw)"
    and bs: "bs = srv (rw_offset rw) m" and buf': "buf' = splice buf (int (rw_buf rw)) bs"
    and stop: "rw_remaining rw = length bs \<or> length bs < readmax"
  shows "delivered content srv off buf buf' (int (rw_buf rw + length bs))"
    and "s32 (int (rw_count rw - (rw_remaining rw - length bs))) = int (rw_buf rw + length bs)"
proof -
  have "m \<le> rw_remaining rw" using m by simp
  note st = loop_step [OF srv ok this bs buf']
  have le: "length bs \<le> rw_remaining rw" using st(1) \<open>m \<le> rw_remaining rw\<close> by simp
  have tot: "rw_buf rw + rw_remaining rw = rw_count rw" "rw_count rw = length buf" "rw_count rw < 2 ^ 31"
    using ok unfolding loop_ok_def by blast+
  have "rw_count rw - (rw_remaining rw - length bs) = rw_buf rw + length bs" "rw_buf rw + length bs < 2 ^ 31"
    using tot le by linarith+
  then show "s32 (int (rw_count rw - (rw_remaining rw - length bs))) = int (rw_buf rw + length bs)"
    by (simp add: s32_nonneg)
  have "serves_fully content srv \<Longrightarrow> rw_buf rw + length bs = min (length buf) (length (drop (unat off) content))"
    using st(4,5) stop m tot le by (auto simp: min_def split: if_splits)
  then show "delivered content srv off buf buf' (int (rw_buf rw + length bs))"
    using st(2,3,4) tot le unfolding delivered_def by (simp del: of_nat_add)
qed

lemma read_loop_delivers:
  assumes wf: "nfs_wf nfs" and srv: "serves content srv"
  shows "loop_ok content off rw buf \<Longrightarrow> 0 < rw_remaining rw \<Longrightarrow> rw_remaining rw \<le> k \<Longrightarrow>
    m = min (nfs_get_readmax nfs) (rw_remaining rw) \<Longrightarrow>
    \<exists>buf' r. read_run k nfs srv (nfs3_fill_READ3args f (rw_offset rw) m,
        \<lparr>pr_cb = Read_loop rw, pr_offset = rw_offset rw, pr_count = c, pr_update_pos = False\<rparr>) f buf = Some (f, buf', r)
      \<and> delivered content srv off buf buf' r"
proof (induction k arbitrary: rw buf m c)
  case (Suc k)
  define bs where "bs = srv (rw_offset rw) m"
  define buf' where "buf' = splice buf (int (rw_buf rw)) bs"
  have "m \<le> rw_remaining rw" "m \<le> nfs_get_readmax nfs" using Suc.prems(4) by simp_all
  note st = loop_step [OF srv Suc.prems(1) this(1) bs_def buf'_def]
  have step: "read_run (Suc k) nfs srv (nfs3_fill_READ3args f (rw_offset rw) m,
        \<lparr>pr_cb = Read_loop rw, pr_offset = rw_offset rw, pr_count = c, pr_update_pos = False\<rparr>) f buf =
      (case r_cb nfs True f (int (length bs)) rw of
         R_done r \<Rightarrow> Some (f, buf', r)
       | R_next x \<Rightarrow> read_run k nfs srv x f buf')"
    unfolding read_run_step [OF wf srv \<open>m \<le> nfs_get_readmax nfs\<close>] buf'_def bs_def
    by (simp add: read_at_def Let_def)
  have le: "length bs \<le> rw_remaining rw" using st(1) \<open>m \<le> rw_remaining rw\<close> by simp
  have pos: "0 < nfs_get_readmax nfs" using readmax_bound [OF wf] by simp
  note rc = r_cb_served [OF le pos, of f, unfolded Let_def]
  show ?case
  proof (cases "rw_remaining rw = length bs \<or> length bs < nfs_get_readmax nfs")
    case True
    from loop_stops [OF srv Suc.prems(1,4) bs_def buf'_def True] show ?thesis
      unfolding step rc if_P [OF True] by simp
  next
    case False
    define rw' where "rw' = rw\<lparr>rw_buf := rw_buf rw + length bs, rw_offset := rw_offset rw + word_of_nat (length bs),
                  rw_remaining := rw_remaining rw - length bs\<rparr>"
    define m' where "m' = min (nfs_get_readmax nfs) (rw_remaining rw')"
    have r: "r_cb nfs True f (int (length bs)) rw = R_next (nfs3_fill_READ3args f (rw_offset rw') m',
          \<lparr>pr_cb = Read_loop rw', pr_offset = rw_offset rw', pr_count = word_of_nat m', pr_update_pos = False\<rparr>)"
      using False unfolding rc by (simp add: rw'_def m'_def)
    have ok': "loop_ok content off rw' buf'" "0 < rw_remaining rw'"
      using st(2,3,4) Suc.prems(1) [unfolded loop_ok_def] le False by (simp_all add: loop_ok_def rw'_def)
    have k': "rw_remaining rw' \<le> k"
      using False pos Suc.prems(3) by (simp add: rw'_def) linarith
    show ?thesis
      unfolding step r using Suc.IH [OF ok' k' m'_def] st(2) by (simp add: delivered_def)
  qed
qed simp

lemma pread_long:
  assumes "nfs_wf nfs" "serves content srv" "length buf < 2 ^ 31" "unat off + length buf < 2 ^ 64"
    and "nfs_get_readmax nfs \<le> length buf"
  shows "\<exists>x buf' r. nfs_pread_async_internal nfs True f (length buf) off user upd = Some x
    \<and> read_run (Suc (length buf)) nfs srv x f buf = Some (f, buf', r)
    \<and> delivered content srv off buf buf' r"
proof -
  define rw where "rw = \<lparr>rw_buf = 0, rw_count = length buf, rw_remaining = length buf, rw_offset = off, rw_user = user\<rparr>"
  define m where "m = min (nfs_get_readmax nfs) (length buf)"
  have "loop_ok content off rw buf" "0 < rw_remaining rw" "rw_remaining rw \<le> Suc (length buf)"
      "m = min (nfs_get_readmax nfs) (rw_remaining rw)"
    using assms(3-5) readmax_bound [OF assms(1)] by (auto simp: loop_ok_def rw_def m_def)
  note del = read_loop_delivers [OF assms(1,2) this, of f "word_of_nat m"]
  have "nfs_pread_async_internal nfs True f (length buf) off user upd =
      Some (nfs3_fill_READ3args f (rw_offset rw) m,
        \<lparr>pr_cb = Read_loop rw, pr_offset = rw_offset rw, pr_count = word_of_nat m, pr_update_pos = False\<rparr>)"
    using assms(5) readmax_bound [OF assms(1)]
    by (auto simp: nfs_pread_async_internal_def nfs3_pread_async_internal_def Let_def rw_def m_def min_def)
  with del show ?thesis by blast
qed

text \<open>A read that takes one call.\<close>

lemma pread_short:
  assumes "nfs_wf nfs" "serves content srv" "length buf < 2 ^ 31" "unat off + length buf < 2 ^ 64"
    and "length buf < nfs_get_readmax nfs"
  shows "\<exists>x buf' r. nfs_pread_async_internal nfs True f (length buf) off user upd = Some x
    \<and> read_run (Suc (length buf)) nfs srv x f buf =
        Some (if upd then f\<lparr>foffset := off + word_of_int r\<rparr> else f, buf', r)
    \<and> delivered content srv off buf buf' r"
proof -
  define d where "d = \<lparr>pr_cb = Read_user user, pr_offset = off, pr_count = word_of_nat (length buf), pr_update_pos = upd\<rparr>"
  define bs where "bs = srv off (length buf)"
  have "loop_ok content off \<lparr>rw_buf = 0, rw_count = length buf, rw_remaining = length buf, rw_offset = off, rw_user = user\<rparr> buf"
    using assms(3,4) by (simp add: loop_ok_def)
  note st = loop_step [OF assms(2) this, of "length buf" bs "splice buf 0 bs", simplified, OF bs_def]
  have "nfs_pread_async_internal nfs True f (length buf) off user upd = Some (nfs3_fill_READ3args f off (length buf), d)"
    using assms(5) by (simp add: nfs_pread_async_internal_def nfs3_pread_async_internal_def d_def Let_def)
  moreover have "read_run (Suc (length buf)) nfs srv (nfs3_fill_READ3args f off (length buf), d) f buf
      = Some (if upd then f\<lparr>foffset := off + word_of_int (int (length bs))\<rparr> else f, splice buf 0 bs, int (length bs))"
    using assms(5) by (subst read_run_step [OF assms(1,2)]) (simp_all add: d_def read_at_def Let_def bs_def)
  moreover have "delivered content srv off buf (splice buf 0 bs) (int (length bs))"
    using st by (simp add: delivered_def bs_def)
  ultimately show ?thesis by blast
qed

text \<open>
  C6. A read through \<open>nfs_pread\<close> of less than \<open>2^31\<close> bytes, of a range that ends below \<open>2^64\<close>,
  delivers bytes of the file when every READ can be queued and is answered: however the server
  cuts its replies, the loop ends after at most one call more than bytes were asked for, the
  result is a number of bytes not above the count, the buffer holds that many bytes of the file
  from the offset on, and it is all there is up to the end of the file when the server sends what
  it is asked for. (The number of bytes is handed to the callback as an \<open>int\<close>, so that a longer
  read would report a wrong one.)
\<close>

theorem nfs_pread_reads:
  assumes "nfs_wf nfs" "serves content srv" "length buf < 2 ^ 31" "unat off + length buf < 2 ^ 64"
  shows "\<exists>x buf' r. nfs_pread_async nfs True f (length buf) off user = Some x
    \<and> read_run (Suc (length buf)) nfs srv x f buf = Some (f, buf', r)
    \<and> delivered content srv off buf buf' r"
  using pread_short [OF assms, of f user False] pread_long [OF assms, of f user False]
  by (cases "length buf < nfs_get_readmax nfs") (auto simp: nfs_pread_async_def)

text \<open>A file of 3000 bytes, read in one go by a server that never sends more than 1000.\<close>

definition short_server :: "nat \<Rightarrow> byte list \<Rightarrow> u64 \<Rightarrow> nat \<Rightarrow> byte list" where
  "short_server k content off n = take (min k n) (drop (unat off) content)"

lemma short_server_serves: "serves content (short_server k content)"
  unfolding serves_def short_server_def
proof (intro allI)
  show "\<exists>ka\<le>n. take (min k n) (drop (unat off) content) = take ka (drop (unat off) content)" for off n
    by (rule exI [of _ "min k n"]) simp
qed

theorem nfs_pread_reads_witness:
  "\<exists>x buf' r. nfs_pread_async sample_nfs True zero_nfsfh 9000 2 5 = Some x
    \<and> read_run 9001 sample_nfs (short_server 1000 (replicate 3000 7)) x zero_nfsfh (replicate 9000 0) = Some (zero_nfsfh, buf', r)
    \<and> delivered (replicate 3000 7) (short_server 1000 (replicate 3000 7)) 2 (replicate 9000 0) buf' r"
  using nfs_pread_reads [OF sample_nfs_wf short_server_serves, of "replicate 9000 0" 2 zero_nfsfh 5 1000 "replicate 3000 7"]
  by simp

text \<open>
  C37. What \<open>nfs_read\<close> of less than \<open>2^31\<close> bytes does to the file position, when every READ can be
  queued and is answered: a read of less than \<open>readmax\<close> bytes ends and has moved the position
  behind the bytes read; a longer one ends, too, and delivers bytes of the file, but does not move
  the position at all, however the server cuts its replies. The next \<open>nfs_read\<close> then returns the same bytes
  again.
\<close>

theorem nfs_read_position:
  assumes "nfs_wf nfs" "serves content srv" "length buf < 2 ^ 31" "unat (foffset f) + length buf < 2 ^ 64"
  shows "\<exists>x buf' r. nfs_read_async nfs True f (length buf) user = Some x
    \<and> read_run (Suc (length buf)) nfs srv x f buf =
        Some (if length buf < nfs_get_readmax nfs then f\<lparr>foffset := foffset f + word_of_int r\<rparr> else f, buf', r)
    \<and> delivered content srv (foffset f) buf buf' r"
proof (cases "length buf < nfs_get_readmax nfs")
  case True
  note p = pread_short [OF assms True, of f user True]
  then show ?thesis using True by (auto simp: nfs_read_async_def)
next
  case False
  then show ?thesis using pread_long [OF assms, of f user True] by (simp add: nfs_read_async_def)
qed

text \<open>Reads of 9000 and of 5 bytes from a file of 3000.\<close>

theorem nfs_read_position_witness:
  "(\<exists>x buf' r. nfs_read_async sample_nfs True zero_nfsfh 9000 5 = Some x
     \<and> read_run 9001 sample_nfs (short_server 1000 (replicate 3000 7)) x zero_nfsfh (replicate 9000 0) = Some (zero_nfsfh, buf', r))
   \<and> (\<exists>x buf' r. nfs_read_async sample_nfs True zero_nfsfh 5 5 = Some x
     \<and> read_run 6 sample_nfs (short_server 1000 (replicate 3000 7)) x zero_nfsfh (replicate 5 0) =
         Some (zero_nfsfh\<lparr>foffset := word_of_int r\<rparr>, buf', r))"
proof -
  have max: "nfs_get_readmax sample_nfs = 8192" by (simp add: nfs_get_readmax_def sample_nfs_def)
  show ?thesis
    using nfs_read_position [OF sample_nfs_wf short_server_serves, of "replicate 9000 0" zero_nfsfh 5 1000 "replicate 3000 7"]
      nfs_read_position [OF sample_nfs_wf short_server_serves, of "replicate 5 0" zero_nfsfh 5 1000 "replicate 3000 7"] max
    by (auto simp: zero_nfsfh_def)
qed

section \<open>Writing a file\<close>

text \<open>
  The file after bytes are written at an offset; a gap is filled with zeros, and writing nothing
  changes nothing.
\<close>

definition overlay :: "byte list \<Rightarrow> nat \<Rightarrow> byte list \<Rightarrow> byte list" where
  "overlay content off bs =
     (if bs = [] then content
      else take off (content @ replicate (off - length content) 0) @ bs @ drop (off + length bs) content)"

lemma overlay_overlay:
  "overlay (overlay content off xs) (off + length xs) ys = overlay content off (xs @ ys)"
proof (cases "xs = [] \<or> ys = []")
  case False
  have "length (take off (content @ replicate (off - length content) 0)) = off" by simp
  moreover have "off + length xs - length (overlay content off xs) = 0" using False by (simp add: overlay_def)
  ultimately show ?thesis using False by (simp add: overlay_def ac_simps)
qed (auto simp: overlay_def)

text \<open>
  A write carried out by a server that stores the first \<open>short off n\<close> bytes of each WRITE. One
  unit of fuel is used per call.
\<close>

fun write_run ::
    "nat \<Rightarrow> (u64 \<Rightarrow> nat \<Rightarrow> nat) \<Rightarrow> byte list \<Rightarrow> pwrite_data \<Rightarrow> nfs_mcb_data \<times> nfs3_call \<Rightarrow> nfsfh
      \<Rightarrow> (byte list \<times> nfsfh \<times> int) option" where
  "write_run 0 short content d x f = None"
| "write_run (Suc k) short content d (mdata, call) f =
     (case call of
        WRITE3args fh off n st bs \<Rightarrow>
          (let m = short off (unat n); content' = overlay content (unat off) (take m bs)
           in case nfs3_pwrite_mcb True RPC_STATUS_SUCCESS (Ok3 (word_of_nat m)) mdata d f of
                W_reissue d' mdata' call' \<Rightarrow> write_run k short content' d' (mdata', call') f
              | W_wait d' \<Rightarrow> None
              | W_done f' r \<Rightarrow> Some (content', f', r))
      | _ \<Rightarrow> None)"

declare write_run.simps(2) [simp del]

definition stores :: "(u64 \<Rightarrow> nat \<Rightarrow> nat) \<Rightarrow> bool" where
  "stores short \<longleftrightarrow> (\<forall>off n. short off n \<le> n \<and> (0 < n \<longrightarrow> 0 < short off n))"

text \<open>The single call that is left, for the bytes from \<open>p\<close> on of the \<open>n\<close> to be written.\<close>

definition rest_call :: "nfsfh \<Rightarrow> u64 \<Rightarrow> byte list \<Rightarrow> nat \<Rightarrow> nat \<Rightarrow> nfs_mcb_data \<times> nfs3_call" where
  "rest_call f off buf n p = (\<lparr>mc_offset = off + word_of_nat p, mc_count = n - p\<rparr>,
     nfs3_fill_WRITE3args f (off + word_of_nat p) (n - p) (drop p buf))"

definition write_ok :: "nfsfh \<Rightarrow> u64 \<Rightarrow> byte list \<Rightarrow> nat \<Rightarrow> pwrite_data \<Rightarrow> bool" where
  "write_ok f off buf n d \<longleftrightarrow> n < 2 ^ 31 \<and> n \<le> length buf \<and> unat off + n < 2 ^ 64
     \<and> pw_usrbuf d = buf \<and> pw_offset d = off \<and> pw_max_offset d = off \<and> pw_num_calls d = 1
     \<and> pw_error d = 0 \<and> \<not> pw_cancel d \<and> \<not> pw_oom d"

lemma ucast_word_of_nat_small: "n < 2 ^ 31 \<Longrightarrow> (ucast (word_of_nat n :: u32) :: u64) = word_of_nat n"
  by (simp add: unsigned_of_nat take_bit_nat_eq_self)

lemma mcb_stored_all:
  assumes ok: "write_ok f off buf n d" and p: "p < n \<or> n = 0 \<and> p = 0"
  shows "nfs3_pwrite_mcb True RPC_STATUS_SUCCESS (Ok3 (word_of_nat (n - p))) (fst (rest_call f off buf n p)) d f
    = W_done (if pw_update_pos d then f\<lparr>foffset := off + word_of_nat n\<rparr> else f) (int n)"
proof -
  note ok' = ok [unfolded write_ok_def]
  have c: "unat (word_of_nat (n - p) :: u32) = n - p" "(ucast (word_of_nat (n - p) :: u32) :: u64) = word_of_nat (n - p)"
    using less_imp_diff_less [of n "2 ^ 31" p] ok' unat_small [of "n - p"] ucast_word_of_nat_small [of "n - p"] by blast+
  have e: "off + word_of_nat p + word_of_nat (n - p) = off + word_of_nat n"
    using p by (auto simp: add.assoc simp flip: of_nat_add)
  have u: "unat (off + word_of_nat n) = unat off + n" using off_shift [of off n n] ok' by simp
  then have lt: "0 < n \<Longrightarrow> off < off + word_of_nat n" by (simp add: word_less_nat_alt)
  have s: "s32 (uint (word_of_nat n :: u64)) = int n"
    using ok' by (simp add: unsigned_of_nat take_bit_nat_eq_self s32_nonneg)
  show ?thesis
    using ok' p c e lt s
    by (auto simp: nfs3_pwrite_mcb_def rest_call_def pwrite_finish_def raise_max_def Let_def)
qed

lemma mcb_stored_some:
  assumes ok: "write_ok f off buf n d" and m: "0 < m" "p + m < n"
  shows "nfs3_pwrite_mcb True RPC_STATUS_SUCCESS (Ok3 (word_of_nat m)) (fst (rest_call f off buf n p)) d f
    = W_reissue d (fst (rest_call f off buf n (p + m))) (snd (rest_call f off buf n (p + m)))"
proof -
  note ok' = ok [unfolded write_ok_def]
  have c: "unat (word_of_nat m :: u32) = m" "(ucast (word_of_nat m :: u32) :: u64) = word_of_nat m"
    using ok' m unat_small [of m] ucast_word_of_nat_small [of m] by simp_all
  have e: "off + word_of_nat p + word_of_nat m = off + word_of_nat (p + m)" by (simp add: add.assoc)
  have u: "unat (word_of_nat (p + m) :: u64) = p + m"
    using ok' m by (simp add: unat_of_nat take_bit_nat_eq_self del: of_nat_add)
  have "m < n - p" using m by simp
  then show ?thesis
    using ok' m c u unfolding nfs3_pwrite_mcb_def rest_call_def Let_def
    by (simp add: c e [unfolded add.assoc] add.assoc del: of_nat_add)
qed

lemma fill_write_small:
  assumes "n \<le> length buf" "n < 2 ^ 31"
  shows "nfs3_fill_WRITE3args f off n buf =
    WRITE3args (nfh f) off (word_of_nat n) (if is_sync f then FILE_SYNC else UNSTABLE) (take n buf)"
  using assms by (simp add: nfs3_fill_WRITE3args_def unat_small)

lemma write_run_stores:
  assumes short: "stores short" and ok: "write_ok f off buf n d"
  shows "p < n \<or> n = 0 \<and> p = 0 \<Longrightarrow> n - p < k \<Longrightarrow>
    write_run k short (overlay content (unat off) (take p buf)) d (rest_call f off buf n p) f =
      Some (overlay content (unat off) (take n buf),
            if pw_update_pos d then f\<lparr>foffset := off + word_of_nat n\<rparr> else f, int n)"
proof (induction k arbitrary: p)
  case (Suc k)
  note ok' = ok [unfolded write_ok_def]
  define m where "m = short (off + word_of_nat p) (n - p)"
  have m: "m \<le> n - p" "0 < n - p \<Longrightarrow> 0 < m" using short by (simp_all add: stores_def m_def)
  have np: "n - p < 2 ^ 31" using ok' less_imp_diff_less by blast
  have call: "snd (rest_call f off buf n p) =
      WRITE3args (nfh f) (off + word_of_nat p) (word_of_nat (n - p)) (if is_sync f then FILE_SYNC else UNSTABLE)
        (take (n - p) (drop p buf))"
    using fill_write_small [of "n - p" "drop p buf"] ok' np diff_le_mono [of n "length buf" p]
    by (simp add: rest_call_def)
  have "unat (off + word_of_nat p) = unat off + p" using off_shift [of off n p] ok' Suc.prems(1) by auto
  moreover have "length (take p buf) = p" using ok' Suc.prems(1) by auto
  ultimately have content: "overlay (overlay content (unat off) (take p buf)) (unat (off + word_of_nat p)) (take m (take (n - p) (drop p buf)))
      = overlay content (unat off) (take (p + m) buf)"
    using overlay_overlay [of content "unat off" "take p buf" "take m (drop p buf)"] m
    by (simp add: take_add min_def)
  have step: "write_run (Suc k) short (overlay content (unat off) (take p buf)) d (rest_call f off buf n p) f =
      (case nfs3_pwrite_mcb True RPC_STATUS_SUCCESS (Ok3 (word_of_nat m)) (fst (rest_call f off buf n p)) d f of
         W_reissue d' mdata' call' \<Rightarrow>
           write_run k short (overlay content (unat off) (take (p + m) buf)) d' (mdata', call') f
       | W_wait d' \<Rightarrow> None
       | W_done f' r \<Rightarrow> Some (overlay content (unat off) (take (p + m) buf), f', r))"
    by (subst prod.collapse [of "rest_call f off buf n p", symmetric])
       (simp only: write_run.simps(2) call nfs3_call.case Let_def unat_small [OF np] m_def [symmetric] content fst_conv)
  show ?case
  proof (cases "m = n - p")
    case True
    then show ?thesis
      using mcb_stored_all [OF ok Suc.prems(1)] Suc.prems(1) unfolding step True by auto
  next
    case False
    then have "0 < m" "p + m < n" using m by (cases "n - p"; simp)+
    then show ?thesis
      using Suc.IH [of "p + m"] Suc.prems(2) unfolding step mcb_stored_some [OF ok \<open>0 < m\<close> \<open>p + m < n\<close>] by simp
  qed
qed simp

text \<open>A count that is not above the limit is one call: the loop runs once.\<close>

lemma pwrite_loop_once:
  "q i \<Longrightarrow> n \<le> wmax \<Longrightarrow> pwrite_loop q wmax f buf off i off n =
     Some ([(\<lparr>mc_offset = off, mc_count = n\<rparr>, nfs3_fill_WRITE3args f off n buf)], False)"
  by (subst pwrite_loop.simps) (simp add: Let_def)

lemma writemax_bound:
  "nfs_wf nfs \<Longrightarrow> 8192 \<le> nfs_get_writemax nfs \<and> nfs_get_writemax nfs \<le> 4194304"
  by (simp add: nfsi_wf_def xfer_ok_def nfs_get_writemax_def NFS_MIN_XFER_SIZE_def NFS_MAX_XFER_SIZE_def)

text \<open>
  C7. A write stores what it reports: for a server that may store less than it is sent, but
  always something, the client sends the rest again until all is stored; it ends, the file then
  has the first \<open>min count writemax\<close> bytes of the buffer at the offset and is otherwise unchanged,
  the callback gets that number, and the position is moved behind them if it was asked for.
\<close>

theorem nfs3_pwrite_stores:
  assumes "nfs_wf nfs" "stores short" "q 0" "cnt \<le> length buf" "unat off + cnt < 2 ^ 64"
    and "n = min cnt (nfs_get_writemax nfs)"
  shows "\<exists>f1 d x. nfs3_pwrite_async_internal nfs q f buf cnt off user upd = Some (f1, Some (d, [x]))
    \<and> f1 = f\<lparr>is_dirty := True\<rparr>
    \<and> write_run (Suc n) short content d x f1 =
        Some (overlay content (unat off) (take n buf),
              if upd then f1\<lparr>foffset := off + word_of_nat n\<rparr> else f1, int n)"
proof -
  define f1 where "f1 = f\<lparr>is_dirty := True\<rparr>"
  define d where "d = \<lparr>pw_user = user, pw_usrbuf = buf, pw_offset = off, pw_max_offset = off,
      pw_num_calls = 1, pw_error = 0, pw_cancel = False, pw_oom = False, pw_update_pos = upd\<rparr>"
  have n: "(if cnt > nfs_get_writemax nfs then nfs_get_writemax nfs else cnt) = n" "n \<le> nfs_get_writemax nfs" "n \<le> cnt"
    using assms(6) by simp_all
  have start: "nfs3_pwrite_async_internal nfs q f buf cnt off user upd = Some (f1, Some (d, [rest_call f1 off buf n 0]))"
    unfolding nfs3_pwrite_async_internal_def Let_def n(1) pwrite_loop_once [of q 0, OF assms(3) n(2)]
    by (simp add: f1_def d_def rest_call_def)
  have ok: "write_ok f1 off buf n d"
    using n(2,3) assms(4,5) writemax_bound [OF assms(1)] by (simp add: write_ok_def d_def)
  have "write_run (Suc n) short (overlay content (unat off) (take 0 buf)) d (rest_call f1 off buf n 0) f1 =
      Some (overlay content (unat off) (take n buf), if upd then f1\<lparr>foffset := off + word_of_nat n\<rparr> else f1, int n)"
    using write_run_stores [OF assms(2) ok, of 0 "Suc n"] by (cases n) (auto simp: d_def)
  with start show ?thesis by (simp add: f1_def overlay_def)
qed

theorem nfs3_pwrite_stores_witness:
  "\<exists>f1 d x. nfs3_pwrite_async_internal sample_nfs (\<lambda>_. True) zero_nfsfh [1, 2, 3, 4] 3 1 5 True = Some (f1, Some (d, [x]))
    \<and> write_run 4 (\<lambda>_ n. min n 1) [9, 9] d x f1 = Some ([9, 1, 2, 3], f1\<lparr>foffset := 4\<rparr>, 3)"
proof -
  have max: "nfs_get_writemax sample_nfs = 8192" by (simp add: nfs_get_writemax_def sample_nfs_def)
  have "stores (\<lambda>_ n. min n 1)" by (simp add: stores_def)
  from nfs3_pwrite_stores [OF sample_nfs_wf this, of "\<lambda>_. True" 3 "[1, 2, 3, 4]" 1 3 zero_nfsfh 5 True "[9, 9]"] max
  show ?thesis by (intro exI [of _ "zero_nfsfh\<lparr>is_dirty := True\<rparr>"]) (simp add: overlay_def)
qed

section \<open>Errors of open\<close>

text \<open>
  C40. A failed \<open>open\<close> reports \<open>ERANGE\<close>: the error number that the lookup, the ACCESS or the
  CREATE call ended with is translated a second time, as if it were a status of the server. The
  only other errors the user can see are \<open>EEXIST\<close> for a file that exists under \<open>O_CREAT\<close> with
  \<open>O_EXCL\<close>, and, where a missing file is to be created, those of the second lookup.
\<close>

theorem nfs3_open_reports_erange:
  assumes "err < 0"
    and "\<not> (err = - EEXIST \<and> ucast (op_flags od) AND (O_CREAT OR O_EXCL) = O_CREAT OR O_EXCL)"
    and "\<not> (err = - ENOENT \<and> has (ucast (op_flags od)) O_CREAT)"
  shows "nfs3_initial_open_cb nfs q od err ret = Some (Done (User (op_user od)) (- ERANGE) Message)
    \<and> nfs3_open_create_cb od err ret = Done (User (op_user od)) (- ERANGE) Message"
  using assms
  by (auto simp: nfs3_initial_open_cb_def nfs3_open_create_cb_def nfsstat3_to_errno_minus NFS3ERR_NOENT_def Let_def)

text \<open>Opening a missing file without \<open>O_CREAT\<close>.\<close>

theorem nfs3_open_reports_erange_witness:
  "nfs3_initial_open_cb sample_nfs True \<lparr>op_user = 3, op_path = ''/f'', op_object = [], op_flags = 0, op_mode = 0\<rparr>
     (- 2) Message = Some (Done (User 3) (- 34) Message)"
  using nfs3_open_reports_erange [of "- 2" "\<lparr>op_user = 3, op_path = ''/f'', op_object = [], op_flags = 0, op_mode = 0\<rparr>"
      sample_nfs True Message]
  by simp

section \<open>Seeking\<close>

text \<open>The position \<open>lseek\<close> is asked for, as an integer, for a file of the given size.\<close>

definition seek_target :: "nfsfh \<Rightarrow> u64 \<Rightarrow> u64 \<Rightarrow> seek_whence \<Rightarrow> int" where
  "seek_target f off fsize whence =
     sint off + (case whence of SEEK_SET \<Rightarrow> 0 | SEEK_CUR \<Rightarrow> uint (foffset f) | SEEK_END \<Rightarrow> uint fsize)"

definition nfs3_lseek :: "nfsfh \<Rightarrow> u64 \<Rightarrow> seek_whence \<Rightarrow> fattr3 \<Rightarrow> nat \<Rightarrow> (nfsfh \<times> act3) option" where
  "nfs3_lseek f off whence fa user =
     (case nfs3_lseek_async True f off whence user of
        Some (Seek_done f' a) \<Rightarrow> Some (f', a)
      | Some (Seek_ask _ off') \<Rightarrow> nfs3_lseek_1_cb RPC_STATUS_SUCCESS (Ok3 fa) off' f user
      | _ \<Rightarrow> None)"

lemma sint_uint_u64: "sint (w :: u64) = (if 2 ^ 63 \<le> uint w then uint w - 2 ^ 64 else uint w)"
proof -
  have b: "0 \<le> uint w" "uint w < 2 ^ 64" using uint_ge_0 [of w] uint_lt2p [of w] by simp_all
  have "sint w = (uint w + 2 ^ 63) mod 2 ^ 64 - 2 ^ 63"
    by (simp add: sint_uint signed_take_bit_eq_take_bit_shift take_bit_eq_mod)
  also have "\<dots> = (if 2 ^ 63 \<le> uint w then uint w - 2 ^ 64 else uint w)"
  proof (cases "2 ^ 63 \<le> uint w")
    case True
    then have "(uint w + 2 ^ 63) mod 2 ^ 64 = (uint w - 2 ^ 63) mod 2 ^ 64"
      using mod_add_self2 [of "uint w - 2 ^ 63" "2 ^ 64 :: int"] by (simp add: add.commute)
    also have "\<dots> = uint w - 2 ^ 63" using True b by simp
    finally show ?thesis using True by simp
  qed (use b in simp)
  finally show ?thesis .
qed

lemma sint_small_u64: "(w :: u64) < 2 ^ 63 \<Longrightarrow> sint w = uint w"
  using word_less_def [of w "2 ^ 63"] by (simp add: sint_uint_u64)

lemma uint_minus_u64:
  assumes "sint (w :: u64) < 0"
  shows "uint (- w) = - sint w"
proof -
  have "- w = word_of_int (- sint w)" by (simp flip: wi_hom_neg)
  then have "uint (- w) = (- sint w) mod 2 ^ 64" using uint_word_of_int [of "- sint w", where 'a = 64] by simp
  moreover have "sint w \<ge> - (2 ^ 63)" using sint_ge [of w] by simp
  ultimately show ?thesis using assms by (simp add: mod_pos_pos_trivial)
qed

lemma word_of_seek: "word_of_int (sint off + uint w) = (w :: u64) + off" "word_of_int (sint off) = (off :: u64)"
  by (simp_all flip: wi_hom_add add: add.commute)

lemma lseek_target:
  assumes "sint off \<noteq> - (2 ^ 63)" "fa_size fa < 2 ^ 63"
  shows "nfs3_lseek f off whence fa user =
    (if seek_target f off (fa_size fa) whence < 0
     then Some (f, Done (User user) (- EINVAL) (Offset (foffset f)))
     else Some (f\<lparr>foffset := word_of_int (seek_target f off (fa_size fa) whence)\<rparr>,
                Done (User user) 0 (Offset (word_of_int (seek_target f off (fa_size fa) whence)))))"
proof (cases whence)
  case SEEK_SET
  then show ?thesis
    by (simp add: nfs3_lseek_def nfs3_lseek_async_def seek_target_def)
next
  case SEEK_CUR
  have "foffset f < - off \<longleftrightarrow> sint off + uint (foffset f) < 0" if "sint off < 0"
    using uint_minus_u64 [OF that] by (simp add: word_less_def) linarith
  moreover have "\<not> sint off + uint (foffset f) < 0" if "\<not> sint off < 0"
    using that uint_ge_0 [of "foffset f"] by linarith
  ultimately have "sint off < 0 \<and> foffset f < - off \<longleftrightarrow> sint off + uint (foffset f) < 0" by blast
  with SEEK_CUR assms(1) show ?thesis
    by (simp add: nfs3_lseek_def nfs3_lseek_async_def seek_target_def word_of_seek)
next
  case SEEK_END
  have "sint off < 0 \<and> - sint off > sint (fa_size fa) \<longleftrightarrow> sint off + uint (fa_size fa) < 0"
    using sint_small_u64 [OF assms(2)] uint_ge_0 [of "fa_size fa"] by linarith
  with SEEK_END assms(1) show ?thesis
    by (simp add: nfs3_lseek_def nfs3_lseek_async_def nfs3_lseek_1_cb_def check_nfs3_error_def
        seek_target_def word_of_seek add.commute Let_def)
qed

text \<open>
  C28. Seeking is exact. Unless the offset is the smallest \<open>int64_t\<close>, and for a file whose size and
  position are below \<open>2^63\<close>, a seek to a negative position fails with \<open>EINVAL\<close> and keeps the
  position, and every other seek moves to the exact position and reports it. That includes
  positions of \<open>2^63\<close> and more, which do not fit the \<open>off_t\<close> of the system: these are not
  refused.
\<close>

theorem nfs3_lseek_exact:
  assumes "sint off \<noteq> - (2 ^ 63)" "fa_size fa < 2 ^ 63" "foffset f < 2 ^ 63"
  shows "if seek_target f off (fa_size fa) whence < 0
    then nfs3_lseek f off whence fa user = Some (f, Done (User user) (- EINVAL) (Offset (foffset f)))
    else \<exists>p. uint p = seek_target f off (fa_size fa) whence
      \<and> nfs3_lseek f off whence fa user = Some (f\<lparr>foffset := p\<rparr>, Done (User user) 0 (Offset p))"
proof -
  let ?t = "seek_target f off (fa_size fa) whence"
  have "sint off < 2 ^ 63" using sint_lt [of off] by simp
  then have "?t < 2 ^ 64"
    using assms(2,3) by (cases whence) (simp_all add: seek_target_def word_less_def)
  then have "uint (word_of_int ?t :: u64) = ?t" if "\<not> ?t < 0"
    using that by (simp add: uint_word_of_int)
  then show ?thesis using lseek_target [OF assms(1,2), of f whence user] by auto
qed

text \<open>Two bytes before the end of a file of ten, and before its beginning.\<close>

theorem nfs3_lseek_exact_witness:
  "nfs3_lseek zero_nfsfh (- 2) SEEK_END (zero_fattr\<lparr>fa_size := 10\<rparr>) 7 =
     Some (zero_nfsfh\<lparr>foffset := 8\<rparr>, Done (User 7) 0 (Offset 8))
   \<and> nfs3_lseek zero_nfsfh (- 2) SEEK_CUR (zero_fattr\<lparr>fa_size := 10\<rparr>) 7 =
     Some (zero_nfsfh, Done (User 7) (- 22) (Offset 0))"
proof -
  let ?fa = "zero_fattr\<lparr>fa_size := 10\<rparr>"
  have t: "seek_target zero_nfsfh (- 2) (fa_size ?fa) SEEK_END = 8" "seek_target zero_nfsfh (- 2) (fa_size ?fa) SEEK_CUR = - 2"
    by (simp_all add: seek_target_def zero_nfsfh_def)
  have "p = 8" if "uint p = 8" for p :: u64 using that by (metis word_of_int_uint of_int_numeral)
  then show ?thesis
    using nfs3_lseek_exact [of "- 2" ?fa zero_nfsfh SEEK_END 7] nfs3_lseek_exact [of "- 2" ?fa zero_nfsfh SEEK_CUR 7] t
    by (auto simp: zero_nfsfh_def)
qed

end
