(* ===== verification/Fan_In.thy ===== *)
theory Fan_In
  imports Prelude
begin

text \<open>
  Several calls in flight that share one completion: each reply lowers a count in the shared
  data, and the reply that finds nothing left calls the callback. The client uses this when it
  looks up the attributes of the entries of a directory and when it mounts nested exports.
  The locale states what a callback of such a group has to do; the lemma is that the callback
  of the user runs once, at the last reply, whatever the order.
\<close>

section \<open>The replies of a group\<close>

text \<open>
  A reply leaves the shared data for the others (\<open>Inl\<close>) or completes the group (\<open>Inr\<close>). The
  result of a sequence of replies also has those that came after the completion: each of them
  would use the freed data.
\<close>

fun run_replies :: "('m \<Rightarrow> 's \<Rightarrow> 's + 'd) \<Rightarrow> 'm list \<Rightarrow> 's \<Rightarrow> 's + 'd \<times> 'm list" where
  "run_replies reply [] s = Inl s"
| "run_replies reply (m # ms) s =
     (case reply m s of
        Inl s' \<Rightarrow> run_replies reply ms s'
      | Inr d \<Rightarrow> Inr (d, ms))"

lemma run_replies_append:
  "run_replies reply (ms @ ns) s =
     (case run_replies reply ms s of
        Inl s' \<Rightarrow> run_replies reply ns s'
      | Inr (d, rest) \<Rightarrow> Inr (d, rest @ ns))"
  by (induction ms arbitrary: s) (auto split: sum.splits)

section \<open>One completion\<close>

locale fan_in =
  fixes pending :: "'s \<Rightarrow> nat"
    and reply :: "'m \<Rightarrow> 's \<Rightarrow> 's + 'd"
  assumes reply_waits: "1 < pending s \<Longrightarrow> \<exists>s'. reply m s = Inl s' \<and> Suc (pending s') = pending s"
    and reply_completes: "pending s = 1 \<Longrightarrow> \<exists>d. reply m s = Inr d"
begin

lemma run_before_last:
  "length ms < pending s \<Longrightarrow> \<exists>s'. run_replies reply ms s = Inl s' \<and> pending s' + length ms = pending s"
proof (induction ms arbitrary: s)
  case (Cons m ms)
  then obtain s1 where s1: "reply m s = Inl s1" "Suc (pending s1) = pending s"
    using reply_waits [of s m] by auto
  with Cons.prems have "length ms < pending s1" by simp
  from Cons.IH [OF this] s1 show ?case by auto
qed simp

lemma completes_once:
  assumes "0 < pending s" "length ms = pending s"
  shows "\<exists>d. run_replies reply ms s = Inr (d, [])"
proof -
  from assms obtain ns m where ms: "ms = ns @ [m]" by (metis length_greater_0_conv rev_exhaust)
  with assms obtain s1 where "run_replies reply ns s = Inl s1" "pending s1 = 1"
    using run_before_last [of ns s] by auto
  then show ?thesis using reply_completes [of s1 m] by (auto simp: ms run_replies_append)
qed

end

end
