(* ===== verification/Nfs3_Dir.thy ===== *)
theory Nfs3_Dir
  imports Nfs3_Ops Fan_In
begin

text \<open>
  Reading a directory in \<open>src/lib/nfs_v3.c\<close>: the listing is taken from the cache or fetched page
  by page with READDIRPLUS; a server without READDIRPLUS is asked with READDIR, and the
  attributes that are missing in the end are fetched with one LOOKUP per entry, all in flight at
  once.

  The listing is \<open>data->continue_data\<close>; it is passed along beside the data. \<open>q\<close> says whether the
  next call can be queued and \<open>ql\<close> whether the LOOKUP for the entry at an index can.
\<close>

section \<open>Replies\<close>

record entry3 =
  en_fileid :: u64
  en_name :: string
  en_cookie :: u64

record entryplus3 = entry3 +
  en_attributes :: "fattr3 option"

record 'e READDIR3resok =
  rd_attributes :: "fattr3 option"
  rd_cookieverf :: "byte list"
  rd_entries :: "'e list"
  rd_eof :: bool

record rdpe_cb_data =
  getattrcount :: int
  rdpe_status :: rpc_status
  rdpe_data :: data3
  rdpe_dir :: nfsdir

text \<open>
  What comes next: a call for another page, the callback, or the LOOKUPs that are in flight, each
  for the entry at an index.
\<close>

datatype dir_act =
    Page nfs3_cb nfs3_call data3 nfsdir
  | Listed cb3 int nfs3_ret
  | Lookups rdpe_cb_data "(nat \<times> nfs3_call) list"

section \<open>The attributes of an entry\<close>

text \<open>From the attributes of a READDIRPLUS reply or of a nested export.\<close>

definition set_dirent :: "nfs_attr \<Rightarrow> nfsdirent \<Rightarrow> nfsdirent" where
  "set_dirent at e = e\<lparr>
     dtype := at_type at, dmode := at_mode at OR type_bits (at_type at), dsize := at_size at,
     datime := (ucast (fst (at_atime at)), ucast (snd (at_atime at) div 1000)), datime_nsec := snd (at_atime at),
     dmtime := (ucast (fst (at_mtime at)), ucast (snd (at_mtime at) div 1000)), dmtime_nsec := snd (at_mtime at),
     dctime := (ucast (fst (at_ctime at)), ucast (snd (at_ctime at) div 1000)), dctime_nsec := snd (at_ctime at),
     duid := at_uid at, dgid := at_gid at, dnlink := at_nlink at, ddev := at_fsid at,
     drdev := specdata3_to_rdev (at_rdev at), dblksize := NFS_BLKSIZE,
     dblocks := (at_used at + 512 - 1) div 512, dused := at_used at\<rparr>"

text \<open>From the reply to a LOOKUP.\<close>

definition set_dirent_lookup :: "fattr3 \<Rightarrow> nfsdirent \<Rightarrow> nfsdirent" where
  "set_dirent_lookup fa e = e\<lparr>
     dtype := fa_type fa, dmode := fa_mode fa OR type_bits (fa_type fa), dsize := fa_size fa,
     datime := (ucast (fst (fa_atime fa)), ucast (snd (fa_atime fa) div 1000)), datime_nsec := snd (fa_atime fa),
     dmtime := (ucast (fst (fa_mtime fa)), ucast (snd (fa_mtime fa) div 1000)), dmtime_nsec := snd (fa_mtime fa),
     dctime := (ucast (fst (fa_ctime fa)), ucast (snd (fa_ctime fa) div 1000)), dctime_nsec := snd (fa_ctime fa),
     duid := fa_uid fa, dgid := fa_gid fa, dnlink := fa_nlink fa, ddev := fa_fsid fa,
     drdev := specdata3_to_rdev (fa_rdev fa), dblksize := NFS_BLKSIZE,
     dblocks := (fa_used fa + 512 - 1) div 512, dused := fa_used fa\<rparr>"

text \<open>The loop that looks for a nested export with the name of an entry.\<close>

fun nested_attr :: "string \<Rightarrow> nat \<Rightarrow> string \<Rightarrow> nested_mounts list \<Rightarrow> nfs_attr option" where
  "nested_attr path splen name [] = None"
| "nested_attr path splen name (mnt # mnts) =
     (if take splen path \<noteq> take splen (nm_path mnt) then nested_attr path splen name mnts
      else if splen \<ge> length (nm_path mnt) \<or> nm_path mnt ! splen \<noteq> CHR ''/'' then nested_attr path splen name mnts
      else if drop (splen + 1) (nm_path mnt) \<noteq> name then nested_attr path splen name mnts
      else Some (nm_attr mnt))"

section \<open>The end of a listing\<close>

definition nfs3_opendir_3_cb ::
    "rpc_status \<Rightarrow> LOOKUP3res \<Rightarrow> nat \<Rightarrow> rdpe_cb_data \<Rightarrow> rdpe_cb_data + (cb3 \<times> int \<times> nfs3_ret)" where
  "nfs3_opendir_3_cb status res i rd =
     (let st = (case status of
                  RPC_STATUS_ERROR \<Rightarrow> RPC_STATUS_ERROR
                | RPC_STATUS_CANCEL \<Rightarrow> RPC_STATUS_CANCEL
                | RPC_STATUS_TIMEOUT \<Rightarrow> RPC_STATUS_CANCEL
                | RPC_STATUS_SUCCESS \<Rightarrow> rdpe_status rd);
          es = dentries (rdpe_dir rd);
          es' = (case (status, res) of
                   (RPC_STATUS_SUCCESS, Ok3 (_, Some fa)) \<Rightarrow> es[i := set_dirent_lookup fa (es ! i)]
                 | _ \<Rightarrow> es);
          rd' = rd\<lparr>getattrcount := getattrcount rd - 1, rdpe_status := st,
                   rdpe_dir := (rdpe_dir rd)\<lparr>dentries := es'\<rparr>\<rparr>
      in if getattrcount rd' = 0 then
           if st \<noteq> RPC_STATUS_SUCCESS then Inr (cb (rdpe_data rd'), - ENOMEM, Message)
           else Inr (cb (rdpe_data rd'), 0, Listing (rdpe_dir rd'))
         else Inl rd')"

text \<open>The LOOKUPs for the entries whose type is zero, from the index \<open>i\<close> on.\<close>

fun missing_lookups :: "(nat \<Rightarrow> bool) \<Rightarrow> nfs_fh \<Rightarrow> nat \<Rightarrow> nfsdirent list \<Rightarrow> (nat \<times> nfs3_call) list" where
  "missing_lookups ql fh i [] = []"
| "missing_lookups ql fh i (e # es) =
     (if dtype e \<noteq> 0 \<or> \<not> ql i then missing_lookups ql fh (Suc i) es
      else (i, LOOKUP3args fh (dname e)) # missing_lookups ql fh (Suc i) es)"

definition lookup_missing_attributes :: "(nat \<Rightarrow> bool) \<Rightarrow> nfsdir \<Rightarrow> data3 \<Rightarrow> rdpe_cb_data \<times> (nat \<times> nfs3_call) list" where
  "lookup_missing_attributes ql dir data =
     (let calls = missing_lookups ql (data_fh data) 0 (dentries dir)
      in (\<lparr>getattrcount = int (length calls), rdpe_status = RPC_STATUS_SUCCESS, rdpe_data = data, rdpe_dir = dir\<rparr>,
          calls))"

text \<open>The end that the callbacks for READDIR and READDIRPLUS share.\<close>

definition end_listing :: "(nat \<Rightarrow> bool) \<Rightarrow> fattr3 option \<Rightarrow> data3 \<Rightarrow> nfsdir \<Rightarrow> dir_act" where
  "end_listing ql dir_attributes data dir0 =
     (let dir = nfs_rewinddir (case dir_attributes of
                   None \<Rightarrow> dir0 | Some fa \<Rightarrow> dir0\<lparr>dattr := fattr3_to_nfs_attr fa\<rparr>)
      in case lookup_missing_attributes ql dir data of (rd, calls) \<Rightarrow>
           if getattrcount rd = 0 then Listed (cb data) 0 (Listing dir) else Lookups rd calls)"

section \<open>Pages\<close>

definition zero_verf :: "byte list" where "zero_verf = replicate 8 0"

definition readdir_page :: "'r nfs_context \<Rightarrow> bool \<Rightarrow> u64 \<Rightarrow> byte list \<Rightarrow> data3 \<Rightarrow> nfsdir \<Rightarrow> dir_act" where
  "readdir_page nfs q cookie vrf data dir =
     (if q then Page nfs3_opendir_readdir
                  (READDIR3args (data_fh data) cookie vrf (nfsi_readdir_dircount (nfsi nfs))) data dir
      else Listed (cb data) (- ENOMEM) Message)"

definition readdirplus_page :: "'r nfs_context \<Rightarrow> bool \<Rightarrow> u64 \<Rightarrow> byte list \<Rightarrow> data3 \<Rightarrow> nfsdir \<Rightarrow> dir_act" where
  "readdirplus_page nfs q cookie vrf data dir =
     (if q then Page nfs3_opendir_readdirplus
                  (READDIRPLUS3args (data_fh data) cookie vrf (nfsi_readdir_dircount (nfsi nfs))
                     (nfsi_readdir_maxcount (nfsi nfs))) data dir
      else Listed (cb data) (- ENOMEM) Message)"

text \<open>The loops over the entries of a page put each in front of the listing.\<close>

definition plain_entry :: "entry3 \<Rightarrow> nfsdirent" where
  "plain_entry e = zero_dirent\<lparr>dname := en_name e, dinode := en_fileid e\<rparr>"

fun add_entries :: "entry3 list \<Rightarrow> u64 \<Rightarrow> nfsdirent list \<Rightarrow> nfsdirent list \<times> u64" where
  "add_entries [] cookie ds = (ds, cookie)"
| "add_entries (e # es) cookie ds = add_entries es (en_cookie e) (plain_entry e # ds)"

definition plus_entry :: "'r nfs_context \<Rightarrow> string \<Rightarrow> entryplus3 \<Rightarrow> nfsdirent" where
  "plus_entry nfs path e =
     (let d = zero_dirent\<lparr>dname := en_name e, dinode := en_fileid e\<rparr>;
          splen = (if length path = 1 then 0 else length path)
      in case en_attributes e of
           Some fa \<Rightarrow> set_dirent (fattr3_to_nfs_attr fa) d
         | None \<Rightarrow>
             (case nested_attr path splen (en_name e) (nfsi_nested_mounts (nfsi nfs)) of
                Some at \<Rightarrow> set_dirent at d
              | None \<Rightarrow> d))"

fun add_entriesplus ::
    "'r nfs_context \<Rightarrow> string \<Rightarrow> entryplus3 list \<Rightarrow> u64 \<Rightarrow> nfsdirent list \<Rightarrow> nfsdirent list \<times> u64" where
  "add_entriesplus nfs path [] cookie ds = (ds, cookie)"
| "add_entriesplus nfs path (e # es) cookie ds =
     add_entriesplus nfs path es (en_cookie e) (plus_entry nfs path e # ds)"

definition nfs3_opendir_2_cb ::
    "'r nfs_context \<Rightarrow> bool \<Rightarrow> (nat \<Rightarrow> bool) \<Rightarrow> rpc_status \<Rightarrow> entry3 READDIR3resok res3 \<Rightarrow> data3 \<Rightarrow> nfsdir \<Rightarrow> dir_act" where
  "nfs3_opendir_2_cb nfs q ql status res data dir =
     (case check_nfs3_error status of
        Some e \<Rightarrow> Listed (cb data) e Message
      | None \<Rightarrow>
          (case res of
             Err3 st \<Rightarrow> Listed (cb data) (nfsstat3_to_errno st) Message
           | Ok3 r \<Rightarrow>
               (case add_entries (rd_entries r) 0 (dentries dir) of (ds, cookie) \<Rightarrow>
                  let dir' = dir\<lparr>dentries := ds\<rparr>
                  in if \<not> rd_eof r then readdir_page nfs q cookie (rd_cookieverf r) data dir'
                     else end_listing ql (rd_attributes r) data dir')))"

definition nfs3_opendir_cb ::
    "'r nfs_context \<Rightarrow> bool \<Rightarrow> (nat \<Rightarrow> bool) \<Rightarrow> rpc_status \<Rightarrow> entryplus3 READDIR3resok res3 \<Rightarrow> data3 \<Rightarrow> nfsdir \<Rightarrow> dir_act" where
  "nfs3_opendir_cb nfs q ql status res data dir =
     (case check_nfs3_error status of
        Some e \<Rightarrow> Listed (cb data) e Message
      | None \<Rightarrow>
          (case res of
             Err3 st \<Rightarrow>
               if st = NFS3ERR_NOTSUPP then readdir_page nfs q 0 zero_verf data dir
               else Listed (cb data) (nfsstat3_to_errno st) Message
           | Ok3 r \<Rightarrow>
               (case add_entriesplus nfs (saved_path data) (rd_entries r) 0 (dentries dir) of (ds, cookie) \<Rightarrow>
                  let dir' = dir\<lparr>dentries := ds\<rparr>
                  in if \<not> rd_eof r then readdirplus_page nfs q cookie (rd_cookieverf r) data dir'
                     else end_listing ql (rd_attributes r) data dir')))"

section \<open>Opening\<close>

text \<open>
  The listing \<open>nfsdir\<close> that \<open>nfs3_opendir_async\<close> allocated has the identity \<open>i\<close>. A cached listing
  that is stale is freed.
\<close>

definition nfs3_opendir_continue_internal ::
    "'r nfs_context \<Rightarrow> bool \<Rightarrow> nat \<Rightarrow> nfs_attr option \<Rightarrow> data3 \<Rightarrow> 'r nfs_context \<times> dir_act" where
  "nfs3_opendir_continue_internal nfs q i attr data =
     (let fresh = \<lparr>dir_id = i, dfh = data_fh data, dattr = zero_attr, dentries = [], dcurrent = None\<rparr>
      in case nfs_dircache_find nfs (data_fh data) of
           (nfs', Some cached) \<Rightarrow>
             (nfs', case attr of
                      Some a \<Rightarrow> if at_mtime a = at_mtime (dattr cached)
                                then Listed (cb data) 0 (Listing (nfs_rewinddir cached))
                                else readdirplus_page nfs' q 0 zero_verf data fresh
                    | None \<Rightarrow> readdirplus_page nfs' q 0 zero_verf data fresh)
         | (nfs', None) \<Rightarrow> (nfs', readdirplus_page nfs' q 0 zero_verf data fresh))"

definition nfs3_opendir_async :: "'r nfs_context \<Rightarrow> bool \<Rightarrow> string \<Rightarrow> nat \<Rightarrow> cb3 \<Rightarrow> act3 option option" where
  "nfs3_opendir_async nfs q path i c = nfs3_lookuppath_async nfs q (Some path) False c (opendir_continue i) 0"

section \<open>The attributes that are looked up\<close>

text \<open>Both ways to fill an entry give the same.\<close>

lemma set_dirent_lookup_eq: "set_dirent_lookup fa e = set_dirent (fattr3_to_nfs_attr fa) e"
  by (simp add: set_dirent_lookup_def set_dirent_def fattr3_to_nfs_attr_def)

lemma set_dirent_fields [simp]:
  "dname (set_dirent at e) = dname e" "dinode (set_dirent at e) = dinode e" "dtype (set_dirent at e) = at_type at"
  by (simp_all add: set_dirent_def)

definition pending_lookups :: "rdpe_cb_data \<Rightarrow> nat" where
  "pending_lookups rd = nat (getattrcount rd)"

definition lookup_reply :: "rpc_status \<times> LOOKUP3res \<times> nat \<Rightarrow> rdpe_cb_data \<Rightarrow> rdpe_cb_data + (cb3 \<times> int \<times> nfs3_ret)" where
  "lookup_reply m = (case m of (status, res, i) \<Rightarrow> nfs3_opendir_3_cb status res i)"

text \<open>The LOOKUPs for a listing are a group with one completion.\<close>

interpretation rdpe: fan_in pending_lookups lookup_reply
proof
  fix rd :: rdpe_cb_data and m :: "rpc_status \<times> LOOKUP3res \<times> nat"
  show "1 < pending_lookups rd \<Longrightarrow> \<exists>rd'. lookup_reply m rd = Inl rd' \<and> Suc (pending_lookups rd') = pending_lookups rd"
    by (cases m) (auto simp: pending_lookups_def lookup_reply_def nfs3_opendir_3_cb_def Let_def)
  show "pending_lookups rd = 1 \<Longrightarrow> \<exists>d. lookup_reply m rd = Inr d"
    by (cases m) (auto simp: pending_lookups_def lookup_reply_def nfs3_opendir_3_cb_def Let_def)
qed

text \<open>The callback and its error number at the end of the group.\<close>

lemma lookup_reply_inl:
  "lookup_reply (st, res, i) rd = Inl rd' \<Longrightarrow>
   rdpe_data rd' = rdpe_data rd
   \<and> (rdpe_status rd' = RPC_STATUS_SUCCESS \<longleftrightarrow> st = RPC_STATUS_SUCCESS \<and> rdpe_status rd = RPC_STATUS_SUCCESS)"
  by (auto simp: lookup_reply_def nfs3_opendir_3_cb_def Let_def split: if_splits rpc_status.splits)

lemma lookup_reply_inr:
  "lookup_reply (st, res, i) rd = Inr (c, err, ret) \<Longrightarrow>
   c = cb (rdpe_data rd)
   \<and> (err = 0 \<longleftrightarrow> st = RPC_STATUS_SUCCESS \<and> rdpe_status rd = RPC_STATUS_SUCCESS)"
  by (auto simp: lookup_reply_def nfs3_opendir_3_cb_def Let_def split: if_splits rpc_status.splits)

lemma run_lookups_result:
  "run_replies lookup_reply ms rd = Inr ((c, err, ret), []) \<Longrightarrow>
   c = cb (rdpe_data rd)
   \<and> (err = 0 \<longleftrightarrow> (\<forall>m \<in> set ms. fst m = RPC_STATUS_SUCCESS) \<and> rdpe_status rd = RPC_STATUS_SUCCESS)"
proof (induction ms arbitrary: rd)
  case (Cons m ms)
  obtain st res i where m: "m = (st, res, i)" by (metis prod_cases3)
  show ?case
  proof (cases "lookup_reply m rd")
    case (Inl rd1)
    with Cons.prems have "run_replies lookup_reply ms rd1 = Inr ((c, err, ret), [])" by simp
    from Cons.IH [OF this] lookup_reply_inl [OF Inl [unfolded m]] show ?thesis by (auto simp: m)
  next
    case (Inr d)
    with Cons.prems show ?thesis by (auto simp: m dest!: lookup_reply_inr)
  qed
qed simp

text \<open>
  C24. The LOOKUPs for the missing attributes complete the listing once: when each of them has been
  answered or has failed, in any order, the callback of \<open>opendir\<close> has been called by the last one
  and not before, and it reports success exactly if none of the calls failed.
\<close>

theorem nfs3_opendir_completes_once:
  assumes "lookup_missing_attributes ql dir data = (rd, calls)" "calls \<noteq> []" "length replies = length calls"
  shows "\<exists>err ret. run_replies lookup_reply replies rd = Inr ((cb data, err, ret), [])
    \<and> (err = 0 \<longleftrightarrow> (\<forall>m \<in> set replies. fst m = RPC_STATUS_SUCCESS))"
proof -
  have rd: "pending_lookups rd = length calls" "rdpe_data rd = data" "rdpe_status rd = RPC_STATUS_SUCCESS"
    using assms(1) by (auto simp: lookup_missing_attributes_def pending_lookups_def Let_def)
  with assms(2,3) obtain d where d: "run_replies lookup_reply replies rd = Inr (d, [])"
    using rdpe.completes_once [of rd replies] by auto
  then show ?thesis using run_lookups_result [of replies rd "fst d" "fst (snd d)" "snd (snd d)"] rd
    by (metis prod.collapse)
qed

text \<open>Two entries without attributes; the LOOKUP of the second is answered first, that of the first fails.\<close>

theorem nfs3_opendir_completes_once_witness:
  "\<exists>rd calls err ret. lookup_missing_attributes (\<lambda>_. True)
      \<lparr>dir_id = 0, dfh = [1], dattr = zero_attr,
       dentries = [zero_dirent\<lparr>dname := ''a''\<rparr>, zero_dirent\<lparr>dname := ''b''\<rparr>], dcurrent = Some 0\<rparr>
      (plain_data (User 1) stat_continue 0 [1]) = (rd, calls)
    \<and> run_replies lookup_reply [(RPC_STATUS_SUCCESS, Ok3 ([2], None), 1), (RPC_STATUS_TIMEOUT, Err3 5, 0)] rd =
        Inr ((User 1, err, ret), []) \<and> err \<noteq> 0"
  using nfs3_opendir_completes_once [of "\<lambda>_. True" "\<lparr>dir_id = 0, dfh = [1], dattr = zero_attr,
       dentries = [zero_dirent\<lparr>dname := ''a''\<rparr>, zero_dirent\<lparr>dname := ''b''\<rparr>], dcurrent = Some 0\<rparr>"
      "plain_data (User 1) stat_continue 0 [1]" _ _
      "[(RPC_STATUS_SUCCESS, Ok3 ([2], None), 1), (RPC_STATUS_TIMEOUT, Err3 5, 0)]", OF surjective_pairing]
  by (simp add: lookup_missing_attributes_def plain_data_def zero_dirent_def Let_def)

section \<open>The whole listing\<close>

text \<open>
  A server with a directory: its entries with their attributes, how many entries it sends from a
  cookie on (at least one), whether it has READDIRPLUS, and for which names it leaves the
  attributes out.
\<close>

record dir_server =
  ds_entries :: "entryplus3 list"
  ds_cut :: "u64 \<Rightarrow> nat"
  ds_plus :: bool
  ds_omit :: "string \<Rightarrow> bool"
  ds_attr :: "fattr3 option"

definition after_cookie :: "u64 \<Rightarrow> 'a entry3_scheme list \<Rightarrow> 'a entry3_scheme list" where
  "after_cookie c es = (if c = 0 then es else tl (dropWhile (\<lambda>e. en_cookie e \<noteq> c) es))"

definition page_of :: "dir_server \<Rightarrow> (entryplus3 \<Rightarrow> 'e) \<Rightarrow> u64 \<Rightarrow> 'e READDIR3resok res3" where
  "page_of srv f c =
     (let es = after_cookie c (ds_entries srv); n = max 1 (ds_cut srv c)
      in Ok3 \<lparr>rd_attributes = ds_attr srv, rd_cookieverf = zero_verf, rd_entries = map f (take n es),
              rd_eof = length es \<le> n\<rparr>)"

definition hide_attr :: "dir_server \<Rightarrow> entryplus3 \<Rightarrow> entryplus3" where
  "hide_attr srv e = (if ds_omit srv (en_name e) then e\<lparr>en_attributes := None\<rparr> else e)"

definition srv_find :: "dir_server \<Rightarrow> string \<Rightarrow> LOOKUP3res" where
  "srv_find srv name =
     (case find (\<lambda>e. en_name e = name) (ds_entries srv) of
        None \<Rightarrow> Err3 NFS3ERR_NOENT
      | Some e \<Rightarrow> Ok3 ([], en_attributes e))"

text \<open>The pages are fetched; one unit of fuel per call.\<close>

fun fetch :: "nat \<Rightarrow> 'r nfs_context \<Rightarrow> dir_server \<Rightarrow> dir_act \<Rightarrow> dir_act option" where
  "fetch 0 nfs srv a = None"
| "fetch (Suc k) nfs srv a =
     (case a of
        Page nfs3_opendir_readdirplus (READDIRPLUS3args _ c _ _ _) data dir \<Rightarrow>
          fetch k nfs srv (nfs3_opendir_cb nfs True (\<lambda>_. True) RPC_STATUS_SUCCESS
            (if ds_plus srv then page_of srv (hide_attr srv) c else Err3 NFS3ERR_NOTSUPP) data dir)
      | Page nfs3_opendir_readdir (READDIR3args _ c _ _) data dir \<Rightarrow>
          fetch k nfs srv (nfs3_opendir_2_cb nfs True (\<lambda>_. True) RPC_STATUS_SUCCESS
            (page_of srv entry3.truncate c) data dir)
      | _ \<Rightarrow> Some a)"

declare fetch.simps(2) [simp del]

text \<open>The LOOKUPs are answered in the order that \<open>order\<close> gives.\<close>

definition answer :: "dir_server \<Rightarrow> nat \<times> nfs3_call \<Rightarrow> rpc_status \<times> LOOKUP3res \<times> nat" where
  "answer srv x = (case x of
     (i, LOOKUP3args _ name) \<Rightarrow> (RPC_STATUS_SUCCESS, srv_find srv name, i)
   | (i, _) \<Rightarrow> (RPC_STATUS_ERROR, Err3 0, i))"

definition finish :: "dir_server \<Rightarrow> ((nat \<times> nfs3_call) list \<Rightarrow> (nat \<times> nfs3_call) list) \<Rightarrow> dir_act
      \<Rightarrow> (cb3 \<times> int \<times> nfs3_ret) option" where
  "finish srv order a =
     (case a of
        Listed c err ret \<Rightarrow> Some (c, err, ret)
      | Lookups rd calls \<Rightarrow>
          (case run_replies lookup_reply (map (answer srv) (order calls)) rd of
             Inr (d, []) \<Rightarrow> Some d
           | _ \<Rightarrow> None)
      | Page _ _ _ _ \<Rightarrow> None)"

text \<open>The listing that the user is to get.\<close>

definition true_entry :: "entryplus3 \<Rightarrow> nfsdirent" where
  "true_entry e = set_dirent (fattr3_to_nfs_attr (the (en_attributes e)))
     (zero_dirent\<lparr>dname := en_name e, dinode := en_fileid e\<rparr>)"

definition dir_server_ok :: "dir_server \<Rightarrow> bool" where
  "dir_server_ok srv \<longleftrightarrow>
     distinct (map en_cookie (ds_entries srv)) \<and> 0 \<notin> en_cookie ` set (ds_entries srv)
     \<and> distinct (map en_name (ds_entries srv))
     \<and> (\<forall>e \<in> set (ds_entries srv). \<exists>fa. en_attributes e = Some fa \<and> fa_type fa \<noteq> 0)"

definition cookie_at :: "u64 \<Rightarrow> 'a entry3_scheme list \<Rightarrow> u64" where
  "cookie_at c es = (if es = [] then c else en_cookie (last es))"

lemma after_cookie_at:
  assumes "distinct (map en_cookie (xs @ ys))" "0 \<notin> en_cookie ` set xs"
  shows "after_cookie (cookie_at 0 xs) (xs @ ys) = ys"
proof (cases xs rule: rev_cases)
  case (snoc us x)
  with assms have "en_cookie x \<noteq> 0" "en_cookie x \<notin> en_cookie ` set us" by auto
  then have "\<forall>u \<in> set us. en_cookie u \<noteq> en_cookie x" by (metis imageI)
  then have "dropWhile (\<lambda>e. en_cookie e \<noteq> en_cookie x) (us @ x # ys) = x # ys"
    by (simp add: dropWhile_append2)
  with snoc \<open>en_cookie x \<noteq> 0\<close> show ?thesis by (simp add: after_cookie_def cookie_at_def)
qed (simp add: after_cookie_def cookie_at_def)

lemma add_entries_eq: "add_entries es c ds = (rev (map plain_entry es) @ ds, cookie_at c es)"
  by (induction es arbitrary: c ds) (auto simp: cookie_at_def)

lemma add_entriesplus_eq:
  "add_entriesplus nfs path es c ds = (rev (map (plus_entry nfs path) es) @ ds, cookie_at c es)"
  by (induction es arbitrary: c ds) (auto simp: cookie_at_def)

lemma cookie_at_map: "(\<And>e. en_cookie (f e) = en_cookie e) \<Longrightarrow> cookie_at c (map f es) = cookie_at c es"
  by (cases es rule: rev_cases) (auto simp: cookie_at_def)

lemma cookie_at_truncate: "cookie_at c (map entry3.truncate es) = cookie_at c es"
  by (cases es rule: rev_cases) (auto simp: cookie_at_def entry3.truncate_def)

lemma cookie_at_append: "ys \<noteq> [] \<Longrightarrow> cookie_at c (xs @ ys) = cookie_at d ys"
  by (simp add: cookie_at_def)

text \<open>One page: the entries are added and the listing goes on behind them, or ends.\<close>

lemma page_step:
  assumes "distinct (map en_cookie (ds_entries srv))" "0 \<notin> en_cookie ` set (ds_entries srv)"
    and "ds_entries srv = xs @ ys" "n = max 1 (ds_cut srv (cookie_at 0 xs))"
  shows "page_of srv f (cookie_at 0 xs) =
    Ok3 \<lparr>rd_attributes = ds_attr srv, rd_cookieverf = zero_verf, rd_entries = map f (take n ys),
         rd_eof = length ys \<le> n\<rparr>"
proof -
  have "0 \<notin> en_cookie ` set xs" using assms(2,3) by auto
  then have "after_cookie (cookie_at 0 xs) (xs @ ys) = ys" using after_cookie_at assms(1,3) by metis
  then show ?thesis by (simp add: page_of_def assms(3,4) Let_def)
qed

definition plus_seen :: "dir_server \<Rightarrow> 'r nfs_context \<Rightarrow> data3 \<Rightarrow> entryplus3 \<Rightarrow> nfsdirent" where
  "plus_seen srv nfs data e = plus_entry nfs (saved_path data) (hide_attr srv e)"

definition plain_seen :: "entryplus3 \<Rightarrow> nfsdirent" where
  "plain_seen e = plain_entry (entry3.truncate e)"

lemma fetch_end [simp]: "fetch (Suc k) nfs srv (end_listing ql at data dir) = Some (end_listing ql at data dir)"
  by (simp add: fetch.simps(2) end_listing_def lookup_missing_attributes_def Let_def)

lemma fetch_plus:
  assumes "distinct (map en_cookie (ds_entries srv))" "0 \<notin> en_cookie ` set (ds_entries srv)" "ds_plus srv"
    and "ds_entries srv = xs @ ys" "length ys < k"
  shows "fetch (Suc k) nfs srv (readdirplus_page nfs True (cookie_at 0 xs) v data
           (dir\<lparr>dentries := rev (map (plus_seen srv nfs data) xs)\<rparr>)) =
    Some (end_listing (\<lambda>_. True) (ds_attr srv) data
           (dir\<lparr>dentries := rev (map (plus_seen srv nfs data) (ds_entries srv))\<rparr>))"
  using assms(4,5)
proof (induction k arbitrary: xs ys v)
  case (Suc k)
  define n where "n = max 1 (ds_cut srv (cookie_at 0 xs))"
  note page = page_step [OF assms(1,2) Suc.prems(1) n_def]
  have ents: "add_entriesplus nfs (saved_path data) (map (hide_attr srv) zs) 0 (rev (map (plus_seen srv nfs data) xs)) =
      (rev (map (plus_seen srv nfs data) (xs @ zs)), cookie_at 0 zs)" for zs
    by (simp add: add_entriesplus_eq plus_seen_def cookie_at_map hide_attr_def comp_def)
  show ?case
  proof (cases "length ys \<le> n")
    case True
    with Suc.prems show ?thesis
      by (simp add: fetch.simps(2) [of "Suc k"] readdirplus_page_def nfs3_opendir_cb_def assms(3) page ents)
  next
    case False
    define zs where "zs = take n ys"
    from False have "zs \<noteq> []" "ds_entries srv = (xs @ zs) @ drop n ys" "length (drop n ys) < k"
      using Suc.prems n_def by (auto simp: zs_def)
    note IH = Suc.IH [OF this(2,3), of zero_verf]
    have "fetch (Suc (Suc k)) nfs srv (readdirplus_page nfs True (cookie_at 0 xs) v data
           (dir\<lparr>dentries := rev (map (plus_seen srv nfs data) xs)\<rparr>)) =
        fetch (Suc k) nfs srv (readdirplus_page nfs True (cookie_at 0 zs) zero_verf data
           (dir\<lparr>dentries := rev (map (plus_seen srv nfs data) (xs @ zs))\<rparr>))"
      using False by (simp add: fetch.simps(2) [of "Suc k"] readdirplus_page_def nfs3_opendir_cb_def assms(3)
          page ents [unfolded zs_def] zs_def [symmetric])
    with IH show ?thesis by (simp add: cookie_at_append [OF \<open>zs \<noteq> []\<close>, of 0 xs 0])
  qed
qed simp

lemma fetch_plain:
  assumes "distinct (map en_cookie (ds_entries srv))" "0 \<notin> en_cookie ` set (ds_entries srv)"
    and "ds_entries srv = xs @ ys" "length ys < k"
  shows "fetch (Suc k) nfs srv (readdir_page nfs True (cookie_at 0 xs) v data
           (dir\<lparr>dentries := rev (map plain_seen xs)\<rparr>)) =
    Some (end_listing (\<lambda>_. True) (ds_attr srv) data
           (dir\<lparr>dentries := rev (map plain_seen (ds_entries srv))\<rparr>))"
  using assms(3,4)
proof (induction k arbitrary: xs ys v)
  case (Suc k)
  define n where "n = max 1 (ds_cut srv (cookie_at 0 xs))"
  note page = page_step [OF assms(1,2) Suc.prems(1) n_def]
  have ents: "add_entries (map entry3.truncate zs) 0 (rev (map plain_seen xs)) =
      (rev (map plain_seen (xs @ zs)), cookie_at 0 zs)" for zs :: "entryplus3 list"
    by (simp add: add_entries_eq cookie_at_truncate plain_seen_def comp_def)
  show ?case
  proof (cases "length ys \<le> n")
    case True
    with Suc.prems show ?thesis
      by (simp add: fetch.simps(2) [of "Suc k"] readdir_page_def nfs3_opendir_2_cb_def page ents)
  next
    case False
    define zs where "zs = take n ys"
    from False have "zs \<noteq> []" "ds_entries srv = (xs @ zs) @ drop n ys" "length (drop n ys) < k"
      using Suc.prems n_def by (auto simp: zs_def)
    note IH = Suc.IH [OF this(2,3), of zero_verf]
    have "fetch (Suc (Suc k)) nfs srv (readdir_page nfs True (cookie_at 0 xs) v data
           (dir\<lparr>dentries := rev (map plain_seen xs)\<rparr>)) =
        fetch (Suc k) nfs srv (readdir_page nfs True (cookie_at 0 zs) zero_verf data
           (dir\<lparr>dentries := rev (map plain_seen (xs @ zs))\<rparr>))"
      using False by (simp add: fetch.simps(2) [of "Suc k"] readdir_page_def nfs3_opendir_2_cb_def
          page ents [unfolded zs_def] zs_def [symmetric])
    with IH show ?thesis by (simp add: cookie_at_append [OF \<open>zs \<noteq> []\<close>, of 0 xs 0])
  qed
qed simp

section \<open>The entries filled in\<close>

definition fill :: "(string \<Rightarrow> fattr3) \<Rightarrow> nat set \<Rightarrow> nfsdirent list \<Rightarrow> nfsdirent list" where
  "fill af I es = map (\<lambda>i. if i \<in> I then set_dirent_lookup (af (dname (es ! i))) (es ! i) else es ! i) [0 ..< length es]"

lemma fill_step:
  assumes "i \<notin> I" "i < length es"
  shows "fill af I (es[i := set_dirent_lookup (af (dname (es ! i))) (es ! i)]) = fill af (insert i I) es"
  using assms by (intro nth_equalityI) (auto simp: fill_def nth_list_update)

lemma fill_empty [simp]: "fill af {} es = es"
  by (intro nth_equalityI) (auto simp: fill_def)

lemma lookup_reply_ok:
  "srv_find srv (dname e) = Ok3 ([], Some fa) \<Longrightarrow> rdpe_status rd = RPC_STATUS_SUCCESS \<Longrightarrow>
   lookup_reply (answer srv (i, LOOKUP3args fh (dname e))) rd =
     (let rd' = rd\<lparr>getattrcount := getattrcount rd - 1,
                   rdpe_dir := (rdpe_dir rd)\<lparr>dentries := (dentries (rdpe_dir rd))
                     [i := set_dirent_lookup fa (dentries (rdpe_dir rd) ! i)]\<rparr>\<rparr>
      in if getattrcount rd = 1 then Inr (cb (rdpe_data rd), 0, Listing (rdpe_dir rd')) else Inl rd')"
  by (simp add: lookup_reply_def answer_def nfs3_opendir_3_cb_def Let_def)

definition to_lookup ::
    "dir_server \<Rightarrow> (string \<Rightarrow> fattr3) \<Rightarrow> nfs_fh \<Rightarrow> nfsdirent list \<Rightarrow> nat \<times> nfs3_call \<Rightarrow> bool" where
  "to_lookup srv af fh es x \<longleftrightarrow> fst x < length es \<and> snd x = LOOKUP3args fh (dname (es ! fst x))
     \<and> srv_find srv (dname (es ! fst x)) = Ok3 ([], Some (af (dname (es ! fst x))))"

lemma run_lookups_fill:
  assumes "ms \<noteq> []" "getattrcount rd = int (length ms)" "rdpe_status rd = RPC_STATUS_SUCCESS"
    and "distinct (map fst ms)"
    and "\<forall>x \<in> set ms. to_lookup srv af fh (dentries (rdpe_dir rd)) x"
  shows "run_replies lookup_reply (map (answer srv) ms) rd =
    Inr ((cb (rdpe_data rd), 0,
          Listing ((rdpe_dir rd)\<lparr>dentries := fill af (fst ` set ms) (dentries (rdpe_dir rd))\<rparr>)), [])"
  using assms
proof (induction ms arbitrary: rd)
  case (Cons m ms)
  obtain i call where m: "m = (i, call)" by (cases m)
  define es where "es = dentries (rdpe_dir rd)"
  define rd' where "rd' = rd\<lparr>getattrcount := getattrcount rd - 1,
      rdpe_dir := (rdpe_dir rd)\<lparr>dentries := es[i := set_dirent_lookup (af (dname (es ! i))) (es ! i)]\<rparr>\<rparr>"
  from Cons.prems(5) have i: "i < length es" "call = LOOKUP3args fh (dname (es ! i))"
      "srv_find srv (dname (es ! i)) = Ok3 ([], Some (af (dname (es ! i))))"
    by (simp_all add: m es_def to_lookup_def)
  have step: "lookup_reply (answer srv m) rd =
      (if ms = [] then Inr (cb (rdpe_data rd), 0, Listing (rdpe_dir rd')) else Inl rd')"
    using lookup_reply_ok [OF i(3) Cons.prems(3), of i fh] Cons.prems(2)
    by (simp add: m i(2) rd'_def es_def Let_def)
  have fresh: "i \<notin> fst ` set ms" using Cons.prems(4) by (simp add: m)
  show ?case
  proof (cases "ms = []")
    case True
    with step i(1) show ?thesis using fill_step [of i "{}" es af] by (simp add: m rd'_def es_def)
  next
    case False
    have "run_replies lookup_reply (map (answer srv) ms) rd' =
      Inr ((cb (rdpe_data rd'), 0, Listing ((rdpe_dir rd')\<lparr>dentries := fill af (fst ` set ms) (dentries (rdpe_dir rd'))\<rparr>)), [])"
    proof (rule Cons.IH [OF False])
      show "getattrcount rd' = int (length ms)" "rdpe_status rd' = RPC_STATUS_SUCCESS" "distinct (map fst ms)"
        using Cons.prems by (simp_all add: rd'_def)
      show "\<forall>x \<in> set ms. to_lookup srv af fh (dentries (rdpe_dir rd')) x"
      proof
        fix x assume x: "x \<in> set ms"
        with fresh have "fst x \<noteq> i" by (metis imageI)
        with x Cons.prems(5) show "to_lookup srv af fh (dentries (rdpe_dir rd')) x"
          by (simp add: to_lookup_def rd'_def es_def)
      qed
    qed
    with False step fill_step [OF fresh i(1), of af] show ?thesis by (simp add: m rd'_def es_def)
  qed
qed simp

lemma missing_lookups_spec:
  "missing_lookups (\<lambda>_. True) fh k es =
     map (\<lambda>i. (k + i, LOOKUP3args fh (dname (es ! i)))) (filter (\<lambda>i. dtype (es ! i) = 0) [0 ..< length es])"
proof (induction es arbitrary: k)
  case (Cons e es)
  have "[0 ..< length (e # es)] = 0 # map Suc [0 ..< length es]" by (simp add: upt_conv_Cons map_Suc_upt del: upt_Suc)
  with Cons show ?case by (simp add: filter_map comp_def)
qed simp

definition known_attr :: "dir_server \<Rightarrow> string \<Rightarrow> fattr3" where
  "known_attr srv name = (case srv_find srv name of Ok3 (_, Some fa) \<Rightarrow> fa | _ \<Rightarrow> zero_fattr)"

lemma find_by_name:
  "distinct (map en_name es) \<Longrightarrow> e \<in> set es \<Longrightarrow> find (\<lambda>x. en_name x = en_name e) es = Some e"
proof (induction es)
  case (Cons a es)
  then show ?case by (cases "a = e") (auto simp: image_iff)
qed simp

lemma srv_find_entry:
  assumes "dir_server_ok srv" "e \<in> set (ds_entries srv)"
  shows "srv_find srv (en_name e) = Ok3 ([], Some (known_attr srv (en_name e)))"
    and "known_attr srv (en_name e) = the (en_attributes e)"
    and "fa_type (the (en_attributes e)) \<noteq> 0"
  using assms find_by_name [of "ds_entries srv" e]
  by (auto simp: dir_server_ok_def srv_find_def known_attr_def)

lemma seen_entry:
  assumes "dir_server_ok srv" "e \<in> set (ds_entries srv)"
  shows "dname (plain_seen e) = en_name e" "dtype (plain_seen e) = 0" "dtype (true_entry e) \<noteq> 0"
    and "set_dirent_lookup (known_attr srv (en_name e)) (plain_seen e) = true_entry e"
  using srv_find_entry [OF assms]
  by (simp_all add: plain_seen_def plain_entry_def zero_dirent_def true_entry_def set_dirent_lookup_eq
      entry3.truncate_def fattr3_to_nfs_attr_def)

text \<open>What the listing of a page has for an entry: all or nothing of its attributes.\<close>

definition half_seen :: "dir_server \<Rightarrow> nfsdirent list \<Rightarrow> bool" where
  "half_seen srv ds \<longleftrightarrow> length ds = length (ds_entries srv)
     \<and> (\<forall>i < length ds. ds ! i = true_entry (rev (ds_entries srv) ! i) \<or> ds ! i = plain_seen (rev (ds_entries srv) ! i))"

lemma half_seen_map:
  assumes "\<forall>e \<in> set (ds_entries srv). f e = true_entry e \<or> f e = plain_seen e"
  shows "half_seen srv (rev (map f (ds_entries srv)))"
proof -
  have "rev (ds_entries srv) ! i \<in> set (ds_entries srv)" if "i < length (ds_entries srv)" for i
    using that nth_mem [of i "rev (ds_entries srv)"] by simp
  with assms show ?thesis by (simp add: half_seen_def rev_map)
qed

lemma half_seen_fill:
  assumes "dir_server_ok srv" "half_seen srv ds"
  shows "fill (known_attr srv) {i. i < length ds \<and> dtype (ds ! i) = 0} ds = rev (map true_entry (ds_entries srv))"
proof (intro nth_equalityI)
  fix i assume "i < length (fill (known_attr srv) {i. i < length ds \<and> dtype (ds ! i) = 0} ds)"
  then have i: "i < length ds" by (simp add: fill_def)
  with assms(2) have "rev (ds_entries srv) ! i \<in> set (ds_entries srv)"
    using nth_mem [of i "rev (ds_entries srv)"] by (simp add: half_seen_def)
  note e = seen_entry [OF assms(1) this]
  from assms(2) i have "ds ! i = true_entry (rev (ds_entries srv) ! i) \<or> ds ! i = plain_seen (rev (ds_entries srv) ! i)"
    by (simp add: half_seen_def)
  with i e assms(2) show "fill (known_attr srv) {i. i < length ds \<and> dtype (ds ! i) = 0} ds ! i =
      rev (map true_entry (ds_entries srv)) ! i"
    by (auto simp: fill_def half_seen_def rev_map)
qed (use assms(2) in \<open>simp add: fill_def half_seen_def\<close>)

lemma missing_to_lookup:
  assumes "dir_server_ok srv" "half_seen srv ds" "x \<in> set (missing_lookups (\<lambda>_. True) fh 0 ds)"
  shows "to_lookup srv (known_attr srv) fh ds x"
proof -
  from assms(3) obtain i where x: "x = (i, LOOKUP3args fh (dname (ds ! i)))" "i < length ds" "dtype (ds ! i) = 0"
    by (auto simp: missing_lookups_spec)
  with assms(2) have e: "rev (ds_entries srv) ! i \<in> set (ds_entries srv)"
    using nth_mem [of i "rev (ds_entries srv)"] by (simp add: half_seen_def)
  then have "ds ! i = plain_seen (rev (ds_entries srv) ! i)"
    using assms(2) x seen_entry [OF assms(1) e] by (auto simp: half_seen_def)
  then show ?thesis using x seen_entry [OF assms(1) e] srv_find_entry [OF assms(1) e] by (simp add: to_lookup_def)
qed

lemma plus_seen_half:
  assumes "dir_server_ok srv" "nfsi_nested_mounts (nfsi nfs) = []" "e \<in> set (ds_entries srv)"
  shows "plus_seen srv nfs data e = true_entry e \<or> plus_seen srv nfs data e = plain_seen e"
proof -
  from assms(1,3) obtain fa where "en_attributes e = Some fa" by (auto simp: dir_server_ok_def)
  with assms(2) show ?thesis
    by (simp add: plus_seen_def plus_entry_def hide_attr_def true_entry_def plain_seen_def plain_entry_def
        entry3.truncate_def Let_def)
qed

definition listing_of :: "dir_server \<Rightarrow> nat \<Rightarrow> nfs_fh \<Rightarrow> nfsdir" where
  "listing_of srv i fh =
     nfs_rewinddir \<lparr>dir_id = i, dfh = fh,
       dattr = (case ds_attr srv of None \<Rightarrow> zero_attr | Some fa \<Rightarrow> fattr3_to_nfs_attr fa),
       dentries = rev (map true_entry (ds_entries srv)), dcurrent = None\<rparr>"

lemma finish_end:
  assumes "dir_server_ok srv" "half_seen srv ds" "\<And>calls. mset (order calls) = mset calls"
  shows "finish srv order (end_listing (\<lambda>_. True) (ds_attr srv) data
           \<lparr>dir_id = i, dfh = fh, dattr = zero_attr, dentries = ds, dcurrent = None\<rparr>) =
    Some (cb data, 0, Listing (listing_of srv i fh))"
proof -
  define dir where "dir = nfs_rewinddir (case ds_attr srv of
      None \<Rightarrow> \<lparr>dir_id = i, dfh = fh, dattr = zero_attr, dentries = ds, dcurrent = None\<rparr>
    | Some fa \<Rightarrow> \<lparr>dir_id = i, dfh = fh, dattr = fattr3_to_nfs_attr fa, dentries = ds, dcurrent = None\<rparr>)"
  define calls where "calls = missing_lookups (\<lambda>_. True) (data_fh data) 0 ds"
  have len: "length ds = length (ds_entries srv)" using assms(2) by (simp add: half_seen_def)
  then have nil: "ds = [] \<longleftrightarrow> ds_entries srv = []" by auto
  have dir: "dentries dir = ds"
    "dir\<lparr>dentries := rev (map true_entry (ds_entries srv))\<rparr> = listing_of srv i fh"
    by (auto simp: dir_def listing_of_def nfs_rewinddir_def at_entry_def nil split: option.splits)
  have act: "end_listing (\<lambda>_. True) (ds_attr srv) data
        \<lparr>dir_id = i, dfh = fh, dattr = zero_attr, dentries = ds, dcurrent = None\<rparr> =
      (if calls = [] then Listed (cb data) 0 (Listing dir)
       else Lookups \<lparr>getattrcount = int (length calls), rdpe_status = RPC_STATUS_SUCCESS, rdpe_data = data,
              rdpe_dir = dir\<rparr> calls)"
    by (cases "ds_attr srv")
       (simp_all add: end_listing_def lookup_missing_attributes_def calls_def Let_def dir_def nfs_rewinddir_def)
  have idx: "fst ` set calls = {i. i < length ds \<and> dtype (ds ! i) = 0}" "distinct (map fst calls)"
    by (auto simp: calls_def missing_lookups_spec comp_def image_iff)
  note filled = half_seen_fill [OF assms(1,2), folded idx(1)]
  show ?thesis
  proof (cases "calls = []")
    case True
    with filled have "ds = rev (map true_entry (ds_entries srv))" by simp
    with dir have "dir = listing_of srv i fh" by (metis nfsdir.surjective nfsdir.update_convs(4) nfsdir.select_convs(4))
    with True act show ?thesis by (simp add: finish_def)
  next
    case False
    have "order calls \<noteq> []" "length (order calls) = length calls" "set (order calls) = set calls"
      using assms(3) [of calls] False by (auto dest: mset_eq_setD mset_eq_length)
    moreover have "distinct (map fst (order calls))"
      using idx(2) assms(3) [of calls] by (metis mset_map mset_eq_imp_distinct_iff)
    ultimately show ?thesis
      using False act run_lookups_fill [of "order calls" "\<lparr>getattrcount = int (length calls),
          rdpe_status = RPC_STATUS_SUCCESS, rdpe_data = data, rdpe_dir = dir\<rparr>" srv "known_attr srv" "data_fh data"]
        missing_to_lookup [OF assms(1,2), of _ "data_fh data", folded calls_def]
      by (simp add: finish_def dir filled)
  qed
qed

text \<open>
  C8. A directory is listed completely: for any server that sends its entries in pages of any
  size, with or without READDIRPLUS, and leaves out the attributes of any of them, \<open>opendir\<close> of a
  directory that is not cached ends after at most two calls more than there are entries and
  one LOOKUP per entry, and the listing has every entry once, in reverse order, with its
  attributes, in whatever order the LOOKUPs are answered.
\<close>

theorem nfs3_opendir_lists_all:
  fixes nfs :: "'r nfs_context"
  assumes "dir_server_ok srv" "nfs_dircache_find nfs (data_fh data) = (nfs', None)"
    and "nfsi_nested_mounts (nfsi nfs) = []" "\<And>calls. mset (order calls) = mset calls"
  shows "\<exists>a b. nfs3_opendir_continue_internal nfs True i attr data = (nfs', a)
    \<and> fetch (length (ds_entries srv) + 3) nfs' srv a = Some b
    \<and> finish srv order b = Some (cb data, 0, Listing (listing_of srv i (data_fh data)))"
proof -
  let ?dir = "\<lparr>dir_id = i, dfh = data_fh data, dattr = zero_attr, dentries = [], dcurrent = None\<rparr>"
  let ?n = "length (ds_entries srv)"
  have srv: "distinct (map en_cookie (ds_entries srv))" "0 \<notin> en_cookie ` set (ds_entries srv)"
    using assms(1) by (simp_all add: dir_server_ok_def)
  have nest: "nfsi_nested_mounts (nfsi nfs') = []"
    using assms(2,3) by (auto simp: nfs_dircache_find_def split: prod.splits)
  have start: "nfs3_opendir_continue_internal nfs True i attr data = (nfs', readdirplus_page nfs' True 0 zero_verf data ?dir)"
    by (simp add: nfs3_opendir_continue_internal_def assms(2))
  have "\<exists>ds. half_seen srv ds \<and> fetch (?n + 3) nfs' srv (readdirplus_page nfs' True 0 zero_verf data ?dir) =
      Some (end_listing (\<lambda>_. True) (ds_attr srv) data (?dir\<lparr>dentries := ds\<rparr>))"
  proof (cases "ds_plus srv")
    case True
    have "\<forall>e \<in> set (ds_entries srv). plus_seen srv nfs' data e = true_entry e \<or> plus_seen srv nfs' data e = plain_seen e"
      using plus_seen_half [OF assms(1) nest] by blast
    with fetch_plus [OF srv True, of "[]" "ds_entries srv" "?n + 2" nfs' zero_verf data ?dir] show ?thesis
      by (intro exI [of _ "rev (map (plus_seen srv nfs' data) (ds_entries srv))"]) (simp add: half_seen_map cookie_at_def numeral_3_eq_3)
  next
    case False
    have "fetch (?n + 3) nfs' srv (readdirplus_page nfs' True 0 zero_verf data ?dir) =
        fetch (?n + 2) nfs' srv (readdir_page nfs' True 0 zero_verf data ?dir)"
      using False by (simp add: numeral_3_eq_3 numeral_2_eq_2 fetch.simps(2) [of "Suc (Suc ?n)"] readdirplus_page_def nfs3_opendir_cb_def)
    with fetch_plain [OF srv, of "[]" "ds_entries srv" "?n + 1" nfs' zero_verf data ?dir] show ?thesis
      by (intro exI [of _ "rev (map plain_seen (ds_entries srv))"]) (simp add: half_seen_map cookie_at_def)
  qed
  then show ?thesis using start finish_end [OF assms(1) _ assms(4)] by fastforce
qed

text \<open>Three entries in pages of one and two; the server leaves out the attributes of \<open>b\<close>.\<close>

definition sample_entry :: "string \<Rightarrow> u64 \<Rightarrow> entryplus3" where
  "sample_entry n i = \<lparr>en_fileid = i, en_name = n, en_cookie = i, en_attributes = Some (zero_fattr\<lparr>fa_type := 1, fa_size := i\<rparr>)\<rparr>"

definition sample_dir_server :: dir_server where
  "sample_dir_server = \<lparr>ds_entries = [sample_entry ''a'' 3, sample_entry ''b'' 7, sample_entry ''c'' 5],
     ds_cut = \<lambda>c. if c = 0 then 1 else 2, ds_plus = True, ds_omit = \<lambda>n. n = ''b'', ds_attr = None\<rparr>"

theorem nfs3_opendir_lists_all_witness:
  "\<exists>a b dir. nfs3_opendir_continue_internal sample_nfs True 4 None (plain_data (User 1) (opendir_continue 4) 0 [9]) = (sample_nfs, a)
    \<and> fetch 6 sample_nfs sample_dir_server a = Some b \<and> finish sample_dir_server rev b = Some (User 1, 0, Listing dir)
    \<and> map dname (dentries dir) = [''c'', ''b'', ''a''] \<and> map dsize (dentries dir) = [5, 7, 3]"
proof -
  have "dir_server_ok sample_dir_server"
    by (simp add: dir_server_ok_def sample_dir_server_def sample_entry_def)
  moreover have "nfs_dircache_find sample_nfs [9] = (sample_nfs, None)" "nfsi_nested_mounts (nfsi sample_nfs) = []"
    by (simp_all add: nfs_dircache_find_def sample_nfs_def zero_nfsi_def)
  ultimately show ?thesis
    using nfs3_opendir_lists_all [of sample_dir_server sample_nfs "plain_data (User 1) (opendir_continue 4) 0 [9]" sample_nfs rev 4 None]
    by (auto simp: plain_data_def sample_dir_server_def listing_of_def nfs_rewinddir_def true_entry_def sample_entry_def
        set_dirent_def fattr3_to_nfs_attr_def)
qed

section \<open>The cache\<close>

definition sample_listing :: nfsdir where
  "sample_listing = \<lparr>dir_id = 2, dfh = [9], dattr = zero_attr, dentries = [zero_dirent\<lparr>dname := ''x''\<rparr>], dcurrent = None\<rparr>"

text \<open>
  C25. A cached listing is used exactly while the directory has not changed: when the lookup gave
  attributes with the modification time of the cached listing, the callback gets that listing,
  from its first entry on and without a call to the server; when the time differs, or the lookup
  gave no attributes, the listing is fetched. Either way the cache does not hold it any more.
\<close>

theorem nfs3_opendir_cached:
  assumes "nfs_dircache_find nfs (data_fh data) = (nfs', Some d)"
  shows "nfs3_opendir_continue_internal nfs q i attr data =
    (nfs', if attr \<noteq> None \<and> at_mtime (the attr) = at_mtime (dattr d)
           then Listed (cb data) 0 (Listing (nfs_rewinddir d))
           else readdirplus_page nfs' q 0 zero_verf data
                  \<lparr>dir_id = i, dfh = data_fh data, dattr = zero_attr, dentries = [], dcurrent = None\<rparr>)
   \<and> d \<in> set (nfsi_dircache (nfsi nfs)) \<and> dfh d = data_fh data
   \<and> mset (nfsi_dircache (nfsi nfs')) = mset (nfsi_dircache (nfsi nfs)) - {#d#}"
proof -
  obtain ds r where ds: "take_fh (data_fh data) (nfsi_dircache (nfsi nfs)) = (ds, r)" by force
  with assms have r: "r = Some d" "nfsi_dircache (nfsi nfs') = ds"
    by (auto simp: nfs_dircache_find_def)
  have "mset (nfsi_dircache (nfsi nfs)) = add_mset d (mset ds)" using take_fh_mset [OF ds] r by simp
  moreover have "dfh d = data_fh data" using take_fh_mset [OF ds] r by simp
  ultimately show ?thesis
    using assms r(2) mset_eq_setD [of "nfsi_dircache (nfsi nfs)" "d # ds"]
    by (cases attr) (auto simp: nfs3_opendir_continue_internal_def Let_def)
qed

text \<open>A cached listing with the modification time 0, and the directory has not changed since.\<close>

theorem nfs3_opendir_cached_witness:
  "nfs3_opendir_continue_internal (sample_nfs\<lparr>nfsi := (nfsi sample_nfs)\<lparr>nfsi_dircache := [sample_listing]\<rparr>\<rparr>) True 4
      (Some zero_attr) (plain_data (User 1) (opendir_continue 4) 0 [9]) =
    (sample_nfs, Listed (User 1) 0 (Listing (nfs_rewinddir sample_listing)))"
proof -
  have "nfs_dircache_find (sample_nfs\<lparr>nfsi := (nfsi sample_nfs)\<lparr>nfsi_dircache := [sample_listing]\<rparr>\<rparr>)
      (data_fh (plain_data (User 1) (opendir_continue 4) 0 [9])) = (sample_nfs, Some sample_listing)"
    by (simp add: nfs_dircache_find_def plain_data_def sample_listing_def sample_nfs_def zero_nfsi_def)
  from nfs3_opendir_cached [OF this, of True 4 "Some zero_attr"] show ?thesis
    by (simp add: plain_data_def sample_listing_def)
qed

end
