(* ===== verification/Rpc_Connect.thy ===== *)
theory Rpc_Connect
  imports Socket_Ctl Url
begin

text \<open>
  Connecting to a program (\<open>src/lib/libnfs.c\<close>): \<open>rpc_connect_program_async\<close> connects to the
  portmapper, asks it for the port of the program, connects to that port and makes a NULL call;
  \<open>rpc_connect_port_async\<close> starts at the known port. In the default build there is no TLS and no
  Kerberos.

  A callback returns the context and what the operation waits for next: a connection, the reply
  to a call, or nothing any more because the caller has its answer. Connecting and disconnecting
  are \<open>rpc_connect_async\<close> and \<open>rpc_disconnect\<close> of the connection control, with what the operating
  system answers as an argument. \<open>q\<close> says whether a call can be queued.
\<close>

section \<open>The code\<close>

record 'u rpc_cb_data =
  cd_server :: string
  cd_program :: u32
  cd_version :: u32
  cd_user :: 'u

datatype conn_cb = rpc_connect_program_1 | rpc_connect_program_2 | rpc_connect_program_3
  | rpc_connect_program_4 | rpc_connect_program_5

datatype conn_call =
    Pmap2_null | Pmap3_null | Pmap2_getport u32 u32 | Pmap3_getaddr u32 u32 | Null_call u32 u32

text \<open>\<open>Hangs\<close>: the address family is neither of the two, no branch is taken and nothing follows.\<close>

datatype 'u conn_act =
    Connecting conn_cb "'u rpc_cb_data"
  | Calling conn_call conn_cb "'u rpc_cb_data"
  | Answered 'u rpc_status
  | Hangs

text \<open>What the operating system answers to a connection attempt.\<close>

record conn_env =
  ce_net :: net_env
  ce_ai :: "(int \<times> byte list) option"

text \<open>The state the callbacks share: the context and the static port offset of the socket layer.\<close>

type_synonym 'r conn_state = "'r rpc \<times> nat"

definition no_connect_cb :: "'r conn_state \<Rightarrow> 'r conn_state" where
  "no_connect_cb s = ((fst s)\<lparr>connect_cb := No_Cb\<rparr>, snd s)"

definition call_or_fail :: "bool \<Rightarrow> conn_call \<Rightarrow> conn_cb \<Rightarrow> 'u rpc_cb_data \<Rightarrow> 'u conn_act" where
  "call_or_fail q call f data = (if q then Calling call f data else Answered (cd_user data) RPC_STATUS_ERROR)"

definition rpc_connect_program_5_cb :: "'r conn_state \<Rightarrow> rpc_status \<Rightarrow> 'u rpc_cb_data \<Rightarrow> 'r conn_state \<times> 'u conn_act" where
  "rpc_connect_program_5_cb s status data = (no_connect_cb s, Answered (cd_user data) status)"

definition rpc_connect_program_4_cb ::
    "'r conn_state \<Rightarrow> bool \<Rightarrow> rpc_status \<Rightarrow> 'u rpc_cb_data \<Rightarrow> 'r conn_state \<times> 'u conn_act" where
  "rpc_connect_program_4_cb s q status data =
     (no_connect_cb s,
      if status \<noteq> RPC_STATUS_SUCCESS then Answered (cd_user data) status
      else call_or_fail q (Null_call (cd_program data) (cd_version data)) rpc_connect_program_5 data)"

definition rpc_connect_port_internal ::
    "conn_env \<Rightarrow> 'r conn_state \<Rightarrow> int \<Rightarrow> 'r conn_state \<times> int" where
  "rpc_connect_port_internal env s port =
     (case rpc_connect_async (ce_net env) (snd s) (ce_ai env) (fst s) port User_Cb of
        (rpc, ofs, ret) \<Rightarrow> ((rpc, ofs), if ret \<noteq> 0 then -1 else 0))"

text \<open>\<open>strrchr\<close>: what is in front of and behind the last \<open>c\<close>.\<close>

definition split_last :: "char \<Rightarrow> string \<Rightarrow> (string \<times> string) option" where
  "split_last c s =
     (if c \<in> set s
      then Some (rev (tl (dropWhile (\<lambda>x. x \<noteq> c) (rev s))), rev (takeWhile (\<lambda>x. x \<noteq> c) (rev s)))
      else None)"

text \<open>
  The port in a universal address: the last two numbers between the dots. An overflow of the
  multiplication is \<open>None\<close>.
\<close>

definition uaddr_port :: "string option \<Rightarrow> u32 option" where
  "uaddr_port addr =
     (case addr of
        None \<Rightarrow> Some 0
      | Some a \<Rightarrow>
          (case split_last (CHR ''.'') a of
             None \<Rightarrow> Some 0
           | Some (front, lo) \<Rightarrow>
               (case split_last (CHR ''.'') front of
                  None \<Rightarrow> Some (word_of_int (atoi lo))
                | Some (_, hi) \<Rightarrow>
                    if int_range (256 * atoi hi)
                    then Some (word_of_int (atoi lo) + word_of_int (256 * atoi hi)) else None)))"

text \<open>The reply of the portmapper: a port for IPv4, an address for IPv6; the other kind is not decoded.\<close>

datatype pmap_res = Port u32 | Uaddr "string option"

definition reply_port :: "int \<Rightarrow> pmap_res \<Rightarrow> u32 option" where
  "reply_port family res =
     (if family = AF_INET then (case res of Port p \<Rightarrow> Some p | Uaddr _ \<Rightarrow> None)
      else if family = AF_INET6 then (case res of Uaddr a \<Rightarrow> uaddr_port a | Port _ \<Rightarrow> None)
      else Some 0)"

definition rpc_connect_program_3_cb ::
    "conn_env \<Rightarrow> 'r conn_state \<Rightarrow> rpc_status \<Rightarrow> pmap_res \<Rightarrow> 'u rpc_cb_data \<Rightarrow> ('r conn_state \<times> 'u conn_act) option" where
  "rpc_connect_program_3_cb env s status res data =
     (if status \<noteq> RPC_STATUS_SUCCESS then Some (s, Answered (cd_user data) status)
      else do {
        port \<leftarrow> reply_port (sa_family (peer (fst s))) res;
        if port = 0 then Some (s, Answered (cd_user data) RPC_STATUS_ERROR)
        else do {
          (rpc, ofs) \<leftarrow> rpc_disconnect (ce_net env) (snd s) (fst s);
          case rpc_connect_port_internal env
                 (rpc\<lparr>program := cd_program data, version := cd_version data\<rparr>, ofs) (sint port) of
            (s', ret) \<Rightarrow>
              Some (s', if ret \<noteq> 0 then Answered (cd_user data) RPC_STATUS_ERROR
                        else Connecting rpc_connect_program_4 data)
        }
      })"

definition rpc_connect_program_2_cb ::
    "'r conn_state \<Rightarrow> bool \<Rightarrow> rpc_status \<Rightarrow> 'u rpc_cb_data \<Rightarrow> 'u conn_act" where
  "rpc_connect_program_2_cb s q status data =
     (if status \<noteq> RPC_STATUS_SUCCESS then Answered (cd_user data) status
      else if sa_family (peer (fst s)) = AF_INET
      then call_or_fail q (Pmap2_getport (cd_program data) (cd_version data)) rpc_connect_program_3 data
      else if sa_family (peer (fst s)) = AF_INET6
      then call_or_fail q (Pmap3_getaddr (cd_program data) (cd_version data)) rpc_connect_program_3 data
      else Hangs)"

definition rpc_connect_program_1_cb ::
    "'r conn_state \<Rightarrow> bool \<Rightarrow> rpc_status \<Rightarrow> 'u rpc_cb_data \<Rightarrow> 'r conn_state \<times> 'u conn_act" where
  "rpc_connect_program_1_cb s q status data =
     (no_connect_cb s,
      if status \<noteq> RPC_STATUS_SUCCESS then Answered (cd_user data) status
      else if sa_family (peer (fst s)) = AF_INET then call_or_fail q Pmap2_null rpc_connect_program_2 data
      else if sa_family (peer (fst s)) = AF_INET6 then call_or_fail q Pmap3_null rpc_connect_program_2 data
      else Hangs)"

text \<open>The result \<open>None\<close> of the second component is the return value \<open>-1\<close>.\<close>

definition rpc_connect_port_async ::
    "conn_env \<Rightarrow> 'r conn_state \<Rightarrow> string \<Rightarrow> int \<Rightarrow> u32 \<Rightarrow> u32 \<Rightarrow> 'u \<Rightarrow> 'r conn_state \<times> 'u conn_act option" where
  "rpc_connect_port_async env s server port pg vs user =
     (let (s', ret) = rpc_connect_port_internal env ((fst s)\<lparr>program := pg, version := vs\<rparr>, snd s) port
      in (s', if ret \<noteq> 0 then None
              else Some (Connecting rpc_connect_program_4
                \<lparr>cd_server = server, cd_program = pg, cd_version = vs, cd_user = user\<rparr>)))"

definition rpc_connect_program_async ::
    "conn_env \<Rightarrow> 'r conn_state \<Rightarrow> string \<Rightarrow> u32 \<Rightarrow> u32 \<Rightarrow> 'u \<Rightarrow> 'r conn_state \<times> 'u conn_act option" where
  "rpc_connect_program_async env s server pg vs user =
     (let (s', ret) = rpc_connect_port_internal env ((fst s)\<lparr>program := 100001, version := 2\<rparr>, snd s) 111
      in (s', if ret \<noteq> 0 then None
              else Some (Connecting rpc_connect_program_1
                \<lparr>cd_server = server, cd_program = pg, cd_version = vs, cd_user = user\<rparr>)))"

section \<open>The steps of a connection\<close>

text \<open>
  What can happen next: the connection succeeds or fails, or the call is answered or fails. The
  other parts of the context change in between (\<open>t\<close>), but not the address of the server.
\<close>

inductive conn_step :: "'r conn_state \<times> 'u conn_act \<Rightarrow> 'r conn_state \<times> 'u conn_act \<Rightarrow> bool" where
  connected_1: "peer (fst t) = peer (fst s) \<Longrightarrow>
     conn_step (s, Connecting rpc_connect_program_1 d) (rpc_connect_program_1_cb t q st d)"
| replied_2: "peer (fst t) = peer (fst s) \<Longrightarrow>
     conn_step (s, Calling c rpc_connect_program_2 d) (t, rpc_connect_program_2_cb t q st d)"
| replied_3: "peer (fst t) = peer (fst s) \<Longrightarrow> rpc_connect_program_3_cb env t st res d = Some r \<Longrightarrow>
     conn_step (s, Calling c rpc_connect_program_3 d) r"
| connected_4: "peer (fst t) = peer (fst s) \<Longrightarrow>
     conn_step (s, Connecting rpc_connect_program_4 d) (rpc_connect_program_4_cb t q st d)"
| replied_5: "peer (fst t) = peer (fst s) \<Longrightarrow>
     conn_step (s, Calling c rpc_connect_program_5 d) (rpc_connect_program_5_cb t st d)"

inductive_cases conn_stepE: "conn_step x y"


text \<open>The calls that are still to be made, and the user they are made for.\<close>

fun conn_rank :: "'u conn_act \<Rightarrow> nat" where
  "conn_rank (Connecting f _) = (if f = rpc_connect_program_1 then 5 else 2)"
| "conn_rank (Calling _ f _) =
     (if f = rpc_connect_program_2 then 4 else if f = rpc_connect_program_3 then 3 else 1)"
| "conn_rank (Answered _ _) = 0"
| "conn_rank Hangs = 0"

definition inet :: "'r conn_state \<Rightarrow> bool" where
  "inet s \<longleftrightarrow> sa_family (peer (fst s)) = AF_INET \<or> sa_family (peer (fst s)) = AF_INET6"

fun conn_ok :: "'u \<Rightarrow> 'r conn_state \<times> 'u conn_act \<Rightarrow> bool" where
  "conn_ok user (s, Connecting f d) \<longleftrightarrow> cd_user d = user \<and>
     (f = rpc_connect_program_1 \<and> inet s \<or> f = rpc_connect_program_4)"
| "conn_ok user (s, Calling c f d) \<longleftrightarrow> cd_user d = user \<and>
     (f = rpc_connect_program_2 \<and> inet s \<or> f = rpc_connect_program_3 \<or> f = rpc_connect_program_5)"
| "conn_ok user (s, Answered u st) \<longleftrightarrow> u = user"
| "conn_ok user (s, Hangs) \<longleftrightarrow> False"

lemma inet_no_cb [simp]: "inet (no_connect_cb s) = inet s"
  by (simp add: inet_def no_connect_cb_def)

lemma inet_peer: "peer (fst t) = peer (fst s) \<Longrightarrow> inet t = inet s"
  by (simp add: inet_def)

lemma program_3_cases:
  "rpc_connect_program_3_cb env t st res d = Some (s', a) \<Longrightarrow>
   (\<exists>st'. a = Answered (cd_user d) st') \<or> a = Connecting rpc_connect_program_4 d"
  by (auto simp: rpc_connect_program_3_cb_def Let_def bind_eq_Some_conv case_prod_beta split: if_splits)

lemma conn_step_ok:
  assumes "conn_step x y" "conn_ok user x"
  shows "conn_ok user y \<and> conn_rank (snd y) < conn_rank (snd x)"
  using assms
proof cases
  case (connected_1 t s d q st)
  then show ?thesis using assms(2) inet_peer [of t s]
    by (auto simp: rpc_connect_program_1_cb_def call_or_fail_def inet_def no_connect_cb_def)
next
  case (replied_2 t s c d q st)
  then show ?thesis using assms(2) inet_peer [of t s]
    by (auto simp: rpc_connect_program_2_cb_def call_or_fail_def inet_def)
next
  case (replied_3 t s env st res d c)
  then show ?thesis using assms(2) program_3_cases [of env t st res d "fst y" "snd y"]
    by (cases y) auto
next
  case (connected_4 t s d q st)
  then show ?thesis using assms(2) by (simp add: rpc_connect_program_4_cb_def call_or_fail_def)
next
  case (replied_5 t s c d st)
  then show ?thesis using assms(2) by (simp add: rpc_connect_program_5_cb_def)
qed

lemma conn_run_ok:
  "(conn_step ^^ n) x y \<Longrightarrow> conn_ok user x \<Longrightarrow> conn_ok user y \<and> conn_rank (snd y) + n \<le> conn_rank (snd x)"
proof (induction n arbitrary: y)
  case (Suc n)
  from Suc.prems(1) obtain z where z: "(conn_step ^^ n) x z" "conn_step z y" by auto
  from Suc.IH [OF z(1) Suc.prems(2)] have IH: "conn_ok user z" "conn_rank (snd z) + n \<le> conn_rank (snd x)" by simp_all
  from conn_step_ok [OF z(2) IH(1)] IH(2) show ?case by linarith
qed simp

lemma conn_ok_progress:
  fixes a :: "'u conn_act"
  assumes "conn_ok user (s, a)" "\<forall>y. \<not> conn_step (s, a) y"
  shows "\<exists>st. a = Answered user st"
proof -
  have steps: "\<exists>y. conn_step (s, Connecting rpc_connect_program_1 d) y" "\<exists>y. conn_step (s, Connecting rpc_connect_program_4 d) y"
    "\<exists>y. conn_step (s, Calling c rpc_connect_program_2 d) y" "\<exists>y. conn_step (s, Calling c rpc_connect_program_5 d) y" for c and d :: "'u rpc_cb_data"
    using connected_1 [of s s] connected_4 [of s s] replied_2 [of s s] replied_5 [of s s] by blast+
  moreover have "\<exists>y. conn_step (s, Calling c rpc_connect_program_3 d) y" for c and d :: "'u rpc_cb_data"
  proof -
    have "rpc_connect_program_3_cb undefined s RPC_STATUS_ERROR undefined d = Some (s, Answered (cd_user d) RPC_STATUS_ERROR)"
      by (simp add: rpc_connect_program_3_cb_def)
    from replied_3 [OF refl this] show ?thesis by blast
  qed
  ultimately show ?thesis using assms by (cases a) (simp_all, blast+)
qed

lemma sockaddr_async_keeps:
  assumes "rpc_connect_sockaddr_async env ofs rpc = (rpc', ofs', ret)"
  shows "peer rpc' = peer rpc \<and> program rpc' = program rpc \<and> version rpc' = version rpc
    \<and> (ret = 0 \<longrightarrow> sa_family (peer rpc) = AF_INET \<or> sa_family (peer rpc) = AF_INET6)"
  using assms by (auto simp: rpc_connect_sockaddr_async_def Let_def log_event_def split: if_splits)

lemma connect_peer:
  assumes "rpc_connect_port_internal env s port = (s', 0)"
  shows "inet s' \<and> program (fst s') = program (fst s) \<and> version (fst s') = version (fst s)
    \<and> (\<forall>family addr. ce_ai env = Some (family, addr) \<and> (family = AF_INET \<or> family = AF_INET6)
         \<longrightarrow> peer (fst s') = \<lparr>sa_family = family, sa_port = port mod 65536, sa_addr = addr\<rparr>)"
proof -
  obtain rpc1 r1 where a: "rpc_set_sockaddr (ce_ai env) ((fst s)\<lparr>auto_reconnect := 0\<rparr>) port = (rpc1, r1)" by force
  then have r1: "program rpc1 = program (fst s)" "version rpc1 = version (fst s)"
    "\<forall>family addr. ce_ai env = Some (family, addr) \<and> (family = AF_INET \<or> family = AF_INET6)
         \<longrightarrow> peer rpc1 = \<lparr>sa_family = family, sa_port = port mod 65536, sa_addr = addr\<rparr>"
    by (auto simp: rpc_set_sockaddr_def split: option.splits prod.splits if_splits)
  obtain rpc2 o2 r2 where b: "rpc_connect_sockaddr_async (ce_net env) (snd s) (rpc1\<lparr>connect_cb := User_Cb\<rparr>) = (rpc2, o2, r2)"
    by (metis prod_cases3)
  from assms have "s' = (rpc2, o2)" "r2 = 0"
    by (auto simp: rpc_connect_port_internal_def rpc_connect_async_def a b split: if_splits)
  with sockaddr_async_keeps [OF b] r1 show ?thesis by (simp add: inet_def)
qed

text \<open>
  C26. Connecting to a program answers its caller: once \<open>rpc_connect_program_async\<close> has started,
  whatever the network and the portmapper do, at most five events later the operation waits for
  nothing any more, and it has then called the callback of its caller, with one status.
\<close>

theorem rpc_connect_program_answers:
  assumes "rpc_connect_program_async env s server pg vs user = (s', Some a)" "(conn_step ^^ n) (s', a) (t, b)"
  shows "n \<le> 5 \<and> ((\<forall>y. \<not> conn_step (t, b) y) \<longrightarrow> (\<exists>st. b = Answered user st))"
proof -
  obtain s1 r where c: "rpc_connect_port_internal env ((fst s)\<lparr>program := 100001, version := 2\<rparr>, snd s) 111 = (s1, r)"
    by (metis surj_pair)
  with assms(1) have a: "s1 = s'" "r = 0" "\<exists>d. a = Connecting rpc_connect_program_1 d \<and> cd_user d = user"
    by (auto simp: rpc_connect_program_async_def split: if_splits)
  have "inet s'" using connect_peer c a by blast
  with a(3) have "conn_ok user (s', a)" "conn_rank a = 5" by auto
  from conn_run_ok [OF assms(2) this(1)] conn_ok_progress [of user t b] this(2) show ?thesis by auto
qed


text \<open>The portmapper cannot be reached: the connection fails.\<close>

definition down_rpc :: "unit rpc" where
  "down_rpc = (sample_rpc 0)\<lparr>fd := -1, old_fd := 0, ifname := []\<rparr>"

lemma down_connects:
  "\<exists>s'. rpc_connect_program_async \<lparr>ce_net = up_env, ce_ai = Some (AF_INET, [127, 0, 0, 1])\<rparr> (down_rpc, 1) ''host'' 100003 3 (7 :: nat) =
     (s', Some (Connecting rpc_connect_program_1 \<lparr>cd_server = ''host'', cd_program = 100003, cd_version = 3, cd_user = 7 :: nat\<rparr>))"
  by (simp add: rpc_connect_program_async_def rpc_connect_port_internal_def rpc_connect_async_def
      rpc_connect_sockaddr_async_def rpc_set_sockaddr_def up_env_def down_rpc_def sample_rpc_def bind_port.simps
      AF_INET_def Let_def zero_rpc_def)

theorem rpc_connect_program_answers_witness:
  "\<exists>s' a t b. rpc_connect_program_async \<lparr>ce_net = up_env, ce_ai = Some (AF_INET, [127, 0, 0, 1])\<rparr> (down_rpc, 1) ''host'' 100003 3 (7 :: nat) = (s', Some a)
    \<and> (conn_step ^^ 1) (s', a) (t, b) \<and> 1 \<le> (5 :: nat) \<and> ((\<forall>y. \<not> conn_step (t, b) y) \<longrightarrow> (\<exists>st. b = Answered 7 st))"
proof -
  obtain s' d where c: "rpc_connect_program_async \<lparr>ce_net = up_env, ce_ai = Some (AF_INET, [127, 0, 0, 1])\<rparr> (down_rpc, 1)
      ''host'' 100003 3 (7 :: nat) = (s', Some (Connecting rpc_connect_program_1 d))"
    using down_connects by blast
  have "(conn_step ^^ 1) (s', Connecting rpc_connect_program_1 d)
      (no_connect_cb s', Answered (cd_user d) RPC_STATUS_ERROR)"
    unfolding relpowp_1 using connected_1 [of s' s' d True RPC_STATUS_ERROR] by (simp add: rpc_connect_program_1_cb_def)
  then show ?thesis using c rpc_connect_program_answers [OF c] by blast
qed

section \<open>Ports\<close>

lemma split_last_simp:
  "c \<notin> set lo \<Longrightarrow> split_last c (front @ c # lo) = Some (front, lo)"
  unfolding split_last_def by (simp, subst dropWhile_append2) auto

lemma atoi_dec_nat: "n < 256 \<Longrightarrow> atoi (dec_nat n) = int n"
  by (simp add: atoi_def strtol10_dec_nat s32_nonneg)

lemma dec_nat_no_dot: "CHR ''.'' \<notin> set (dec_nat n)"
  using dec_nat_digits [of n] by (auto simp: is_digit_def)

text \<open>A universal address as a portmapper prints it.\<close>

definition print_uaddr :: "string \<Rightarrow> nat \<Rightarrow> string" where
  "print_uaddr host port = host @ ''.'' @ dec_nat (port div 256) @ ''.'' @ dec_nat (port mod 256)"

lemma uaddr_port_print:
  assumes "port < 65536"
  shows "uaddr_port (Some (print_uaddr host port)) = Some (word_of_nat port)"
proof -
  have "split_last (CHR ''.'') (print_uaddr host port) =
      Some (host @ ''.'' @ dec_nat (port div 256), dec_nat (port mod 256))"
    using split_last_simp [OF dec_nat_no_dot, of "host @ ''.'' @ dec_nat (port div 256)" "port mod 256"]
    by (simp add: print_uaddr_def)
  moreover have "port div 256 < 256" using assms by simp
  moreover have "word_of_int (int (port mod 256)) + word_of_int (256 * int (port div 256)) = (word_of_nat port :: u32)"
  proof -
    have "int (port mod 256) + 256 * int (port div 256) = int port" by (simp add: zmod_int zdiv_int)
    then show ?thesis using wi_hom_add [of "int (port mod 256)" "256 * int (port div 256)", where 'a = 32]
      by (metis of_int_of_nat_eq)
  qed
  ultimately show ?thesis
    using split_last_simp [OF dec_nat_no_dot, of host "port div 256"]
    by (simp add: uaddr_port_def atoi_dec_nat int_range_def)
qed


lemma sint_port: "port < 65536 \<Longrightarrow> sint (word_of_nat port :: u32) = int port"
  by (simp add: signed_of_nat signed_take_bit_int_eq_self)

text \<open>
  C27. The port that an IPv6 portmapper answers is the port that is connected to: for the address
  that the portmapper prints for any host and port, the client connects to that port of the
  server, as the program and version that were asked for.
\<close>

theorem rpc_connect_uaddr_port:
  assumes "port < 65536" "sa_family (peer (fst s)) = AF_INET6" "ce_ai env = Some (AF_INET6, addr)"
    and "rpc_connect_program_3_cb env s RPC_STATUS_SUCCESS (Uaddr (Some (print_uaddr host port))) d =
           Some (s', Connecting f d')"
  shows "f = rpc_connect_program_4 \<and> d' = d
    \<and> peer (fst s') = \<lparr>sa_family = AF_INET6, sa_port = int port, sa_addr = addr\<rparr>
    \<and> program (fst s') = cd_program d \<and> version (fst s') = cd_version d"
proof -
  have rp: "reply_port (sa_family (peer (fst s))) (Uaddr (Some (print_uaddr host port))) = Some (word_of_nat port)"
    using assms(1,2) by (simp add: reply_port_def uaddr_port_print AF_INET_def AF_INET6_def)
  obtain rpc ofs where d: "rpc_disconnect (ce_net env) (snd s) (fst s) = Some (rpc, ofs)"
    using assms(4) by (cases "rpc_disconnect (ce_net env) (snd s) (fst s)")
      (auto simp: rpc_connect_program_3_cb_def rp split: if_splits)
  obtain s1 ret where c: "rpc_connect_port_internal env
      (rpc\<lparr>program := cd_program d, version := cd_version d\<rparr>, ofs) (int port) = (s1, ret)"
    by (metis surj_pair)
  have "(s1, if ret \<noteq> 0 then Answered (cd_user d) RPC_STATUS_ERROR else Connecting rpc_connect_program_4 d) =
      (s', Connecting f d')"
    using assms(4) unfolding rpc_connect_program_3_cb_def rp
    by (simp add: d sint_port [OF assms(1)] c split: if_splits)
  then have r: "rpc_connect_port_internal env
      (rpc\<lparr>program := cd_program d, version := cd_version d\<rparr>, ofs) (int port) = (s', 0)"
    "f = rpc_connect_program_4" "d' = d"
    using c by (simp_all split: if_splits)
  from connect_peer [OF r(1)] r(2,3) assms(1,3) show ?thesis by simp
qed


text \<open>The address \<open>::1.8.1\<close> is port 2049.\<close>

theorem rpc_connect_uaddr_port_witness:
  "print_uaddr ''::1'' 2049 = ''::1.8.1''
   \<and> (\<exists>s' f d'. rpc_connect_program_3_cb \<lparr>ce_net = up_env, ce_ai = Some (AF_INET6, [1])\<rparr>
         (down_rpc\<lparr>peer := \<lparr>sa_family = AF_INET6, sa_port = 111, sa_addr = [1]\<rparr>\<rparr>, 1) RPC_STATUS_SUCCESS
         (Uaddr (Some (print_uaddr ''::1'' 2049))) \<lparr>cd_server = ''::1'', cd_program = 100003, cd_version = 3, cd_user = 7 :: nat\<rparr> =
         Some (s', Connecting f d')
       \<and> peer (fst s') = \<lparr>sa_family = AF_INET6, sa_port = 2049, sa_addr = [1]\<rparr>)"
proof -
  let ?s = "(down_rpc\<lparr>peer := \<lparr>sa_family = AF_INET6, sa_port = 111, sa_addr = [1]\<rparr>\<rparr>, 1)"
  let ?env = "\<lparr>ce_net = up_env, ce_ai = Some (AF_INET6, [1])\<rparr>"
  let ?d = "\<lparr>cd_server = ''::1'', cd_program = 100003, cd_version = 3, cd_user = 7 :: nat\<rparr>"
  have "snd (rpc_connect_port_internal ?env ((fst ?s)\<lparr>program := 100003, version := 3\<rparr>, 1) 2049) = 0"
    by (simp add: rpc_connect_port_internal_def rpc_connect_async_def rpc_connect_sockaddr_async_def rpc_set_sockaddr_def
        up_env_def down_rpc_def sample_rpc_def bind_port.simps AF_INET6_def Let_def zero_rpc_def)
  moreover have "rpc_disconnect up_env 1 (fst ?s) = Some (fst ?s, 1)"
    by (simp add: rpc_disconnect_def down_rpc_def sample_rpc_def zero_rpc_def)
  moreover have "uaddr_port (Some (print_uaddr ''::1'' 2049)) = Some 2049" using uaddr_port_print [of 2049 "''::1''"] by simp
  ultimately obtain s' where c: "rpc_connect_program_3_cb ?env ?s RPC_STATUS_SUCCESS (Uaddr (Some (print_uaddr ''::1'' 2049))) ?d =
      Some (s', Connecting rpc_connect_program_4 ?d)"
    by (simp add: rpc_connect_program_3_cb_def reply_port_def AF_INET_def AF_INET6_def case_prod_beta)
  from rpc_connect_uaddr_port [OF _ _ _ c] have "peer (fst s') = \<lparr>sa_family = AF_INET6, sa_port = 2049, sa_addr = [1]\<rparr>"
    by simp
  moreover have "print_uaddr ''::1'' 2049 = ''::1.8.1''" by code_simp
  ultimately show ?thesis using c by blast
qed

end
