(* ===== verification/Nfs3_Mount.thy ===== *)
theory Nfs3_Mount
  imports Nfs3_Base Rpc_Connect Fan_In
begin

text \<open>
  Mounting and unmounting in \<open>src/lib/nfs_v3.c\<close>: the client connects to the mount daemon, mounts
  the export, asks for the list of exports and mounts those that are nested below its own, all
  at once, then connects to the NFS server, asks for its transfer sizes and for the attributes
  of the nested exports.

  The state is the context and the port offset of the socket layer. A callback returns the new
  state and what the operation waits for; \<open>None\<close> is undefined behaviour or a loop that never ends.
  The private data of the user is a number. The copy of the server name in \<open>rpc->server\<close> is left
  out: only Kerberos reads it.
\<close>

section \<open>What the operation waits for\<close>

datatype mount_conn = nfs3_mount_1 nat | nfs3_mount_5 nat | nfs3_umount_1 nat

datatype mount_call =
    MOUNT_MNT string | MOUNT_EXPORT | MOUNT_UMNT string | MOUNT_FSINFO nfs_fh | MOUNT_GETATTR nfs_fh

datatype mount_cb = nfs3_mount_2 | nfs3_mount_3 | nfs3_mount_6 | nfs3_mount_7 | nfs3_umount_2

record mount_discovery_cb =
  md_wait_count :: int
  md_error :: int
  md_status :: rpc_status
  md_user :: nat

record mount_attr_cb =
  ma_wait_count :: int
  ma_user :: nat

text \<open>
  \<open>Nested\<close>: the MNT calls for nested exports are in flight, each with its export and the path
  under which it will be found. \<open>Attrs\<close>: the GETATTR calls for the nested exports, by index.
\<close>

datatype mount_act =
    Mount_conn "mount_conn conn_act"
  | Mount_task mount_call mount_cb nat
  | Nested mount_discovery_cb "(string \<times> string) list"
  | Attrs mount_attr_cb "(nat \<times> mount_call) list"
  | Mount_done nat int

type_synonym 'r mount_state = "'r nfs_context \<times> nat"

definition NFSMAXDATA2 :: nat where "NFSMAXDATA2 = 8192"
definition MOUNT_PROGRAM :: u32 where "MOUNT_PROGRAM = 100005"
definition MOUNT_V3 :: u32 where "MOUNT_V3 = 3"

definition mountstat3_to_errno :: "int \<Rightarrow> int" where
  "mountstat3_to_errno st =
     (if st = 0 then 0 else if st = 1 then - EPERM else if st = 2 then - EPERM else if st = 5 then - EIO
      else if st = 13 then - EACCES else if st = 20 then - ENOTDIR else if st = 22 then - EINVAL
      else if st = 63 then - E2BIG else if st = 10004 then - EINVAL else if st = 10006 then - EIO
      else - ERANGE)"

section \<open>Connecting\<close>

text \<open>A connection is started on a port, if one is set, or through the portmapper.\<close>

definition start_conn ::
    "conn_env \<Rightarrow> 'r mount_state \<Rightarrow> string \<Rightarrow> int \<Rightarrow> u32 \<Rightarrow> u32 \<Rightarrow> mount_conn \<Rightarrow> 'r mount_state \<times> mount_conn conn_act option" where
  "start_conn env s server port pg vs c =
     (case (if port \<noteq> 0 then rpc_connect_port_async env (nrpc (fst s), snd s) server port pg vs c
            else rpc_connect_program_async env (nrpc (fst s), snd s) server pg vs c) of
        ((rpc, ofs), r) \<Rightarrow> (((fst s)\<lparr>nrpc := rpc\<rparr>, ofs), r))"

definition mount_disconnect :: "conn_env \<Rightarrow> 'r mount_state \<Rightarrow> 'r mount_state option" where
  "mount_disconnect env s =
     map_option (\<lambda>(rpc, ofs). ((fst s)\<lparr>nrpc := rpc\<rparr>, ofs)) (rpc_disconnect (ce_net env) (snd s) (nrpc (fst s)))"

text \<open>The connection to the NFS server, with which the second part of a mount begins.\<close>

definition nfsd_connect :: "conn_env \<Rightarrow> 'r mount_state \<Rightarrow> nat \<Rightarrow> ('r mount_state \<times> mount_act) option" where
  "nfsd_connect env s user =
     (case nfsi_server (nfsi (fst s)) of
        None \<Rightarrow> None
      | Some server \<Rightarrow>
          (case start_conn env s server (nfsi_nfsport (nfsi (fst s))) NFS_PROGRAM 3 (nfs3_mount_5 user) of
             (s', None) \<Rightarrow> Some (s', Mount_done user (- ENOMEM))
           | (s', Some a) \<Rightarrow> Some (s', Mount_conn a)))"

definition mount_send :: "bool \<Rightarrow> mount_call \<Rightarrow> mount_cb \<Rightarrow> nat \<Rightarrow> mount_act" where
  "mount_send q call f user = (if q then Mount_task call f user else Mount_done user (- ENOMEM))"

section \<open>Attributes of the nested exports\<close>

definition nfs3_mount_8_cb ::
    "rpc_status \<Rightarrow> GETATTR3res \<Rightarrow> nat \<Rightarrow> 'r nfs_context \<times> mount_attr_cb
      \<Rightarrow> ('r nfs_context \<times> mount_attr_cb) + 'r nfs_context \<times> nat" where
  "nfs3_mount_8_cb status res i x =
     (case x of (nfs, ma) \<Rightarrow>
        let ms = nfsi_nested_mounts (nfsi nfs);
            ms' = (case (status, res) of
                     (RPC_STATUS_SUCCESS, Ok3 fa) \<Rightarrow> ms[i := (ms ! i)\<lparr>nm_attr := fattr3_to_nfs_attr fa\<rparr>]
                   | _ \<Rightarrow> ms);
            nfs' = nfs\<lparr>nfsi := (nfsi nfs)\<lparr>nfsi_nested_mounts := ms'\<rparr>\<rparr>;
            ma' = ma\<lparr>ma_wait_count := ma_wait_count ma - 1\<rparr>
        in if ma_wait_count ma' > 0 then Inl (nfs', ma') else Inr (nfs', ma_user ma'))"

fun attr_calls :: "(nat \<Rightarrow> bool) \<Rightarrow> nat \<Rightarrow> nested_mounts list \<Rightarrow> (nat \<times> mount_call) list" where
  "attr_calls q i [] = []"
| "attr_calls q i (m # ms) =
     (if q i then (i, MOUNT_GETATTR (nm_fh m)) # attr_calls q (Suc i) ms else attr_calls q (Suc i) ms)"

definition nfs3_mount_7_cb ::
    "'r nfs_context \<Rightarrow> (nat \<Rightarrow> bool) \<Rightarrow> rpc_status \<Rightarrow> nat \<Rightarrow> 'r nfs_context \<times> mount_act" where
  "nfs3_mount_7_cb nfs q status user =
     (case check_nfs3_error status of
        Some e \<Rightarrow> (nfs, Mount_done user e)
      | None \<Rightarrow>
          let n = nfsi nfs;
              nfs' = nfs\<lparr>nrpc := rpc_set_resiliency (nrpc nfs) (nfsi_auto_reconnect n) (nfsi_timeout n) (nfsi_retrans n)\<rparr>;
              calls = attr_calls q 0 (nfsi_nested_mounts n)
          in (nfs', if calls = [] then Mount_done user 0
                    else Attrs \<lparr>ma_wait_count = int (length calls), ma_user = user\<rparr> calls))"

section \<open>Transfer sizes\<close>

record FSINFO3resok =
  rtmax :: u32
  wtmax :: u32
  dtpref :: u32

definition nfs3_mount_6_cb ::
    "'r nfs_context \<Rightarrow> bool \<Rightarrow> rpc_status \<Rightarrow> FSINFO3resok res3 \<Rightarrow> nat \<Rightarrow> 'r nfs_context \<times> mount_act" where
  "nfs3_mount_6_cb nfs q status res user =
     (case check_nfs3_error status of
        Some e \<Rightarrow> (nfs, Mount_done user e)
      | None \<Rightarrow>
          (case res of
             Err3 st \<Rightarrow> (nfs, Mount_done user (nfsstat3_to_errno st))
           | Ok3 r \<Rightarrow>
               let readmax = min (nfsi_readmax (nfsi nfs)) (unat (rtmax r));
                   writemax = min (nfsi_writemax (nfsi nfs)) (unat (wtmax r))
               in if nfsi_readmax (nfsi nfs) < NFSMAXDATA2 then (nfs, Mount_done user (- EINVAL))
                  else
                    let nfs1 = nfs_set_readmax nfs readmax
                    in if nfsi_writemax (nfsi nfs1) < NFSMAXDATA2 then (nfs1, Mount_done user (- EINVAL))
                       else
                         let nfs2 = nfs_set_writemax nfs1 writemax;
                             dircount = min (nfsi_readdir_dircount (nfsi nfs2)) (dtpref r);
                             maxcount = min (nfsi_readdir_maxcount (nfsi nfs2)) (dtpref r)
                         in if unat (nfsi_readdir_dircount (nfsi nfs2)) < NFSMAXDATA2
                            then (nfs2, Mount_done user (- EINVAL))
                            else
                              let nfs3 = nfs_set_readdir_max_buffer_size nfs2 dircount maxcount
                              in (nfs3, mount_send q (MOUNT_GETATTR (nfsi_rootfh (nfsi nfs3))) nfs3_mount_7 user)))"

definition nfs3_mount_5_cb :: "'r nfs_context \<Rightarrow> bool \<Rightarrow> rpc_status \<Rightarrow> nat \<Rightarrow> mount_act" where
  "nfs3_mount_5_cb nfs q status user =
     (case check_nfs3_error status of
        Some e \<Rightarrow> Mount_done user e
      | None \<Rightarrow> mount_send q (MOUNT_FSINFO (nfsi_rootfh (nfsi nfs))) nfs3_mount_6 user)"

section \<open>Nested exports\<close>

text \<open>The first part of \<open>nfs3_mount_4_cb\<close>: the result of one MNT call is noted and the call counted.\<close>

definition nested_reply ::
    "rpc_status \<Rightarrow> nfs_fh res3 \<Rightarrow> string \<Rightarrow> 'r nfs_context \<times> mount_discovery_cb
      \<Rightarrow> ('r nfs_context \<times> mount_discovery_cb) + 'r nfs_context \<times> mount_discovery_cb" where
  "nested_reply status res path x =
     (case x of (nfs, md) \<Rightarrow>
        let (nfs', md') =
              (case status of
                 RPC_STATUS_ERROR \<Rightarrow> (nfs, md\<lparr>md_error := - EFAULT\<rparr>)
               | RPC_STATUS_CANCEL \<Rightarrow> (nfs, md\<lparr>md_status := RPC_STATUS_CANCEL\<rparr>)
               | RPC_STATUS_TIMEOUT \<Rightarrow> (nfs, md\<lparr>md_status := RPC_STATUS_TIMEOUT\<rparr>)
               | RPC_STATUS_SUCCESS \<Rightarrow>
                   (case res of
                      Err3 st \<Rightarrow> (nfs, md\<lparr>md_error := mountstat3_to_errno st\<rparr>)
                    | Ok3 fh \<Rightarrow>
                        (nfs\<lparr>nfsi := (nfsi nfs)\<lparr>nfsi_nested_mounts :=
                           \<lparr>nm_path = path, nm_fh = fh, nm_attr = zero_attr\<rparr> # nfsi_nested_mounts (nfsi nfs)\<rparr>\<rparr>, md)));
            md'' = md'\<lparr>md_wait_count := md_wait_count md' - 1\<rparr>
        in if md_wait_count md'' > 0 then Inl (nfs', md'') else Inr (nfs', md''))"

text \<open>The second part, when no call is left.\<close>

definition nested_end :: "conn_env \<Rightarrow> 'r mount_state \<Rightarrow> mount_discovery_cb \<Rightarrow> ('r mount_state \<times> mount_act) option" where
  "nested_end env s md =
     Option.bind (mount_disconnect env s) (\<lambda>s'.
       if md_status md = RPC_STATUS_CANCEL then Some (s', Mount_done (md_user md) (- EINTR))
       else if md_error md \<noteq> 0 then Some (s', Mount_done (md_user md) (md_error md))
       else nfsd_connect env s' (md_user md))"

definition nfs3_mount_4_cb ::
    "conn_env \<Rightarrow> 'r mount_state \<Rightarrow> rpc_status \<Rightarrow> nfs_fh res3 \<Rightarrow> string \<times> string \<Rightarrow> mount_discovery_cb
      \<Rightarrow> (string \<times> string) list \<Rightarrow> ('r mount_state \<times> mount_act) option" where
  "nfs3_mount_4_cb env s status res item md others =
     (case nested_reply status res (snd item) (fst s, md) of
        Inl (nfs, md') \<Rightarrow> Some ((nfs, snd s), Nested md' others)
      | Inr (nfs, md') \<Rightarrow> nested_end env (nfs, snd s) md')"

text \<open>
  The exports below the export \<open>e\<close>, which is not empty, with the path each is found under. \<open>q i\<close>
  says whether the \<open>i\<close>th attempt to queue a MNT call succeeds; an attempt that fails is repeated
  for the same export.
\<close>

definition is_nested :: "string \<Rightarrow> string \<Rightarrow> bool" where
  "is_nested e d \<longleftrightarrow> prefix e d \<and>
     (d ! (length e - 1) = CHR ''/'' \<or> length e < length d \<and> d ! length e = CHR ''/'')"

definition nested_path :: "string \<Rightarrow> string \<Rightarrow> string" where
  "nested_path e d = drop (length e - (if last e = CHR ''/'' then 1 else 0)) d"

partial_function (option) nested_calls ::
    "(nat \<Rightarrow> bool) \<Rightarrow> string \<Rightarrow> nat \<Rightarrow> string list \<Rightarrow> (string \<times> string) list \<Rightarrow> (string \<times> string) list option" where
  "nested_calls q e i dirs acc =
     (case dirs of
        [] \<Rightarrow> Some acc
      | d # ds \<Rightarrow>
          if \<not> is_nested e d then nested_calls q e i ds acc
          else if q i then nested_calls q e (i + 1) ds (acc @ [(d, nested_path e d)])
          else nested_calls q e (i + 1) dirs acc)"

definition nfs3_mount_3_cb ::
    "conn_env \<Rightarrow> 'r mount_state \<Rightarrow> (nat \<Rightarrow> bool) \<Rightarrow> rpc_status \<Rightarrow> string list \<Rightarrow> nat \<Rightarrow> ('r mount_state \<times> mount_act) option" where
  "nfs3_mount_3_cb env s q status dirs user =
     (case check_nfs3_error status of
        Some e \<Rightarrow> Some (s, Mount_done user e)
      | None \<Rightarrow>
          (case nfsi_export (nfsi (fst s)) of
             None \<Rightarrow> None
           | Some e \<Rightarrow>
               if e = [] then Some (s, Mount_done user (- EFAULT))
               else Option.bind (nested_calls q e 0 dirs []) (\<lambda>calls.
                 if calls \<noteq> []
                 then Some (s, Nested \<lparr>md_wait_count = int (length calls), md_error = 0,
                                       md_status = RPC_STATUS_SUCCESS, md_user = user\<rparr> calls)
                 else Option.bind (mount_disconnect env s) (\<lambda>s'. nfsd_connect env s' user))))"

definition nfs3_mount_2_cb ::
    "conn_env \<Rightarrow> 'r mount_state \<Rightarrow> bool \<Rightarrow> rpc_status \<Rightarrow> nfs_fh res3 \<Rightarrow> nat \<Rightarrow> ('r mount_state \<times> mount_act) option" where
  "nfs3_mount_2_cb env s q status res user =
     (case check_nfs3_error status of
        Some e \<Rightarrow> Some (s, Mount_done user e)
      | None \<Rightarrow>
          (case res of
             Err3 st \<Rightarrow> Some (s, Mount_done user (mountstat3_to_errno st))
           | Ok3 fh \<Rightarrow>
               let nfs = (fst s)\<lparr>nfsi := (nfsi (fst s))\<lparr>nfsi_rootfh := fh\<rparr>\<rparr>
               in if nfsi_auto_traverse_mounts (nfsi nfs) \<noteq> 0
                  then Some ((nfs, snd s), mount_send q MOUNT_EXPORT nfs3_mount_3 user)
                  else Option.bind (mount_disconnect env (nfs, snd s)) (\<lambda>s'. nfsd_connect env s' user)))"

definition nfs3_mount_1_cb :: "'r nfs_context \<Rightarrow> bool \<Rightarrow> rpc_status \<Rightarrow> nat \<Rightarrow> mount_act option" where
  "nfs3_mount_1_cb nfs q status user =
     (case check_nfs3_error status of
        Some e \<Rightarrow> Some (Mount_done user e)
      | None \<Rightarrow>
          (case nfsi_export (nfsi nfs) of
             None \<Rightarrow> None
           | Some e \<Rightarrow> Some (mount_send q (MOUNT_MNT e) nfs3_mount_2 user)))"

text \<open>\<open>None\<close> in the result is the return value \<open>-1\<close>.\<close>

definition nfs3_mount_async ::
    "conn_env \<Rightarrow> 'r mount_state \<Rightarrow> string \<Rightarrow> string \<Rightarrow> nat \<Rightarrow> 'r mount_state \<times> mount_act option" where
  "nfs3_mount_async env s server export user =
     (let nfs = (fst s)\<lparr>nfsi := (nfsi (fst s))\<lparr>nfsi_server := Some server, nfsi_export := Some export\<rparr>\<rparr>
      in case start_conn env (nfs, snd s) server (nfsi_mountport (nfsi nfs)) MOUNT_PROGRAM MOUNT_V3 (nfs3_mount_1 user) of
           (s', r) \<Rightarrow> (s', map_option Mount_conn r))"

section \<open>Unmounting\<close>

definition nfs3_umount_2_cb :: "conn_env \<Rightarrow> 'r mount_state \<Rightarrow> rpc_status \<Rightarrow> nat \<Rightarrow> ('r mount_state \<times> mount_act) option" where
  "nfs3_umount_2_cb env s status user =
     (case check_nfs3_error status of
        Some e \<Rightarrow> Some (s, Mount_done user e)
      | None \<Rightarrow> map_option (\<lambda>s'. (s', Mount_done user 0)) (mount_disconnect env s))"

definition nfs3_umount_1_cb :: "'r nfs_context \<Rightarrow> bool \<Rightarrow> rpc_status \<Rightarrow> nat \<Rightarrow> mount_act option" where
  "nfs3_umount_1_cb nfs q status user =
     (case check_nfs3_error status of
        Some e \<Rightarrow> Some (Mount_done user e)
      | None \<Rightarrow>
          (case nfsi_export (nfsi nfs) of
             None \<Rightarrow> None
           | Some e \<Rightarrow> Some (mount_send q (MOUNT_UMNT e) nfs3_umount_2 user)))"

definition nfs3_umount_async ::
    "conn_env \<Rightarrow> 'r mount_state \<Rightarrow> nat \<Rightarrow> ('r mount_state \<times> mount_act option) option" where
  "nfs3_umount_async env s user =
     Option.bind (mount_disconnect env s) (\<lambda>s1.
       case nfsi_server (nfsi (fst s1)) of
         None \<Rightarrow> None
       | Some server \<Rightarrow>
           (case start_conn env s1 server (nfsi_mountport (nfsi (fst s1))) MOUNT_PROGRAM MOUNT_V3 (nfs3_umount_1 user) of
              (s', r) \<Rightarrow> Some (s', map_option Mount_conn r)))"

section \<open>Transfer sizes\<close>

lemma adjust_xfer_le: "8192 \<le> n \<Longrightarrow> adjust_xfer n \<le> n"
  by (simp add: adjust_xfer_def NFS_MIN_XFER_SIZE_def)

lemma adjust_xfer_small: "n \<le> 8192 \<Longrightarrow> adjust_xfer n = 8192"
  by (simp add: adjust_xfer_def NFS_MIN_XFER_SIZE_def NFS_MAX_XFER_SIZE_def)

text \<open>
  C31. A mount takes over the transfer sizes of the server: the limits for reading and writing
  afterwards are not above those of the server and those that were configured, and they and the
  sizes for directories stay well formed. But a server whose limit is below 8192 is neither
  refused nor obeyed: the check that is to refuse it tests the configured size, and the limit is
  set to 8192.
\<close>

theorem nfs3_mount_sizes:
  assumes "nfs_wf nfs" "nfs3_mount_6_cb nfs q RPC_STATUS_SUCCESS (Ok3 r) user = (nfs', a)"
  shows "nfs_wf nfs' \<and> a = mount_send q (MOUNT_GETATTR (nfsi_rootfh (nfsi nfs))) nfs3_mount_7 user
    \<and> nfs_get_readmax nfs' \<le> nfs_get_readmax nfs \<and> nfs_get_writemax nfs' \<le> nfs_get_writemax nfs
    \<and> (if 8192 \<le> unat (rtmax r) then nfs_get_readmax nfs' \<le> unat (rtmax r) else nfs_get_readmax nfs' = 8192)
    \<and> (if 8192 \<le> unat (wtmax r) then nfs_get_writemax nfs' \<le> unat (wtmax r) else nfs_get_writemax nfs' = 8192)"
proof -
  have max: "8192 \<le> nfsi_readmax (nfsi nfs)" "8192 \<le> nfsi_writemax (nfsi nfs)" "8192 \<le> unat (nfsi_readdir_dircount (nfsi nfs))"
    using assms(1) by (simp_all add: nfsi_wf_def xfer_ok_def NFS_MIN_XFER_SIZE_def)
  then have e: "nfs' = nfs_set_readdir_max_buffer_size (nfs_set_writemax (nfs_set_readmax nfs
        (min (nfsi_readmax (nfsi nfs)) (unat (rtmax r)))) (min (nfsi_writemax (nfsi nfs)) (unat (wtmax r))))
        (min (nfsi_readdir_dircount (nfsi nfs)) (dtpref r)) (min (nfsi_readdir_maxcount (nfsi nfs)) (dtpref r))"
    "a = mount_send q (MOUNT_GETATTR (nfsi_rootfh (nfsi nfs))) nfs3_mount_7 user"
    using assms(2) by (simp_all add: nfs3_mount_6_cb_def NFSMAXDATA2_def Let_def nfs_setters)
  have sizes: "nfs_get_readmax nfs' = adjust_xfer (min (nfsi_readmax (nfsi nfs)) (unat (rtmax r)))"
    "nfs_get_writemax nfs' = adjust_xfer (min (nfsi_writemax (nfsi nfs)) (unat (wtmax r)))"
    by (simp_all add: e(1) nfs_setters nfs_get_readmax_def nfs_get_writemax_def)
  have limit: "adjust_xfer (min m k) \<le> m \<and> (if 8192 \<le> k then adjust_xfer (min m k) \<le> k else adjust_xfer (min m k) = 8192)"
    if "8192 \<le> m" for m k
    using that adjust_xfer_le [of "min m k"] adjust_xfer_small [of "min m k"] by (cases "8192 \<le> k") auto
  have "nfs_wf nfs'" using assms(1) by (simp add: e(1) nfs_setters nfsi_wf_def)
  then show ?thesis using e(2) sizes limit [OF max(1)] limit [OF max(2)]
    by (simp add: nfs_get_readmax_def nfs_get_writemax_def)
qed

text \<open>A server that reads at most 4096 bytes at once.\<close>

theorem nfs3_mount_sizes_witness:
  "nfs_get_readmax (fst (nfs3_mount_6_cb sample_nfs True RPC_STATUS_SUCCESS (Ok3 \<lparr>rtmax = 4096, wtmax = 65536, dtpref = 8192\<rparr>) 1)) = 8192"
  using nfs3_mount_sizes [OF sample_nfs_wf surjective_pairing, of True "\<lparr>rtmax = 4096, wtmax = 65536, dtpref = 8192\<rparr>" 1]
  by simp

section \<open>Nested exports\<close>

definition pending_nested :: "'r nfs_context \<times> mount_discovery_cb \<Rightarrow> nat" where
  "pending_nested x = nat (md_wait_count (snd x))"

definition mnt_reply ::
    "rpc_status \<times> nfs_fh res3 \<times> string \<Rightarrow> 'r nfs_context \<times> mount_discovery_cb
      \<Rightarrow> ('r nfs_context \<times> mount_discovery_cb) + 'r nfs_context \<times> mount_discovery_cb" where
  "mnt_reply m = (case m of (status, res, path) \<Rightarrow> nested_reply status res path)"

definition pending_attrs :: "'r nfs_context \<times> mount_attr_cb \<Rightarrow> nat" where
  "pending_attrs x = nat (ma_wait_count (snd x))"

definition attr_reply ::
    "rpc_status \<times> GETATTR3res \<times> nat \<Rightarrow> 'r nfs_context \<times> mount_attr_cb
      \<Rightarrow> ('r nfs_context \<times> mount_attr_cb) + 'r nfs_context \<times> nat" where
  "attr_reply m = (case m of (status, res, i) \<Rightarrow> nfs3_mount_8_cb status res i)"

text \<open>The MNT calls and the GETATTR calls for nested exports are groups with one completion.\<close>

interpretation mnt: fan_in pending_nested mnt_reply
proof
  fix x :: "'r nfs_context \<times> mount_discovery_cb" and m :: "rpc_status \<times> nfs_fh res3 \<times> string"
  show "1 < pending_nested x \<Longrightarrow> \<exists>x'. mnt_reply m x = Inl x' \<and> Suc (pending_nested x') = pending_nested x"
    by (cases m; cases x) (auto simp: pending_nested_def mnt_reply_def nested_reply_def Let_def
        split: rpc_status.splits res3.splits)
  show "pending_nested x = 1 \<Longrightarrow> \<exists>d. mnt_reply m x = Inr d"
    by (cases m; cases x) (auto simp: pending_nested_def mnt_reply_def nested_reply_def Let_def
        split: rpc_status.splits res3.splits)
qed

interpretation attr: fan_in pending_attrs attr_reply
proof
  fix x :: "'r nfs_context \<times> mount_attr_cb" and m :: "rpc_status \<times> GETATTR3res \<times> nat"
  show "1 < pending_attrs x \<Longrightarrow> \<exists>x'. attr_reply m x = Inl x' \<and> Suc (pending_attrs x') = pending_attrs x"
    by (cases m; cases x) (auto simp: pending_attrs_def attr_reply_def nfs3_mount_8_cb_def Let_def)
  show "pending_attrs x = 1 \<Longrightarrow> \<exists>d. attr_reply m x = Inr d"
    by (cases m; cases x) (auto simp: pending_attrs_def attr_reply_def nfs3_mount_8_cb_def Let_def)
qed

lemma nested_calls_all:
  "nested_calls (\<lambda>_. True) e i dirs acc = Some (acc @ map (\<lambda>d. (d, nested_path e d)) (filter (is_nested e) dirs))"
  by (induction dirs arbitrary: i acc) (simp_all add: nested_calls.simps)

lemma nested_calls_ends:
  "nested_calls q e i dirs acc = Some calls \<Longrightarrow> (\<forall>i. \<not> q i) \<Longrightarrow> \<forall>d \<in> set dirs. \<not> is_nested e d"
proof (induction rule: nested_calls.raw_induct [rotated 1, consumes 1])
  case (1 f q e i dirs acc calls)
  then show ?case by (auto split: list.splits if_splits)
qed

text \<open>
  C32. A mount never returns when the MNT call for a nested export cannot be queued: the loop
  over the exports repeats the attempt without going on to the next export.
\<close>

theorem nfs3_mount_nested_loops:
  assumes "d \<in> set dirs" "is_nested e d" "\<forall>i. \<not> q i" "nfsi_export (nfsi (fst s)) = Some e" "e \<noteq> []"
  shows "nested_calls q e i dirs acc = None \<and> nfs3_mount_3_cb env s q RPC_STATUS_SUCCESS dirs user = None"
proof -
  have "nested_calls q e j dirs acc' = None" for j acc'
    using nested_calls_ends [of q e j dirs acc'] assms(1-3) by (cases "nested_calls q e j dirs acc'") auto
  with assms(4,5) show ?thesis by (simp add: nfs3_mount_3_cb_def)
qed

text \<open>The export \<open>/x\<close> with \<open>/x/y\<close> below it.\<close>

theorem nfs3_mount_nested_loops_witness:
  "nfs3_mount_3_cb \<lparr>ce_net = up_env, ce_ai = None\<rparr> (sample_nfs\<lparr>nfsi := (nfsi sample_nfs)\<lparr>nfsi_export := Some ''/x''\<rparr>\<rparr>, 0) (\<lambda>_. False)
     RPC_STATUS_SUCCESS [''/x/y''] 1 = None"
  using nfs3_mount_nested_loops [of "''/x/y''" "[''/x/y'']" "''/x''" "\<lambda>_. False"
      "(sample_nfs\<lparr>nfsi := (nfsi sample_nfs)\<lparr>nfsi_export := Some ''/x''\<rparr>\<rparr>, 0)" 0 "[]" "\<lparr>ce_net = up_env, ce_ai = None\<rparr>" 1]
  by (simp add: is_nested_def)

text \<open>What the replies to the MNT calls leave behind.\<close>

definition granted_mounts :: "(rpc_status \<times> nfs_fh res3 \<times> string) list \<Rightarrow> nested_mounts list" where
  "granted_mounts ms = rev (concat (map (\<lambda>(status, res, path).
     case (status, res) of
       (RPC_STATUS_SUCCESS, Ok3 fh) \<Rightarrow> [\<lparr>nm_path = path, nm_fh = fh, nm_attr = zero_attr\<rparr>]
     | _ \<Rightarrow> []) ms))"

definition refused :: "rpc_status \<times> nfs_fh res3 \<times> string \<Rightarrow> bool" where
  "refused m = (case m of (status, res, path) \<Rightarrow>
     status = RPC_STATUS_ERROR \<or> status = RPC_STATUS_SUCCESS \<and> (case res of Err3 st \<Rightarrow> st \<noteq> 0 | Ok3 _ \<Rightarrow> False))"

text \<open>
  The status that the replies leave: that of the last call that was cancelled or timed out.
\<close>

definition last_status :: "rpc_status \<Rightarrow> (rpc_status \<times> nfs_fh res3 \<times> string) list \<Rightarrow> rpc_status" where
  "last_status st ms = foldl (\<lambda>st m. if fst m = RPC_STATUS_CANCEL \<or> fst m = RPC_STATUS_TIMEOUT then fst m else st) st ms"

definition settled :: "'r nfs_context \<times> mount_discovery_cb \<Rightarrow> 'r nfs_context \<times> mount_discovery_cb
      \<Rightarrow> (rpc_status \<times> nfs_fh res3 \<times> string) list \<Rightarrow> bool" where
  "settled x x' ms \<longleftrightarrow>
     fst x' = (fst x)\<lparr>nfsi := (nfsi (fst x))\<lparr>nfsi_nested_mounts := granted_mounts ms @ nfsi_nested_mounts (nfsi (fst x))\<rparr>\<rparr>
     \<and> md_user (snd x') = md_user (snd x)
     \<and> (md_error (snd x') < 0 \<longleftrightarrow> md_error (snd x) < 0 \<or> (\<exists>m \<in> set ms. refused m))
     \<and> (md_error (snd x) \<le> 0 \<longrightarrow> md_error (snd x') \<le> 0) \<and> md_status (snd x') = last_status (md_status (snd x)) ms"

lemma mountstat3_neg: "mountstat3_to_errno st \<le> 0" "mountstat3_to_errno st = 0 \<longleftrightarrow> st = 0"
  by (simp_all add: mountstat3_to_errno_def)

lemma mnt_reply_settled:
  assumes "mnt_reply m x = Inl x' \<or> mnt_reply m x = Inr x'" "fst (snd m) \<noteq> Err3 0"
  shows "settled x x' [m]"
proof -
  obtain status res path where m: "m = (status, res, path)" by (metis prod_cases3)
  obtain nfs md where x: "x = (nfs, md)" by (metis surj_pair)
  show ?thesis
  proof (cases status)
    case RPC_STATUS_SUCCESS
    then show ?thesis using assms mountstat3_neg
      by (cases res) (auto simp: m x mnt_reply_def nested_reply_def settled_def granted_mounts_def refused_def last_status_def Let_def
          order.strict_iff_order split: if_splits)
  qed (use assms in \<open>auto simp: m x mnt_reply_def nested_reply_def settled_def granted_mounts_def refused_def last_status_def Let_def
        split: if_splits\<close>)
qed

lemma settled_trans: "settled x y [m] \<Longrightarrow> settled y z ms \<Longrightarrow> settled x z (m # ms)"
  by (auto simp: settled_def granted_mounts_def last_status_def)

lemma run_settled:
  "run_replies mnt_reply ms x = Inr (x', []) \<Longrightarrow> \<forall>m \<in> set ms. fst (snd m) \<noteq> Err3 0 \<Longrightarrow> settled x x' ms"
proof (induction ms arbitrary: x)
  case (Cons m ms)
  show ?case
  proof (cases "mnt_reply m x")
    case (Inl y)
    with Cons.prems have "run_replies mnt_reply ms y = Inr (x', [])" by simp
    with Cons.IH Cons.prems(2) have "settled y x' ms" by simp
    moreover have "settled x y [m]" using mnt_reply_settled [of m x y] Inl Cons.prems(2) by simp
    ultimately show ?thesis using settled_trans by blast
  next
    case (Inr y)
    with Cons.prems show ?thesis using mnt_reply_settled [of m x y] by auto
  qed
qed simp

lemma nfsd_connect_result:
  "nfsd_connect env s user = Some (s', a) \<Longrightarrow> (\<exists>c. a = Mount_conn c) \<or> a = Mount_done user (- ENOMEM)"
  by (cases "start_conn env s (the (nfsi_server (nfsi (fst s)))) (nfsi_nfsport (nfsi (fst s))) NFS_PROGRAM 3 (nfs3_mount_5 user)")
     (auto simp: nfsd_connect_def split: option.splits)

text \<open>
  C30. What becomes of the nested exports: a MNT call is made for exactly the exports below the one
  that is mounted. When all calls are answered, in any order, the step completes once, and the
  list of nested exports holds exactly those that the server granted. If a call failed or the server refused
  one of them, the whole mount fails, although nested exports are meant to be best effort; it
  also fails when, of the calls that were cancelled or timed out, the last one was cancelled. In every
  other case the mount goes on to the NFS server: a nested MNT that timed out is forgotten, and
  the mount succeeds without that export.
\<close>

theorem nfs3_mount_nested_outcome:
  fixes s :: "'r mount_state"
  assumes "nfs3_mount_3_cb env s (\<lambda>_. True) RPC_STATUS_SUCCESS dirs user = Some (s', Nested md calls)"
    and "nfsi_export (nfsi (fst s)) = Some e"
    and "length replies = length calls" "\<forall>m \<in> set replies. fst (snd m) \<noteq> Err3 0"
  shows "map fst calls = filter (is_nested e) dirs
    \<and> (\<exists>nfs' md'. run_replies mnt_reply replies (fst s', md) = Inr ((nfs', md'), [])
        \<and> nfsi_nested_mounts (nfsi nfs') = granted_mounts replies @ nfsi_nested_mounts (nfsi (fst s))
        \<and> (\<forall>env' ofs. nested_end env' (nfs', ofs) md' =
             Option.bind (mount_disconnect env' (nfs', ofs)) (\<lambda>s''.
               if last_status RPC_STATUS_SUCCESS replies = RPC_STATUS_CANCEL then Some (s'', Mount_done user (- EINTR))
               else if \<exists>m \<in> set replies. refused m then Some (s'', Mount_done user (md_error md'))
               else nfsd_connect env' s'' user))
        \<and> ((\<exists>m \<in> set replies. refused m) \<longrightarrow> md_error md' < 0))"
proof -
  have calls: "e \<noteq> []" "calls = map (\<lambda>d. (d, nested_path e d)) (filter (is_nested e) dirs)" "calls \<noteq> []" "s' = s"
    "md = \<lparr>md_wait_count = int (length calls), md_error = 0, md_status = RPC_STATUS_SUCCESS, md_user = user\<rparr>"
    using assms(1,2) by (auto simp: nfs3_mount_3_cb_def nested_calls_all bind_eq_Some_conv
        split: if_splits dest: nfsd_connect_result)
  obtain x' where x': "run_replies mnt_reply replies (fst s, md) = Inr (x', [])"
    using mnt.completes_once [of "(fst s, md)" replies] calls assms(3) by (auto simp: pending_nested_def)
  have st: "settled (fst s, md) x' replies" using run_settled [OF x' assms(4)] .
  have e: "md_error (snd x') < 0 \<longleftrightarrow> (\<exists>m \<in> set replies. refused m)" "md_error (snd x') \<noteq> 0 \<longleftrightarrow> md_error (snd x') < 0"
    "md_user (snd x') = user" "md_status (snd x') = last_status RPC_STATUS_SUCCESS replies"
    using st by (auto simp: settled_def calls(5))
  have "nested_end env' (fst x', ofs) (snd x') =
      Option.bind (mount_disconnect env' (fst x', ofs)) (\<lambda>s''.
        if last_status RPC_STATUS_SUCCESS replies = RPC_STATUS_CANCEL then Some (s'', Mount_done user (- EINTR))
        else if \<exists>m \<in> set replies. refused m then Some (s'', Mount_done user (md_error (snd x')))
        else nfsd_connect env' s'' user)" for env' ofs
    unfolding nested_end_def e(2,3,4) e(1) ..
  moreover have "nfsi_nested_mounts (nfsi (fst x')) = granted_mounts replies @ nfsi_nested_mounts (nfsi (fst s))"
    using st by (simp add: settled_def)
  moreover have "run_replies mnt_reply replies (fst s', md) = Inr ((fst x', snd x'), [])" using x' calls(4) by simp
  moreover have "map fst calls = filter (is_nested e) dirs" by (simp add: calls(2) comp_def)
  ultimately show ?thesis using e(1) by blast
qed

text \<open>
  Of \<open>/x/y\<close> and \<open>/x/z\<close> below \<open>/x\<close> the server grants the second, and the call for the first times
  out: the mount goes on with one of the two.
\<close>

theorem nfs3_mount_nested_outcome_witness:
  "\<exists>md calls nfs' md'. nfs3_mount_3_cb \<lparr>ce_net = up_env, ce_ai = None\<rparr>
        (sample_nfs\<lparr>nfsi := (nfsi sample_nfs)\<lparr>nfsi_export := Some ''/x''\<rparr>\<rparr>, 0) (\<lambda>_. True)
        RPC_STATUS_SUCCESS [''/x/y'', ''/xy'', ''/x/z''] 1 =
        Some ((sample_nfs\<lparr>nfsi := (nfsi sample_nfs)\<lparr>nfsi_export := Some ''/x''\<rparr>\<rparr>, 0), Nested md calls)
    \<and> map fst calls = [''/x/y'', ''/x/z'']
    \<and> run_replies mnt_reply [(RPC_STATUS_SUCCESS, Ok3 [7], ''/z''), (RPC_STATUS_TIMEOUT, Ok3 [], ''/y'')]
        (sample_nfs\<lparr>nfsi := (nfsi sample_nfs)\<lparr>nfsi_export := Some ''/x''\<rparr>\<rparr>, md) = Inr ((nfs', md'), [])
    \<and> map nm_path (nfsi_nested_mounts (nfsi nfs')) = [''/z'']
    \<and> (\<forall>env' ofs. nested_end env' (nfs', ofs) md' =
         Option.bind (mount_disconnect env' (nfs', ofs)) (\<lambda>s''. nfsd_connect env' s'' 1))"
proof -
  let ?s = "(sample_nfs\<lparr>nfsi := (nfsi sample_nfs)\<lparr>nfsi_export := Some ''/x''\<rparr>\<rparr>, 0)"
  let ?calls = "[(''/x/y'', ''/y''), (''/x/z'', ''/z'')]"
  let ?md = "\<lparr>md_wait_count = 2, md_error = 0, md_status = RPC_STATUS_SUCCESS, md_user = 1\<rparr>"
  let ?replies = "[(RPC_STATUS_SUCCESS, Ok3 [7], ''/z''), (RPC_STATUS_TIMEOUT, Ok3 [], ''/y'')]"
  have c: "nfs3_mount_3_cb \<lparr>ce_net = up_env, ce_ai = None\<rparr> ?s (\<lambda>_. True) RPC_STATUS_SUCCESS [''/x/y'', ''/xy'', ''/x/z''] 1 =
      Some (?s, Nested ?md ?calls)"
    by (simp add: nfs3_mount_3_cb_def nested_calls_all is_nested_def nested_path_def)
  have g: "granted_mounts ?replies = [\<lparr>nm_path = ''/z'', nm_fh = [7], nm_attr = zero_attr\<rparr>]"
    "\<not> (\<exists>m \<in> set ?replies. refused m)" "last_status RPC_STATUS_SUCCESS ?replies = RPC_STATUS_TIMEOUT"
    "nfsi_nested_mounts (nfsi (fst ?s)) = []"
    by (simp_all add: granted_mounts_def refused_def last_status_def sample_nfs_def zero_nfsi_def)
  show ?thesis
    using c nfs3_mount_nested_outcome [OF c, of "''/x''" ?replies] g
    by (intro exI [of _ ?md] exI [of _ ?calls]) auto
qed

end
