(* ===== verification/Nfs_Dispatch.thy ===== *)
theory Nfs_Dispatch
  imports Nfs3_File Nfs3_Dir Nfs3_Mount
begin

text \<open>
  The functions \<open>nfs_*_async\<close> of \<open>src/lib/libnfs.c\<close> that an application calls: each refuses an
  operation that would change a read-only mount, or a file that is open for reading only, and
  hands the others to the client of the version of the protocol that is in use.

  The NFSv4 client is not modelled: a call of one of its functions is recorded with its
  arguments.
\<close>

section \<open>Versions\<close>

text \<open>
  \<open>To_v3\<close> and \<open>To_v4\<close>: the function of the client is called, with this result or with these
  arguments. \<open>Called_back\<close>: the callback is called at once with this status, and the return value
  is zero. \<open>Minus_1\<close>: the return value is \<open>-1\<close>, without a callback.
\<close>

text \<open>
  The last argument of \<open>fcntl\<close>, a pointer to a lock, is left out.
\<close>

datatype lock_op = NFS4_F_LOCK | NFS4_F_TLOCK | NFS4_F_ULOCK | NFS4_F_TEST

datatype fcntl_op = NFS4_F_SETLK | NFS4_F_SETLKW

datatype nfs4_op =
    nfs4_stat64 string bool | nfs4_open_op string u32 u32 | nfs4_chdir string
  | nfs4_preadv nfsfh "nat list" u64 bool | nfs4_pwrite nfsfh "byte list" nat u64 bool
  | nfs4_write nfsfh nat "byte list" | nfs4_close nfsfh | nfs4_fstat64 nfsfh | nfs4_fsync nfsfh
  | nfs4_ftruncate nfsfh u64 | nfs4_truncate string u64 | nfs4_mkdir2 string int | nfs4_rmdir string
  | nfs4_creat string u32 | nfs4_unlink string | nfs4_mknod string u32 u32 u32 | nfs4_opendir string
  | nfs4_lseek nfsfh u64 seek_whence | nfs4_statvfs string | nfs4_statvfs64 string | nfs4_readlink string
  | nfs4_chmod_internal string bool int | nfs4_fchmod nfsfh int | nfs4_chown_internal string bool u32 u32
  | nfs4_fchown nfsfh u32 u32 | nfs4_utimes_internal string bool "((u64 \<times> u64) \<times> (u64 \<times> u64)) option"
  | nfs4_utime string "(u64 \<times> u64) option" | nfs4_access string u32 | nfs4_access2 string
  | nfs4_lockf nfsfh lock_op u64 | nfs4_fcntl nfsfh fcntl_op | nfs4_mount string string
  | nfs4_symlink string string | nfs4_rename string string | nfs4_link string string

datatype 'a dispatched = To_v3 'a | To_v4 nfs4_op | Called_back cb3 int | Minus_1

definition by_version :: "'r nfs_context \<Rightarrow> 'a \<Rightarrow> nfs4_op \<Rightarrow> 'a dispatched" where
  "by_version nfs v3 v4 =
     (if nfsi_version (nfsi nfs) = Nfs_Context.NFS_V3 then To_v3 v3
      else if nfsi_version (nfsi nfs) = Nfs_Context.NFS_V4 then To_v4 v4
      else Minus_1)"

definition unless_readonly :: "'r nfs_context \<Rightarrow> cb3 \<Rightarrow> 'a dispatched \<Rightarrow> 'a dispatched" where
  "unless_readonly nfs c r = (if nfsi_readonly (nfsi nfs) \<noteq> 0 then Called_back c (- EROFS) else r)"

section \<open>Mounts\<close>

definition nfs_mount_async ::
    "conn_env \<Rightarrow> 'r mount_state \<Rightarrow> string \<Rightarrow> string \<Rightarrow> nat \<Rightarrow> ('r mount_state \<times> mount_act option) dispatched" where
  "nfs_mount_async env s server export user =
     by_version (fst s) (nfs3_mount_async env s server export user) (nfs4_mount server export)"

text \<open>Version 4 has nothing to unmount.\<close>

definition nfs_umount_async ::
    "conn_env \<Rightarrow> 'r mount_state \<Rightarrow> nat \<Rightarrow> ('r mount_state \<times> mount_act option) option dispatched" where
  "nfs_umount_async env s user =
     (if nfsi_version (nfsi (fst s)) = Nfs_Context.NFS_V3 then To_v3 (nfs3_umount_async env s user)
      else if nfsi_version (nfsi (fst s)) = Nfs_Context.NFS_V4 then Called_back (User user) 0
      else Minus_1)"

section \<open>Files that are named\<close>

definition nfs_stat_async :: "'r nfs_context \<Rightarrow> bool \<Rightarrow> string \<Rightarrow> nat \<Rightarrow> act3 option option dispatched" where
  "nfs_stat_async nfs q path user =
     (if nfsi_version (nfsi nfs) = Nfs_Context.NFS_V3 then To_v3 (nfs3_stat_async nfs q path (User user)) else Minus_1)"

definition nfs_stat64_async :: "'r nfs_context \<Rightarrow> bool \<Rightarrow> string \<Rightarrow> nat \<Rightarrow> act3 option option dispatched" where
  "nfs_stat64_async nfs q path user =
     by_version nfs (nfs3_stat64_async nfs q path False (User user)) (nfs4_stat64 path False)"

definition nfs_lstat64_async :: "'r nfs_context \<Rightarrow> bool \<Rightarrow> string \<Rightarrow> nat \<Rightarrow> act3 option option dispatched" where
  "nfs_lstat64_async nfs q path user =
     by_version nfs (nfs3_stat64_async nfs q path True (User user)) (nfs4_stat64 path True)"

definition nfs_open2_async ::
    "'r nfs_context \<Rightarrow> bool \<Rightarrow> string \<Rightarrow> u32 \<Rightarrow> u32 \<Rightarrow> nat \<Rightarrow> act3 option option dispatched" where
  "nfs_open2_async nfs q path flags mode user =
     (if nfsi_readonly (nfsi nfs) \<noteq> 0
         \<and> flags AND ucast (O_WRONLY OR O_RDWR OR O_APPEND OR O_CREAT OR O_TRUNC) \<noteq> 0
      then Called_back (User user) (- EROFS)
      else by_version nfs (nfs3_open_async nfs q path flags mode user) (nfs4_open_op path flags mode))"

definition nfs_open_async ::
    "'r nfs_context \<Rightarrow> bool \<Rightarrow> string \<Rightarrow> u32 \<Rightarrow> nat \<Rightarrow> act3 option option dispatched" where
  "nfs_open_async nfs q path flags user =
     nfs_open2_async nfs q path flags (0x1B6 AND NOT (ucast (nfsi_mask (nfsi nfs)))) user"

definition nfs_chdir_async :: "'r nfs_context \<Rightarrow> bool \<Rightarrow> string \<Rightarrow> nat \<Rightarrow> act3 option option dispatched" where
  "nfs_chdir_async nfs q path user = by_version nfs (nfs3_chdir_async nfs q path (User user)) (nfs4_chdir path)"

definition nfs_truncate_async ::
    "'r nfs_context \<Rightarrow> bool \<Rightarrow> string \<Rightarrow> u64 \<Rightarrow> nat \<Rightarrow> act3 option option dispatched" where
  "nfs_truncate_async nfs q path len user =
     unless_readonly nfs (User user)
       (by_version nfs (nfs3_truncate_async nfs q path len (User user)) (nfs4_truncate path len))"

definition nfs_mkdir2_async ::
    "'r nfs_context \<Rightarrow> bool \<Rightarrow> string \<Rightarrow> int \<Rightarrow> nat \<Rightarrow> act3 option option dispatched" where
  "nfs_mkdir2_async nfs q path mode user =
     unless_readonly nfs (User user)
       (by_version nfs (nfs3_mkdir2_async nfs q path mode (User user)) (nfs4_mkdir2 path mode))"

definition nfs_mkdir_async :: "'r nfs_context \<Rightarrow> bool \<Rightarrow> string \<Rightarrow> nat \<Rightarrow> act3 option option dispatched" where
  "nfs_mkdir_async nfs q path user = nfs_mkdir2_async nfs q path 0x1ED user"

definition nfs_rmdir_async :: "'r nfs_context \<Rightarrow> bool \<Rightarrow> string \<Rightarrow> nat \<Rightarrow> act3 option option dispatched" where
  "nfs_rmdir_async nfs q path user =
     unless_readonly nfs (User user) (by_version nfs (nfs3_rmdir_async nfs q path (User user)) (nfs4_rmdir path))"

definition nfs_creat_async ::
    "'r nfs_context \<Rightarrow> bool \<Rightarrow> string \<Rightarrow> u32 \<Rightarrow> nat \<Rightarrow> act3 option option dispatched" where
  "nfs_creat_async nfs q path mode user =
     unless_readonly nfs (User user) (by_version nfs (nfs3_creat_async nfs q path mode user) (nfs4_creat path mode))"

definition nfs_unlink_async :: "'r nfs_context \<Rightarrow> bool \<Rightarrow> string \<Rightarrow> nat \<Rightarrow> act3 option option dispatched" where
  "nfs_unlink_async nfs q path user =
     unless_readonly nfs (User user) (by_version nfs (nfs3_unlink_async nfs q path (User user)) (nfs4_unlink path))"

definition nfs_mknod_async ::
    "'r nfs_context \<Rightarrow> bool \<Rightarrow> string \<Rightarrow> u32 \<Rightarrow> u32 \<Rightarrow> u32 \<Rightarrow> nat \<Rightarrow> act3 option option dispatched" where
  "nfs_mknod_async nfs q path mode maj mnr user =
     unless_readonly nfs (User user)
       (by_version nfs (nfs3_mknod_async nfs q path mode maj mnr (User user)) (nfs4_mknod path mode maj mnr))"

definition nfs_opendir_async ::
    "'r nfs_context \<Rightarrow> bool \<Rightarrow> string \<Rightarrow> nat \<Rightarrow> nat \<Rightarrow> act3 option option dispatched" where
  "nfs_opendir_async nfs q path i user =
     by_version nfs (nfs3_opendir_async nfs q path i (User user)) (nfs4_opendir path)"

definition nfs_statvfs_async :: "'r nfs_context \<Rightarrow> bool \<Rightarrow> string \<Rightarrow> nat \<Rightarrow> act3 option option dispatched" where
  "nfs_statvfs_async nfs q path user = by_version nfs (nfs3_statvfs_async nfs q path (User user)) (nfs4_statvfs path)"

definition nfs_statvfs64_async :: "'r nfs_context \<Rightarrow> bool \<Rightarrow> string \<Rightarrow> nat \<Rightarrow> act3 option option dispatched" where
  "nfs_statvfs64_async nfs q path user =
     by_version nfs (nfs3_statvfs64_async nfs q path (User user)) (nfs4_statvfs64 path)"

definition nfs_readlink_async :: "'r nfs_context \<Rightarrow> bool \<Rightarrow> string \<Rightarrow> nat \<Rightarrow> act3 option option dispatched" where
  "nfs_readlink_async nfs q path user =
     by_version nfs (nfs3_readlink_async nfs q path (User user)) (nfs4_readlink path)"

definition nfs_chmod_async ::
    "'r nfs_context \<Rightarrow> bool \<Rightarrow> string \<Rightarrow> int \<Rightarrow> nat \<Rightarrow> act3 option option dispatched" where
  "nfs_chmod_async nfs q path mode user =
     unless_readonly nfs (User user)
       (by_version nfs (nfs3_chmod_async_internal nfs q path False mode (User user)) (nfs4_chmod_internal path False mode))"

definition nfs_lchmod_async ::
    "'r nfs_context \<Rightarrow> bool \<Rightarrow> string \<Rightarrow> int \<Rightarrow> nat \<Rightarrow> act3 option option dispatched" where
  "nfs_lchmod_async nfs q path mode user =
     unless_readonly nfs (User user)
       (by_version nfs (nfs3_chmod_async_internal nfs q path True mode (User user)) (nfs4_chmod_internal path True mode))"

definition nfs_chown_async ::
    "'r nfs_context \<Rightarrow> bool \<Rightarrow> string \<Rightarrow> u32 \<Rightarrow> u32 \<Rightarrow> nat \<Rightarrow> act3 option option dispatched" where
  "nfs_chown_async nfs q path u g user =
     unless_readonly nfs (User user)
       (by_version nfs (nfs3_chown_async_internal nfs q path False u g (User user)) (nfs4_chown_internal path False u g))"

definition nfs_lchown_async ::
    "'r nfs_context \<Rightarrow> bool \<Rightarrow> string \<Rightarrow> u32 \<Rightarrow> u32 \<Rightarrow> nat \<Rightarrow> act3 option option dispatched" where
  "nfs_lchown_async nfs q path u g user =
     unless_readonly nfs (User user)
       (by_version nfs (nfs3_chown_async_internal nfs q path True u g (User user)) (nfs4_chown_internal path True u g))"

definition nfs_utimes_async ::
    "'r nfs_context \<Rightarrow> bool \<Rightarrow> string \<Rightarrow> ((u64 \<times> u64) \<times> (u64 \<times> u64)) option \<Rightarrow> nat \<Rightarrow> act3 option option dispatched" where
  "nfs_utimes_async nfs q path tms user =
     unless_readonly nfs (User user)
       (by_version nfs (nfs3_utimes_async_internal nfs q path False tms (User user)) (nfs4_utimes_internal path False tms))"

definition nfs_lutimes_async ::
    "'r nfs_context \<Rightarrow> bool \<Rightarrow> string \<Rightarrow> ((u64 \<times> u64) \<times> (u64 \<times> u64)) option \<Rightarrow> nat \<Rightarrow> act3 option option dispatched" where
  "nfs_lutimes_async nfs q path tms user =
     unless_readonly nfs (User user)
       (by_version nfs (nfs3_utimes_async_internal nfs q path True tms (User user)) (nfs4_utimes_internal path True tms))"

definition nfs_utime_async ::
    "'r nfs_context \<Rightarrow> bool \<Rightarrow> string \<Rightarrow> (u64 \<times> u64) option \<Rightarrow> nat \<Rightarrow> act3 option option dispatched" where
  "nfs_utime_async nfs q path tms user =
     unless_readonly nfs (User user)
       (by_version nfs (nfs3_utime_async nfs q path tms (User user)) (nfs4_utime path tms))"

definition nfs_access_async ::
    "'r nfs_context \<Rightarrow> bool \<Rightarrow> string \<Rightarrow> u32 \<Rightarrow> nat \<Rightarrow> act3 option option dispatched" where
  "nfs_access_async nfs q path mode user =
     by_version nfs (nfs3_access_async nfs q path mode (User user)) (nfs4_access path mode)"

definition nfs_access2_async :: "'r nfs_context \<Rightarrow> bool \<Rightarrow> string \<Rightarrow> nat \<Rightarrow> act3 option option dispatched" where
  "nfs_access2_async nfs q path user =
     by_version nfs (nfs3_access2_async nfs q path (User user)) (nfs4_access2 path)"

text \<open>A symbolic link is made on a read-only mount, too.\<close>

definition nfs_symlink_async ::
    "'r nfs_context \<Rightarrow> bool \<Rightarrow> string \<Rightarrow> string \<Rightarrow> nat \<Rightarrow> act3 option option dispatched" where
  "nfs_symlink_async nfs q target newpath user =
     by_version nfs (nfs3_symlink_async nfs q target newpath (User user)) (nfs4_symlink target newpath)"

definition nfs_rename_async ::
    "'r nfs_context \<Rightarrow> bool \<Rightarrow> string \<Rightarrow> string \<Rightarrow> nat \<Rightarrow> act3 option option dispatched" where
  "nfs_rename_async nfs q oldpath newpath user =
     unless_readonly nfs (User user)
       (by_version nfs (nfs3_rename_async nfs q oldpath newpath (User user)) (nfs4_rename oldpath newpath))"

definition nfs_link_async ::
    "'r nfs_context \<Rightarrow> bool \<Rightarrow> string \<Rightarrow> string \<Rightarrow> nat \<Rightarrow> act3 option option dispatched" where
  "nfs_link_async nfs q oldpath newpath user =
     unless_readonly nfs (User user)
       (by_version nfs (nfs3_link_async nfs q oldpath newpath (User user)) (nfs4_link oldpath newpath))"

section \<open>Open files\<close>

definition nfs_fstat_async :: "'r nfs_context \<Rightarrow> bool \<Rightarrow> nfsfh \<Rightarrow> nat \<Rightarrow> (int \<times> act3) dispatched" where
  "nfs_fstat_async nfs q f user =
     (if nfsi_version (nfsi nfs) = Nfs_Context.NFS_V3 then To_v3 (nfs3_fstat_async q f (User user)) else Minus_1)"

definition nfs_fstat64_async :: "'r nfs_context \<Rightarrow> bool \<Rightarrow> nfsfh \<Rightarrow> nat \<Rightarrow> (int \<times> act3) dispatched" where
  "nfs_fstat64_async nfs q f user = by_version nfs (nfs3_fstat64_async q f (User user)) (nfs4_fstat64 f)"

definition nfs_fsync_async :: "'r nfs_context \<Rightarrow> bool \<Rightarrow> nfsfh \<Rightarrow> nat \<Rightarrow> (int \<times> act3) dispatched" where
  "nfs_fsync_async nfs q f user = by_version nfs (nfs3_fsync_async q f (User user)) (nfs4_fsync f)"

definition nfs_ftruncate_async :: "'r nfs_context \<Rightarrow> bool \<Rightarrow> nfsfh \<Rightarrow> u64 \<Rightarrow> nat \<Rightarrow> (int \<times> act3) dispatched" where
  "nfs_ftruncate_async nfs q f len user =
     (if is_readonly f then Minus_1
      else by_version nfs (nfs3_ftruncate_async q f len (User user)) (nfs4_ftruncate f len))"

definition nfs_fchmod_async :: "'r nfs_context \<Rightarrow> bool \<Rightarrow> nfsfh \<Rightarrow> int \<Rightarrow> nat \<Rightarrow> (int \<times> act3) dispatched" where
  "nfs_fchmod_async nfs q f mode user =
     unless_readonly nfs (User user) (by_version nfs (nfs3_fchmod_async q f mode (User user)) (nfs4_fchmod f mode))"

definition nfs_fchown_async :: "'r nfs_context \<Rightarrow> bool \<Rightarrow> nfsfh \<Rightarrow> u32 \<Rightarrow> u32 \<Rightarrow> nat \<Rightarrow> (int \<times> act3) dispatched" where
  "nfs_fchown_async nfs q f u g user =
     unless_readonly nfs (User user) (by_version nfs (nfs3_fchown_async q f u g (User user)) (nfs4_fchown f u g))"

definition nfs_close_async :: "'r nfs_context \<Rightarrow> bool \<Rightarrow> nfsfh \<Rightarrow> nat \<Rightarrow> (int \<times> act3) dispatched" where
  "nfs_close_async nfs q f user = by_version nfs (nfs3_close_async q f user) (nfs4_close f)"

definition nfs_lseek_async ::
    "'r nfs_context \<Rightarrow> bool \<Rightarrow> nfsfh \<Rightarrow> u64 \<Rightarrow> seek_whence \<Rightarrow> nat \<Rightarrow> seek_res option dispatched" where
  "nfs_lseek_async nfs q f off whence user =
     by_version nfs (nfs3_lseek_async q f off whence user) (nfs4_lseek f off whence)"

text \<open>Locks are a part of version 4 only.\<close>

definition nfs_lockf_async :: "'r nfs_context \<Rightarrow> nfsfh \<Rightarrow> lock_op \<Rightarrow> u64 \<Rightarrow> unit dispatched" where
  "nfs_lockf_async nfs f op cnt =
     (if nfsi_version (nfsi nfs) = Nfs_Context.NFS_V4 then To_v4 (nfs4_lockf f op cnt) else Minus_1)"

definition nfs_fcntl_async :: "'r nfs_context \<Rightarrow> nfsfh \<Rightarrow> fcntl_op \<Rightarrow> unit dispatched" where
  "nfs_fcntl_async nfs f cmd =
     (if nfsi_version (nfsi nfs) = Nfs_Context.NFS_V4 then To_v4 (nfs4_fcntl f cmd) else Minus_1)"

text \<open>The buffers of a vectored read are given by their lengths.\<close>

definition nfs_preadv_async ::
    "'r nfs_context \<Rightarrow> bool \<Rightarrow> nfsfh \<Rightarrow> nat list \<Rightarrow> u64 \<Rightarrow> nat \<Rightarrow> (nfs3_call \<times> pread_data) option dispatched" where
  "nfs_preadv_async nfs q f lens off user =
     by_version nfs (nfs3_preadv_async_internal nfs q f lens off (Read_user user) False) (nfs4_preadv f lens off False)"

definition nfs_readv_async ::
    "'r nfs_context \<Rightarrow> bool \<Rightarrow> nfsfh \<Rightarrow> nat list \<Rightarrow> nat \<Rightarrow> (nfs3_call \<times> pread_data) option dispatched" where
  "nfs_readv_async nfs q f lens user =
     by_version nfs (nfs3_preadv_async_internal nfs q f lens (foffset f) (Read_user user) True)
       (nfs4_preadv f lens (foffset f) True)"

definition nfs_pwrite_async ::
    "'r nfs_context \<Rightarrow> (nat \<Rightarrow> bool) \<Rightarrow> nfsfh \<Rightarrow> byte list \<Rightarrow> nat \<Rightarrow> u64 \<Rightarrow> nat
      \<Rightarrow> (nfsfh \<times> (pwrite_data \<times> (nfs_mcb_data \<times> nfs3_call) list) option) option dispatched" where
  "nfs_pwrite_async nfs q f buf cnt off user =
     (if is_readonly f then Minus_1
      else by_version nfs (nfs3_pwrite_async_internal nfs q f buf cnt off user False) (nfs4_pwrite f buf cnt off False))"

definition nfs_write_async ::
    "'r nfs_context \<Rightarrow> (nat \<Rightarrow> bool) \<Rightarrow> nfsfh \<Rightarrow> byte list \<Rightarrow> nat \<Rightarrow> nat \<Rightarrow> write_res option dispatched" where
  "nfs_write_async nfs q f buf cnt user =
     (if is_readonly f then Minus_1
      else by_version nfs (nfs3_write_async nfs q f buf cnt user) (nfs4_write f cnt buf))"

end
