(* ===== verification/Nfs3_System.thy ===== *)
theory Nfs3_System
  imports Nfs_Dispatch
begin

text \<open>
  An operation of the NFSv3 client from the call of the application to its callback: the
  functions of \<open>src/lib/libnfs.c\<close> start it (\<open>op_start\<close>), and the lookup of the path, the
  continuation, the replies and the callbacks that the client passes to itself follow one another
  (\<open>op_step\<close>).

  Any number of operations may be under way on one context, so that a step finds the context as
  the others left it: \<open>I\<close> says which contexts that may be. The server may answer anything and any
  call may fail or not be queued. The listing of a directory, which waits for many replies at
  once, goes on in \<open>Nfs3_Dir\<close>.
\<close>

section \<open>Operations under way\<close>

inductive op_step :: "('r nfs_context \<Rightarrow> bool) \<Rightarrow> act3 \<Rightarrow> act3 \<Rightarrow> bool" for I where
  walks: "I nfs \<Longrightarrow> walk_step nfs a b \<Longrightarrow> op_step I a b"
| link_continue_1s: "I nfs \<Longrightarrow> cont d = link_continue_1 np no \<Longrightarrow> nfs3_link_continue_1_internal nfs q np no d = Some b \<Longrightarrow> op_step I (Go_on d attr) b"
| link_continue_2s: "I nfs \<Longrightarrow> cont d = link_continue_2 fh no \<Longrightarrow> op_step I (Go_on d attr) (nfs3_link_continue_2_internal q fh no d)"
| rename_continue_1s: "I nfs \<Longrightarrow> cont d = rename_continue_1 oo np no \<Longrightarrow> nfs3_rename_continue_1_internal nfs q oo np no d = Some (nfs', b) \<Longrightarrow> op_step I (Go_on d attr) b"
| rename_continue_2s: "I nfs \<Longrightarrow> cont d = rename_continue_2 fh oo no \<Longrightarrow> op_step I (Go_on d attr) (snd (nfs3_rename_continue_2_internal nfs q fh oo no d))"
| symlink_continues: "I nfs \<Longrightarrow> cont d = symlink_continue t no \<Longrightarrow> op_step I (Go_on d attr) (nfs3_symlink_continue_internal q t no d)"
| access2_continues: "I nfs \<Longrightarrow> cont d = access2_continue \<Longrightarrow> op_step I (Go_on d attr) (nfs3_access2_continue_internal q d)"
| access_continues: "I nfs \<Longrightarrow> cont d = access_continue \<Longrightarrow> op_step I (Go_on d attr) (nfs3_access_continue_internal q d)"
| utimes_continues: "I nfs \<Longrightarrow> cont d = utimes_continue tms \<Longrightarrow> op_step I (Go_on d attr) (nfs3_utimes_continue_internal q tms d)"
| chown_continues: "I nfs \<Longrightarrow> cont d = chown_continue u g \<Longrightarrow> op_step I (Go_on d attr) (nfs3_chown_continue_internal q u g d)"
| chmod_continues: "I nfs \<Longrightarrow> cont d = chmod_continue \<Longrightarrow> op_step I (Go_on d attr) (nfs3_chmod_continue_internal q d)"
| readlink_continues: "I nfs \<Longrightarrow> cont d = readlink_continue \<Longrightarrow> op_step I (Go_on d attr) (nfs3_readlink_continue_internal q d)"
| statvfs_continues: "I nfs \<Longrightarrow> cont d = statvfs_continue \<Longrightarrow> op_step I (Go_on d attr) (nfs3_statvfs_continue_internal q d)"
| mknod_continues: "I nfs \<Longrightarrow> cont d = mknod_continue no m maj mnr \<Longrightarrow> op_step I (Go_on d attr) (nfs3_mknod_continue_internal q no m maj mnr d)"
| unlink_continues: "I nfs \<Longrightarrow> cont d = unlink_continue no \<Longrightarrow> op_step I (Go_on d attr) (nfs3_unlink_continue_internal q no d)"
| rmdir_continues: "I nfs \<Longrightarrow> cont d = rmdir_continue no \<Longrightarrow> op_step I (Go_on d attr) (nfs3_rmdir_continue_internal q no d)"
| mkdir_continues: "I nfs \<Longrightarrow> cont d = mkdir_continue no \<Longrightarrow> op_step I (Go_on d attr) (nfs3_mkdir_continue_internal q no d)"
| truncate_continues: "I nfs \<Longrightarrow> cont d = truncate_continue \<Longrightarrow> b \<in> set (nfs3_truncate_continue_internal q d) \<Longrightarrow> op_step I (Go_on d attr) b"
| stat_continues: "I nfs \<Longrightarrow> cont d = stat_continue \<Longrightarrow> op_step I (Go_on d attr) (nfs3_stat_continue_internal q d)"
| stat64_continues: "I nfs \<Longrightarrow> cont d = stat64_continue \<Longrightarrow> op_step I (Go_on d attr) (nfs3_stat64_continue_internal q d)"
| chdir_continues: "I nfs \<Longrightarrow> cont d = chdir_continue \<Longrightarrow> op_step I (Go_on d attr) (snd (nfs3_chdir_continue_internal nfs d))"
| open_continues: "I nfs \<Longrightarrow> cont d = open_continue \<Longrightarrow> op_step I (Go_on d attr) (nfs3_open_continue_internal q d)"
| create_continues: "I nfs \<Longrightarrow> cont d = create_continue od \<Longrightarrow> op_step I (Go_on d attr) (nfs3_create_continue_internal q od d)"
| link_reply: "I nfs \<Longrightarrow> status_ok res_link \<Longrightarrow> op_step I (Task nfs3_link call d) (snd (nfs3_link_cb nfs status res_link d))"
| rename_reply: "I nfs \<Longrightarrow> status_ok res_rename \<Longrightarrow> op_step I (Task nfs3_rename call d) (snd (nfs3_rename_cb nfs status res_rename d))"
| symlink_reply: "I nfs \<Longrightarrow> status_ok res_symlink \<Longrightarrow> op_step I (Task nfs3_symlink call d) (snd (nfs3_symlink_cb nfs status res_symlink d))"
| access2_reply: "I nfs \<Longrightarrow> status_ok res_access2 \<Longrightarrow> op_step I (Task nfs3_access2 call d) (snd (nfs3_access2_cb nfs status res_access2 d))"
| access_reply: "I nfs \<Longrightarrow> status_ok res_access \<Longrightarrow> op_step I (Task nfs3_access call d) (snd (nfs3_access_cb nfs status res_access d))"
| utimes_reply: "I nfs \<Longrightarrow> status_ok res_utimes \<Longrightarrow> op_step I (Task nfs3_utimes call d) (snd (nfs3_utimes_cb nfs status res_utimes d))"
| chown_reply: "I nfs \<Longrightarrow> status_ok res_chown \<Longrightarrow> op_step I (Task nfs3_chown call d) (snd (nfs3_chown_cb nfs status res_chown d))"
| chmod_reply: "I nfs \<Longrightarrow> status_ok res_chmod \<Longrightarrow> op_step I (Task nfs3_chmod call d) (snd (nfs3_chmod_cb nfs status res_chmod d))"
| readlink_1_reply: "I nfs \<Longrightarrow> status_ok res_readlink_1 \<Longrightarrow> op_step I (Task nfs3_readlink_1 call d) (snd (nfs3_readlink_1_cb nfs status res_readlink_1 d))"
| statvfs_1_reply: "I nfs \<Longrightarrow> status_ok res_statvfs_1 \<Longrightarrow> op_step I (Task nfs3_statvfs_1 call d) (snd (nfs3_statvfs_1_cb nfs status res_statvfs_1 d))"
| mknod_reply: "I nfs \<Longrightarrow> status_ok res_mknod \<Longrightarrow> op_step I (Task nfs3_mknod call d) (snd (nfs3_mknod_cb nfs status res_mknod d))"
| unlink_reply: "I nfs \<Longrightarrow> status_ok res_unlink \<Longrightarrow> op_step I (Task nfs3_unlink call d) (snd (nfs3_unlink_cb nfs status res_unlink d))"
| rmdir_reply: "I nfs \<Longrightarrow> status_ok res_rmdir \<Longrightarrow> op_step I (Task nfs3_rmdir call d) (snd (nfs3_rmdir_cb nfs status res_rmdir d))"
| mkdir_reply: "I nfs \<Longrightarrow> status_ok res_mkdir \<Longrightarrow> op_step I (Task nfs3_mkdir call d) (snd (nfs3_mkdir_cb nfs status res_mkdir d))"
| ftruncate_reply: "I nfs \<Longrightarrow> status_ok res_ftruncate \<Longrightarrow> op_step I (Task nfs3_ftruncate call d) (snd (nfs3_ftruncate_cb nfs status res_ftruncate d))"
| fsync_reply: "I nfs \<Longrightarrow> status_ok res_fsync \<Longrightarrow> op_step I (Task nfs3_fsync call d) (snd (nfs3_fsync_cb nfs status res_fsync d))"
| stat_1_reply: "I nfs \<Longrightarrow> status_ok res_stat_1 \<Longrightarrow> op_step I (Task nfs3_stat_1 call d) (snd (nfs3_stat_1_cb nfs status res_stat_1 d))"
| stat64_1_reply: "I nfs \<Longrightarrow> status_ok res_stat64_1 \<Longrightarrow> op_step I (Task nfs3_stat64_1 call d) (snd (nfs3_stat64_1_cb nfs status res_stat64_1 d))"
| open_trunc_reply: "I nfs \<Longrightarrow> status_ok res_open_trunc \<Longrightarrow> op_step I (Task nfs3_open_trunc call d) (snd (nfs3_open_trunc_cb nfs status res_open_trunc d))"
| getacl_reply: "I nfs \<Longrightarrow> status_ok res_getacl \<Longrightarrow> nfs3_getacl_cb nfs status res_getacl d = Some (nfs', b) \<Longrightarrow>
    op_step I (Task nfs3_getacl call d) b"
| open_reply: "I nfs \<Longrightarrow> status_ok res_open \<Longrightarrow> op_step I (Task nfs3_open call d) (snd (nfs3_open_cb nfs q status res_open d))"
| create_reply: "I nfs \<Longrightarrow> status_ok res_create \<Longrightarrow> cont d = create_continue od \<Longrightarrow>
    op_step I (Task nfs3_create_1 call d) (snd (nfs3_create_1_cb nfs status res_create od d))"
| initial_open: "I nfs \<Longrightarrow> nfs3_initial_open_cb nfs q od e r = Some b \<Longrightarrow> op_step I (Done (Initial_open od) e r) b"
| open_create: "op_step I (Done (Open_create od) e r) (nfs3_open_create_cb od e r)"
| close_file: "op_step I (Done (Close_file user) e r) (nfs3_close_cb user e r)"

text \<open>
  The operations on a name, and those on an open file; \<open>F\<close> says which files are open. The first
  action of the operation is the last argument. Reads and writes are in \<open>Nfs3_File\<close>.
\<close>

inductive op_start :: "'r nfs_context \<Rightarrow> (nfsfh \<Rightarrow> bool) \<Rightarrow> nat \<Rightarrow> act3 \<Rightarrow> bool" for nfs F user where
  start_stat: "nfs_stat_async nfs q path user = To_v3 (Some (Some a)) \<Longrightarrow> op_start nfs F user a"
| start_stat64: "nfs_stat64_async nfs q path user = To_v3 (Some (Some a)) \<Longrightarrow> op_start nfs F user a"
| start_lstat64: "nfs_lstat64_async nfs q path user = To_v3 (Some (Some a)) \<Longrightarrow> op_start nfs F user a"
| start_open2: "nfs_open2_async nfs q path flags m user = To_v3 (Some (Some a)) \<Longrightarrow> op_start nfs F user a"
| start_open: "nfs_open_async nfs q path flags user = To_v3 (Some (Some a)) \<Longrightarrow> op_start nfs F user a"
| start_chdir: "nfs_chdir_async nfs q path user = To_v3 (Some (Some a)) \<Longrightarrow> op_start nfs F user a"
| start_truncate: "nfs_truncate_async nfs q path len user = To_v3 (Some (Some a)) \<Longrightarrow> op_start nfs F user a"
| start_mkdir2: "nfs_mkdir2_async nfs q path im user = To_v3 (Some (Some a)) \<Longrightarrow> op_start nfs F user a"
| start_mkdir: "nfs_mkdir_async nfs q path user = To_v3 (Some (Some a)) \<Longrightarrow> op_start nfs F user a"
| start_rmdir: "nfs_rmdir_async nfs q path user = To_v3 (Some (Some a)) \<Longrightarrow> op_start nfs F user a"
| start_creat: "nfs_creat_async nfs q path m user = To_v3 (Some (Some a)) \<Longrightarrow> op_start nfs F user a"
| start_unlink: "nfs_unlink_async nfs q path user = To_v3 (Some (Some a)) \<Longrightarrow> op_start nfs F user a"
| start_mknod: "nfs_mknod_async nfs q path m maj mnr user = To_v3 (Some (Some a)) \<Longrightarrow> op_start nfs F user a"
| start_opendir: "nfs_opendir_async nfs q path i user = To_v3 (Some (Some a)) \<Longrightarrow> op_start nfs F user a"
| start_statvfs: "nfs_statvfs_async nfs q path user = To_v3 (Some (Some a)) \<Longrightarrow> op_start nfs F user a"
| start_statvfs64: "nfs_statvfs64_async nfs q path user = To_v3 (Some (Some a)) \<Longrightarrow> op_start nfs F user a"
| start_readlink: "nfs_readlink_async nfs q path user = To_v3 (Some (Some a)) \<Longrightarrow> op_start nfs F user a"
| start_chmod: "nfs_chmod_async nfs q path im user = To_v3 (Some (Some a)) \<Longrightarrow> op_start nfs F user a"
| start_lchmod: "nfs_lchmod_async nfs q path im user = To_v3 (Some (Some a)) \<Longrightarrow> op_start nfs F user a"
| start_chown: "nfs_chown_async nfs q path u g user = To_v3 (Some (Some a)) \<Longrightarrow> op_start nfs F user a"
| start_lchown: "nfs_lchown_async nfs q path u g user = To_v3 (Some (Some a)) \<Longrightarrow> op_start nfs F user a"
| start_utimes: "nfs_utimes_async nfs q path tms user = To_v3 (Some (Some a)) \<Longrightarrow> op_start nfs F user a"
| start_lutimes: "nfs_lutimes_async nfs q path tms user = To_v3 (Some (Some a)) \<Longrightarrow> op_start nfs F user a"
| start_utime: "nfs_utime_async nfs q path utms user = To_v3 (Some (Some a)) \<Longrightarrow> op_start nfs F user a"
| start_access: "nfs_access_async nfs q path m user = To_v3 (Some (Some a)) \<Longrightarrow> op_start nfs F user a"
| start_access2: "nfs_access2_async nfs q path user = To_v3 (Some (Some a)) \<Longrightarrow> op_start nfs F user a"
| start_symlink: "nfs_symlink_async nfs q target path user = To_v3 (Some (Some a)) \<Longrightarrow> op_start nfs F user a"
| start_rename: "nfs_rename_async nfs q path newpath user = To_v3 (Some (Some a)) \<Longrightarrow> op_start nfs F user a"
| start_link: "nfs_link_async nfs q path newpath user = To_v3 (Some (Some a)) \<Longrightarrow> op_start nfs F user a"
| start_fstat: "F f \<Longrightarrow> nfs_fstat_async nfs q f user = To_v3 (r, a) \<Longrightarrow> op_start nfs F user a"
| start_fstat64: "F f \<Longrightarrow> nfs_fstat64_async nfs q f user = To_v3 (r, a) \<Longrightarrow> op_start nfs F user a"
| start_fsync: "F f \<Longrightarrow> nfs_fsync_async nfs q f user = To_v3 (r, a) \<Longrightarrow> op_start nfs F user a"
| start_ftruncate: "F f \<Longrightarrow> nfs_ftruncate_async nfs q f len user = To_v3 (r, a) \<Longrightarrow> op_start nfs F user a"
| start_fchmod: "F f \<Longrightarrow> nfs_fchmod_async nfs q f im user = To_v3 (r, a) \<Longrightarrow> op_start nfs F user a"
| start_fchown: "F f \<Longrightarrow> nfs_fchown_async nfs q f u g user = To_v3 (r, a) \<Longrightarrow> op_start nfs F user a"
| start_close: "F f \<Longrightarrow> nfs_close_async nfs q f user = To_v3 (r, a) \<Longrightarrow> op_start nfs F user a"

inductive_cases op_stepE: "op_step I a b"
inductive_cases op_startE: "op_start nfs F user a"

section \<open>What a lookup hands on\<close>

text \<open>The calls that change something on the server.\<close>

fun modifying :: "nfs3_call \<Rightarrow> bool" where
  "modifying (SETATTR3args _ _) \<longleftrightarrow> True"
| "modifying (WRITE3args _ _ _ _ _) \<longleftrightarrow> True"
| "modifying (CREATE3args _ _ _ _) \<longleftrightarrow> True"
| "modifying (MKDIR3args _ _ _) \<longleftrightarrow> True"
| "modifying (SYMLINK3args _ _ _ _) \<longleftrightarrow> True"
| "modifying (MKNOD3args _ _ _) \<longleftrightarrow> True"
| "modifying (REMOVE3args _ _) \<longleftrightarrow> True"
| "modifying (RMDIR3args _ _) \<longleftrightarrow> True"
| "modifying (RENAME3args _ _ _ _) \<longleftrightarrow> True"
| "modifying (LINK3args _ _ _) \<longleftrightarrow> True"
| "modifying _ \<longleftrightarrow> False"

abbreviation walking :: "nfs3_cb \<Rightarrow> bool" where
  "walking f \<equiv> f = nfs3_lookup_path_1 \<or> f = nfs3_lookup_path_2 \<or> f = nfs3_lookup_path_getattr"

fun lookup_act :: "'c \<Rightarrow> 'k \<Rightarrow> u64 \<Rightarrow> ('c, 'k) act \<Rightarrow> bool" where
  "lookup_act c k i (Task f call d) \<longleftrightarrow>
     walking f \<and> \<not> modifying call \<and> cb d = c \<and> cont d = k \<and> continue_int d = i"
| "lookup_act c k i (Done c' e r) \<longleftrightarrow> c' = c \<and> r = Message"
| "lookup_act c k i (Go_on d attr) \<longleftrightarrow> cb d = c \<and> cont d = k \<and> continue_int d = i"

lemma lookup_act_internal:
  "lookup_act (cb d) (cont d) (continue_int d) (nfs3_lookup_path_async_internal q attr d fh)"
  by (auto simp: nfs3_lookup_path_async_internal_def lookup_component_def Let_def split: option.splits)

lemma lookup_act_restart:
  "restart_lookup nfs q d p = Some a \<Longrightarrow> lookup_act (cb d) (cont d) (continue_int d) a"
  using lookup_act_internal [of "d\<lparr>saved_path := x, path_at := 0\<rparr>" for x]
  by (auto simp: restart_lookup_def split: option.splits sum.splits)

lemma walk_step_hands_on:
  "walk_step nfs a b \<Longrightarrow>
   \<exists>f call d. a = Task f call d \<and> walking f \<and> lookup_act (cb d) (cont d) (continue_int d) b"
proof (induction rule: walk_step.induct)
  case (link_read lres q status d a call)
  then have "lookup_act (cb d) (cont d) (continue_int d) a"
    using lookup_path_2_result [OF link_read(2)] lookup_act_restart [of nfs q d _ a] by auto
  then show ?case by blast
qed (auto simp: nfs3_lookup_path_1_cb_def nfs3_lookup_path_getattr_cb_def intro: lookup_act_internal
       split: option.splits res3.splits)

lemma lookup_act_lookuppath:
  "nfs3_lookuppath_async nfs q path nofollow c k i = Some (Some a) \<Longrightarrow> lookup_act c k i a"
  using lookup_act_internal [of "\<lparr>saved_path = x, path_at = 0, link_count = 0, no_follow = nofollow,
      cb = c, cont = k, continue_int = i, data_fh = []\<rparr>" for x]
  unfolding nfs3_lookuppath_async_def Let_def
  by (auto split: option.splits sum.splits if_splits prod.splits)

lemma lookup_again_cases:
  "lookup_again nfs q path d k = Some a \<Longrightarrow> lookup_act (cb d) k 0 a"
  by (auto simp: lookup_again_def intro: lookup_act_lookuppath split: option.splits)

section \<open>What the functions do next\<close>

definition ends_with :: "cb3 \<Rightarrow> act3 \<Rightarrow> bool" where
  "ends_with c a \<longleftrightarrow> (\<exists>e r. a = Done c e r \<and> (\<forall>f. r \<noteq> Opened f))"

lemma on_reply_cases:
  "(\<And>x. res = Ok3 x \<Longrightarrow> ends_with (cb d) (snd (f x))) \<Longrightarrow> ends_with (cb d) (snd (on_reply status res d nfs f))"
  by (auto simp: on_reply_def ends_with_def split: option.splits res3.splits)

text \<open>Most replies end the operation.\<close>

lemma replies_end:
  "ends_with (cb d) (snd (nfs3_link_cb nfs status ures d))"
  "ends_with (cb d) (snd (nfs3_rename_cb nfs status ures d))"
  "ends_with (cb d) (snd (nfs3_symlink_cb nfs status ures d))"
  "ends_with (cb d) (snd (nfs3_access2_cb nfs status wres d))"
  "ends_with (cb d) (snd (nfs3_access_cb nfs status wres d))"
  "ends_with (cb d) (snd (nfs3_utimes_cb nfs status ures d))"
  "ends_with (cb d) (snd (nfs3_chown_cb nfs status ures d))"
  "ends_with (cb d) (snd (nfs3_chmod_cb nfs status ures d))"
  "ends_with (cb d) (snd (nfs3_readlink_1_cb nfs status sres d))"
  "ends_with (cb d) (snd (nfs3_statvfs_1_cb nfs status fres d))"
  "ends_with (cb d) (snd (nfs3_mknod_cb nfs status ures d))"
  "ends_with (cb d) (snd (nfs3_unlink_cb nfs status ures d))"
  "ends_with (cb d) (snd (nfs3_rmdir_cb nfs status ures d))"
  "ends_with (cb d) (snd (nfs3_mkdir_cb nfs status ures d))"
  "ends_with (cb d) (snd (nfs3_ftruncate_cb nfs status ures d))"
  "ends_with (cb d) (snd (nfs3_fsync_cb nfs status ures d))"
  "ends_with (cb d) (snd (nfs3_stat_1_cb nfs status ares d))"
  "ends_with (cb d) (snd (nfs3_stat64_1_cb nfs status ares d))"
  unfolding nfs3_link_cb_def nfs3_rename_cb_def nfs3_symlink_cb_def nfs3_access2_cb_def nfs3_access_cb_def
    nfs3_utimes_cb_def nfs3_chown_cb_def nfs3_chmod_cb_def nfs3_readlink_1_cb_def nfs3_statvfs_1_cb_def
    nfs3_mknod_cb_def nfs3_unlink_cb_def nfs3_rmdir_cb_def nfs3_mkdir_cb_def nfs3_ftruncate_cb_def
    nfs3_fsync_cb_def nfs3_stat_1_cb_def nfs3_stat64_1_cb_def Let_def
  by (rule on_reply_cases, simp add: ends_with_def)+

lemma getacl_ends: "nfs3_getacl_cb nfs status res d = Some (nfs', b) \<Longrightarrow> ends_with (cb d) b"
  using on_reply_cases [of res d "\<lambda>r. (nfs, Done (cb d) 0 (Acl (take (unat (ace_count r)) (ace r))
      (take (unat (default_ace_count r)) (default_ace r))))" status nfs]
  by (auto simp: nfs3_getacl_cb_def ends_with_def split: if_splits)

text \<open>A continuation sends a call of its operation, or ends it.\<close>

definition sends :: "data3 \<Rightarrow> act3 \<Rightarrow> bool" where
  "sends d a \<longleftrightarrow> ends_with (cb d) a \<or> (\<exists>f call d'. a = Task f call d' \<and> cb d' = cb d \<and> cont d' = cont d)"

lemma send3_sends: "sends d (send3 q f call d)"
  by (auto simp: send3_def sends_def ends_with_def)

lemma lookup_act_sends:
  assumes "lookup_act (cb d) k 0 a"
  shows "ends_with (cb d) a \<or> (\<exists>f call d'. a = Task f call d' \<and> cb d' = cb d \<and> cont d' = k \<and> walking f)
    \<or> (\<exists>d' attr. a = Go_on d' attr \<and> cb d' = cb d \<and> cont d' = k)"
  using assms by (cases a) (auto simp: ends_with_def)

lemmas plain_continue_defs =
  nfs3_link_continue_2_internal_def nfs3_symlink_continue_internal_def nfs3_access2_continue_internal_def
  nfs3_access_continue_internal_def nfs3_utimes_continue_internal_def nfs3_chown_continue_internal_def
  nfs3_chmod_continue_internal_def nfs3_readlink_continue_internal_def nfs3_statvfs_continue_internal_def
  nfs3_unlink_continue_internal_def nfs3_rmdir_continue_internal_def nfs3_mkdir_continue_internal_def
  nfs3_stat_continue_internal_def nfs3_stat64_continue_internal_def nfs3_create_continue_internal_def
  nfs3_rename_continue_2_internal_def

section \<open>Every operation ends in its callback\<close>

fun cb_user :: "cb3 \<Rightarrow> nat" where
  "cb_user (User n) = n"
| "cb_user (Initial_open od) = op_user od"
| "cb_user (Open_create od) = op_user od"
| "cb_user (Close_file n) = n"

text \<open>
  How many lookups an operation may still need: \<open>link\<close> and \<open>rename\<close> make two, and an \<open>open\<close> makes a
  second one for the directory of a file that is to be created.
\<close>

definition lookups_left :: "cb3 \<Rightarrow> cont3 \<Rightarrow> nat" where
  "lookups_left c k =
     (case c of Initial_open _ \<Rightarrow> 2 | _ \<Rightarrow> 1)
     + (case k of link_continue_1 _ _ \<Rightarrow> 1 | rename_continue_1 _ _ _ \<Rightarrow> 1 | _ \<Rightarrow> 0)"

definition phase :: "act3 \<Rightarrow> nat" where
  "phase a = (case a of
     Task f _ d \<Rightarrow> 10 * lookups_left (cb d) (cont d) + (if walking f then 9 else if f = nfs3_open then 7 else 6)
   | Go_on d _ \<Rightarrow> 10 * lookups_left (cb d) (cont d) + 8
   | Done c _ _ \<Rightarrow> (case c of Initial_open _ \<Rightarrow> 20 | User _ \<Rightarrow> 0 | _ \<Rightarrow> 1))"

definition op_less :: "(act3 \<times> act3) set" where
  "op_less = inv_image (less_than <*lex*> rank_less) (\<lambda>a. (phase a, act_rank a))"

lemma wf_op_less: "wf op_less"
  by (simp add: op_less_def wf_inv_image wf_lex_prod wf_rank_less)

lemma op_less_phase: "phase b < phase a \<Longrightarrow> (b, a) \<in> op_less"
  by (simp add: op_less_def)

lemma phase_ends:
  "ends_with (cb d) a \<Longrightarrow> phase a < phase (Task f call d)" "ends_with (cb d) a \<Longrightarrow> phase a < phase (Go_on d attr)"
  by (auto simp: ends_with_def phase_def lookups_left_def split: cb3.splits)

lemma phase_sends:
  "phase (send3 q f call d) < phase (Go_on d attr)" if "\<not> walking f" for f
  using phase_ends(2) [of d "Done (cb d) (- ENOMEM) Message" attr] that
  by (auto simp: send3_def ends_with_def) (simp add: phase_def)

lemma phase_again:
  assumes "lookup_act (cb d) k 0 a" "lookups_left (cb d) k < lookups_left (cb d) (cont d)"
  shows "phase a < phase (Go_on d attr)"
  using lookup_act_sends [OF assms(1)] assms(2) phase_ends(2) [of d a attr]
  by (auto simp: phase_def)

lemma walk_step_less:
  assumes "walk_step nfs a b"
  shows "(b, a) \<in> op_less"
proof -
  obtain f call d where a: "a = Task f call d" "walking f" "lookup_act (cb d) (cont d) (continue_int d) b"
    using walk_step_hands_on [OF assms] by blast
  show ?thesis
  proof (cases b)
    case (Task g call' d')
    then have "phase b = phase a" using a by (auto simp: phase_def)
    then show ?thesis using walk_step_rank [OF assms] by (simp add: op_less_def)
  next
    case (Done c e r)
    then have "ends_with (cb d) b" using a(3) by (simp add: ends_with_def)
    then show ?thesis unfolding a(1) by (intro op_less_phase phase_ends)
  next
    case (Go_on d' attr)
    then show ?thesis using a by (intro op_less_phase) (auto simp: phase_def)
  qed
qed

lemma continue_less:
  "phase (nfs3_link_continue_2_internal q fh no d) < phase (Go_on d attr)"
  "phase (snd (nfs3_rename_continue_2_internal nfs q fh oo no d)) < phase (Go_on d attr)"
  "phase (nfs3_symlink_continue_internal q t no d) < phase (Go_on d attr)"
  "phase (nfs3_access2_continue_internal q d) < phase (Go_on d attr)"
  "phase (nfs3_access_continue_internal q d) < phase (Go_on d attr)"
  "phase (nfs3_utimes_continue_internal q tms d) < phase (Go_on d attr)"
  "phase (nfs3_chown_continue_internal q u g d) < phase (Go_on d attr)"
  "phase (nfs3_chmod_continue_internal q d) < phase (Go_on d attr)"
  "phase (nfs3_readlink_continue_internal q d) < phase (Go_on d attr)"
  "phase (nfs3_statvfs_continue_internal q d) < phase (Go_on d attr)"
  "phase (nfs3_unlink_continue_internal q no d) < phase (Go_on d attr)"
  "phase (nfs3_rmdir_continue_internal q no d) < phase (Go_on d attr)"
  "phase (nfs3_mkdir_continue_internal q no d) < phase (Go_on d attr)"
  "phase (nfs3_stat_continue_internal q d) < phase (Go_on d attr)"
  "phase (nfs3_stat64_continue_internal q d) < phase (Go_on d attr)"
  "phase (nfs3_create_continue_internal q od d) < phase (Go_on d attr)"
  unfolding plain_continue_defs Let_def snd_conv by (rule phase_sends; simp)+

lemma phase_done [simp]:
  "phase (Done (cb d) e r) < phase (Task f call d)" "phase (Done (cb d) e r) < phase (Go_on d attr)"
  by (auto simp: phase_def lookups_left_def split: cb3.splits)

lemma phase_task:
  "\<not> walking f \<Longrightarrow> cb d' = cb d \<Longrightarrow> cont d' = cont d \<Longrightarrow> phase (Task f call d') < phase (Go_on d attr)"
  by (auto simp: phase_def)

lemma continue_less_cases:
  "phase (nfs3_mknod_continue_internal q no m maj mnr d) < phase (Go_on d attr)"
  "phase (nfs3_open_continue_internal q d) < phase (Go_on d attr)"
  "phase (snd (nfs3_chdir_continue_internal nfs d)) < phase (Go_on d attr)"
  "b \<in> set (nfs3_truncate_continue_internal q d) \<Longrightarrow> cont d = truncate_continue \<Longrightarrow> phase b < phase (Go_on d attr)"
  by (auto simp: nfs3_mknod_continue_internal_def nfs3_open_continue_internal_def nfs3_chdir_continue_internal_def
      nfs3_truncate_continue_internal_def nfs3_ftruncate_async_def Let_def send3_def plain_data_def
      intro!: phase_task split: if_splits)

lemma open_reply_less: "phase (snd (nfs3_open_cb nfs q status res d)) < phase (Task nfs3_open call d)"
proof -
  have "phase (Task nfs3_open_trunc call' d) < phase (Task nfs3_open call d)" for call'
    by (simp add: phase_def)
  then show ?thesis
    by (auto simp: nfs3_open_cb_def on_reply_def send3_def split: option.splits res3.splits)
qed

lemma opened_less:
  "phase (snd (nfs3_create_1_cb nfs status cres od d)) < phase (Task nfs3_create_1 call d)"
  "phase (snd (nfs3_open_trunc_cb nfs status res d)) < phase (Task nfs3_open_trunc call d)"
  by (simp_all add: nfs3_create_1_cb_def nfs3_open_trunc_cb_def on_reply_def split: option.split res3.split)

lemma own_cb_less:
  "phase (nfs3_open_create_cb od e r) < phase (Done (Open_create od) e r)"
  "phase (nfs3_close_cb user e r) < phase (Done (Close_file user) e r)"
  by (simp_all add: nfs3_open_create_cb_def nfs3_close_cb_def phase_def)

lemma initial_open_cases:
  assumes "nfs3_initial_open_cb nfs q od e r = Some b"
  shows "(\<exists>e' r'. b = Done (User (op_user od)) e' r' \<and> (r' = Message \<or> r' = r))
    \<or> has (ucast (op_flags od)) O_CREAT
      \<and> (\<exists>od'. lookup_act (Open_create od') (create_continue od') 0 b \<and> op_user od' = op_user od)"
  using assms unfolding nfs3_initial_open_cb_def Let_def
  by (auto split: if_splits prod.splits option.splits dest!: lookup_act_lookuppath
      intro!: exI [of _ "od\<lparr>op_path := x, op_object := y\<rparr>" for x y])

lemma initial_open_less:
  assumes "nfs3_initial_open_cb nfs q od e r = Some b"
  shows "phase b < phase (Done (Initial_open od) e r)"
  using initial_open_cases [OF assms]
  by (cases b) (auto simp: phase_def lookups_left_def)

lemma op_step_less: "op_step I a b \<Longrightarrow> (b, a) \<in> op_less"
proof (induction rule: op_step.induct)
  case (link_continue_1s nfs d np no q b attr)
  then show ?case
    by (intro op_less_phase phase_again [OF lookup_again_cases])
       (auto simp: nfs3_link_continue_1_internal_def lookups_left_def)
next
  case (rename_continue_1s nfs d oo np no q nfs' b attr)
  then have "lookup_again (drop_dir nfs (data_fh d)) q np d (rename_continue_2 (data_fh d) oo no) = Some b"
    by (auto simp: nfs3_rename_continue_1_internal_def Let_def)
  from phase_again [OF lookup_again_cases [OF this]] rename_continue_1s show ?case
    by (intro op_less_phase) (simp add: lookups_left_def)
next
  case (walks nfs a b)
  then show ?case by (simp add: walk_step_less)
next
  case (truncate_continues nfs d b q attr)
  then show ?case by (intro op_less_phase continue_less_cases)
qed (auto intro!: op_less_phase continue_less continue_less_cases(1-3) open_reply_less opened_less initial_open_less
       phase_ends replies_end getacl_ends own_cb_less)

lemma op_steps_finite: "\<exists>i. \<not> op_step I (s i) (s (Suc i))"
proof (rule ccontr)
  assume "\<not> ?thesis"
  then have "\<forall>i. (s (Suc i), s i) \<in> op_less" by (auto intro: op_step_less)
  then show False using wf_op_less unfolding wf_iff_no_infinite_down_chain by blast
qed

text \<open>Whose operation it is, and that its calls are answered by the functions above.\<close>

fun op_of :: "nat \<Rightarrow> act3 \<Rightarrow> bool" where
  "op_of user (Task f call d) \<longleftrightarrow> cb_user (cb d) = user
     \<and> f \<notin> {nfs3_opendir_readdir, nfs3_opendir_readdirplus, nfs3_lseek_1, nfs3_write_append}
     \<and> (f = nfs3_create_1 \<longrightarrow> (\<exists>od. cont d = create_continue od))"
| "op_of user (Done c e r) \<longleftrightarrow> cb_user c = user"
| "op_of user (Go_on d attr) \<longleftrightarrow> cb_user (cb d) = user"

lemma op_of_lookup_act: "lookup_act c k i a \<Longrightarrow> op_of (cb_user c) a"
  by (cases a) auto

lemma op_of_ends: "ends_with c a \<Longrightarrow> cb_user c = user \<Longrightarrow> op_of user a"
  by (auto simp: ends_with_def)

lemma op_of_send3:
  "f \<notin> {nfs3_opendir_readdir, nfs3_opendir_readdirplus, nfs3_lseek_1, nfs3_write_append, nfs3_create_1} \<Longrightarrow>
   cb_user (cb d) = user \<Longrightarrow> op_of user (send3 q f call d)"
  by (simp add: send3_def)

lemma op_of_continue:
  assumes "cb_user (cb d) = user"
  shows "op_of user (nfs3_link_continue_2_internal q fh no d)"
  "op_of user (snd (nfs3_rename_continue_2_internal nfs q fh oo no d))"
  "op_of user (nfs3_symlink_continue_internal q t no d)"
  "op_of user (nfs3_access2_continue_internal q d)"
  "op_of user (nfs3_access_continue_internal q d)"
  "op_of user (nfs3_utimes_continue_internal q tms d)"
  "op_of user (nfs3_chown_continue_internal q u g d)"
  "op_of user (nfs3_chmod_continue_internal q d)"
  "op_of user (nfs3_readlink_continue_internal q d)"
  "op_of user (nfs3_statvfs_continue_internal q d)"
  "op_of user (nfs3_unlink_continue_internal q no d)"
  "op_of user (nfs3_rmdir_continue_internal q no d)"
  "op_of user (nfs3_mkdir_continue_internal q no d)"
  "op_of user (nfs3_stat_continue_internal q d)"
  "op_of user (nfs3_stat64_continue_internal q d)"
  "op_of user (nfs3_mknod_continue_internal q no m maj mnr d)"
  "op_of user (nfs3_open_continue_internal q d)"
  "op_of user (snd (nfs3_chdir_continue_internal nfs d))"
  "b \<in> set (nfs3_truncate_continue_internal q d) \<Longrightarrow> op_of user b"
  "cont d = create_continue od \<Longrightarrow> op_of user (nfs3_create_continue_internal q od d)"
  using assms
  by (auto simp: plain_continue_defs nfs3_mknod_continue_internal_def nfs3_open_continue_internal_def
      nfs3_chdir_continue_internal_def nfs3_truncate_continue_internal_def nfs3_ftruncate_async_def Let_def send3_def
      plain_data_def split: if_splits)

lemma op_of_opened:
  assumes "cb_user (cb d) = user"
  shows "op_of user (snd (nfs3_open_cb nfs q status res d))"
  "op_of user (snd (nfs3_create_1_cb nfs status cres od d))"
  "op_of user (snd (nfs3_open_trunc_cb nfs status tres d))"
  using assms
  by (auto simp: nfs3_open_cb_def nfs3_create_1_cb_def nfs3_open_trunc_cb_def on_reply_def send3_def
      split: option.splits res3.splits)

lemma op_step_of: "op_step I a b \<Longrightarrow> op_of user a \<Longrightarrow> op_of user b"
proof (induction rule: op_step.induct)
  case (walks nfs a b)
  then show ?case using walk_step_hands_on [OF walks(2)] op_of_lookup_act by fastforce
next
  case (link_continue_1s nfs d np no q b attr)
  then show ?case
    using op_of_lookup_act [OF lookup_again_cases] by (auto simp: nfs3_link_continue_1_internal_def)
next
  case (rename_continue_1s nfs d oo np no q nfs' b attr)
  then have "lookup_again (drop_dir nfs (data_fh d)) q np d (rename_continue_2 (data_fh d) oo no) = Some b"
    by (auto simp: nfs3_rename_continue_1_internal_def Let_def)
  from op_of_lookup_act [OF lookup_again_cases [OF this]] rename_continue_1s show ?case by simp
next
  case (truncate_continues nfs d b q attr)
  then show ?case using op_of_continue(19) [of d user b q] by simp
next
  case (initial_open nfs q od e r b)
  then show ?case using initial_open_cases [OF initial_open(2)] op_of_lookup_act by fastforce
qed (auto intro: op_of_continue(1-18,20) op_of_opened op_of_ends replies_end getacl_ends
       simp: nfs3_open_create_cb_def nfs3_close_cb_def)

text \<open>An operation that has not ended can go on: a reply may always be a failure.\<close>

lemma lookup_again_defined: "\<exists>a. lookup_again nfs q path d k = Some a"
  using lookuppath_defined [of nfs q path False "cb d" k 0] by (auto simp: lookup_again_def split: option.splits)

lemma initial_open_defined: "\<exists>b. nfs3_initial_open_cb nfs q od e r = Some b"
proof -
  obtain parent object where p: "parent_object (op_path od) = (parent, object)" by fastforce
  let ?od = "od\<lparr>op_path := parent, op_object := object\<rparr>"
  obtain x where "nfs3_lookuppath_async nfs q (Some parent) False (Open_create ?od) (create_continue ?od) 0 = Some x"
    using lookuppath_defined [of nfs q "Some parent" False "Open_create ?od" "create_continue ?od" 0] by blast
  then show ?thesis by (simp add: nfs3_initial_open_cb_def Let_def p split: option.split)
qed

lemma walk_progress:
  assumes "walking f"
  shows "\<exists>b. walk_step nfs (Task f call d) b"
proof -
  have "nfs3_lookup_path_2_cb nfs True RPC_STATUS_ERROR (Ok3 []) d = Some (Done (cb d) (- EFAULT) Message)"
    by (simp add: nfs3_lookup_path_2_cb_def check_nfs3_error_def)
  then show ?thesis
    using assms walk_step.looked_up [of "Ok3 undefined" nfs call d True RPC_STATUS_ERROR]
      walk_step.link_read [of "Ok3 []" nfs True RPC_STATUS_ERROR d "Done (cb d) (- EFAULT) Message" call]
      walk_step.root_attr [of "Ok3 undefined" nfs call d True RPC_STATUS_ERROR]
    by (auto simp: status_ok_def)
qed

lemma status_ok_Ok3 [simp]: "status_ok (Ok3 x)"
  by (simp add: status_ok_def)

lemma getacl_fails: "nfs3_getacl_cb nfs RPC_STATUS_ERROR (Ok3 r) d = Some (nfs, Done (cb d) (- EFAULT) Message)"
  by (simp add: nfs3_getacl_cb_def on_reply_def check_nfs3_error_def)

lemma task_progress:
  assumes "op_of user (Task f call d)" "I nfs"
  shows "\<exists>b. op_step I (Task f call d) b"
proof (cases f)
  case nfs3_create_1
  with assms obtain od where "cont d = create_continue od" by auto
  then show ?thesis
    using op_step.create_reply [of I nfs "Ok3 None" d od call RPC_STATUS_ERROR] assms nfs3_create_1 by auto
next
  case nfs3_getacl
  show ?thesis
    using op_step.getacl_reply [of I nfs "Ok3 undefined" RPC_STATUS_ERROR d, OF assms(2) status_ok_Ok3 getacl_fails]
      nfs3_getacl by blast
qed (use assms walk_progress [of f nfs call d] in
  \<open>auto intro: op_step.walks [of I nfs] op_step.link_reply [OF _ status_ok_Ok3] op_step.rename_reply [OF _ status_ok_Ok3]
     op_step.symlink_reply [OF _ status_ok_Ok3] op_step.access2_reply [OF _ status_ok_Ok3]
     op_step.access_reply [OF _ status_ok_Ok3] op_step.utimes_reply [OF _ status_ok_Ok3]
     op_step.chown_reply [OF _ status_ok_Ok3] op_step.chmod_reply [OF _ status_ok_Ok3]
     op_step.readlink_1_reply [OF _ status_ok_Ok3] op_step.statvfs_1_reply [OF _ status_ok_Ok3]
     op_step.mknod_reply [OF _ status_ok_Ok3] op_step.unlink_reply [OF _ status_ok_Ok3]
     op_step.rmdir_reply [OF _ status_ok_Ok3] op_step.mkdir_reply [OF _ status_ok_Ok3]
     op_step.ftruncate_reply [OF _ status_ok_Ok3] op_step.fsync_reply [OF _ status_ok_Ok3]
     op_step.stat_1_reply [OF _ status_ok_Ok3] op_step.stat64_1_reply [OF _ status_ok_Ok3]
     op_step.open_trunc_reply [OF _ status_ok_Ok3] op_step.open_reply [OF _ status_ok_Ok3]\<close>)

lemma continue_progress:
  assumes "I nfs"
  shows "(\<exists>b. op_step I (Go_on d attr) b) \<or> (\<exists>i. cont d = opendir_continue i)"
proof (cases "cont d")
  case (link_continue_1 np no)
  then show ?thesis
    using lookup_again_defined [of nfs True np d "link_continue_2 (data_fh d) no"] op_step.link_continue_1s [of I nfs d np no True _ attr, OF assms]
    by (auto simp: nfs3_link_continue_1_internal_def)
next
  case (rename_continue_1 oo np no)
  obtain a where "lookup_again (drop_dir nfs (data_fh d)) True np d (rename_continue_2 (data_fh d) oo no) = Some a"
    using lookup_again_defined by blast
  then have "nfs3_rename_continue_1_internal nfs True oo np no d = Some (drop_dir nfs (data_fh d), a)"
    by (simp add: nfs3_rename_continue_1_internal_def Let_def)
  with op_step.rename_continue_1s [of I nfs d oo np no True _ _ attr, OF assms rename_continue_1] show ?thesis by blast
next
  case truncate_continue
  have "hd (nfs3_truncate_continue_internal True d) \<in> set (nfs3_truncate_continue_internal True d)"
    by (simp add: nfs3_truncate_continue_internal_def nfs3_ftruncate_async_def)
  with op_step.truncate_continues [of I nfs d _ True attr, OF assms truncate_continue] show ?thesis by blast
qed (use assms in \<open>auto intro:
     op_step.link_continue_2s [where I = I and nfs = nfs]
     op_step.rename_continue_2s [where I = I and nfs = nfs]
     op_step.symlink_continues [where I = I and nfs = nfs]
     op_step.access2_continues [where I = I and nfs = nfs]
     op_step.access_continues [where I = I and nfs = nfs]
     op_step.utimes_continues [where I = I and nfs = nfs]
     op_step.chown_continues [where I = I and nfs = nfs]
     op_step.chmod_continues [where I = I and nfs = nfs]
     op_step.readlink_continues [where I = I and nfs = nfs]
     op_step.statvfs_continues [where I = I and nfs = nfs]
     op_step.mknod_continues [where I = I and nfs = nfs]
     op_step.unlink_continues [where I = I and nfs = nfs]
     op_step.rmdir_continues [where I = I and nfs = nfs]
     op_step.mkdir_continues [where I = I and nfs = nfs]
     op_step.stat_continues [where I = I and nfs = nfs]
     op_step.stat64_continues [where I = I and nfs = nfs]
     op_step.chdir_continues [where I = I and nfs = nfs]
     op_step.open_continues [where I = I and nfs = nfs]
     op_step.create_continues [where I = I and nfs = nfs]\<close>)

lemma op_progress:
  assumes "op_of user a" "I nfs"
  shows "(\<exists>b. op_step I a b) \<or> (\<exists>e r. a = Done (User user) e r)
    \<or> (\<exists>d attr i. a = Go_on d attr \<and> cont d = opendir_continue i)"
proof (cases a)
  case (Task f call d)
  then show ?thesis using task_progress [of user f call d I nfs] assms by blast
next
  case (Go_on d attr)
  then show ?thesis using continue_progress [of I nfs d attr] assms(2) by blast
next
  case (Done c e r)
  show ?thesis
  proof (cases c)
    case (Initial_open od)
    then show ?thesis
      using Done initial_open_defined [of nfs True od e r] op_step.initial_open [of I nfs] assms(2) by blast
  qed (use Done assms(1) in \<open>auto intro: op_step.open_create op_step.close_file\<close>)
qed

lemmas dispatch_defs =
  nfs_stat_async_def nfs_stat64_async_def nfs_lstat64_async_def nfs_open2_async_def nfs_open_async_def
  nfs_chdir_async_def nfs_truncate_async_def nfs_mkdir2_async_def nfs_mkdir_async_def nfs_rmdir_async_def
  nfs_creat_async_def nfs_unlink_async_def nfs_mknod_async_def nfs_opendir_async_def nfs_statvfs_async_def
  nfs_statvfs64_async_def nfs_readlink_async_def nfs_chmod_async_def nfs_lchmod_async_def nfs_chown_async_def
  nfs_lchown_async_def nfs_utimes_async_def nfs_lutimes_async_def nfs_utime_async_def nfs_access_async_def
  nfs_access2_async_def nfs_symlink_async_def nfs_rename_async_def nfs_link_async_def nfs_fstat_async_def
  nfs_fstat64_async_def nfs_fsync_async_def nfs_ftruncate_async_def nfs_fchmod_async_def nfs_fchown_async_def
  nfs_close_async_def by_version_def unless_readonly_def

lemmas start_path_defs =
  nfs3_stat_async_def nfs3_stat64_async_def nfs3_open_async_def nfs3_chdir_async_def nfs3_truncate_async_def
  nfs3_mkdir2_async_def nfs3_rmdir_async_def nfs3_creat_async_def nfs3_unlink_async_def nfs3_mknod_async_def
  nfs3_opendir_async_def nfs3_statvfs_async_def nfs3_statvfs64_async_def nfs3_readlink_async_def
  nfs3_chmod_async_internal_def nfs3_chown_async_internal_def nfs3_utimes_async_internal_def
  nfs3_utime_async_def nfs3_access_async_def nfs3_access2_async_def nfs3_symlink_async_def
  nfs3_rename_async_def nfs3_link_async_def

lemmas start_file_defs =
  nfs3_fstat_async_def nfs3_fstat64_async_def nfs3_fsync_async_def nfs3_ftruncate_async_def
  nfs3_fchmod_async_def nfs3_fchown_async_def nfs3_close_async_def

lemma op_start_of: "op_start nfs F user a \<Longrightarrow> op_of user a"
proof (induction rule: op_start.induct)
qed (auto simp: dispatch_defs start_path_defs start_file_defs nfs3_chown_continue_internal_def
       nfs3_chmod_continue_internal_def plain_data_def send3_def
       split: if_splits prod.splits dest!: op_of_lookup_act [OF lookup_act_lookuppath])

text \<open>
  C5. The operations of the NFSv3 client that \<open>op_start\<close> lists end: those on a name (stat,
  open, creat, chdir, truncate, mkdir, rmdir, unlink, mknod, statvfs, readlink, chmod, chown,
  utimes, access, symlink, rename, link and their variants) and fstat, fsync, ftruncate, fchmod,
  fchown and close on an open file. Whatever the server answers, whichever calls fail or cannot be
  queued, and whatever other operations do to the context in between, such an operation makes
  finitely many steps, and at every point either it can go on or it has called back the application
  that started it. For opendir this is said only of the lookup of the directory, at the end of
  which reading it begins; a server that never reports the end of a directory keeps that going.
  Read, write, lseek and getacl and the mount are not among these operations.
\<close>

theorem nfs3_op_ends:
  assumes "op_start nfs F user a" "I nfs"
  shows "(\<exists>i. \<not> op_step I (s i) (s (Suc i)))
    \<and> ((op_step I)\<^sup>*\<^sup>* a b \<longrightarrow>
         (\<exists>c. op_step I b c) \<or> (\<exists>e r. b = Done (User user) e r)
         \<or> (\<exists>d attr i. b = Go_on d attr \<and> cont d = opendir_continue i \<and> cb_user (cb d) = user))"
proof (intro conjI impI)
  show "\<exists>i. \<not> op_step I (s i) (s (Suc i))" by (rule op_steps_finite)
next
  assume "(op_step I)\<^sup>*\<^sup>* a b"
  then have "op_of user b"
    by (induction rule: rtranclp_induct) (auto intro: op_step_of op_start_of [OF assms(1)])
  then show "(\<exists>c. op_step I b c) \<or> (\<exists>e r. b = Done (User user) e r)
         \<or> (\<exists>d attr i. b = Go_on d attr \<and> cont d = opendir_continue i \<and> cb_user (cb d) = user)"
    using op_progress [of user b I nfs] assms(2) by auto
qed

text \<open>A symbolic link \<open>x\<close> is to be made in the root directory of a read-only mount.\<close>

definition readonly_nfs :: "unit nfs_context" where
  "readonly_nfs = sample_nfs\<lparr>nfsi := (nfsi sample_nfs)\<lparr>nfsi_readonly := 1, nfsi_rootfh := [1]\<rparr>\<rparr>"

abbreviation link_data :: data3 where
  "link_data \<equiv> plain_data (User 1) (symlink_continue ''t'' ''x'') 0 []"

lemma symlink_started:
  "op_start readonly_nfs F 1 (Task nfs3_lookup_path_getattr (GETATTR3args [1]) link_data)"
proof (rule op_start.start_symlink [of _ True "''t''" "''x''"])
  have n: "nfs_normalize_path ''/.'' = Some (Inr [])" by code_simp
  have p: "split_parent ''x'' = (None, ''x'')" by (simp add: split_parent_simps)
  show "nfs_symlink_async readonly_nfs True ''t'' ''x'' 1 =
      To_v3 (Some (Some (Task nfs3_lookup_path_getattr (GETATTR3args [1]) link_data)))"
    by (simp add: nfs_symlink_async_def by_version_def nfs3_symlink_async_def p nfs3_lookuppath_async_def n
        readonly_nfs_def sample_nfs_def zero_nfsi_def plain_data_def)
qed

theorem nfs3_op_ends_witness:
  "(\<exists>c. op_step (\<lambda>_ :: unit nfs_context. True) (Task nfs3_lookup_path_getattr (GETATTR3args [1]) link_data) c)
   \<and> \<not> (\<forall>i. op_step (\<lambda>_ :: unit nfs_context. True)
         (Task nfs3_lookup_path_getattr (GETATTR3args [1]) link_data)
         (Task nfs3_lookup_path_getattr (GETATTR3args [1]) link_data))"
  using nfs3_op_ends [OF symlink_started, of "\<lambda>_. True" "\<lambda>_. Task nfs3_lookup_path_getattr (GETATTR3args [1]) link_data"
      "Task nfs3_lookup_path_getattr (GETATTR3args [1]) link_data"]
  by auto

section \<open>Read-only mounts\<close>

abbreviation writes :: u64 where
  "writes \<equiv> O_WRONLY OR O_RDWR OR O_APPEND OR O_CREAT OR O_TRUNC"

lemma low_flags: "x AND 0x643 = take_bit 11 x AND 0x643" for x :: u64
  by (simp add: take_bit_eq_mask mask_eq_exp_minus_1 and.assoc)

lemma take_bit_scast: "take_bit 11 (scast w :: u64) = take_bit 11 (ucast w)" for w :: u32
  by (rule bit_word_eqI) (auto simp: bit_simps min_def)

lemma flags_cast:
  fixes w :: u32
  assumes "w AND ucast (O_WRONLY OR O_RDWR OR O_APPEND OR O_CREAT OR O_TRUNC) = 0"
  shows "(scast w :: u64) AND (O_WRONLY OR O_RDWR OR O_APPEND OR O_CREAT OR O_TRUNC) = 0"
    "(ucast w :: u64) AND (O_WRONLY OR O_RDWR OR O_APPEND OR O_CREAT OR O_TRUNC) = 0"
proof -
  have "w AND 0x643 = 0" using assms by (simp add: o_defs)
  then have "(ucast (w AND 0x643) :: u64) = 0" by simp
  then have "ucast w AND ucast (0x643 :: u32) = (0 :: u64)" by (simp only: unsigned_and_eq)
  then have u: "ucast w AND 0x643 = (0 :: u64)" by simp
  then have "(scast w :: u64) AND 0x643 = 0"
    using low_flags [of "scast w"] low_flags [of "ucast w"] take_bit_scast [of w] by simp
  with u show "(scast w :: u64) AND (O_WRONLY OR O_RDWR OR O_APPEND OR O_CREAT OR O_TRUNC) = 0"
    "(ucast w :: u64) AND (O_WRONLY OR O_RDWR OR O_APPEND OR O_CREAT OR O_TRUNC) = 0"
    by (simp_all add: o_defs)
qed

lemma no_writes:
  "\<not> has fl writes \<Longrightarrow> \<not> has fl O_TRUNC \<and> \<not> has fl O_CREAT \<and> \<not> has fl (O_WRONLY OR O_RDWR)"
  by (simp add: bit.conj_disj_distrib or_eq_0_iff)

text \<open>What an operation on a read-only mount is doing, at every point.\<close>

fun ro_cb :: "cb3 \<Rightarrow> bool" where
  "ro_cb (Initial_open od) \<longleftrightarrow> \<not> has (ucast (op_flags od)) writes"
| "ro_cb (Open_create od) \<longleftrightarrow> False"
| "ro_cb _ \<longleftrightarrow> True"

fun ro_cont :: "cont3 \<Rightarrow> u64 \<Rightarrow> bool" where
  "ro_cont open_continue i \<longleftrightarrow> \<not> has i writes"
| "ro_cont (symlink_continue _ _) i \<longleftrightarrow> True"
| "ro_cont access2_continue i \<longleftrightarrow> True"
| "ro_cont access_continue i \<longleftrightarrow> True"
| "ro_cont readlink_continue i \<longleftrightarrow> True"
| "ro_cont statvfs_continue i \<longleftrightarrow> True"
| "ro_cont (opendir_continue _) i \<longleftrightarrow> True"
| "ro_cont stat_continue i \<longleftrightarrow> True"
| "ro_cont stat64_continue i \<longleftrightarrow> True"
| "ro_cont chdir_continue i \<longleftrightarrow> True"
| "ro_cont _ i \<longleftrightarrow> False"

definition makes_link :: "nfs3_call \<Rightarrow> bool" where
  "makes_link call \<longleftrightarrow> (\<exists>fh name sa target. call = SYMLINK3args fh name sa target)"

fun ro_act :: "act3 \<Rightarrow> bool" where
  "ro_act (Task f call d) \<longleftrightarrow> (modifying call \<longrightarrow> makes_link call) \<and> ro_cb (cb d)
     \<and> (walking f \<longrightarrow> ro_cont (cont d) (continue_int d)) \<and> (f = nfs3_open \<longrightarrow> \<not> has (continue_int d) writes)
     \<and> f \<noteq> nfs3_open_trunc \<and> f \<noteq> nfs3_create_1"
| "ro_act (Done c e r) \<longleftrightarrow> ro_cb c \<and> (\<forall>f. r = Opened f \<longrightarrow> is_readonly f)"
| "ro_act (Go_on d attr) \<longleftrightarrow> ro_cb (cb d) \<and> ro_cont (cont d) (continue_int d)"

lemma ro_lookup_act: "lookup_act c k i a \<Longrightarrow> ro_cb c \<Longrightarrow> ro_cont k i \<Longrightarrow> ro_act a"
  by (cases a) auto

lemma ro_ends: "ends_with c a \<Longrightarrow> ro_cb c \<Longrightarrow> ro_act a"
  by (auto simp: ends_with_def)

lemma ro_open_reply:
  "ro_cb (cb d) \<Longrightarrow> \<not> has (continue_int d) writes \<Longrightarrow> ro_act (snd (nfs3_open_cb nfs q status res d))"
  using no_writes [of "continue_int d"]
  by (auto simp: nfs3_open_cb_def on_reply_def split: option.splits res3.splits)

lemma ro_continue:
  assumes "ro_cb (cb d)"
  shows "ro_act (nfs3_symlink_continue_internal q t no d)"
    "ro_act (nfs3_access2_continue_internal q d)" "ro_act (nfs3_access_continue_internal q d)"
    "ro_act (nfs3_readlink_continue_internal q d)" "ro_act (nfs3_statvfs_continue_internal q d)"
    "ro_act (nfs3_stat_continue_internal q d)" "ro_act (nfs3_stat64_continue_internal q d)"
    "ro_act (snd (nfs3_chdir_continue_internal nfs d))"
    "\<not> has (continue_int d) writes \<Longrightarrow> ro_act (nfs3_open_continue_internal q d)"
  using assms
  by (auto simp: plain_continue_defs nfs3_open_continue_internal_def nfs3_chdir_continue_internal_def send3_def
      Let_def makes_link_def)

lemma ro_initial_open:
  assumes "nfs3_initial_open_cb nfs q od e r = Some b" "ro_act (Done (Initial_open od) e r)"
  shows "ro_act b"
  using initial_open_cases [OF assms(1)] assms(2) no_writes [of "ucast (op_flags od)"] by auto

lemma op_step_ro: "op_step I a b \<Longrightarrow> ro_act a \<Longrightarrow> ro_act b"
proof (induction rule: op_step.induct)
  case (walks nfs a b)
  then show ?case using walk_step_hands_on [OF walks(2)] ro_lookup_act by fastforce
next
  case (initial_open nfs q od e r b)
  then show ?case using ro_initial_open by blast
qed (auto intro: ro_continue ro_open_reply ro_ends replies_end getacl_ends
       simp: nfs3_open_create_cb_def nfs3_close_cb_def)

lemma op_start_ro:
  "op_start nfs F user a \<Longrightarrow> nfsi_readonly (nfsi nfs) \<noteq> 0 \<Longrightarrow> \<forall>f. F f \<longrightarrow> is_readonly f \<Longrightarrow> ro_act a"
proof (induction rule: op_start.induct)
qed (auto simp: dispatch_defs start_path_defs start_file_defs plain_data_def send3_def
       split: if_splits prod.splits dest!: lookup_act_lookuppath intro: flags_cast elim!: ro_lookup_act)

text \<open>
  C9. On a read-only mount nothing is changed, except that symbolic links are made: the functions
  that the application calls refuse every operation that would send another modifying call, at
  any later point of the operation, and a file that was opened on such a mount is marked as
  read-only, so that writing to it is refused as well. The check is missing in
  \<open>nfs_symlink_async\<close>.
\<close>

theorem nfs_readonly_mount:
  assumes "op_start nfs F user a" "nfsi_readonly (nfsi nfs) \<noteq> 0" "\<forall>f. F f \<longrightarrow> is_readonly f" "(op_step I)\<^sup>*\<^sup>* a b"
  shows "(\<forall>g call d. b = Task g call d \<and> modifying call \<longrightarrow> makes_link call)
    \<and> (\<forall>e f. b = Done (User user) e (Opened f) \<longrightarrow>
         nfs_pwrite_async nfs' qs f buf cnt off u = Minus_1 \<and> nfs_write_async nfs' qs f buf cnt u = Minus_1
         \<and> nfs_ftruncate_async nfs' q f len u = Minus_1)"
proof -
  from assms(4) have "ro_act b"
    by (induction rule: rtranclp_induct) (auto intro: op_step_ro op_start_ro [OF assms(1-3)])
  then show ?thesis
    by (auto simp: nfs_pwrite_async_def nfs_write_async_def nfs_ftruncate_async_def)
qed

text \<open>The symbolic link is made.\<close>

theorem nfs_readonly_mount_witness:
  "\<exists>a call d. op_start readonly_nfs (\<lambda>_. False) 1 a \<and> (op_step (\<lambda>_ :: unit nfs_context. True))\<^sup>*\<^sup>* a (Task nfs3_symlink call d)
    \<and> modifying call \<and> makes_link call"
proof -
  let ?a = "Task nfs3_lookup_path_getattr (GETATTR3args [1]) link_data"
  let ?d = "link_data\<lparr>data_fh := [1]\<rparr>"
  let ?call = "SYMLINK3args [1] ''x'' (zero_sattr\<lparr>sa_mode := Some 0x1FF\<rparr>) ''t''"
  let ?I = "\<lambda>_ :: unit nfs_context. True"
  let ?fa = "zero_fattr\<lparr>fa_type := NF3DIR\<rparr>"
  have "nfs3_lookup_path_getattr_cb readonly_nfs True RPC_STATUS_SUCCESS (Ok3 ?fa) link_data =
      Go_on ?d (Some (fattr3_to_nfs_attr ?fa))"
    by (simp add: nfs3_lookup_path_getattr_cb_def nfs3_lookup_path_async_internal_def lookup_component_def
        plain_data_def fattr3_to_nfs_attr_def nf3_defs readonly_nfs_def)
  then have "op_step ?I ?a (Go_on ?d (Some (fattr3_to_nfs_attr ?fa)))"
    using op_step.walks [of ?I readonly_nfs, OF TrueI walk_step.root_attr [of "Ok3 ?fa" _ _ link_data True RPC_STATUS_SUCCESS]]
    by simp
  moreover have "nfs3_symlink_continue_internal True ''t'' ''x'' ?d = Task nfs3_symlink ?call ?d"
    by (simp add: nfs3_symlink_continue_internal_def send3_def)
  then have "op_step ?I (Go_on ?d (Some (fattr3_to_nfs_attr ?fa))) (Task nfs3_symlink ?call ?d)"
    using op_step.symlink_continues [of ?I readonly_nfs ?d "''t''" "''x''" _ True] by (simp add: plain_data_def)
  ultimately have "(op_step ?I)\<^sup>*\<^sup>* ?a (Task nfs3_symlink ?call ?d)" by (meson r_into_rtranclp rtranclp_trans)
  with nfs_readonly_mount [OF symlink_started _ _ this] symlink_started show ?thesis
    by (intro exI [of _ ?a] exI [of _ ?call] exI [of _ ?d]) (auto simp: readonly_nfs_def)
qed

end
