(* ===== verification/Nfs4_Attr.thy ===== *)
theory Nfs4_Attr
  imports Nfs3_Ops Zdr_Codec
begin

text \<open>
  The attributes of a file in NFSv4, \<open>src/lib/nfs_v4.c\<close>: a reply carries them as one list of bytes,
  which \<open>nfs_parse_attributes\<close>, \<open>nfs_parse_statvfs\<close>, \<open>nfs_parse_statvfs64\<close> and \<open>nfs_parse_rwmax\<close> take
  apart with a pointer and a count of the bytes that are left.

  The pointer is the index \<open>pos\<close> into the list, the count \<open>len\<close> is the C \<open>int\<close>. They are separate: a
  read outside the list is \<open>Over_read\<close>, whatever the count says. \<open>getpwnam\<close> is the argument \<open>pw\<close>,
  from a name to the two numbers of its entry.
\<close>

section \<open>Fields\<close>

text \<open>\<open>Short\<close> is the return value \<open>-1\<close>, with what was filled in before.\<close>

datatype 's parsed = Over_read | Short 's | Parsed 's int int

definition nfs_pntoh64 :: "byte list \<Rightarrow> u64" where
  "nfs_pntoh64 bs = push_bit 32 (ucast (de32 (take 4 bs))) OR ucast (de32 (drop 4 bs))"

definition specdata4_to_rdev :: "byte list \<Rightarrow> u64" where
  "specdata4_to_rdev bs = push_bit 32 (ucast (de32 (take 4 bs))) OR ucast (de32 (drop 4 bs))"

text \<open>The value of eight bytes in the order of the host, which is little-endian.\<close>

definition le64 :: "byte list \<Rightarrow> u64" where
  "le64 bs = nfs_pntoh64 (rev bs)"

text \<open>A field of \<open>n\<close> bytes: the count is checked, the bytes are read, pointer and count advance.\<close>

definition take_field :: "byte list \<Rightarrow> nat \<Rightarrow> (byte list \<Rightarrow> 's \<Rightarrow> 's) \<Rightarrow> 's parsed \<Rightarrow> 's parsed" where
  "take_field buf n upd x =
     (case x of
        Parsed st pos len \<Rightarrow>
          if len < int n then Short st
          else (case buf_read buf pos n of
                  None \<Rightarrow> Over_read
                | Some bs \<Rightarrow> Parsed (upd bs st) (pos + int n) (len - int n))
      | _ \<Rightarrow> x)"

section \<open>Owners\<close>

text \<open>
  The loop of \<open>nfs_get_ugid\<close> over what follows the pointer: \<open>None\<close> where it leaves the list or the
  \<open>int\<close> overflows, \<open>Some None\<close> at a character that is not a digit.
\<close>

fun ugid_loop :: "int \<Rightarrow> int \<Rightarrow> byte list \<Rightarrow> int option option" where
  "ugid_loop slen ugid bs =
     (if slen = 0 then Some (Some ugid)
      else case bs of
             [] \<Rightarrow> None
           | b # bs' \<Rightarrow>
               if 48 \<le> b \<and> b \<le> 57 then
                 if ugid * 10 + (uint b - 48) < 2 ^ 31 then ugid_loop (slen - 1) (ugid * 10 + (uint b - 48)) bs'
                 else None
               else Some None)"

declare ugid_loop.simps [simp del]

text \<open>A name is handed to \<open>getpwnam\<close> as a C string: it reaches up to the next NUL.\<close>

definition nfs_get_ugid ::
    "(byte list \<Rightarrow> (u32 \<times> u32) option) \<Rightarrow> byte list \<Rightarrow> int \<Rightarrow> int \<Rightarrow> bool \<Rightarrow> int option" where
  "nfs_get_ugid pw buf pos slen is_user =
     (if pos < 0 then None
      else let bs = drop (nat pos) buf
           in case ugid_loop slen 0 bs of
                None \<Rightarrow> None
              | Some (Some ugid) \<Rightarrow> Some ugid
              | Some None \<Rightarrow>
                  if 0 \<notin> set bs then None
                  else (case pw (takeWhile (\<lambda>b. b \<noteq> 0) bs) of
                          Some (u, g) \<Rightarrow> Some (sint (if is_user then u else g))
                        | None \<Rightarrow> Some 65534))"

text \<open>An owner or a group. The count is lowered by the padding, not by the length of the string.\<close>

definition take_owner ::
    "(byte list \<Rightarrow> (u32 \<times> u32) option) \<Rightarrow> byte list \<Rightarrow> bool \<Rightarrow> (int \<Rightarrow> 's \<Rightarrow> 's) \<Rightarrow> 's parsed \<Rightarrow> 's parsed" where
  "take_owner pw buf is_user upd x =
     (case x of
        Parsed st pos len \<Rightarrow>
          if len < 4 then Short st
          else (case buf_read buf pos 4 of
                  None \<Rightarrow> Over_read
                | Some bs \<Rightarrow>
                    let slen = sint (de32 bs); pad = (4 - slen mod 4) mod 4;
                        pos1 = pos + 4; len1 = len - 4
                    in if len1 < slen then Short st
                       else (case nfs_get_ugid pw buf pos1 slen is_user of
                               None \<Rightarrow> Over_read
                             | Some ugid \<Rightarrow>
                                 let st' = upd ugid st
                                 in if len1 < pad then Short st'
                                    else Parsed st' (pos1 + slen + pad) (len1 - pad)))
      | _ \<Rightarrow> x)"

section \<open>The attributes of a file\<close>

definition zero_stat :: nfs_stat_64 where
  "zero_stat = \<lparr>nfs_dev = 0, nfs_ino = 0, nfs_mode = 0, nfs_nlink = 0, nfs_uid = 0, nfs_gid = 0, nfs_rdev = 0,
     nfs_size = 0, nfs_blksize = 0, nfs_blocks = 0, nfs_atime = 0, nfs_mtime = 0, nfs_ctime = 0,
     nfs_atime_nsec = 0, nfs_mtime_nsec = 0, nfs_ctime_nsec = 0, nfs_used = 0\<rparr>"

text \<open>The numbers of the types are those of NFSv3.\<close>

definition nfs_parse_attributes ::
    "(byte list \<Rightarrow> (u32 \<times> u32) option) \<Rightarrow> byte list \<Rightarrow> int \<Rightarrow> nfs_stat_64 parsed" where
  "nfs_parse_attributes pw buf len =
     (let ftype = de32 (take 4 buf) in
      case fold (\<lambda>f. f)
        [take_field buf 4 (\<lambda>bs st. st),
         take_field buf 8 (\<lambda>bs st. st\<lparr>nfs_size := nfs_pntoh64 bs\<rparr>),
         take_field buf 16 (\<lambda>bs st. st\<lparr>nfs_dev := le64 (take 8 bs) XOR le64 (drop 8 bs)\<rparr>),
         take_field buf 8 (\<lambda>bs st. st\<lparr>nfs_ino := nfs_pntoh64 bs\<rparr>),
         take_field buf 4 (\<lambda>bs st. st\<lparr>nfs_mode := ucast (de32 bs) OR ucast (type_bits ftype)\<rparr>),
         take_field buf 4 (\<lambda>bs st. st\<lparr>nfs_nlink := ucast (de32 bs)\<rparr>),
         take_owner pw buf True (\<lambda>u st. st\<lparr>nfs_uid := word_of_int u\<rparr>),
         take_owner pw buf False (\<lambda>g st. st\<lparr>nfs_gid := word_of_int g\<rparr>),
         take_field buf 8 (\<lambda>bs st. st\<lparr>nfs_rdev := specdata4_to_rdev bs\<rparr>),
         take_field buf 8 (\<lambda>bs st. st\<lparr>nfs_used := nfs_pntoh64 bs\<rparr>),
         take_field buf 12 (\<lambda>bs st. st\<lparr>nfs_atime := nfs_pntoh64 (take 8 bs), nfs_atime_nsec := ucast (de32 (drop 8 bs))\<rparr>),
         take_field buf 12 (\<lambda>bs st. st\<lparr>nfs_ctime := nfs_pntoh64 (take 8 bs), nfs_ctime_nsec := ucast (de32 (drop 8 bs))\<rparr>),
         take_field buf 12 (\<lambda>bs st. st\<lparr>nfs_mtime := nfs_pntoh64 (take 8 bs), nfs_mtime_nsec := ucast (de32 (drop 8 bs))\<rparr>)]
        (Parsed zero_stat 0 len) of
        Parsed st pos len' \<Rightarrow>
          Parsed (st\<lparr>nfs_blksize := NFS_BLKSIZE, nfs_blocks := (nfs_used st + NFS_BLKSIZE - 1) div NFS_BLKSIZE\<rparr>) pos len'
      | x \<Rightarrow> x)"

section \<open>File systems and transfer sizes\<close>

definition zero_statvfs :: nfs_statvfs_64 where
  "zero_statvfs = \<lparr>f_bsize = 0, f_frsize = 0, f_blocks = 0, f_bfree = 0, f_bavail = 0, f_files = 0, f_ffree = 0,
     f_favail = 0, f_fsid = 0, f_flag = 0, f_namemax = 0\<rparr>"

text \<open>
  On a 64-bit Linux the fields of \<open>struct statvfs\<close> have 64 bits, so that both functions do the
  same.
\<close>

definition nfs_parse_statvfs64 :: "byte list \<Rightarrow> int \<Rightarrow> nfs_statvfs_64 parsed" where
  "nfs_parse_statvfs64 buf len =
     fold (\<lambda>f. f)
       [take_field buf 16 (\<lambda>bs st. st\<lparr>f_fsid := nfs_pntoh64 (take 8 bs) OR nfs_pntoh64 (drop 8 bs)\<rparr>),
        take_field buf 8 (\<lambda>bs st. st\<lparr>f_favail := nfs_pntoh64 bs\<rparr>),
        take_field buf 8 (\<lambda>bs st. st\<lparr>f_ffree := nfs_pntoh64 bs\<rparr>),
        take_field buf 8 (\<lambda>bs st. st\<lparr>f_files := nfs_pntoh64 bs\<rparr>),
        take_field buf 4 (\<lambda>bs st. st\<lparr>f_namemax := ucast (de32 bs)\<rparr>),
        take_field buf 8 (\<lambda>bs st. st\<lparr>f_bavail := nfs_pntoh64 bs div NFS_BLKSIZE\<rparr>),
        take_field buf 8 (\<lambda>bs st. st\<lparr>f_bfree := nfs_pntoh64 bs div NFS_BLKSIZE\<rparr>),
        take_field buf 8 (\<lambda>bs st. st\<lparr>f_blocks := nfs_pntoh64 bs div NFS_BLKSIZE\<rparr>)]
       (Parsed (zero_statvfs\<lparr>f_bsize := NFS_BLKSIZE, f_frsize := NFS_BLKSIZE\<rparr>) 0 len)"

definition nfs_parse_statvfs :: "byte list \<Rightarrow> int \<Rightarrow> nfs_statvfs_64 parsed" where
  "nfs_parse_statvfs buf len = nfs_parse_statvfs64 buf len"

definition nfs_parse_rwmax :: "'r nfs_context \<Rightarrow> byte list \<Rightarrow> int \<Rightarrow> 'r nfs_context parsed" where
  "nfs_parse_rwmax nfs buf len =
     fold (\<lambda>f. f)
       [take_field buf 8 (\<lambda>bs nfs. nfs_set_readmax nfs (unat (nfs_pntoh64 bs))),
        take_field buf 8 (\<lambda>bs nfs. nfs_set_writemax nfs (unat (nfs_pntoh64 bs)))]
       (Parsed nfs 0 len)"

section \<open>Well-formed lists\<close>

text \<open>The attributes that the client asks for, and their image on the wire.\<close>

record attr4 =
  a_type :: u32
  a_size :: u64
  a_fsid :: "u64 \<times> u64"
  a_fileid :: u64
  a_mode :: u32
  a_nlink :: u32
  a_owner :: "byte list"
  a_group :: "byte list"
  a_rdev :: "u32 \<times> u32"
  a_used :: u64
  a_atime :: "u64 \<times> u32"
  a_ctime :: "u64 \<times> u32"
  a_mtime :: "u64 \<times> u32"

definition be_time :: "u64 \<times> u32 \<Rightarrow> byte list" where
  "be_time x = be64 (fst x) @ be32 (snd x)"

definition be_pair64 :: "u64 \<times> u64 \<Rightarrow> byte list" where
  "be_pair64 x = be64 (fst x) @ be64 (snd x)"

definition be_pair32 :: "u32 \<times> u32 \<Rightarrow> byte list" where
  "be_pair32 x = be32 (fst x) @ be32 (snd x)"

definition owner_wire :: "byte list \<Rightarrow> byte list" where
  "owner_wire s = be32 (word_of_nat (length s)) @ padded s"

text \<open>Everything but the last field, and the whole list.\<close>

definition attr4_head :: "attr4 \<Rightarrow> byte list" where
  "attr4_head a = be32 (a_type a) @ be64 (a_size a) @ be_pair64 (a_fsid a) @ be64 (a_fileid a)
     @ be32 (a_mode a) @ be32 (a_nlink a) @ owner_wire (a_owner a) @ owner_wire (a_group a)
     @ be_pair32 (a_rdev a) @ be64 (a_used a) @ be_time (a_atime a) @ be_time (a_ctime a)"

definition attr4_wire :: "attr4 \<Rightarrow> byte list" where
  "attr4_wire a = attr4_head a @ be_time (a_mtime a)"

text \<open>The number that a string of digits stands for.\<close>

fun decimal :: "int \<Rightarrow> byte list \<Rightarrow> int" where
  "decimal n [] = n"
| "decimal n (b # bs) = decimal (n * 10 + (uint b - 48)) bs"

definition numeric :: "byte list \<Rightarrow> bool" where
  "numeric s \<longleftrightarrow> (\<forall>b \<in> set s. 48 \<le> b \<and> b \<le> 57) \<and> decimal 0 s < 2 ^ 31 \<and> length s < 2 ^ 31"

lemma length_be_pairs [simp]: "length (be_time x) = 12" "length (be_pair64 y) = 16" "length (be_pair32 z) = 8"
  by (simp_all add: be_time_def be_pair64_def be_pair32_def)

lemma halves [simp]:
  "take 8 (be_time x) = be64 (fst x)" "de32 (drop 8 (be_time x)) = snd x"
  "take 8 (be_pair64 y) = be64 (fst y)" "drop 8 (be_pair64 y) = be64 (snd y)"
  "specdata4_to_rdev (be_pair32 z) = join64 (fst z) (snd z)"
  by (simp_all add: be_time_def be_pair64_def be_pair32_def specdata4_to_rdev_def join64_def)

lemma pntoh64_be64 [simp]: "nfs_pntoh64 (be64 w) = w"
  by (simp add: nfs_pntoh64_def be64_def join64_def [symmetric])

lemma decimal_mono: "0 \<le> n \<Longrightarrow> \<forall>b \<in> set s. 48 \<le> b \<and> b \<le> 57 \<Longrightarrow> n \<le> decimal n s"
proof (induction s arbitrary: n)
  case (Cons b s)
  have "48 \<le> uint b" using Cons.prems(2) by (simp add: word_le_def)
  then have "n \<le> n * 10 + (uint b - 48)" "0 \<le> n * 10 + (uint b - 48)" using Cons.prems(1) by simp_all
  with Cons.IH [of "n * 10 + (uint b - 48)"] Cons.prems(2) show ?case by simp
qed simp

lemma ugid_loop_decimal:
  "0 \<le> n \<Longrightarrow> \<forall>b \<in> set s. 48 \<le> b \<and> b \<le> 57 \<Longrightarrow> decimal n s < 2 ^ 31 \<Longrightarrow>
   ugid_loop (int (length s)) n (s @ rest) = Some (Some (decimal n s))"
proof (induction s arbitrary: n)
  case (Cons b s)
  have "48 \<le> uint b" using Cons.prems(2) by (simp add: word_le_def)
  then have pos: "0 \<le> n * 10 + (uint b - 48)" using Cons.prems(1) by simp
  have "n * 10 + (uint b - 48) \<le> decimal (n * 10 + (uint b - 48)) s"
    using decimal_mono [OF pos] Cons.prems(2) by simp
  with Cons pos show ?case by (subst ugid_loop.simps) simp
qed (subst ugid_loop.simps, simp)

text \<open>\<open>pos\<close> points at \<open>rest\<close>.\<close>

definition points :: "byte list \<Rightarrow> int \<Rightarrow> byte list \<Rightarrow> bool" where
  "points buf pos rest \<longleftrightarrow> 0 \<le> pos \<and> nat pos \<le> length buf \<and> drop (nat pos) buf = rest"

lemma points_start: "points buf 0 buf"
  by (simp add: points_def)

lemma points_skip: "points buf pos (bs @ rest) \<Longrightarrow> points buf (pos + int (length bs)) rest"
  unfolding points_def
  by (metis (no_types, lifting) add.commute add_increasing append_eq_conv_conj drop_drop length_append length_drop
      nat_add_distrib nat_int of_nat_0_le_iff diff_le_self le_add1 le_diff_conv add_le_cancel_right diff_add_inverse2
      le_add_diff_inverse2 nat_le_iff_add)

lemma points_read: "points buf pos (bs @ rest) \<Longrightarrow> buf_read buf pos (length bs) = Some bs"
proof -
  assume p: "points buf pos (bs @ rest)"
  then have "length bs \<le> length (drop (nat pos) buf)" by (simp add: points_def)
  then have "nat pos + length bs \<le> length buf" using p by (simp add: points_def) linarith
  then show ?thesis using p by (simp add: points_def buf_read_def)
qed

lemma take_field_points:
  assumes "points buf pos (bs @ rest)" "length bs = n" "int n \<le> len"
  shows "take_field buf n upd (Parsed st pos len) = Parsed (upd bs st) (pos + int n) (len - int n)"
    "points buf (pos + int n) rest"
  using points_read [OF assms(1)] points_skip [OF assms(1)] assms(2,3) by (auto simp: take_field_def)

lemma pad_bytes: "int (length (padded s)) = int (length s) + (4 - int (length s) mod 4) mod 4"
  by (simp add: padded_def pad4_alt) presburger

lemma take_owner_points:
  assumes "points buf pos (owner_wire s @ rest)" "numeric s" "int (length (owner_wire s @ rest)) \<le> len"
  shows "take_owner pw buf is_user upd (Parsed st pos len) =
      Parsed (upd (decimal 0 s) st) (pos + int (length (owner_wire s))) (len - int (length (owner_wire s)) + int (length s))"
    "points buf (pos + int (length (owner_wire s))) rest"
proof -
  show "points buf (pos + int (length (owner_wire s))) rest" by (rule points_skip [OF assms(1)])
  let ?w = "word_of_nat (length s) :: u32"
  have b: "points buf pos (be32 ?w @ padded s @ rest)" using assms(1) by (simp add: owner_wire_def)
  have slen: "sint ?w = int (length s)"
    using assms(2) by (simp add: numeric_def signed_of_nat signed_take_bit_int_eq_self_iff)
  have p4: "points buf (pos + 4) (s @ replicate (nat (pad4 (int (length s)))) 0 @ rest)"
    using points_skip [OF b] by (simp add: padded_def)
  then have "nfs_get_ugid pw buf (pos + 4) (int (length s)) is_user = Some (decimal 0 s)"
    using ugid_loop_decimal [of 0 s] assms(2) by (simp add: nfs_get_ugid_def points_def numeric_def)
  moreover have "int (length (owner_wire s)) = 4 + int (length s) + (4 - int (length s) mod 4) mod 4"
    using pad_bytes [of s] by (simp add: owner_wire_def)
  moreover have "0 \<le> (4 - int (length s) mod 4) mod 4" by simp
  ultimately show "take_owner pw buf is_user upd (Parsed st pos len) =
      Parsed (upd (decimal 0 s) st) (pos + int (length (owner_wire s))) (len - int (length (owner_wire s)) + int (length s))"
    using points_read [OF b] assms(3) by (simp add: take_owner_def Let_def slen)
qed

text \<open>What the parser has filled in before the last field.\<close>

definition head_stat :: "attr4 \<Rightarrow> nfs_stat_64" where
  "head_stat a = zero_stat\<lparr>nfs_size := a_size a,
     nfs_dev := le64 (be64 (fst (a_fsid a))) XOR le64 (be64 (snd (a_fsid a))), nfs_ino := a_fileid a,
     nfs_mode := ucast (a_mode a) OR ucast (type_bits (a_type a)), nfs_nlink := ucast (a_nlink a),
     nfs_uid := word_of_int (decimal 0 (a_owner a)), nfs_gid := word_of_int (decimal 0 (a_group a)),
     nfs_rdev := join64 (fst (a_rdev a)) (snd (a_rdev a)), nfs_used := a_used a,
     nfs_atime := fst (a_atime a), nfs_atime_nsec := ucast (snd (a_atime a)),
     nfs_ctime := fst (a_ctime a), nfs_ctime_nsec := ucast (snd (a_ctime a))\<rparr>"

definition parse_mtime :: "byte list \<Rightarrow> nfs_stat_64 parsed \<Rightarrow> nfs_stat_64 parsed" where
  "parse_mtime buf = take_field buf 12 (\<lambda>bs st. st\<lparr>nfs_mtime := nfs_pntoh64 (take 8 bs), nfs_mtime_nsec := ucast (de32 (drop 8 bs))\<rparr>)"

text \<open>
  A parser that has filled in \<open>st\<close> and stands before \<open>rest\<close>, with a count that is \<open>k\<close> too large.
\<close>

definition standing :: "byte list \<Rightarrow> 's \<Rightarrow> byte list \<Rightarrow> nat \<Rightarrow> 's parsed \<Rightarrow> bool" where
  "standing buf st rest k x \<longleftrightarrow> (\<exists>pos. x = Parsed st pos (int (length rest + k)) \<and> points buf pos rest)"

lemma standing_field:
  assumes "standing buf st (bs @ rest) k x" "length bs = n"
  shows "standing buf (upd bs st) rest k (take_field buf n upd x)"
proof -
  from assms(1) obtain pos where x: "x = Parsed st pos (int (length (bs @ rest) + k))" and p: "points buf pos (bs @ rest)"
    by (auto simp: standing_def)
  show ?thesis
    using take_field_points(1) [OF p assms(2), where len = "int (length (bs @ rest) + k)" and upd = upd and st = st]
      take_field_points(2) [OF p assms(2), where len = "int (length (bs @ rest) + k)"] assms(2) x
    by (auto simp: standing_def)
qed

lemma standing_owner:
  assumes "standing buf st (owner_wire s @ rest) k x" "numeric s"
  shows "standing buf (upd (decimal 0 s) st) rest (k + length s) (take_owner pw buf is_user upd x)"
proof -
  from assms(1) obtain pos where x: "x = Parsed st pos (int (length (owner_wire s @ rest) + k))"
      and p: "points buf pos (owner_wire s @ rest)"
    by (auto simp: standing_def)
  show ?thesis
    using take_owner_points(1) [OF p assms(2), where len = "int (length (owner_wire s @ rest) + k)" and pw = pw and is_user = is_user
        and upd = upd and st = st]
      take_owner_points(2) [OF p assms(2), where len = "int (length (owner_wire s @ rest) + k)"] x
    by (auto simp: standing_def algebra_simps)
qed

lemma standing_start: "standing buf st buf 0 (Parsed st 0 (int (length buf)))"
  by (simp add: standing_def points_start)

text \<open>The last step of \<open>nfs_parse_attributes\<close>, on the outcome of the fields.\<close>

definition finish_stat :: "nfs_stat_64 parsed \<Rightarrow> nfs_stat_64 parsed" where
  "finish_stat x = (case x of
       Parsed st pos len \<Rightarrow>
         Parsed (st\<lparr>nfs_blksize := NFS_BLKSIZE, nfs_blocks := (nfs_used st + NFS_BLKSIZE - 1) div NFS_BLKSIZE\<rparr>) pos len
     | x \<Rightarrow> x)"

lemma parse_head:
  assumes "buf = attr4_head a @ rest" "numeric (a_owner a)" "numeric (a_group a)"
  obtains x where "standing buf (head_stat a) rest (length (a_owner a) + length (a_group a)) x"
    "nfs_parse_attributes pw buf (int (length buf)) = finish_stat (parse_mtime buf x)"
proof -
  let ?o = "a_owner a" and ?g = "a_group a"
  have ty: "de32 (take 4 buf) = a_type a" by (simp add: assms(1) attr4_head_def)
  have "standing buf zero_stat (be32 (a_type a) @ be64 (a_size a) @ be_pair64 (a_fsid a)
      @ be64 (a_fileid a) @ be32 (a_mode a) @ be32 (a_nlink a) @ owner_wire ?o @ owner_wire ?g
      @ be_pair32 (a_rdev a) @ be64 (a_used a) @ be_time (a_atime a) @ be_time (a_ctime a) @ rest)
      0 (Parsed zero_stat 0 (int (length buf)))"
    using standing_start [of buf zero_stat] by (simp add: assms(1) attr4_head_def)
  note s1 = standing_field [OF this, where n = 4 and upd = "\<lambda>bs st. st", simplified]
  note s2 = standing_field [OF s1, where n = 8 and upd = "\<lambda>bs st. st\<lparr>nfs_size := nfs_pntoh64 bs\<rparr>", simplified]
  note s3 = standing_field [OF s2, where n = 16 and upd = "\<lambda>bs st. st\<lparr>nfs_dev := le64 (take 8 bs) XOR le64 (drop 8 bs)\<rparr>", simplified]
  note s4 = standing_field [OF s3, where n = 8 and upd = "\<lambda>bs st. st\<lparr>nfs_ino := nfs_pntoh64 bs\<rparr>", simplified]
  note s5 = standing_field [OF s4, where n = 4 and upd = "\<lambda>bs st. st\<lparr>nfs_mode := ucast (de32 bs) OR ucast (type_bits (a_type a))\<rparr>", simplified]
  note s6 = standing_field [OF s5, where n = 4 and upd = "\<lambda>bs st. st\<lparr>nfs_nlink := ucast (de32 bs)\<rparr>", simplified]
  note s7 = standing_owner [OF s6 assms(2), where pw = pw and is_user = True and upd = "\<lambda>u st. st\<lparr>nfs_uid := word_of_int u\<rparr>", simplified]
  note s8 = standing_owner [OF s7 assms(3), where pw = pw and is_user = False and upd = "\<lambda>g st. st\<lparr>nfs_gid := word_of_int g\<rparr>", simplified]
  note s9 = standing_field [OF s8, where n = 8 and upd = "\<lambda>bs st. st\<lparr>nfs_rdev := specdata4_to_rdev bs\<rparr>", simplified]
  note s10 = standing_field [OF s9, where n = 8 and upd = "\<lambda>bs st. st\<lparr>nfs_used := nfs_pntoh64 bs\<rparr>", simplified]
  note s11 = standing_field [OF s10, where n = 12 and upd = "\<lambda>bs st. st\<lparr>nfs_atime := nfs_pntoh64 (take 8 bs), nfs_atime_nsec := ucast (de32 (drop 8 bs))\<rparr>", simplified]
  note s12 = standing_field [OF s11, where n = 12 and upd = "\<lambda>bs st. st\<lparr>nfs_ctime := nfs_pntoh64 (take 8 bs), nfs_ctime_nsec := ucast (de32 (drop 8 bs))\<rparr>", simplified]
  show thesis
    by (rule that [OF s12 [folded head_stat_def]]) (simp add: nfs_parse_attributes_def finish_stat_def parse_mtime_def ty)
qed

lemma points_short: "points buf pos rest \<Longrightarrow> length rest < n \<Longrightarrow> buf_read buf pos n = None"
  by (auto simp: points_def buf_read_def)

text \<open>
  What a server encodes is what the caller sees: from the attributes that the client asks for, in the order of
  the protocol and with owners that are written as numbers, \<open>nfs_parse_attributes\<close> gives back every
  field, with the type in the upper bits of the mode, and stands at the end of the list.
\<close>

theorem nfs4_attributes_round_trip:
  assumes "numeric (a_owner a)" "numeric (a_group a)"
  shows "\<exists>len'. nfs_parse_attributes pw (attr4_wire a) (int (length (attr4_wire a))) =
    Parsed ((head_stat a)\<lparr>nfs_mtime := fst (a_mtime a), nfs_mtime_nsec := ucast (snd (a_mtime a)),
        nfs_blksize := NFS_BLKSIZE, nfs_blocks := (a_used a + NFS_BLKSIZE - 1) div NFS_BLKSIZE\<rparr>)
      (int (length (attr4_wire a))) len'"
proof -
  obtain x where x: "standing (attr4_wire a) (head_stat a) (be_time (a_mtime a) @ []) (length (a_owner a) + length (a_group a)) x"
      "nfs_parse_attributes pw (attr4_wire a) (int (length (attr4_wire a))) = finish_stat (parse_mtime (attr4_wire a) x)"
    using parse_head [OF _ assms, of "attr4_wire a" "be_time (a_mtime a)"] by (auto simp: attr4_wire_def)
  let ?upd = "\<lambda>bs st. st\<lparr>nfs_mtime := nfs_pntoh64 (take 8 bs), nfs_mtime_nsec := ucast (de32 (drop 8 bs))\<rparr> :: nfs_stat_64"
  have "standing (attr4_wire a) (?upd (be_time (a_mtime a)) (head_stat a)) [] (length (a_owner a) + length (a_group a))
      (parse_mtime (attr4_wire a) x)"
    unfolding parse_mtime_def by (rule standing_field [OF x(1)]) simp
  then show ?thesis by (auto simp: x(2) standing_def points_def finish_stat_def head_stat_def)
qed

text \<open>
  The count of the bytes that are left is never lowered by an owner or a group. A reply that was cut
  within its last twelve bytes, by no more than the length of the two names, is not refused: the parser
  reads behind the end of the list.
\<close>

theorem nfs4_attributes_over_read:
  assumes "numeric (a_owner a)" "numeric (a_group a)" "0 < k" "k \<le> 12" "k \<le> length (a_owner a) + length (a_group a)"
  shows "let buf = take (length (attr4_wire a) - k) (attr4_wire a)
    in nfs_parse_attributes pw buf (int (length buf)) = Over_read"
proof -
  let ?buf = "attr4_head a @ take (12 - k) (be_time (a_mtime a))"
  have buf: "take (length (attr4_wire a) - k) (attr4_wire a) = ?buf" using assms(4) by (simp add: attr4_wire_def)
  obtain x where x: "standing ?buf (head_stat a) (take (12 - k) (be_time (a_mtime a))) (length (a_owner a) + length (a_group a)) x"
      "nfs_parse_attributes pw ?buf (int (length ?buf)) = finish_stat (parse_mtime ?buf x)"
    using parse_head [OF refl assms(1,2)] by blast
  from x(1) obtain pos where pos: "x = Parsed (head_stat a) pos (int (12 - k + (length (a_owner a) + length (a_group a))))"
      "points ?buf pos (take (12 - k) (be_time (a_mtime a)))"
    by (auto simp: standing_def)
  have "buf_read ?buf pos 12 = None" using points_short [OF pos(2)] assms(3) by simp
  then show ?thesis
    unfolding buf Let_def x(2) parse_mtime_def finish_stat_def pos(1) take_field_def
    using assms(3-5) by simp
qed

end
