(* ===== verification/Spec2Isabelle.thy ===== *)
theory Spec2Isabelle
  imports Prelude Zdr Zdr_Codec Rpc_Msg Pdu_Queue Iovec Rpc_Context Socket_Out Rpc_Process Socket_In Socket_Ctl Rpc_System Path
    Nfs_Context Url Nfs3_Base Nfs3_Lookup Nfs3_Resolve Nfs3_Ops Nfs3_File Fan_In Nfs3_Dir Rpc_Connect Nfs3_Mount Nfs_Dispatch
    Nfs3_System Nfs4_Attr
begin

text \<open>
  libnfs is a client library for NFS without threads of its own: an application starts an
  operation, polls the socket of the context, and hands the events to the library, which calls
  the application back when the operation is done. This development models the library from the
  bytes on the wire up to the functions that the application calls, and proves what makes them
  correct. It follows the default build of the C code: no Kerberos, no TLS, no multithreading,
  a little-endian 64-bit Linux.

  \<^bold>\<open>The parts of the program and their theories.\<close> Files are below \<open>src/\<close>.

  \<^item> \<open>Prelude\<close>: the C types, the conversion to \<open>int\<close>, memory objects with bounds, big-endian words and
    alignment, with the rewriting rules that the other theories use.
  \<^item> \<open>Zdr\<close>, \<open>Zdr_Codec\<close> (\<open>lib/libnfs-zdr.c\<close>): the marshalling layer. \<open>Zdr\<close> has the stream and the
    primitives and combinators; \<open>Zdr_Codec\<close> states the contract of a marshalling function as the
    locales \<open>zdr_codec\<close> and \<open>zdr_codec_checked\<close>, interprets them on the primitives and proves the
    round trips.
  \<^item> \<open>Rpc_Msg\<close> (\<open>lib/libnfs-zdr.c\<close>): call and reply messages and credentials, as codecs.
  \<^item> \<open>Pdu_Queue\<close> (\<open>lib/pdu.c\<close>): the linked queues of requests on a heap of \<open>next\<close> pointers, refined to
    lists through the locale \<open>pdu_queue\<close>. The other theories use lists.
  \<^item> \<open>Iovec\<close> (\<open>lib/init.c\<close>): output vectors, and the cursor through which a reply is received into the
    buffers of the application, with the locale \<open>byte_sink\<close>.
  \<^item> \<open>Rpc_Context\<close> (\<open>lib/init.c\<close>, \<open>lib/pdu.c\<close>): the RPC context, its requests with their timers and the
    buckets of waiting requests, lookup by xid, cancellation and purging.
  \<^item> \<open>Socket_Out\<close>, \<open>Socket_In\<close>, \<open>Socket_Ctl\<close> (\<open>lib/socket.c\<close>) and \<open>Rpc_Process\<close> (\<open>lib/pdu.c\<close>): sending,
    receiving, connecting and timing out, and what a complete message does on a client and on a
    server.
  \<^item> \<open>Rpc_System\<close>: these composed. A client connects, queues requests, writes, reads, scans for timeouts
    and reconnects in any order (\<open>rpc_step\<close>); the ledger of its callbacks is the subject of the main
    theorem.
  \<^item> \<open>Path\<close>, \<open>Url\<close>, \<open>Nfs_Context\<close> (\<open>lib/libnfs.c\<close>): normalisation of paths, URLs, the parameters of a
    context and the cache of directory listings, with the locale \<open>listing_store\<close>.
  \<^item> \<open>Rpc_Connect\<close> (\<open>lib/libnfs.c\<close>): the chain of callbacks that finds the port of a program and
    connects to it.
  \<^item> \<open>Nfs3_Base\<close>, \<open>Nfs3_Lookup\<close>, \<open>Nfs3_Resolve\<close>, \<open>Nfs3_Ops\<close>, \<open>Nfs3_File\<close>, \<open>Nfs3_Dir\<close>, \<open>Nfs3_Mount\<close>
    (\<open>lib/nfs_v3.c\<close>): the NFSv3 client. \<open>Nfs3_Base\<close> has the calls of the protocol and the data of an
    operation under way, \<open>Nfs3_Lookup\<close> the lookup of a path component by component, \<open>Nfs3_Resolve\<close>
    what it finds on a server, the others the operations. \<open>Fan_In\<close> is the pattern of many calls with
    one completion, a locale that is interpreted for the attributes of a listing and for nested
    exports.
  \<^item> \<open>Nfs_Dispatch\<close> (\<open>lib/libnfs.c\<close>): the functions the application calls, with the checks for
    read-only mounts and the choice of the version; \<open>Nfs3_System\<close>: an operation from that call to its
    callback, as a step relation.
  \<^item> \<open>Nfs4_Attr\<close> (\<open>lib/nfs_v4.c\<close>): of the NFSv4 client, the parsers of the attributes in a reply.

  \<^bold>\<open>Conventions.\<close>

  \<^item> A function of the source is a definition of the same name (a trailing \<open>_internal\<close> where the
    source has a leading underscore), with the state it changes as argument and result. A struct is
    a record, an enum a datatype or a constant, a \<open>uint32_t\<close> or \<open>uint64_t\<close> a word, an \<open>int\<close> a HOL
    integer whose wrap-around is written out, a \<open>size_t\<close> a natural number, a C string the list of its
    characters.
  \<^item> Undefined behaviour, a failing \<open>assert\<close> and a call through a NULL pointer are \<open>None\<close> (\<open>Undef\<close> in
    \<open>Zdr\<close>); a return value that reports an error is a value of the model. That a function does not
    return \<open>None\<close> is therefore a safety statement; \<open>Rpc_System\<close> and \<open>Nfs3_Resolve\<close> make it for the runs
    they describe.
  \<^item> What the operating system and the server answer are arguments, over which the theorems quantify:
    the results of \<open>writev\<close> and \<open>recv\<close>, the clock, the outcomes of connecting, every reply and every
    failure. A bool \<open>q\<close> says whether a call could be queued. Allocations succeed, except where the
    outcome is an argument.
  \<^item> A callback of the application is recorded; it does not call back into the library at once.
  \<^item> Code generated from the protocol descriptions is a parameter: the decoder of a reply is any
    function that keeps the contract \<open>zdr_codec\<close>.
  \<^item> The texts of error messages are not modelled.

  \<^bold>\<open>What is proved.\<close>

  \<^item> \<^emph>\<open>Requests\<close> (\<open>Rpc_System\<close>, \<open>Socket_Ctl\<close>). In every run of \<open>rpc_step\<close> each accepted request is called
    back at most once, it is either still queued or called back, and after the context is destroyed,
    disconnected or cut off exactly once; writing, scanning, queueing and reading a reply are
    defined in such a run. The runs have no zero-copy READ, no WRITE with vectors of its own, no
    malformed reply and no record that stays half read between two operations; what the code does
    with some of these is stated separately in \<open>Socket_In\<close> and \<open>Socket_Ctl\<close>. Timeouts and reconnection
    account for every request.
  \<^item> \<^emph>\<open>Bytes\<close> (\<open>Socket_Out\<close>, \<open>Socket_In\<close>, \<open>Rpc_Context\<close>, \<open>Rpc_Process\<close>, \<open>Rpc_Msg\<close>, \<open>Zdr_Codec\<close>). What goes
    out is the concatenation of the records of the requests, whatever the socket takes at a time;
    what comes in is, as long as no zero-copy READ is among the requests, the same for every
    division into reads and is delivered to the request with its xid; messages and strings survive encoding and decoding.
  \<^item> \<^emph>\<open>Files\<close> (\<open>Nfs3_Resolve\<close>, \<open>Nfs3_File\<close>, \<open>Nfs3_Dir\<close>). A lookup finds the file that resolving the path in
    the tree of the server gives, symbolic links included, and ends on every server; reading (of
    less than \<open>2^31\<close> bytes) and writing transfer the right bytes and seeking goes to the right place;
    a listing has every
    entry once and calls back once, and the cache is used exactly while it is valid.
  \<^item> \<^emph>\<open>Operations\<close> (\<open>Nfs3_System\<close>, \<open>Rpc_Connect\<close>). Every operation on a name, and those on an open file
    other than reading, writing, seeking and the access control list, end in the callback of the
    application that started them, connecting too (for a listing this is said of the lookup of the
    directory); a read-only mount stays unchanged except for symbolic links.
  \<^item> \<^emph>\<open>Strings, queues and parameters\<close> (\<open>Path\<close>, \<open>Url\<close>, \<open>Pdu_Queue\<close>, \<open>Nfs_Context\<close>, \<open>Nfs3_Mount\<close>,
    \<open>Nfs3_Ops\<close>). The string loops of path normalisation compute the resolution of the components; an
    escaped URL is parsed back; the pointer code of the queues refines lists; every listing has one
    owner; the transfer sizes stay within their limits; of the nested exports exactly the granted
    ones are recorded, and it is stated when the mount fails; the mode of a file has the bits of its
    type.
  \<^item> \<^emph>\<open>NFSv4 attributes\<close> (\<open>Nfs4_Attr\<close>). A well-formed list is parsed back field by field; a list that is
    cut within its last field can be read beyond its end.
  \<^item> \<^emph>\<open>Behaviour that the code does not mean to have\<close> is stated as it is, next to the component it
    belongs to: records that are cut by a timeout, a request that is forgotten when the connection
    breaks, lengths that wrap, replies that are sent twice, reads that do not move the file position, links that drop the rest of a path,
    names in the root directory that are taken for names in the current one, error numbers that
    are translated twice, and a mount that never returns.

  \<^bold>\<open>Bounds and fuel.\<close> The loops of the source are recursive functions with a termination proof, or
  partial functions where the source may loop forever (\<open>find_prev\<close> on a cyclic list,
  \<open>pwrite_loop\<close>, \<open>nested_calls\<close>). The functions that let a server answer a whole operation
  (\<open>read_run\<close>, \<open>write_run\<close>, \<open>fetch\<close>) have fuel, one unit per call, and the theorems show how much is
  enough: the number of chunks, of bytes or of entries plus one. Streams are at most one gigabyte
  in the contracts of \<open>Zdr_Codec\<close>, far above the largest message.

  \<^bold>\<open>Not modelled.\<close> The NFSv4 client (\<open>lib/nfs_v4.c\<close>) except for \<open>Nfs4_Attr\<close>; its functions appear in
  \<open>Nfs_Dispatch\<close> as recorded calls; the synchronous interface (\<open>lib/libnfs-sync.c\<close>), which starts an operation and
  polls until its callback has run; the generated codecs and the stubs that fill in a request per
  procedure; Kerberos, TLS and multithreading, which are not part of the default build and
  mostly call other libraries; the example servers and the command line programs.
\<close>

end
